(* ===== verification/Prelude.thy ===== *)
theory Prelude
  imports Complex_Main "HOL-Library.List_Lexorder" "HOL-Library.Char_ord"
    "HOL-Library.Product_Lexorder" "HOL-Library.Multiset"
begin

text \<open>
  What every component shares: Python exceptions as values (\<open>pyexn\<close>, \<open>'a res\<close>),
  Python dictionaries as insertion-ordered association lists (\<open>dget\<close>, \<open>dset\<close>,
  \<open>ddel\<close>), \<open>max(xs, key=...)\<close> with Python's tie rule, and facts on lists and on the
  lexicographic order of strings. Nothing here models code of the repository; it is the
  part of the language and its standard library that the code uses.
\<close>

section \<open>Exceptions as values\<close>

datatype pyexn =
    TypeError | ValueError | KeyError | AttributeError | LookupError | IndexError
  | ChainConflictError | TruncatedChainFileError | BundleIntegrityError
  | AsOfViewWriteError | NoProviderAvailable string | RaisedBy string

type_synonym 'a res = "pyexn + 'a"

text \<open>Sequencing: an exception skips the rest of the function.\<close>

fun rbind :: "'a res \<Rightarrow> ('a \<Rightarrow> 'b res) \<Rightarrow> 'b res" where
  "rbind (Inl e) f = Inl e"
| "rbind (Inr x) f = f x"

lemma rbind_Inr_iff: "rbind m f = Inr y \<longleftrightarrow> (\<exists>x. m = Inr x \<and> f x = Inr y)"
  by (cases m) auto

lemma rbind_Inl_iff: "rbind m f = Inl e \<longleftrightarrow> m = Inl e \<or> (\<exists>x. m = Inr x \<and> f x = Inl e)"
  by (cases m) auto

lemma rbind_assoc [simp]: "rbind (rbind m f) g = rbind m (\<lambda>x. rbind (f x) g)"
  by (cases m) auto

lemma rbind_Inr_right [simp]: "rbind m Inr = m"
  by (cases m) auto

text \<open>A list comprehension whose element expression may raise.\<close>

fun rmap :: "('a \<Rightarrow> 'b res) \<Rightarrow> 'a list \<Rightarrow> 'b list res" where
  "rmap f [] = Inr []"
| "rmap f (x # xs) = rbind (f x) (\<lambda>y. rbind (rmap f xs) (\<lambda>ys. Inr (y # ys)))"

lemma rmap_pure: "(\<And>x. x \<in> set xs \<Longrightarrow> f x = Inr (g x)) \<Longrightarrow> rmap f xs = Inr (map g xs)"
  by (induction xs) auto

lemma rmap_length: "rmap f xs = Inr ys \<Longrightarrow> length ys = length xs"
  by (induction xs arbitrary: ys) (auto simp: rbind_Inr_iff)

text \<open>A filter loop whose test may raise, and the pure filter it is when it does not.\<close>

fun rfilter :: "('a \<Rightarrow> bool res) \<Rightarrow> 'a list \<Rightarrow> 'a list res" where
  "rfilter p [] = Inr []"
| "rfilter p (x # xs) =
     rbind (p x) (\<lambda>b. rbind (rfilter p xs) (\<lambda>ys. Inr (if b then x # ys else ys)))"

lemma rfilter_pure:
  "(\<And>x. x \<in> set xs \<Longrightarrow> p x = Inr (q x)) \<Longrightarrow> rfilter p xs = Inr (filter q xs)"
  by (induction xs) auto

section \<open>Dictionaries\<close>

text \<open>
  A Python \<open>dict\<close> keeps the order in which keys were first inserted; assigning to a present
  key keeps its position, deleting and inserting again moves it to the end.
\<close>

type_synonym ('k, 'v) dict = "('k \<times> 'v) list"

abbreviation dget :: "('k, 'v) dict \<Rightarrow> 'k \<Rightarrow> 'v option" where
  "dget d k \<equiv> map_of d k"

fun dset :: "('k, 'v) dict \<Rightarrow> 'k \<Rightarrow> 'v \<Rightarrow> ('k, 'v) dict" where
  "dset [] k v = [(k, v)]"
| "dset ((k', v') # d) k v = (if k' = k then (k, v) # d else (k', v') # dset d k v)"

definition ddel :: "('k, 'v) dict \<Rightarrow> 'k \<Rightarrow> ('k, 'v) dict" where
  "ddel d k = filter (\<lambda>kv. fst kv \<noteq> k) d"

abbreviation dkeys :: "('k, 'v) dict \<Rightarrow> 'k list" where
  "dkeys d \<equiv> map fst d"

text \<open>\<open>{**d, **e}\<close> and \<open>d.update(e)\<close>.\<close>

definition dmerge :: "('k, 'v) dict \<Rightarrow> ('k, 'v) dict \<Rightarrow> ('k, 'v) dict" where
  "dmerge d e = foldl (\<lambda>acc kv. dset acc (fst kv) (snd kv)) d e"

definition dget_or :: "('k, 'v) dict \<Rightarrow> 'k \<Rightarrow> 'v \<Rightarrow> 'v" where
  "dget_or d k v = (case dget d k of None \<Rightarrow> v | Some x \<Rightarrow> x)"

lemma dget_dset [simp]: "dget (dset d k v) k' = (if k' = k then Some v else dget d k')"
  by (induction d k v rule: dset.induct) auto

lemma dget_ddel [simp]: "dget (ddel d k) k' = (if k' = k then None else dget d k')"
  by (induction d) (auto simp: ddel_def)

lemma dget_or_dset [simp]: "dget_or (dset d k v) k' x = (if k' = k then v else dget_or d k' x)"
  by (simp add: dget_or_def)

lemma dset_items: "kv \<in> set (dset d k v) \<Longrightarrow> kv = (k, v) \<or> kv \<in> set d"
  by (induction d k v rule: dset.induct) (auto split: if_splits)

lemma dget_or_absent: "k \<notin> set (dkeys d) \<Longrightarrow> dget_or d k x = x"
  by (metis dget_or_def map_of_eq_None_iff option.case(1) set_map)

lemma dget_map_prod: "dget (map (map_prod id f) d) k = map_option f (dget d k)"
  by (induction d) auto

lemma set_dkeys_dset [simp]: "fst ` set (dset d k v) = insert k (fst ` set d)"
  by (induction d k v rule: dset.induct) auto

lemma distinct_dset [simp]: "distinct (dkeys d) \<Longrightarrow> distinct (dkeys (dset d k v))"
  by (induction d k v rule: dset.induct) auto

lemma distinct_ddel [simp]: "distinct (dkeys d) \<Longrightarrow> distinct (dkeys (ddel d k))"
  by (induction d) (auto simp: ddel_def)

lemma set_ddel [simp]: "fst ` set (ddel d k) = fst ` set d - {k}"
  by (auto simp: ddel_def)

lemma dkeys_dset: "dkeys (dset d k v) = (if k \<in> set (dkeys d) then dkeys d else dkeys d @ [k])"
  by (induction d k v rule: dset.induct) auto

lemma length_dset: "length (dset d k v) = (if k \<in> set (dkeys d) then length d else Suc (length d))"
  by (induction d k v rule: dset.induct) auto

lemma distinct_dmerge [simp]: "distinct (dkeys d) \<Longrightarrow> distinct (dkeys (dmerge d e))"
  by (induction e arbitrary: d) (auto simp: dmerge_def)

lemma dget_dmerge: "distinct (dkeys e) \<Longrightarrow>
  dget (dmerge d e) k = (case dget e k of None \<Rightarrow> dget d k | Some v \<Rightarrow> Some v)"
proof (induction e arbitrary: d)
  case Nil
  then show ?case by (simp add: dmerge_def)
next
  case (Cons kv e)
  obtain k0 v0 where kv: "kv = (k0, v0)" by (cases kv)
  from Cons.prems kv have fresh: "dget e k0 = None" and dist: "distinct (dkeys e)"
    by (auto simp: map_of_eq_None_iff)
  have "dget (dmerge d (kv # e)) k = dget (dmerge (dset d k0 v0) e) k"
    by (simp add: dmerge_def kv)
  also have "\<dots> = (case dget e k of None \<Rightarrow> dget (dset d k0 v0) k | Some v \<Rightarrow> Some v)"
    by (rule Cons.IH [OF dist])
  finally show ?case using fresh by (auto simp: kv split: option.splits)
qed

section \<open>Maximum by key\<close>

text \<open>\<open>max(xs, key=f)\<close>: the first element whose key no other key exceeds.\<close>

fun max_by :: "('a \<Rightarrow> 'k::linorder) \<Rightarrow> 'a \<Rightarrow> 'a list \<Rightarrow> 'a" where
  "max_by f m [] = m"
| "max_by f m (x # xs) = max_by f (if f m < f x then x else m) xs"

definition first_max :: "('a \<Rightarrow> 'k::linorder) \<Rightarrow> 'a list \<Rightarrow> 'a option" where
  "first_max f xs = (case xs of [] \<Rightarrow> None | x # ys \<Rightarrow> Some (max_by f x ys))"

lemma max_by_in: "max_by f m xs \<in> insert m (set xs)"
proof (induction xs arbitrary: m)
  case (Cons x xs)
  from Cons.IH [of "if f m < f x then x else m"] show ?case by auto
qed simp

lemma max_by_ge: "f m \<le> f (max_by f m xs) \<and> (\<forall>x\<in>set xs. f x \<le> f (max_by f m xs))"
proof (induction xs arbitrary: m)
  case Nil
  then show ?case by simp
next
  case (Cons x xs)
  from Cons.IH [of "if f m < f x then x else m"] show ?case
    by (auto split: if_splits)
qed

lemma first_max_None [simp]: "first_max f xs = None \<longleftrightarrow> xs = []"
  by (cases xs) (auto simp: first_max_def)

lemma first_max_Nil [simp]: "first_max f [] = None"
  by (simp add: first_max_def)

lemma first_max_in: "first_max f xs = Some r \<Longrightarrow> r \<in> set xs"
  by (cases xs) (use max_by_in in \<open>fastforce simp: first_max_def\<close>)+

lemma first_max_ge: "first_max f xs = Some r \<Longrightarrow> x \<in> set xs \<Longrightarrow> f x \<le> f r"
  by (cases xs) (use max_by_ge in \<open>fastforce simp: first_max_def\<close>)+

lemma max_by_strict:
  "(\<forall>x\<in>set xs. f x < f r) \<Longrightarrow> f m < f r \<Longrightarrow> max_by f m (xs @ [r]) = r"
proof (induction xs arbitrary: m)
  case (Cons x xs)
  then show ?case by (cases "f m < f x") auto
qed simp

lemma first_max_append_winner:
  assumes "\<And>x. x \<in> set xs \<Longrightarrow> f x < f r"
  shows "first_max f (xs @ [r]) = Some r"
  using assms by (cases xs) (auto simp: first_max_def intro: max_by_strict)

section \<open>Lexicographic order of equally long strings\<close>

lemma list_less_same_length:
  fixes xs ys us vs :: "'a::linorder list"
  assumes "length xs = length ys"
  shows "xs @ us < ys @ vs \<longleftrightarrow> xs < ys \<or> (xs = ys \<and> us < vs)"
  using assms by (induction xs ys rule: list_induct2) auto

lemma filter_sort_key: "filter P (sort_key f xs) = sort_key f (filter P xs)"
  by (rule filter_sort)

lemma filter_append_one: "filter P (xs @ [x]) = filter P xs @ (if P x then [x] else [])"
  by simp

end
