(* ===== verification/PyVal.thy ===== *)
theory PyVal
  imports Prelude
begin

text \<open>
  Python values as the code passes them around (\<open>Any\<close> payloads, policy contexts, request
  contexts): \<open>None\<close>, booleans, unbounded integers, floats, strings, lists, dictionaries
  with string keys, and \<open>PObj s\<close>, any other object, known by its \<open>str()\<close> text \<open>s\<close>.
  A finite float is the rational number it denotes (the zero of either sign is \<open>0\<close>);
  the code modelled on these values compares floats and never rounds. Strings are
  restricted to the code points below 256.
\<close>

datatype pyfloat = Fin rat | PosInf | NegInf | NaN

datatype pyval =
    PNone
  | PBool bool
  | PInt int
  | PFloat pyfloat
  | PStr string
  | PList "pyval list"
  | PDict "(string \<times> pyval) list"
  | PObj string

type_synonym pydict = "(string, pyval) dict"

section \<open>Comparison of numbers\<close>

fun fl_lt :: "pyfloat \<Rightarrow> pyfloat \<Rightarrow> bool" where
  "fl_lt NaN _ = False"
| "fl_lt _ NaN = False"
| "fl_lt (Fin a) (Fin b) = (a < b)"
| "fl_lt NegInf b = (b \<noteq> NegInf)"
| "fl_lt _ NegInf = False"
| "fl_lt PosInf _ = False"
| "fl_lt (Fin a) PosInf = True"

definition fl_eq :: "pyfloat \<Rightarrow> pyfloat \<Rightarrow> bool" where
  "fl_eq a b \<longleftrightarrow> a = b \<and> a \<noteq> NaN"

definition fl_le :: "pyfloat \<Rightarrow> pyfloat \<Rightarrow> bool" where
  "fl_le a b \<longleftrightarrow> fl_lt a b \<or> fl_eq a b"

definition fl_min :: "pyfloat \<Rightarrow> pyfloat \<Rightarrow> pyfloat" where
  \<comment> \<open>\<open>min(a, b)\<close>: the first argument unless the second is smaller\<close>
  "fl_min a b = (if fl_lt b a then b else a)"

definition fl_max :: "pyfloat \<Rightarrow> pyfloat \<Rightarrow> pyfloat" where
  "fl_max a b = (if fl_lt a b then b else a)"

lemma fl_lt_irrefl [simp]: "\<not> fl_lt a a"
  by (cases a) auto

lemma fl_lt_trans: "fl_lt a b \<Longrightarrow> fl_lt b c \<Longrightarrow> fl_lt a c"
  by (cases a; cases b; cases c) auto

lemma fl_le_or_lt: "a \<noteq> NaN \<Longrightarrow> b \<noteq> NaN \<Longrightarrow> fl_le a b \<longleftrightarrow> \<not> fl_lt b a"
  by (cases a; cases b) (auto simp: fl_le_def fl_eq_def)

text \<open>Sums and differences, exact.\<close>

fun fl_add :: "pyfloat \<Rightarrow> pyfloat \<Rightarrow> pyfloat" where
  "fl_add (Fin a) (Fin b) = Fin (a + b)"
| "fl_add NaN b = NaN"
| "fl_add a NaN = NaN"
| "fl_add (Fin a) b = b"
| "fl_add a (Fin b) = a"
| "fl_add PosInf PosInf = PosInf"
| "fl_add NegInf NegInf = NegInf"
| "fl_add PosInf NegInf = NaN"
| "fl_add NegInf PosInf = NaN"

fun fl_neg :: "pyfloat \<Rightarrow> pyfloat" where
  "fl_neg (Fin a) = Fin (- a)"
| "fl_neg PosInf = NegInf"
| "fl_neg NegInf = PosInf"
| "fl_neg NaN = NaN"

definition fl_sub :: "pyfloat \<Rightarrow> pyfloat \<Rightarrow> pyfloat" where
  "fl_sub a b = fl_add a (fl_neg b)"

lemma fl_sub_Fin [simp]: "fl_sub (Fin a) (Fin b) = Fin (a - b)"
  by (simp add: fl_sub_def)

lemma fl_le_Fin [simp]: "fl_le (Fin a) (Fin b) \<longleftrightarrow> a \<le> b"
  by (auto simp: fl_le_def fl_eq_def)

fun num_of :: "pyval \<Rightarrow> pyfloat option" where
  "num_of (PBool b) = Some (Fin (if b then 1 else 0))"
| "num_of (PInt i) = Some (Fin (of_int i))"
| "num_of (PFloat f) = Some f"
| "num_of _ = None"

section \<open>Equality, truth, ordering and membership\<close>

text \<open>\<open>==\<close>: numbers by value across \<open>bool\<close>, \<open>int\<close> and \<open>float\<close>; dictionaries
  without regard to order.\<close>

fun py_eq :: "pyval \<Rightarrow> pyval \<Rightarrow> bool"
  and py_eqs :: "pyval list \<Rightarrow> pyval list \<Rightarrow> bool"
  and py_eqd :: "(string \<times> pyval) list \<Rightarrow> (string \<times> pyval) list \<Rightarrow> bool" where
  "py_eq (PList xs) w = (case w of PList ys \<Rightarrow> py_eqs xs ys | _ \<Rightarrow> False)"
| "py_eq (PDict xs) w =
     (case w of PDict ys \<Rightarrow> length xs = length ys \<and> py_eqd xs ys | _ \<Rightarrow> False)"
| "py_eq (PStr s) w = (w = PStr s)"
| "py_eq (PObj s) w = (w = PObj s)"
| "py_eq PNone w = (w = PNone)"
| "py_eq (PBool b) w = (case num_of w of None \<Rightarrow> False | Some g \<Rightarrow> fl_eq (Fin (if b then 1 else 0)) g)"
| "py_eq (PInt i) w = (case num_of w of None \<Rightarrow> False | Some g \<Rightarrow> fl_eq (Fin (of_int i)) g)"
| "py_eq (PFloat f) w = (case num_of w of None \<Rightarrow> False | Some g \<Rightarrow> fl_eq f g)"
| "py_eqs [] ys = (ys = [])"
| "py_eqs (x # xs) ys = (case ys of [] \<Rightarrow> False | y # ys' \<Rightarrow> py_eq x y \<and> py_eqs xs ys')"
| "py_eqd [] ys = True"
| "py_eqd ((k, x) # xs) ys =
     (case map_of ys k of None \<Rightarrow> False | Some y \<Rightarrow> py_eq x y \<and> py_eqd xs ys)"

text \<open>\<open>bool(v)\<close>.\<close>

fun py_truthy :: "pyval \<Rightarrow> bool" where
  "py_truthy PNone = False"
| "py_truthy (PBool b) = b"
| "py_truthy (PInt i) = (i \<noteq> 0)"
| "py_truthy (PFloat f) = (f \<noteq> Fin 0)"
| "py_truthy (PStr s) = (s \<noteq> [])"
| "py_truthy (PList xs) = (xs \<noteq> [])"
| "py_truthy (PDict d) = (d \<noteq> [])"
| "py_truthy (PObj s) = True"

text \<open>\<open><\<close> and \<open><=\<close>: numbers, strings, and lists at their first difference; any
  other pair raises \<open>TypeError\<close>.\<close>

fun py_lt :: "pyval \<Rightarrow> pyval \<Rightarrow> bool res"
  and py_lts :: "pyval list \<Rightarrow> pyval list \<Rightarrow> bool res" where
  "py_lt (PStr s) w = (case w of PStr t \<Rightarrow> Inr (s < t) | _ \<Rightarrow> Inl TypeError)"
| "py_lt (PList xs) w = (case w of PList ys \<Rightarrow> py_lts xs ys | _ \<Rightarrow> Inl TypeError)"
| "py_lt v w = (case (num_of v, num_of w) of
     (Some f, Some g) \<Rightarrow> Inr (fl_lt f g) | _ \<Rightarrow> Inl TypeError)"
| "py_lts [] ys = Inr (ys \<noteq> [])"
| "py_lts (x # xs) ys = (case ys of [] \<Rightarrow> Inr False
     | y # ys' \<Rightarrow> if py_eq x y then py_lts xs ys' else py_lt x y)"

fun py_le :: "pyval \<Rightarrow> pyval \<Rightarrow> bool res"
  and py_les :: "pyval list \<Rightarrow> pyval list \<Rightarrow> bool res" where
  "py_le (PStr s) w = (case w of PStr t \<Rightarrow> Inr (s \<le> t) | _ \<Rightarrow> Inl TypeError)"
| "py_le (PList xs) w = (case w of PList ys \<Rightarrow> py_les xs ys | _ \<Rightarrow> Inl TypeError)"
| "py_le v w = (case (num_of v, num_of w) of
     (Some f, Some g) \<Rightarrow> Inr (fl_le f g) | _ \<Rightarrow> Inl TypeError)"
| "py_les [] ys = Inr True"
| "py_les (x # xs) ys = (case ys of [] \<Rightarrow> Inr False
     | y # ys' \<Rightarrow> if py_eq x y then py_les xs ys' else py_le x y)"

text \<open>\<open>x in c\<close>: list elements by \<open>==\<close>, dictionary keys, substrings.\<close>

fun is_substr :: "string \<Rightarrow> string \<Rightarrow> bool" where
  "is_substr s [] = (s = [])"
| "is_substr s (c # t) = (take (length s) (c # t) = s \<or> is_substr s t)"

fun py_in :: "pyval \<Rightarrow> pyval \<Rightarrow> bool res" where
  "py_in x (PList ys) = Inr (\<exists>y\<in>set ys. py_eq x y)"
| "py_in x (PDict d) = (case x of
     PStr s \<Rightarrow> Inr (s \<in> set (dkeys d))
   | PList _ \<Rightarrow> Inl TypeError | PDict _ \<Rightarrow> Inl TypeError | _ \<Rightarrow> Inr False)"
| "py_in x (PStr t) = (case x of PStr s \<Rightarrow> Inr (is_substr s t) | _ \<Rightarrow> Inl TypeError)"
| "py_in x _ = Inl TypeError"

text \<open>\<open>d.get(k)\<close>: \<open>None\<close> for a missing key.\<close>

definition pget :: "pydict \<Rightarrow> string \<Rightarrow> pyval" where
  "pget d k = dget_or d k PNone"

text \<open>\<open>a or b\<close>.\<close>

definition py_or :: "pyval \<Rightarrow> pyval \<Rightarrow> pyval" where
  "py_or a b = (if py_truthy a then a else b)"

text \<open>\<open>v.get(k, other)\<close> and \<open>v[0]\<close> of any value.\<close>

definition val_get_or :: "pyval \<Rightarrow> string \<Rightarrow> pyval \<Rightarrow> pyval res" where
  "val_get_or v k other = (case v of PDict d \<Rightarrow> Inr (dget_or d k other) | _ \<Rightarrow> Inl AttributeError)"

abbreviation val_get :: "pyval \<Rightarrow> string \<Rightarrow> pyval res" where
  "val_get v k \<equiv> val_get_or v k PNone"

definition first_of :: "pyval \<Rightarrow> pyval res" where
  "first_of v = (case v of PList (x # xs) \<Rightarrow> Inr x | PDict d \<Rightarrow> Inl KeyError | PStr (c # cs) \<Rightarrow> Inr (PStr [c])
     | PList [] \<Rightarrow> Inl IndexError | PStr [] \<Rightarrow> Inl IndexError | _ \<Rightarrow> Inl TypeError)"

fun of_opt_str :: "string option \<Rightarrow> pyval" where
  "of_opt_str None = PNone"
| "of_opt_str (Some s) = PStr s"

text \<open>Truthiness of an \<open>Optional[str]\<close>: \<open>None\<close> and the empty string are false.\<close>

definition str_truthy :: "string option \<Rightarrow> bool" where
  "str_truthy s = (case s of None \<Rightarrow> False | Some t \<Rightarrow> t \<noteq> [])"

text \<open>Decimal digits, and \<open>str()\<close> / \<open>repr()\<close>; \<open>fr\<close> is \<open>float.__repr__\<close> on finite
  floats. A \<open>PObj\<close> carries one text for both.\<close>

definition nat_digit :: "nat \<Rightarrow> char" where
  "nat_digit k = char_of (48 + k)"

fun dec_text :: "nat \<Rightarrow> string" where
  "dec_text n = (if n < 10 then [nat_digit n] else dec_text (n div 10) @ [nat_digit (n mod 10)])"

declare dec_text.simps [simp del]

definition int_text :: "int \<Rightarrow> string" where
  "int_text i = (if i < 0 then CHR ''-'' # dec_text (nat (- i)) else dec_text (nat i))"

definition hex_digit :: "nat \<Rightarrow> char" where
  "hex_digit k = char_of (if k < 10 then 48 + k else 87 + k)"

definition code :: "char \<Rightarrow> nat" where
  "code c = of_char c"

text \<open>\<open>str.strip()\<close> on code points below 256.\<close>

definition is_space :: "char \<Rightarrow> bool" where
  "is_space c = (let n = code c in (9 \<le> n \<and> n \<le> 13) \<or> (28 \<le> n \<and> n \<le> 32) \<or> n = 133 \<or> n = 160)"

definition strip :: "string \<Rightarrow> string" where
  "strip s = rev (dropWhile is_space (rev (dropWhile is_space s)))"

definition repr_char :: "char \<Rightarrow> char \<Rightarrow> string" where
  "repr_char q c = (let n = code c in
     if c = q \<or> n = 92 then [CHR 0x5C, c]
     else if n = 10 then [CHR 0x5C, CHR ''n''] else if n = 13 then [CHR 0x5C, CHR ''r'']
     else if n = 9 then [CHR 0x5C, CHR ''t'']
     else if n < 32 \<or> (127 \<le> n \<and> n \<le> 160) \<or> n = 173
       then [CHR 0x5C, CHR ''x'', hex_digit (n div 16), hex_digit (n mod 16)]
     else [c])"

definition repr_str :: "string \<Rightarrow> string" where
  "repr_str s = (let q = (if CHR 0x27 \<in> set s \<and> CHR 0x22 \<notin> set s then CHR 0x22 else CHR 0x27) in
     q # concat (map (repr_char q) s) @ [q])"

fun comma_join :: "string list \<Rightarrow> string" where
  "comma_join [] = []"
| "comma_join [t] = t"
| "comma_join (t # ts) = t @ '', '' @ comma_join ts"

fun py_repr :: "(rat \<Rightarrow> string) \<Rightarrow> pyval \<Rightarrow> string"
  and py_reprs :: "(rat \<Rightarrow> string) \<Rightarrow> pyval list \<Rightarrow> string list"
  and py_reprd :: "(rat \<Rightarrow> string) \<Rightarrow> (string \<times> pyval) list \<Rightarrow> string list" where
  "py_repr fr PNone = ''None''"
| "py_repr fr (PBool b) = (if b then ''True'' else ''False'')"
| "py_repr fr (PInt i) = int_text i"
| "py_repr fr (PFloat f) = (case f of Fin r \<Rightarrow> fr r | PosInf \<Rightarrow> ''inf'' | NegInf \<Rightarrow> ''-inf'' | NaN \<Rightarrow> ''nan'')"
| "py_repr fr (PStr s) = repr_str s"
| "py_repr fr (PList xs) = ''['' @ comma_join (py_reprs fr xs) @ '']''"
| "py_repr fr (PDict d) = ''{'' @ comma_join (py_reprd fr d) @ ''}''"
| "py_repr fr (PObj s) = s"
| "py_reprs fr [] = []"
| "py_reprs fr (x # xs) = py_repr fr x # py_reprs fr xs"
| "py_reprd fr [] = []"
| "py_reprd fr ((k, x) # d) = (repr_str k @ '': '' @ py_repr fr x) # py_reprd fr d"

definition py_str :: "(rat \<Rightarrow> string) \<Rightarrow> pyval \<Rightarrow> string" where
  "py_str fr v = (case v of PStr s \<Rightarrow> s | _ \<Rightarrow> py_repr fr v)"

lemma py_str_simps [simp]: "py_str fr (PStr s) = s" "py_str fr (PObj s) = s" "py_str fr PNone = ''None''"
  by (simp_all add: py_str_def)

text \<open>Well-formed values: no dictionary has a key twice.\<close>

fun wf_val :: "pyval \<Rightarrow> bool"
  and wf_vals :: "pyval list \<Rightarrow> bool"
  and wf_items :: "(string \<times> pyval) list \<Rightarrow> bool" where
  "wf_val (PList xs) = wf_vals xs"
| "wf_val (PDict d) = (distinct (map fst d) \<and> wf_items d)"
| "wf_val _ = True"
| "wf_vals [] = True"
| "wf_vals (x # xs) = (wf_val x \<and> wf_vals xs)"
| "wf_items [] = True"
| "wf_items ((k, x) # d) = (wf_val x \<and> wf_items d)"

lemma wf_vals_iff: "wf_vals xs \<longleftrightarrow> (\<forall>x\<in>set xs. wf_val x)"
  by (induction xs) auto

lemma wf_items_iff: "wf_items d \<longleftrightarrow> (\<forall>(k, x)\<in>set d. wf_val x)"
  by (induction d rule: list.induct) auto

text \<open>Induction over the values inside a value, with dictionary items as pairs.\<close>

lemma pyval_induct [case_names None Bool Int Float Str List Dict Obj]:
  assumes "P PNone" "\<And>b. P (PBool b)" "\<And>i. P (PInt i)" "\<And>f. P (PFloat f)" "\<And>s. P (PStr s)"
    and "\<And>xs. (\<And>x. x \<in> set xs \<Longrightarrow> P x) \<Longrightarrow> P (PList xs)"
    and "\<And>d. (\<And>k x. (k, x) \<in> set d \<Longrightarrow> P x) \<Longrightarrow> P (PDict d)"
    and "\<And>s. P (PObj s)"
  shows "P v"
  by (induction v) (use assms in \<open>auto simp: snds.simps\<close>)

end
