(* ===== verification/Canonical.thy ===== *)
theory Canonical
  imports PyVal "HOL-Library.Word"
begin

text \<open>
  \<open>integrity/canonical.py\<close>: the two canonical JSON profiles, as \<open>json.dumps\<close> of
  the standard library with the options the code passes, followed by UTF-8 encoding.
  \<open>frepr\<close> is Python's \<open>float.__repr__\<close> on finite floats; the lemmas that need its
  documented behaviour assume \<open>float_repr_ok\<close>. The results: the encoding does
  not depend on the insertion order of keys, and two strictly serializable values have
  the same bytes only if they are equal up to that order.
\<close>

type_synonym bytes = "8 word list"

section \<open>json.dumps\<close>

text \<open>One character of a JSON string; \<open>ensure_ascii\<close> also escapes everything outside
  the printable ASCII range.\<close>

definition esc_tail :: "char \<Rightarrow> string" where
  "esc_tail c =
    (if c = CHR 0x22 \<or> c = CHR 0x5C then [c]
     else if code c = 10 then ''n'' else if code c = 13 then ''r'' else if code c = 9 then ''t''
     else if code c = 12 then ''f'' else if code c = 8 then ''b''
     else ''u00'' @ [hex_digit (code c div 16), hex_digit (code c mod 16)])"

definition plain_char :: "bool \<Rightarrow> char \<Rightarrow> bool" where
  "plain_char ensure_ascii c \<longleftrightarrow> c \<noteq> CHR 0x22 \<and> c \<noteq> CHR 0x5C \<and> 32 \<le> code c
     \<and> (ensure_ascii \<longrightarrow> code c \<le> 126)"

definition esc :: "bool \<Rightarrow> char \<Rightarrow> string" where
  "esc ensure_ascii c = (if plain_char ensure_ascii c then [c] else CHR 0x5C # esc_tail c)"

definition json_str :: "bool \<Rightarrow> string \<Rightarrow> string" where
  "json_str ensure_ascii s = CHR 0x22 # concat (map (esc ensure_ascii) s) @ [CHR 0x22]"

text \<open>Tight separators.\<close>

fun join :: "string list \<Rightarrow> string" where
  "join [] = []"
| "join [t] = t"
| "join (t # ts) = t @ CHR '','' # join ts"

text \<open>The options of a call: \<open>default=str\<close> or no default, \<open>ensure_ascii\<close>, \<open>allow_nan\<close>.
  \<open>sort_keys\<close> is set in every call the canonical profiles make.\<close>

record json_opts =
  default_str :: bool
  ensure_ascii :: bool
  allow_nan :: bool

fun rseq :: "(string \<times> string res) list \<Rightarrow> (string \<times> string) list res" where
  "rseq [] = Inr []"
| "rseq ((k, r) # xs) = rbind r (\<lambda>t. rbind (rseq xs) (\<lambda>ts. Inr ((k, t) # ts)))"


fun enc :: "(rat \<Rightarrow> string) \<Rightarrow> json_opts \<Rightarrow> pyval \<Rightarrow> string res"
  and encs :: "(rat \<Rightarrow> string) \<Rightarrow> json_opts \<Rightarrow> pyval list \<Rightarrow> string list res"
  and encd :: "(rat \<Rightarrow> string) \<Rightarrow> json_opts \<Rightarrow> (string \<times> pyval) list \<Rightarrow> (string \<times> string res) list" where
  "enc fr c PNone = Inr ''null''"
| "enc fr c (PBool b) = Inr (if b then ''true'' else ''false'')"
| "enc fr c (PInt i) = Inr (int_text i)"
| "enc fr c (PFloat (Fin r)) = Inr (fr r)"
| "enc fr c (PFloat NaN) = (if allow_nan c then Inr ''NaN'' else Inl ValueError)"
| "enc fr c (PFloat PosInf) = (if allow_nan c then Inr ''Infinity'' else Inl ValueError)"
| "enc fr c (PFloat NegInf) = (if allow_nan c then Inr ''-Infinity'' else Inl ValueError)"
| "enc fr c (PStr s) = Inr (json_str (ensure_ascii c) s)"
| "enc fr c (PObj s) = (if default_str c then Inr (json_str (ensure_ascii c) s) else Inl TypeError)"
| "enc fr c (PList xs) = rbind (encs fr c xs) (\<lambda>ts. Inr (CHR ''['' # join ts @ '']''))"
| "enc fr c (PDict d) = rbind (rseq (sort_key fst (encd fr c d))) (\<lambda>kts.
     Inr (CHR ''{'' # join (map (\<lambda>(k, t). json_str (ensure_ascii c) k @ CHR '':'' # t) kts) @ ''}''))"
| "encs fr c [] = Inr []"
| "encs fr c (x # xs) = rbind (enc fr c x) (\<lambda>t. rbind (encs fr c xs) (\<lambda>ts. Inr (t # ts)))"
| "encd fr c [] = []"
| "encd fr c ((k, x) # d) = (k, enc fr c x) # encd fr c d"

text \<open>\<open>str.encode("utf-8")\<close> on code points below 256.\<close>

definition utf8_char :: "char \<Rightarrow> bytes" where
  "utf8_char c = (let n = code c in
     if n < 128 then [word_of_nat n]
     else [word_of_nat (192 + n div 64), word_of_nat (128 + n mod 64)])"

definition utf8 :: "string \<Rightarrow> bytes" where
  "utf8 s = concat (map utf8_char s)"

section \<open>The two profiles\<close>

definition canonical_json :: "(rat \<Rightarrow> string) \<Rightarrow> bool \<Rightarrow> pyval \<Rightarrow> bytes res" where
  \<comment> \<open>the second argument: \<open>fallback=str\<close> (the only fallback the code passes) or none\<close>
  "canonical_json fr fallback v = rbind
     (enc fr \<lparr>default_str = fallback, ensure_ascii = False, allow_nan = False\<rparr> v) (\<lambda>t. Inr (utf8 t))"

definition canonical_json_compat :: "(rat \<Rightarrow> string) \<Rightarrow> pyval \<Rightarrow> string res" where
  "canonical_json_compat fr v = enc fr \<lparr>default_str = True, ensure_ascii = True, allow_nan = True\<rparr> v"

text \<open>\<open>sha256_hex\<close>: SHA-256 itself, with its hex rendering, is the parameter \<open>sha\<close>.\<close>

definition sha256_hex :: "(bytes \<Rightarrow> string) \<Rightarrow> bytes \<Rightarrow> string" where
  "sha256_hex sha data = sha data"

section \<open>Values up to key order\<close>

fun canon :: "pyval \<Rightarrow> pyval"
  and canons :: "pyval list \<Rightarrow> pyval list"
  and canond :: "(string \<times> pyval) list \<Rightarrow> (string \<times> pyval) list" where
  "canon (PList xs) = PList (canons xs)"
| "canon (PDict d) = PDict (sort_key fst (canond d))"
| "canon v = v"
| "canons [] = []"
| "canons (x # xs) = canon x # canons xs"
| "canond [] = []"
| "canond ((k, x) # d) = (k, canon x) # canond d"

text \<open>Strictly serializable: no \<open>PObj\<close>, no NaN or infinity, no repeated key.\<close>

fun strict_val :: "pyval \<Rightarrow> bool"
  and strict_vals :: "pyval list \<Rightarrow> bool"
  and strict_items :: "(string \<times> pyval) list \<Rightarrow> bool" where
  "strict_val (PObj s) = False"
| "strict_val (PFloat f) = (case f of Fin r \<Rightarrow> True | _ \<Rightarrow> False)"
| "strict_val (PList xs) = strict_vals xs"
| "strict_val (PDict d) = (distinct (map fst d) \<and> strict_items d)"
| "strict_val _ = True"
| "strict_vals [] = True"
| "strict_vals (x # xs) = (strict_val x \<and> strict_vals xs)"
| "strict_items [] = True"
| "strict_items ((k, x) # d) = (strict_val x \<and> strict_items d)"

lemma canons_map [simp]: "canons xs = map canon xs"
  by (induction xs) auto

lemma canond_map [simp]: "canond d = map (map_prod id canon) d"
  by (induction d rule: list.induct) auto

lemma encd_map [simp]: "encd fr c d = map (map_prod id (enc fr c)) d"
  by (induction d rule: list.induct) auto

lemma strict_vals_iff [simp]: "strict_vals xs \<longleftrightarrow> (\<forall>x\<in>set xs. strict_val x)"
  by (induction xs) auto

lemma strict_items_iff [simp]: "strict_items d \<longleftrightarrow> (\<forall>(k, x)\<in>set d. strict_val x)"
  by (induction d rule: list.induct) auto

lemma encs_rmap [simp]: "encs fr c xs = rmap (enc fr c) xs"
  by (induction xs) auto

lemma sort_key_map_prod: "sort_key fst (map (map_prod id f) d) = map (map_prod id f) (sort_key fst d)"
proof (induction d)
  case (Cons kv d)
  have ins: "insort_key fst (map_prod id f kv) (map (map_prod id f) xs)
      = map (map_prod id f) (insort_key fst kv xs)" for xs
    by (induction xs) auto
  show ?case by (simp only: list.map sort_key_simps ins Cons.IH)
qed simp

lemma canon_dict: "canon (PDict d) = PDict (map (map_prod id canon) (sort_key fst d))"
  by (simp add: sort_key_map_prod)

lemma enc_dict: "enc fr c (PDict d) = rbind (rseq (map (map_prod id (enc fr c)) (sort_key fst d)))
   (\<lambda>kts. Inr (CHR ''{'' # join (map (\<lambda>(k, t). json_str (ensure_ascii c) k @ CHR '':'' # t) kts) @ ''}''))"
  by (simp add: sort_key_map_prod)

section \<open>Reading numbers and strings back\<close>

definition number_char :: "char \<Rightarrow> bool" where
  "number_char c \<longleftrightarrow> 48 \<le> code c \<and> code c \<le> 57 \<or> code c \<in> {43, 45, 46, 101}"

text \<open>What \<open>float.__repr__\<close> documents: distinct finite floats print differently, with
  digits, signs, a point and an exponent only, and never as an integer would.\<close>

definition float_repr_ok :: "(rat \<Rightarrow> string) \<Rightarrow> bool" where
  "float_repr_ok fr \<longleftrightarrow> inj fr \<and> (\<forall>r. (\<forall>c\<in>set (fr r). number_char c) \<and>
     (\<exists>c\<in>set (fr r). code c = 46 \<or> code c = 101))"

definition delim :: "string \<Rightarrow> bool" where
  "delim r \<longleftrightarrow> (r = [] \<or> hd r \<in> {CHR '','', CHR '']'', CHR ''}''})"

lemma code_inj: "code c = code d \<longleftrightarrow> c = d"
  by (simp add: code_def)

lemma code_less: "code c < 256"
  by (simp add: code_def)

lemma code_nat_digit [simp]: "k < 10 \<Longrightarrow> code (nat_digit k) = 48 + k"
  by (simp add: code_def nat_digit_def)

lemma dec_digits: "c \<in> set (dec_text n) \<Longrightarrow> 48 \<le> code c \<and> code c \<le> 57"
proof (induction n rule: dec_text.induct)
  case (1 n)
  then show ?case by (subst (asm) dec_text.simps) (auto split: if_splits)
qed

lemma dec_nonempty [simp]: "dec_text n \<noteq> []"
  by (subst dec_text.simps) simp

definition read_dec :: "string \<Rightarrow> nat" where
  "read_dec s = foldl (\<lambda>a c. 10 * a + (code c - 48)) 0 s"

lemma read_dec_dec [simp]: "read_dec (dec_text n) = n"
proof (induction n rule: dec_text.induct)
  case (1 n)
  show ?case
  proof (cases "n < 10")
    case True
    then show ?thesis by (subst dec_text.simps) (simp add: read_dec_def)
  next
    case False
    with 1 have "read_dec (dec_text (n div 10)) = n div 10" by blast
    with False show ?thesis by (subst dec_text.simps) (simp add: read_dec_def)
  qed
qed

lemma dec_inj: "dec_text m = dec_text n \<longleftrightarrow> m = n"
  by (metis read_dec_dec)

lemma int_text_number: "c \<in> set (int_text i) \<Longrightarrow> number_char c \<and> code c \<noteq> 46 \<and> code c \<noteq> 101"
  by (auto simp: int_text_def number_char_def code_def split: if_splits
      dest: dec_digits [unfolded code_def])

lemma int_text_nonempty [simp]: "int_text i \<noteq> []"
  by (simp add: int_text_def)

lemma int_text_inj: "int_text i = int_text j \<longleftrightarrow> i = j"
proof
  assume eq: "int_text i = int_text j"
  have no_minus: "dec_text n \<noteq> CHR ''-'' # t" for n t
    using dec_digits [of "CHR ''-''" n] by (auto simp: code_def)
  show "i = j"
    using eq no_minus [of "nat i"] no_minus [of "nat j"]
    by (auto simp: int_text_def dec_inj split: if_splits dest: sym)
qed simp

lemma munch:
  assumes "s @ r = s' @ r'" "\<forall>c\<in>set s. P c" "\<forall>c\<in>set s'. P c"
    "r = [] \<or> \<not> P (hd r)" "r' = [] \<or> \<not> P (hd r')"
  shows "s = s'" "r = r'"
proof -
  have tw: "takeWhile P (t @ u) = t" if "\<forall>c\<in>set t. P c" "u = [] \<or> \<not> P (hd u)" for t u
    using that by (cases u) (simp_all add: takeWhile_append takeWhile_eq_all_conv)
  show "s = s'" using tw [OF assms(2,4)] tw [OF assms(3,5)] assms(1) by simp
  with assms(1) show "r = r'" by simp
qed

lemma delim_not_number: "delim r \<Longrightarrow> r = [] \<or> \<not> number_char (hd r)"
  by (auto simp: delim_def number_char_def code_def)

lemmas number_munch =
  munch [where P = number_char, OF _ _ _ delim_not_number delim_not_number]

lemma code_hex_digit: "k < 16 \<Longrightarrow> code (hex_digit k) = (if k < 10 then 48 + k else 87 + k)"
  by (simp add: code_def hex_digit_def)

text \<open>The escape sequences are read back by their first character.\<close>

definition unhex :: "char \<Rightarrow> nat" where
  "unhex d = (if code d < 58 then code d - 48 else code d - 87)"

lemma unhex_hex_digit: "k < 16 \<Longrightarrow> unhex (hex_digit k) = k"
  by (simp add: unhex_def code_hex_digit)

definition read_tail :: "string \<Rightarrow> char \<times> string" where
  "read_tail s = (let h = hd s; t = tl s in
     if h = CHR ''n'' then (char_of (10 :: nat), t) else if h = CHR ''r'' then (char_of (13 :: nat), t)
     else if h = CHR ''t'' then (char_of (9 :: nat), t) else if h = CHR ''f'' then (char_of (12 :: nat), t)
     else if h = CHR ''b'' then (char_of (8 :: nat), t)
     else if h = CHR ''u'' then (char_of (16 * unhex (t ! 2) + unhex (t ! 3)), drop 4 t)
     else (h, t))"

lemma char_of_code: "char_of (code c) = c"
  by (simp add: code_def)

lemma read_tail_esc: "read_tail (esc_tail c @ x) = (c, x)"
proof -
  have "code c div 16 < 16" using code_less [of c] by simp
  then have hex: "char_of (16 * unhex (hex_digit (code c div 16)) + unhex (hex_digit (code c mod 16))) = c"
    by (simp add: unhex_hex_digit char_of_code)
  have at: "code c = k \<Longrightarrow> char_of k = c" for k using char_of_code [of c] by simp
  have four: "CHR ''u'' # CHR ''0'' # CHR ''0'' # a # b # x = ''u00'' @ [a, b] @ x" for a b by simp
  consider "c = CHR 0x22 \<or> c = CHR 0x5C" | "code c = 10" | "code c = 13" | "code c = 9"
    | "code c = 12" | "code c = 8"
    | "c \<noteq> CHR 0x22" "c \<noteq> CHR 0x5C" "code c \<notin> {10, 13, 9, 12, 8}" by blast
  then show ?thesis
  proof cases
    case 1
    then show ?thesis by (auto simp: esc_tail_def read_tail_def)
  next
    case 7
    then show ?thesis using hex by (simp add: esc_tail_def read_tail_def Let_def)
  qed (auto simp: esc_tail_def read_tail_def at code_def)
qed

lemma esc_tail_prefix: "esc_tail c @ x = esc_tail d @ y \<Longrightarrow> c = d \<and> x = y"
  by (metis prod.inject read_tail_esc)

lemma esc_prefix: "esc a c @ x = esc a d @ y \<Longrightarrow> c = d \<and> x = y"
  using esc_tail_prefix [of c x d y]
  by (auto simp: esc_def plain_char_def split: if_splits)

lemma esc_not_quote: "esc a c @ x \<noteq> CHR 0x22 # y"
  by (auto simp: esc_def plain_char_def)

lemma json_body_prefix:
  "concat (map (esc a) s) @ CHR 0x22 # x = concat (map (esc a) t) @ CHR 0x22 # y \<Longrightarrow>
   s = t \<and> x = y"
proof (induction s arbitrary: t)
  case Nil
  then show ?case
  proof (cases t)
    case (Cons d t')
    with Nil esc_not_quote [of a d "concat (map (esc a) t') @ CHR 0x22 # y" x] show ?thesis by simp
  qed simp
next
  case (Cons c s)
  show ?case
  proof (cases t)
    case Nil
    with Cons.prems esc_not_quote [of a c "concat (map (esc a) s) @ CHR 0x22 # x" y] show ?thesis
      by simp
  next
    case (Cons d t')
    with Cons.prems
    have "c = d \<and> concat (map (esc a) s) @ CHR 0x22 # x = concat (map (esc a) t') @ CHR 0x22 # y"
      by (intro esc_prefix [of a]) simp
    with Cons.IH [of t'] Cons show ?thesis by simp
  qed
qed

lemma json_str_prefix: "json_str a s @ x = json_str a t @ y \<Longrightarrow> s = t \<and> x = y"
  using json_body_prefix [of a s x t y] by (simp add: json_str_def)

section \<open>The encoding is a prefix code up to key order\<close>

text \<open>Every encoding is non-empty, and its first character tells the constructors apart.\<close>

fun head_class :: "pyval \<Rightarrow> nat" where
  "head_class PNone = 1"
| "head_class (PBool b) = (if b then 2 else 3)"
| "head_class (PInt i) = 4"
| "head_class (PFloat f) = 4"
| "head_class (PStr s) = 5"
| "head_class (PObj s) = 5"
| "head_class (PList xs) = 6"
| "head_class (PDict d) = 7"

definition char_class :: "char \<Rightarrow> nat" where
  "char_class c = (if c = CHR ''n'' then 1 else if c = CHR ''t'' then 2 else if c = CHR ''f'' then 3
     else if number_char c then 4 else if c = CHR 0x22 then 5 else if c = CHR ''['' then 6
     else if c = CHR ''{'' then 7 else 0)"

lemma number_class: "number_char c \<Longrightarrow> char_class c = 4"
  by (auto simp: char_class_def number_char_def code_def)

lemma fr_head:
  assumes "float_repr_ok fr"
  shows "fr r \<noteq> []" "\<forall>c\<in>set (fr r). number_char c"
  using assms unfolding float_repr_ok_def by (metis empty_iff list.set(1), blast)

abbreviation strict_opts :: "bool \<Rightarrow> json_opts" where
  "strict_opts asc \<equiv> \<lparr>default_str = False, ensure_ascii = asc, allow_nan = False\<rparr>"

lemma enc_head:
  assumes "float_repr_ok fr" "enc fr (strict_opts asc) v = Inr s"
  shows "s \<noteq> [] \<and> char_class (hd s) = head_class v"
proof -
  have num: "t \<noteq> [] \<Longrightarrow> \<forall>c\<in>set t. number_char c \<Longrightarrow> char_class (hd t) = 4" for t
    by (cases t) (auto simp: number_class)
  show ?thesis
  proof (cases v)
    case (PInt i)
    with assms num [of "int_text i"] int_text_number [of _ i] show ?thesis by auto
  next
    case (PBool b)
    with assms show ?thesis by (cases b) (auto simp: char_class_def)
  next
    case (PFloat f)
    with assms show ?thesis
      by (cases f) (use num fr_head [OF assms(1)] in auto)
  qed (use assms in \<open>auto simp: rbind_Inr_iff json_str_def char_class_def number_char_def code_def
      simp del: encs_rmap encd_map\<close>)
qed

lemma enc_number_case:
  assumes fr: "float_repr_ok fr" and v: "head_class v = 4" "enc fr (strict_opts asc) v = Inr s"
  shows "(\<forall>c\<in>set s. number_char c) \<and>
    ((\<exists>i. v = PInt i \<and> s = int_text i) \<or> (\<exists>r. v = PFloat (Fin r) \<and> s = fr r))"
proof (cases v)
  case (PInt i)
  with v int_text_number show ?thesis by auto
next
  case (PFloat f)
  with v fr_head [OF fr] show ?thesis by (cases f) auto
qed (use v in \<open>auto split: if_splits\<close>)

lemma number_text_inj:
  assumes fr: "float_repr_ok fr" and hv: "head_class v = 4" "head_class w = 4"
    and e: "enc fr (strict_opts asc) v = Inr s" "enc fr (strict_opts asc) w = Inr s"
  shows "v = w"
proof -
  have mix: "int_text i \<noteq> fr r" for i r
    using fr int_text_number [of _ i] unfolding float_repr_ok_def by metis
  have "fr r = fr q \<Longrightarrow> r = q" for r q using fr by (simp add: float_repr_ok_def inj_def)
  with enc_number_case [OF fr hv(1) e(1)] enc_number_case [OF fr hv(2) e(2)] mix int_text_inj
  show ?thesis by metis
qed

text \<open>Comma-separated elements between brackets: if the elements are a prefix code in
  front of a delimiter, so is the whole list in front of its closing bracket \<open>q\<close>.\<close>

lemma join_Cons: "join (t # ts) = t @ (if ts = [] then [] else CHR '','' # join ts)"
  by (cases ts) simp_all

lemma join_prefix:
  assumes elem: "\<And>x y t t' r r'. x \<in> set xs \<Longrightarrow> E x = Inr t \<Longrightarrow> E y = Inr t' \<Longrightarrow>
      t @ r = t' @ r' \<Longrightarrow> delim r \<Longrightarrow> delim r' \<Longrightarrow> N x = N y \<and> t = t' \<and> r = r'"
    and head: "\<And>y t. E y = Inr t \<Longrightarrow> t \<noteq> [] \<and> hd t \<noteq> q"
    and q: "q = CHR '']'' \<or> q = CHR ''}''"
  shows "rmap E xs = Inr ts \<Longrightarrow> rmap E ys = Inr ts' \<Longrightarrow> join ts @ q # r = join ts' @ q # r' \<Longrightarrow>
    map N xs = map N ys \<and> ts = ts' \<and> r = r'"
  using elem
proof (induction xs arbitrary: ys ts ts')
  case Nil
  then show ?case
  proof (cases ys)
    case (Cons y ys')
    with Nil.prems(2) obtain t u where t: "E y = Inr t" "ts' = t # u" by (auto simp: rbind_Inr_iff)
    with head [OF t(1)] Nil.prems(1,3) show ?thesis by (cases t) (auto simp: join_Cons)
  qed simp
next
  case (Cons x xs)
  from Cons.prems(1) obtain t u where t: "E x = Inr t" "rmap E xs = Inr u" "ts = t # u"
    by (auto simp: rbind_Inr_iff)
  show ?case
  proof (cases ys)
    case Nil
    with Cons.prems(2,3) t head [OF t(1)] show ?thesis by (cases t) (auto simp: join_Cons)
  next
    case (Cons y ys')
    with Cons.prems(2) obtain t' u' where t': "E y = Inr t'" "rmap E ys' = Inr u'" "ts' = t' # u'"
      by (auto simp: rbind_Inr_iff)
    define rest rest' where
      "rest = (if u = [] then q # r else CHR '','' # join u @ q # r)" and
      "rest' = (if u' = [] then q # r' else CHR '','' # join u' @ q # r')"
    have eq: "t @ rest = t' @ rest'"
      using Cons.prems(3) t t' by (simp add: join_Cons rest_def rest'_def split: if_splits)
    have "delim rest" "delim rest'" using q by (auto simp: delim_def rest_def rest'_def)
    from Cons.prems(4) [OF list.set_intros(1) t(1) t'(1) eq this]
    have x: "N x = N y" "t = t'" "rest = rest'" by simp_all
    have "join u @ q # r = join u' @ q # r'"
      using x(3) q by (auto simp: rest_def rest'_def split: if_splits)
    from Cons.IH [OF t(2) t'(2) this] Cons.prems(4)
    have "map N xs = map N ys' \<and> u = u' \<and> r = r'" by (meson list.set_intros(2))
    with x t t' Cons show ?thesis by simp
  qed
qed

text \<open>The items of a dictionary as one element each.\<close>

definition enc_item :: "bool \<Rightarrow> (rat \<Rightarrow> string) \<Rightarrow> string \<times> pyval \<Rightarrow> string res" where
  "enc_item asc fr kx = rbind (enc fr (strict_opts asc) (snd kx)) (\<lambda>t. Inr (json_str asc (fst kx) @ CHR '':'' # t))"

lemma rseq_items:
  "rbind (rseq (map (map_prod id (enc fr (strict_opts asc))) d))
     (\<lambda>kts. Inr (g (map (\<lambda>(k, t). json_str asc k @ CHR '':'' # t) kts)))
   = rbind (rmap (enc_item asc fr) d) (\<lambda>ts. Inr (g ts))"
proof (induction d arbitrary: g)
  case (Cons kx d)
  obtain k x where kx: "kx = (k, x)" by (cases kx)
  show ?case
    using Cons [of "\<lambda>ts. g (y # ts)" for y]
    by (cases "enc fr (strict_opts asc) x") (simp_all add: kx enc_item_def)
qed simp

lemma enc_dict_items: "enc fr (strict_opts asc) (PDict d) =
   rbind (rmap (enc_item asc fr) (sort_key fst d)) (\<lambda>ts. Inr (CHR ''{'' # join ts @ ''}''))"
  unfolding enc_dict using rseq_items [of fr asc "sort_key fst d" "\<lambda>ts. CHR ''{'' # join ts @ ''}''"] by simp

lemma class_list: "head_class w = 6 \<Longrightarrow> \<exists>ys. w = PList ys" "head_class w = 7 \<Longrightarrow> \<exists>d. w = PDict d"
  by (cases w; auto split: if_splits)+

lemma head_class_pos: "0 < head_class v"
  by (cases v) auto

lemma bracket_class: "char_class CHR '']'' = 0"
  by (simp add: char_class_def number_char_def code_def)

lemma head_not_bracket: "char_class c = head_class v \<Longrightarrow> c \<noteq> CHR '']''"
  using head_class_pos [of v] bracket_class by (intro notI) simp

lemma enc_prefix:
  assumes fr: "float_repr_ok fr"
  shows "enc fr (strict_opts asc) v = Inr s \<Longrightarrow> enc fr (strict_opts asc) w = Inr s' \<Longrightarrow> s @ r = s' @ r' \<Longrightarrow>
    delim r \<Longrightarrow> delim r' \<Longrightarrow> canon v = canon w \<and> s = s' \<and> r = r'"
proof (induction v arbitrary: w s s' r r' rule: pyval_induct)
  case (List xs)
  have "head_class w = 6"
    using enc_head [OF fr List.prems(1)] enc_head [OF fr List.prems(2)] List.prems(3)
    by (cases s; cases s') auto
  then obtain ys where w: "w = PList ys" using class_list by blast
  from List.prems(1) obtain ts where ts: "rmap (enc fr (strict_opts asc)) xs = Inr ts" "s = CHR ''['' # join ts @ '']''"
    by (auto simp: rbind_Inr_iff)
  from List.prems(2) w obtain ts' where ts': "rmap (enc fr (strict_opts asc)) ys = Inr ts'" "s' = CHR ''['' # join ts' @ '']''"
    by (auto simp: rbind_Inr_iff)
  have head: "t \<noteq> [] \<and> hd t \<noteq> CHR '']''" if "enc fr (strict_opts asc) y = Inr t" for y t
    using enc_head [OF fr that] head_not_bracket by blast
  have "map canon xs = map canon ys \<and> ts = ts' \<and> r = r'"
    by (rule join_prefix [where q = "CHR '']''", OF List.IH head _ ts(1) ts'(1)])
      (use List.prems(3) ts ts' in auto)
  with w ts ts' show ?case by simp
next
  case (Dict d)
  have "head_class w = 7"
    using enc_head [OF fr Dict.prems(1)] enc_head [OF fr Dict.prems(2)] Dict.prems(3)
    by (cases s; cases s') auto
  then obtain e where w: "w = PDict e" using class_list by blast
  from Dict.prems(1) obtain ts where ts: "rmap (enc_item asc fr) (sort_key fst d) = Inr ts" "s = CHR ''{'' # join ts @ ''}''"
    unfolding enc_dict_items by (auto simp: rbind_Inr_iff)
  from Dict.prems(2) w obtain ts' where ts': "rmap (enc_item asc fr) (sort_key fst e) = Inr ts'" "s' = CHR ''{'' # join ts' @ ''}''"
    unfolding w enc_dict_items by (auto simp: rbind_Inr_iff)
  have head: "t \<noteq> [] \<and> hd t \<noteq> CHR ''}''" if "enc_item asc fr y = Inr t" for y t
    using that by (auto simp: enc_item_def rbind_Inr_iff json_str_def)
  have elem: "map_prod id canon x = map_prod id canon y \<and> t = t' \<and> u = u'"
    if "x \<in> set (sort_key fst d)" "enc_item asc fr x = Inr t" "enc_item asc fr y = Inr t'"
      "t @ u = t' @ u'" "delim u" "delim u'" for x y t t' u u'
  proof -
    obtain k a l b where xy: "x = (k, a)" "y = (l, b)" by (cases x; cases y)
    from that(2,3) xy obtain p p' where p: "enc fr (strict_opts asc) a = Inr p" "enc fr (strict_opts asc) b = Inr p'"
      "t = json_str asc k @ CHR '':'' # p" "t' = json_str asc l @ CHR '':'' # p'"
      by (auto simp: enc_item_def rbind_Inr_iff)
    with that(4) json_str_prefix [of asc k "CHR '':'' # p @ u" l "CHR '':'' # p' @ u'"]
    have "k = l" "p @ u = p' @ u'" by simp_all
    moreover have "(k, a) \<in> set d" using that(1) xy by simp
    ultimately show ?thesis
      using Dict.IH [OF _ p(1,2) _ that(5,6)] xy p by auto
  qed
  have "map (map_prod id canon) (sort_key fst d) = map (map_prod id canon) (sort_key fst e) \<and> ts = ts' \<and> r = r'"
    by (rule join_prefix [where q = "CHR ''}''", OF elem head _ ts(1) ts'(1)])
      (use Dict.prems(3) ts ts' in auto)
  with w ts ts' show ?case by (simp add: canon_dict del: canon.simps)
next
  case (Str t)
  have "head_class w = 5"
    using enc_head [OF fr Str.prems(1)] enc_head [OF fr Str.prems(2)] Str.prems(3)
    by (cases s; cases s') auto
  then obtain u where w: "w = PStr u" using Str.prems(2) by (cases w) (auto split: if_splits)
  with Str.prems json_str_prefix [of asc t r u r'] show ?case by simp
next
  case (Int i)
  have h: "head_class w = 4"
    using enc_head [OF fr Int.prems(1)] enc_head [OF fr Int.prems(2)] Int.prems(3)
    by (cases s; cases s') auto
  have "s = s'" "r = r'"
    using number_munch [OF Int.prems(3)] enc_number_case [OF fr h Int.prems(2)]
      enc_number_case [OF fr _ Int.prems(1)] Int.prems(4,5) by auto
  with number_text_inj [OF fr _ h Int.prems(1)] Int.prems(2) show ?case by auto
next
  case (Float f)
  have h: "head_class w = 4"
    using enc_head [OF fr Float.prems(1)] enc_head [OF fr Float.prems(2)] Float.prems(3)
    by (cases s; cases s') auto
  have "s = s'" "r = r'"
    using number_munch [OF Float.prems(3)] enc_number_case [OF fr h Float.prems(2)]
      enc_number_case [OF fr _ Float.prems(1)] Float.prems(4,5) by auto
  with number_text_inj [OF fr _ h Float.prems(1)] Float.prems(2) show ?case by auto
next
  case None
  have "head_class w = 1"
    using enc_head [OF fr None.prems(1)] enc_head [OF fr None.prems(2)] None.prems(3)
    by (cases s; cases s') auto
  then have "w = PNone" by (cases w) (auto split: if_splits)
  with None.prems show ?case by simp
next
  case (Bool b)
  have "head_class w = (if b then 2 else 3)"
    using enc_head [OF fr Bool.prems(1)] enc_head [OF fr Bool.prems(2)] Bool.prems(3)
    by (cases s; cases s') auto
  then have "w = PBool b" by (cases w) (auto split: if_splits)
  with Bool.prems show ?case by simp
qed simp

section \<open>UTF-8\<close>

lemma utf8_char_prefix:
  assumes "utf8_char c @ x = utf8_char d @ y"
  shows "c = d \<and> x = y"
proof -
  have word: "(word_of_nat m :: 8 word) = word_of_nat n \<longleftrightarrow> m = n" if "m < 256" "n < 256" for m n
    using that by (auto simp: word_of_nat_eq_iff take_bit_eq_mod)
  have c: "code c < 256" "code d < 256" by (rule code_less)+
  have lead: "(word_of_nat (192 + code a div 64) :: 8 word) = word_of_nat (192 + code b div 64)
      \<longleftrightarrow> code a div 64 = code b div 64" for a b
    by (subst word) (use code_less [of a] code_less [of b] in simp_all)
  have trail: "(word_of_nat (128 + code a mod 64) :: 8 word) = word_of_nat (128 + code b mod 64)
      \<longleftrightarrow> code a mod 64 = code b mod 64" for a b
    by (subst word) (use pos_mod_bound [of 64] in simp_all)
  have plain: "(word_of_nat (code a) :: 8 word) = word_of_nat (code b) \<longleftrightarrow> a = b" for a b
    by (subst word) (simp_all add: code_less code_inj)
  have mixed: "(word_of_nat (code a) :: 8 word) \<noteq> word_of_nat (192 + code b div 64)" if "code a < 128" for a b
    by (subst word) (use code_less [of b] that in simp_all)
  have same: "code c div 64 = code d div 64 \<Longrightarrow> code c mod 64 = code d mod 64 \<Longrightarrow> c = d"
    by (metis div_mult_mod_eq code_inj)
  show ?thesis
    using assms mixed [of c d] mixed [of d c] same
    by (auto simp: utf8_char_def Let_def lead trail plain simp del: of_nat_add split: if_splits)
qed

lemma utf8_char_nonempty [simp]: "utf8_char c \<noteq> []"
  by (simp add: utf8_char_def Let_def)

lemma utf8_inj: "utf8 s = utf8 t \<longleftrightarrow> s = t"
proof
  show "utf8 s = utf8 t \<Longrightarrow> s = t"
  proof (induction s arbitrary: t)
    case Nil
    then show ?case by (cases t) (auto simp: utf8_def)
  next
    case (Cons c s)
    then obtain d u where t: "t = d # u" by (cases t) (auto simp: utf8_def)
    with Cons.prems have "utf8_char c @ utf8 s = utf8_char d @ utf8 u" by (simp add: utf8_def)
    with Cons.IH t show ?case using utf8_char_prefix by blast
  qed
qed simp

section \<open>What the bytes determine\<close>

lemma enc_canon: "enc fr c (canon v) = enc fr c v"
proof (induction v rule: pyval_induct)
  case (List xs)
  have "rmap (enc fr c) (map canon xs) = rmap (enc fr c) xs"
    using List by (induction xs) auto
  then show ?case by simp
next
  case (Dict d)
  have "map (map_prod id (enc fr c)) (map (map_prod id canon) (sort_key fst d))
      = map (map_prod id (enc fr c)) (sort_key fst d)"
    using Dict by auto
  moreover have "sort_key fst (map (map_prod id canon) (sort_key fst d))
      = map (map_prod id canon) (sort_key fst d)"
    by (simp add: sort_key_map_prod sort_key_id_if_sorted)
  ultimately show ?case by (simp only: canon_dict enc_dict)
qed auto

text \<open>Dictionaries with the same items have the same normal form, in whatever order the
  keys were inserted.\<close>

lemma canon_dict_perm:
  assumes "mset d = mset e" "distinct (dkeys d)"
  shows "canon (PDict d) = canon (PDict e)"
proof -
  have "sort_key fst d = sort_key fst e"
    using assms by (intro sort_key_inj_key_eq) (simp_all add: distinct_map)
  then show ?thesis by (simp only: canon_dict)
qed

lemma enc_strict_iff:
  assumes "float_repr_ok fr" "enc fr (strict_opts asc) v = Inr s"
  shows "enc fr (strict_opts asc) w = Inr s \<longleftrightarrow> canon v = canon w"
  using enc_prefix [OF assms, of w s "[]" "[]"] enc_canon [of fr "strict_opts asc" v]
    enc_canon [of fr "strict_opts asc" w] assms(2)
  by (auto simp: delim_def)

lemma canonical_json_strict_iff:
  assumes "float_repr_ok fr" "canonical_json fr False v = Inr b"
  shows "canonical_json fr False w = Inr b \<longleftrightarrow> canon v = canon w"
proof -
  from assms(2) obtain s where s: "enc fr (strict_opts False) v = Inr s" "b = utf8 s"
    by (auto simp: canonical_json_def rbind_Inr_iff)
  then have "canonical_json fr False w = Inr b \<longleftrightarrow> enc fr (strict_opts False) w = Inr s"
    by (auto simp: canonical_json_def rbind_Inr_iff utf8_inj)
  with enc_strict_iff [OF assms(1) s(1)] show ?thesis by simp
qed

lemma canonical_json_canon: "canonical_json fr f (canon v) = canonical_json fr f v"
  by (simp add: canonical_json_def enc_canon)

lemma canonical_json_compat_canon: "canonical_json_compat fr (canon v) = canonical_json_compat fr v"
  by (simp add: canonical_json_compat_def enc_canon)

text \<open>A printer with the documented behaviour exists: numerator, \<open>e\<close>, denominator.\<close>

definition fraction_text :: "rat \<Rightarrow> string" where
  "fraction_text r = int_text (fst (quotient_of r)) @ ''e'' @ int_text (snd (quotient_of r))"

lemma fraction_text_ok: "float_repr_ok fraction_text"
proof -
  have "r = q" if eq: "fraction_text r = fraction_text q" for r q
  proof -
    have head: "hd (''e'' @ t) = CHR ''e''" for t by simp
    have no_e: "\<forall>c\<in>set (int_text i). code c \<noteq> 101" for i using int_text_number by blast
    have "fst (quotient_of r) = fst (quotient_of q) \<and> snd (quotient_of r) = snd (quotient_of q)"
      using munch [where P = "\<lambda>c. code c \<noteq> 101", OF eq [unfolded fraction_text_def] no_e no_e]
      by (simp add: int_text_inj code_def)
    then show ?thesis by (metis prod_eqI quotient_of_div surjective_pairing)
  qed
  moreover have "\<forall>c\<in>set (fraction_text r). number_char c" for r
    using int_text_number by (auto simp: fraction_text_def number_char_def code_def)
  moreover have "\<exists>c\<in>set (fraction_text r). code c = 101" for r
    by (auto simp: fraction_text_def code_def)
  ultimately show ?thesis unfolding float_repr_ok_def inj_def by meson
qed

lemma canon_dict_get:
  assumes "canon (PDict d) = canon (PDict e)" "distinct (dkeys d)" "distinct (dkeys e)"
  shows "map_option canon (dget d k) = map_option canon (dget e k)"
proof -
  have get: "map_of (map (map_prod id canon) (sort_key fst xs)) k = map_option canon (dget xs k)"
    if "distinct (dkeys xs)" for xs :: "(string \<times> pyval) list"
  proof -
    have "map_of (sort_key fst xs) = map_of xs"
      using that by (intro map_of_eqI) (auto simp: distinct_map intro: map_of_inject_set)
    then show ?thesis by (simp add: dget_map_prod)
  qed
  from assms(1) have "map (map_prod id canon) (sort_key fst d) = map (map_prod id canon) (sort_key fst e)"
    by (simp only: canon_dict pyval.inject)
  with get [OF assms(2)] get [OF assms(3)] show ?thesis by metis
qed

text \<open>Values without floats and foreign objects encode alike under every printer and with or
  without \<open>default=str\<close>.\<close>

fun plain_val :: "pyval \<Rightarrow> bool" where
  "plain_val (PFloat f) = False"
| "plain_val (PObj s) = False"
| "plain_val (PList xs) = list_all plain_val xs"
| "plain_val (PDict d) = list_all (\<lambda>(k, x). plain_val x) d"
| "plain_val _ = True"

lemma enc_plain: "plain_val v \<Longrightarrow> ensure_ascii c = ensure_ascii c' \<Longrightarrow> enc fr c v = enc fr' c' v"
proof (induction v rule: pyval_induct)
  case (List xs)
  then have "rmap (enc fr c) xs = rmap (enc fr' c') xs"
    by (induction xs) auto
  then show ?case by simp
next
  case (Dict d)
  then have "map (map_prod id (enc fr c)) (sort_key fst d) = map (map_prod id (enc fr' c')) (sort_key fst d)"
    by (fastforce simp: list_all_iff)
  with Dict.prems show ?case by (simp only: enc_dict)
qed auto

lemma rmap_ok: "(\<And>x. x \<in> set xs \<Longrightarrow> \<exists>y. f x = Inr y) \<Longrightarrow> \<exists>ys. rmap f xs = Inr ys"
  by (induction xs) fastforce+

lemma rseq_ok: "(\<And>k r. (k, r) \<in> set xs \<Longrightarrow> \<exists>t. r = Inr t) \<Longrightarrow> \<exists>ys. rseq xs = Inr ys"
  by (induction xs) fastforce+

lemma enc_plain_ok: "plain_val v \<Longrightarrow> \<exists>t. enc fr c v = Inr t"
proof (induction v rule: pyval_induct)
  case (List xs)
  then have "\<exists>ys. rmap (enc fr c) xs = Inr ys" by (intro rmap_ok) (auto simp: list_all_iff)
  then show ?case by auto
next
  case (Dict d)
  have "\<exists>ys. rseq (map (map_prod id (enc fr c)) (sort_key fst d)) = Inr ys"
    using Dict by (intro rseq_ok) (fastforce simp: list_all_iff)
  then show ?case unfolding enc_dict by auto
qed auto

text \<open>The compat profile encodes every value.\<close>

lemma enc_total: "default_str c \<Longrightarrow> allow_nan c \<Longrightarrow> \<exists>t. enc fr c v = Inr t"
proof (induction v rule: pyval_induct)
  case (List xs)
  then have "\<exists>ys. rmap (enc fr c) xs = Inr ys" by (intro rmap_ok) auto
  then show ?case by auto
next
  case (Dict d)
  have "\<exists>ys. rseq (map (map_prod id (enc fr c)) (sort_key fst d)) = Inr ys"
    using Dict by (intro rseq_ok) fastforce
  then show ?case unfolding enc_dict by auto
next
  case (Float f)
  then show ?case by (cases f) auto
qed auto

lemma canonical_json_compat_total: "\<exists>t. canonical_json_compat fr v = Inr t"
  by (simp add: canonical_json_compat_def enc_total)

lemma canonical_json_plain:
  assumes "plain_val v"
  shows "\<exists>b. canonical_json fr f v = Inr b" "canonical_json fr f v = canonical_json fr' f' v"
  using enc_plain_ok [OF assms, of fr "\<lparr>default_str = f, ensure_ascii = False, allow_nan = False\<rparr>"]
    enc_plain [OF assms, of "\<lparr>default_str = f, ensure_ascii = False, allow_nan = False\<rparr>"
      "\<lparr>default_str = f', ensure_ascii = False, allow_nan = False\<rparr>" fr fr']
  by (auto simp: canonical_json_def)

text \<open>Strictly serializable values encode alike under every choice of \<open>default\<close> and
  \<open>allow_nan\<close>, so the compat profile is injective on them too.\<close>

lemma enc_strict: "strict_val v \<Longrightarrow> ensure_ascii c = ensure_ascii c' \<Longrightarrow> enc fr c v = enc fr c' v"
proof (induction v rule: pyval_induct)
  case (List xs)
  then have "rmap (enc fr c) xs = rmap (enc fr c') xs"
    by (induction xs) auto
  then show ?case by simp
next
  case (Dict d)
  then have "map (map_prod id (enc fr c)) (sort_key fst d) = map (map_prod id (enc fr c')) (sort_key fst d)"
    by fastforce
  then show ?case using Dict.prems(2) by (simp only: enc_dict)
next
  case (Float f)
  then show ?case by (cases f) auto
qed auto

lemma canonical_json_compat_inj:
  assumes "float_repr_ok fr" "strict_val v" "strict_val w" "canonical_json_compat fr v = canonical_json_compat fr w"
  shows "canon v = canon w"
proof -
  obtain s where "canonical_json_compat fr v = Inr s" using canonical_json_compat_total by blast
  then have "enc fr (strict_opts True) v = Inr s" "enc fr (strict_opts True) w = Inr s"
    using assms(4) enc_strict [OF assms(2), of "strict_opts True" "\<lparr>default_str = True, ensure_ascii = True, allow_nan = True\<rparr>"]
      enc_strict [OF assms(3), of "strict_opts True" "\<lparr>default_str = True, ensure_ascii = True, allow_nan = True\<rparr>"]
    by (auto simp: canonical_json_compat_def)
  then show ?thesis using enc_strict_iff [OF assms(1)] by blast
qed

section \<open>Property\<close>

text \<open>C1: where \<open>canonical_json\<close> without a fallback succeeds, another value has the same bytes
  exactly when it is equal up to the order in which dictionary keys were inserted.\<close>

theorem canonical_json_bytes_iff:
  assumes "float_repr_ok fr" "canonical_json fr False v = Inr b"
  shows "canonical_json fr False w = Inr b \<longleftrightarrow> canon v = canon w"
  using canonical_json_strict_iff [OF assms] .

theorem canonical_json_bytes_iff_witness:
  "canonical_json fraction_text False (PDict [(''b'', PInt 1), (''a'', PNone)])
   = canonical_json fraction_text False (PDict [(''a'', PNone), (''b'', PInt 1)])"
proof -
  let ?v = "PDict [(''a'', PNone), (''b'', PInt 1)]" and ?w = "PDict [(''b'', PInt 1), (''a'', PNone)]"
  have "\<exists>b. canonical_json fraction_text False ?v = Inr b" by (simp add: canonical_json_def)
  then obtain b where b: "canonical_json fraction_text False ?v = Inr b" ..
  have "canon ?v = canon ?w" by simp
  with canonical_json_bytes_iff [OF fraction_text_ok b, of ?w] b show ?thesis by simp
qed

section \<open>A digest without collisions\<close>

text \<open>Bytes as text, one character each: injective, so an instance of the digests of this library
  under which nothing collides.\<close>

definition byte_text :: "bytes \<Rightarrow> string" where
  "byte_text bs = map (\<lambda>w. char_of (unat w)) bs"

lemma byte_text_inj [simp]: "byte_text x = byte_text y \<longleftrightarrow> x = y"
proof -
  have "inj (\<lambda>w :: 8 word. char_of (unat w) :: char)"
  proof (rule injI)
    fix v w :: "8 word"
    assume "(char_of (unat v) :: char) = char_of (unat w)"
    then have "of_char (char_of (unat v) :: char) = (of_char (char_of (unat w) :: char) :: nat)" by simp
    moreover have "unat v < 256" "unat w < 256" using unsigned_less [where w = v] unsigned_less [where w = w] by simp_all
    ultimately show "v = w" by (simp add: word_unat_eq_iff)
  qed
  then show ?thesis unfolding byte_text_def by (simp add: inj_map_eq_map)
qed

end
