(* ===== verification/Signing.thy ===== *)
theory Signing
  imports Canonical
begin

text \<open>
  \<open>integrity/signing.py\<close>: base64url with its padding rules, hex digests, Ed25519 signatures over
  canonical JSON and over raw digests, and JWK thumbprints. PyNaCl is a parameter: \<open>sign seed msg\<close>,
  \<open>pub seed\<close> and \<open>check key msg sig\<close> (\<open>False\<close> also when it raises). Shown: the base64 round
  trip, that an honest signature verifies, and that a strict signature is insensitive to key order and
  to nothing else.
\<close>

section \<open>base64\<close>

text \<open>The two alphabets differ in their last two characters.\<close>

definition b64_char :: "bool \<Rightarrow> nat \<Rightarrow> char" where
  "b64_char url k =
    (if k < 26 then char_of (65 + k) else if k < 52 then char_of (71 + k)
     else if k < 62 then char_of (k - 4)
     else if k = 62 then (if url then CHR ''-'' else CHR ''+'')
     else (if url then CHR ''_'' else CHR 0x2F))"

text \<open>\<open>urlsafe_b64decode\<close> first translates its own two characters, so it accepts both pairs.\<close>

definition b64_val :: "bool \<Rightarrow> char \<Rightarrow> nat option" where
  "b64_val url c = (let n = code c in
     if 65 \<le> n \<and> n \<le> 90 then Some (n - 65) else if 97 \<le> n \<and> n \<le> 122 then Some (n - 71)
     else if 48 \<le> n \<and> n \<le> 57 then Some (n + 4)
     else if n = 43 \<or> (url \<and> n = 45) then Some 62
     else if n = 47 \<or> (url \<and> n = 95) then Some 63 else None)"

fun b64_encode :: "bool \<Rightarrow> bytes \<Rightarrow> string" where
  "b64_encode u [] = []"
| "b64_encode u [a] = (let x = unat a in
     [b64_char u (x div 4), b64_char u (x mod 4 * 16), CHR ''='', CHR ''=''])"
| "b64_encode u [a, b] = (let x = unat a; y = unat b in
     [b64_char u (x div 4), b64_char u (x mod 4 * 16 + y div 16), b64_char u (y mod 16 * 4), CHR ''=''])"
| "b64_encode u (a # b # c # r) = (let x = unat a; y = unat b; z = unat c in
     [b64_char u (x div 4), b64_char u (x mod 4 * 16 + y div 16),
      b64_char u (y mod 16 * 4 + z div 64), b64_char u (z mod 64)] @ b64_encode u r)"

text \<open>The lenient decoder of \<open>binascii\<close>: other characters are skipped, padding that completes a
  group ends the input. \<open>q\<close> counts the characters of the current group, \<open>l\<close> holds its left-over
  bits, \<open>p\<close> the padding seen.\<close>

fun b64_loop :: "bool \<Rightarrow> nat \<Rightarrow> nat \<Rightarrow> nat \<Rightarrow> string \<Rightarrow> bytes res" where
  "b64_loop u q l p [] = (if q = 0 then Inr [] else Inl ValueError)"
| "b64_loop u q l p (c # s) =
    (if c = CHR ''='' then
       (if 2 \<le> q \<and> 4 \<le> q + Suc p then Inr []
        else b64_loop u q l (if 2 \<le> q then Suc p else p) s)
     else case b64_val u c of
       None \<Rightarrow> b64_loop u q l p s
     | Some v \<Rightarrow>
        (if q = 0 then b64_loop u 1 v 0 s
         else if q = 1 then rbind (b64_loop u 2 (v mod 16) 0 s) (\<lambda>r. Inr (word_of_nat (l * 4 + v div 16) # r))
         else if q = 2 then rbind (b64_loop u 3 (v mod 4) 0 s) (\<lambda>r. Inr (word_of_nat (l * 16 + v div 4) # r))
         else rbind (b64_loop u 0 0 0 s) (\<lambda>r. Inr (word_of_nat (l * 64 + v) # r))))"

definition b64_decode :: "bool \<Rightarrow> string \<Rightarrow> bytes res" where
  "b64_decode u s = b64_loop u 0 0 0 s"

definition rstrip_pad :: "string \<Rightarrow> string" where
  "rstrip_pad s = rev (dropWhile (\<lambda>c. c = CHR ''='') (rev s))"

definition b64url_encode :: "bytes \<Rightarrow> string" where
  "b64url_encode data = rstrip_pad (b64_encode True data)"

definition b64url_decode :: "string \<Rightarrow> bytes res" where
  "b64url_decode s =
    (if list_all (\<lambda>c. code c < 128) s
     then b64_decode True (s @ replicate ((4 - length s mod 4) mod 4) CHR ''='') else Inl ValueError)"

section \<open>bytes.fromhex\<close>

definition hex_value :: "char \<Rightarrow> nat option" where
  "hex_value c = (let n = code c in
     if 48 \<le> n \<and> n \<le> 57 then Some (n - 48) else if 97 \<le> n \<and> n \<le> 102 then Some (n - 87)
     else if 65 \<le> n \<and> n \<le> 70 then Some (n - 55) else None)"

fun fromhex :: "string \<Rightarrow> bytes res" where
  "fromhex [] = Inr []"
| "fromhex [c] = (if code c \<in> {32, 9, 10, 11, 12, 13} then Inr [] else Inl ValueError)"
| "fromhex (c # d # s) =
    (if code c \<in> {32, 9, 10, 11, 12, 13} then fromhex (d # s)
     else case (hex_value c, hex_value d) of
       (Some x, Some y) \<Rightarrow> rbind (fromhex s) (\<lambda>r. Inr (word_of_nat (16 * x + y) # r))
     | _ \<Rightarrow> Inl ValueError)"

section \<open>The round trip\<close>

lemma b64_val_char: "k < 64 \<Longrightarrow> b64_val u (b64_char u k) = Some k"
  by (auto simp: b64_val_def b64_char_def Let_def code_def)

lemma b64_char_not_pad: "k < 64 \<Longrightarrow> b64_char u k \<noteq> CHR ''=''"
proof
  assume "k < 64" "b64_char u k = CHR ''=''"
  moreover have "b64_val u CHR ''='' = None" by (simp add: b64_val_def Let_def code_def)
  ultimately show False using b64_val_char [of k u] by simp
qed

lemma b64_char_range: "code (b64_char u k) < 128 \<and> b64_char u k \<noteq> CHR ''=''"
proof -
  have "code (b64_char u k) < 128 \<and> code (b64_char u k) \<noteq> 61"
    by (auto simp: b64_char_def code_def)
  moreover have "code CHR ''='' = 61" by (simp add: code_def)
  ultimately show ?thesis by metis
qed

lemma b64_loop_char:
  assumes "k < 64"
  shows "b64_loop u q l p (b64_char u k # s) =
    (if q = 0 then b64_loop u 1 k 0 s
     else if q = 1 then rbind (b64_loop u 2 (k mod 16) 0 s) (\<lambda>r. Inr (word_of_nat (l * 4 + k div 16) # r))
     else if q = 2 then rbind (b64_loop u 3 (k mod 4) 0 s) (\<lambda>r. Inr (word_of_nat (l * 16 + k div 4) # r))
     else rbind (b64_loop u 0 0 0 s) (\<lambda>r. Inr (word_of_nat (l * 64 + k) # r)))"
  using assms b64_val_char [of k u] b64_char_not_pad [of k u] by simp

lemma low_field: "y < k \<Longrightarrow> (x * k + y) mod k = y" "y < k \<Longrightarrow> (x * k + y) div k = x"
  for x y k :: nat
  by simp_all

lemma byte_parts:
  fixes b :: "8 word"
  shows "unat b < 256" "unat b div 4 < 64" "unat b mod 4 < 4" "unat b div 16 < 16" "unat b div 64 < 4"
    "unat b mod 16 < 16" "unat b mod 64 < 64"
    "word_of_nat (unat b div 4 * 4 + unat b mod 4) = b"
    "word_of_nat (unat b div 16 * 16 + unat b mod 16) = b"
    "word_of_nat (unat b div 64 * 64 + unat b mod 64) = b"
proof -
  show "unat b < 256" using unsigned_less [of b] by simp
  then show "unat b div 4 < 64" "unat b mod 4 < 4" "unat b div 16 < 16" "unat b div 64 < 4"
    "unat b mod 16 < 16" "unat b mod 64 < 64" by (simp_all add: div_less_iff_less_mult)
qed (simp_all only: div_mult_mod_eq, simp_all)

lemma sextets:
  fixes x y :: nat
  assumes "x < 4" "y < 16"
  shows "x * 16 + y < 64"
  using assms by simp

lemma sextets': "x < 16 \<Longrightarrow> y < 4 \<Longrightarrow> x * 4 + y < 64" for x y :: nat
  by simp

lemma b64_quad:
  assumes "k0 < 64" "k1 < 64" "k2 < 64" "k3 < 64"
  shows "b64_loop u 0 0 p (b64_char u k0 # b64_char u k1 # b64_char u k2 # b64_char u k3 # s)
    = rbind (b64_loop u 0 0 0 s) (\<lambda>r. Inr (word_of_nat (k0 * 4 + k1 div 16) #
        word_of_nat (k1 mod 16 * 16 + k2 div 4) # word_of_nat (k2 mod 4 * 64 + k3) # r))"
    "b64_loop u 0 0 p (b64_char u k0 # b64_char u k1 # b64_char u k2 # CHR ''='' # s)
    = Inr [word_of_nat (k0 * 4 + k1 div 16), word_of_nat (k1 mod 16 * 16 + k2 div 4)]"
    "b64_loop u 0 0 p (b64_char u k0 # b64_char u k1 # CHR ''='' # CHR ''='' # s)
    = Inr [word_of_nat (k0 * 4 + k1 div 16)]"
  by (simp_all only: b64_loop_char assms one_neq_zero zero_neq_one if_True if_False
      refl numeral_eq_one_iff semiring_norm numeral_neq_zero)
    (simp_all add: numeral_2_eq_2)

lemma b64_roundtrip: "b64_loop u 0 0 p (b64_encode u d) = Inr d"
proof (induction u d arbitrary: p rule: b64_encode.induct)
  case (2 u a)
  show ?case
    using byte_parts [of a] sextets [OF byte_parts(3) [of a], of 0]
    by (simp add: Let_def b64_quad del: b64_loop.simps)
next
  case (3 u a b)
  show ?case
    using byte_parts [of a] byte_parts [of b] sextets [OF byte_parts(3) [of a] byte_parts(4) [of b]]
      sextets' [OF byte_parts(6) [of b], of 0]
    by (simp add: Let_def b64_quad low_field del: b64_loop.simps)
next
  case (4 u a b c r)
  then show ?case
    using byte_parts [of a] byte_parts [of b] byte_parts [of c]
      sextets [OF byte_parts(3) [of a] byte_parts(4) [of b]]
      sextets' [OF byte_parts(6) [of b] byte_parts(5) [of c]]
    by (simp add: Let_def b64_quad low_field del: b64_loop.simps)
qed simp

lemma b64_encode_shape:
  "\<exists>body p. b64_encode u d = body @ replicate p CHR ''='' \<and> p \<le> 2 \<and> (length body + p) mod 4 = 0
     \<and> set body \<subseteq> range (b64_char u)"
proof (induction u d rule: b64_encode.induct)
  case (1 u)
  show ?case by (rule exI [of _ "[]"]) (rule exI [of _ 0], simp)
next
  case (2 u a)
  define q where "q = [b64_char u (unat a div 4), b64_char u (unat a mod 4 * 16)]"
  have "b64_encode u [a] = q @ replicate 2 CHR ''=''" "length q = 2" "set q \<subseteq> range (b64_char u)"
    by (simp_all add: Let_def q_def numeral_2_eq_2)
  then show ?case by (intro exI [of _ q] exI [of _ 2]) simp
next
  case (3 u a b)
  define q where "q = [b64_char u (unat a div 4), b64_char u (unat a mod 4 * 16 + unat b div 16),
        b64_char u (unat b mod 16 * 4)]"
  have "b64_encode u [a, b] = q @ replicate 1 CHR ''=''"
    by (simp only: q_def b64_encode.simps Let_def One_nat_def replicate.simps append.simps)
  moreover have "length q = 3" unfolding q_def by simp
  moreover have "set q \<subseteq> range (b64_char u)" unfolding q_def by auto
  ultimately show ?case by (intro exI [of _ q] exI [of _ 1]) simp
next
  case (4 u a b c r)
  from 4 [OF refl refl refl] obtain body p where IH: "b64_encode u r = body @ replicate p CHR ''=''" "p \<le> 2"
    "(length body + p) mod 4 = 0" "set body \<subseteq> range (b64_char u)"
    by (elim exE conjE) (rule that)
  define q where "q = [b64_char u (unat a div 4), b64_char u (unat a mod 4 * 16 + unat b div 16),
        b64_char u (unat b mod 16 * 4 + unat c div 64), b64_char u (unat c mod 64)]"
  have q: "b64_encode u (a # b # c # r) = q @ b64_encode u r" "length q = 4" "set q \<subseteq> range (b64_char u)"
    by (simp_all add: Let_def q_def)
  have "(length (q @ body) + p) mod 4 = 0" using IH(3) q(2) by (simp add: add.assoc)
  moreover have "b64_encode u (a # b # c # r) = (q @ body) @ replicate p CHR ''=''"
    using q(1) IH(1) by simp
  ultimately show ?case using IH(2,4) q(3) by (metis Un_subset_iff set_append)
qed

lemma pad_count:
  assumes "p \<le> 2" "(n + p) mod 4 = 0"
  shows "(4 - n mod 4) mod 4 = (p :: nat)"
proof -
  define r where "r = n mod 4"
  have "r < 4" "(r + p) mod 4 = 0" using assms(2) by (simp_all add: r_def mod_add_left_eq)
  then obtain k where "r + p = 4 * k" by auto
  moreover from this \<open>r < 4\<close> assms(1) have "k < 2" by linarith
  then have "k = 0 \<or> k = 1" by auto
  ultimately have "r = 0 \<and> p = 0 \<or> 4 - r = p" by auto
  with assms(1) show ?thesis unfolding r_def [symmetric] by auto
qed

lemma b64url_roundtrip: "b64url_decode (b64url_encode d) = Inr d"
proof -
  obtain body p where s: "b64_encode True d = body @ replicate p CHR ''=''" "p \<le> 2"
    "(length body + p) mod 4 = 0" "set body \<subseteq> range (b64_char True)"
    using b64_encode_shape [of True d] by metis
  have no_pad: "\<forall>c\<in>set body. c \<noteq> CHR ''='' \<and> code c < 128"
  proof
    fix c
    assume "c \<in> set body"
    with s(4) obtain k where "c = b64_char True k" by auto
    with b64_char_range show "c \<noteq> CHR ''='' \<and> code c < 128" by simp
  qed
  have "dropWhile (\<lambda>c. c = CHR ''='') (replicate p CHR ''='' @ rev body) = rev body"
    using no_pad by (cases "rev body") (auto simp: dropWhile_append dropWhile_eq_Cons_conv)
  then have strip: "b64url_encode d = body"
    by (simp add: b64url_encode_def rstrip_pad_def s(1) rev_replicate)
  have "(4 - length body mod 4) mod 4 = p" using s(2,3) by (rule pad_count)
  moreover have "list_all (\<lambda>c. code c < 128) body" using no_pad by (simp add: list_all_iff)
  ultimately have "b64url_decode body = b64_decode True (body @ replicate p CHR ''='')"
    by (simp only: b64url_decode_def if_True)
  then show ?thesis
    using b64_roundtrip [of True 0 d] unfolding strip b64_decode_def s(1) by (rule trans)
qed

section \<open>Signing\<close>

text \<open>\<open>_sign_hash\<close> of \<open>chain.py\<close> and \<open>sign_digest\<close>: the same computation.\<close>

definition sign_digest :: "(bytes \<Rightarrow> bytes \<Rightarrow> bytes) \<Rightarrow> bytes \<Rightarrow> string \<Rightarrow> string res" where
  "sign_digest sign seed digest_hex =
    (if length seed \<noteq> 32 then Inl ValueError
     else rbind (fromhex digest_hex) (\<lambda>raw. Inr (b64url_encode (sign seed raw))))"

definition public_key_jwk :: "(bytes \<Rightarrow> bytes) \<Rightarrow> bytes \<Rightarrow> pydict res" where
  "public_key_jwk pub seed =
    (if length seed \<noteq> 32 then Inl ValueError
     else Inr [(''kty'', PStr ''OKP''), (''crv'', PStr ''Ed25519''), (''x'', PStr (b64url_encode (pub seed)))])"

text \<open>\<open>str(public_key_jwk["x"])\<close>, decoded.\<close>

definition jwk_key :: "(rat \<Rightarrow> string) \<Rightarrow> pydict \<Rightarrow> bytes res" where
  "jwk_key fr jwk = (case dget jwk ''x'' of None \<Rightarrow> Inl KeyError | Some x \<Rightarrow> b64url_decode (py_str fr x))"

definition verify_digest ::
  "(rat \<Rightarrow> string) \<Rightarrow> (bytes \<Rightarrow> bytes \<Rightarrow> bytes \<Rightarrow> bool) \<Rightarrow> string \<Rightarrow> string \<Rightarrow> pydict \<Rightarrow> bool" where
  "verify_digest fr check digest_hex signature_b64 jwk =
    (case rbind (jwk_key fr jwk) (\<lambda>key. rbind (fromhex digest_hex) (\<lambda>raw.
       rbind (b64url_decode signature_b64) (\<lambda>sig. Inr (check key raw sig)))) of
     Inl e \<Rightarrow> False | Inr b \<Rightarrow> b)"

definition sign_json :: "(rat \<Rightarrow> string) \<Rightarrow> (bytes \<Rightarrow> bytes \<Rightarrow> bytes) \<Rightarrow> pyval \<Rightarrow> bytes \<Rightarrow> string res" where
  "sign_json fr sign obj seed =
    (if length seed \<noteq> 32 then Inl ValueError
     else rbind (canonical_json fr False obj) (\<lambda>data. Inr (b64url_encode (sign seed data))))"

definition verify_json_signature ::
  "(rat \<Rightarrow> string) \<Rightarrow> (bytes \<Rightarrow> bytes \<Rightarrow> bytes \<Rightarrow> bool) \<Rightarrow> pyval \<Rightarrow> string \<Rightarrow> pydict \<Rightarrow> bool" where
  "verify_json_signature fr check obj signature_b64 jwk =
    (case rbind (canonical_json fr False obj) (\<lambda>data. rbind (b64url_decode signature_b64) (\<lambda>sig.
       rbind (jwk_key fr jwk) (\<lambda>key. Inr (check key data sig)))) of
     Inl e \<Rightarrow> False | Inr b \<Rightarrow> b)"

text \<open>The thumbprint is over \<open>json.dumps\<close> with its default options but sorted keys.\<close>

definition jwk_thumbprint :: "(rat \<Rightarrow> string) \<Rightarrow> (bytes \<Rightarrow> string) \<Rightarrow> pydict \<Rightarrow> string res" where
  "jwk_thumbprint fr sha jwk =
    (let required = [''crv'', ''kty'', ''x''];
         members = concat (map (\<lambda>k. case dget jwk k of None \<Rightarrow> [] | Some v \<Rightarrow> [(k, v)]) required) in
     rbind (enc fr \<lparr>default_str = False, ensure_ascii = True, allow_nan = True\<rparr> (PDict members))
       (\<lambda>t. Inr (sha (utf8 t))))"

lemma jwk_key_public [simp]:
  "public_key_jwk pub seed = Inr jwk \<Longrightarrow> jwk_key fr jwk = Inr (pub seed)"
  by (auto simp: public_key_jwk_def jwk_key_def b64url_roundtrip split: if_splits)

lemma verify_json_after_sign:
  assumes "sign_json fr sign obj seed = Inr sig" "public_key_jwk pub seed = Inr jwk"
  shows "verify_json_signature fr check obj' sig jwk \<longleftrightarrow>
    (\<exists>data data'. canonical_json fr False obj = Inr data \<and> canonical_json fr False obj' = Inr data' \<and>
       check (pub seed) data' (sign seed data))"
  using assms
  by (auto simp: sign_json_def verify_json_signature_def rbind_Inr_iff b64url_roundtrip split: if_splits sum.splits)

lemma verify_digest_after_sign:
  assumes "sign_digest sign seed d = Inr sig" "public_key_jwk pub seed = Inr jwk"
  shows "verify_digest fr check d' sig jwk \<longleftrightarrow>
    (\<exists>raw raw'. fromhex d = Inr raw \<and> fromhex d' = Inr raw' \<and> check (pub seed) raw' (sign seed raw))"
  using assms
  by (auto simp: sign_digest_def verify_digest_def rbind_Inr_iff b64url_roundtrip split: if_splits sum.splits)

section \<open>Properties\<close>

text \<open>C2: a signature made by \<open>sign_json\<close> verifies, under the JWK that \<open>public_key_jwk\<close>
  publishes for the same seed, for every value equal to the signed one up to the order of keys; and
  if it verifies for any other value, then that value has other canonical bytes, and the scheme accepts
  for them the very signature that was made over the canonical bytes of the signed value: a forgery
  for this value, seed and signature.\<close>

theorem sign_json_binds:
  assumes "float_repr_ok fr" "sign_json fr sign obj seed = Inr sig" "public_key_jwk pub seed = Inr jwk"
    and "\<forall>m. check (pub seed) m (sign seed m)"
  shows "\<exists>m. canonical_json fr False obj = Inr m \<and>
    (canon obj' = canon obj \<longrightarrow> verify_json_signature fr check obj' sig jwk) \<and>
    (canon obj' \<noteq> canon obj \<longrightarrow> (verify_json_signature fr check obj' sig jwk \<longleftrightarrow>
       (\<exists>m'. canonical_json fr False obj' = Inr m' \<and> m' \<noteq> m \<and> check (pub seed) m' (sign seed m))))"
proof -
  obtain data where data: "canonical_json fr False obj = Inr data"
    using assms(2) by (auto simp: sign_json_def rbind_Inr_iff split: if_splits)
  have "canonical_json fr False obj' = Inr data \<longleftrightarrow> canon obj' = canon obj"
    using canonical_json_strict_iff [OF assms(1) data, of obj'] by metis
  then show ?thesis
    using verify_json_after_sign [OF assms(2,3), of check obj'] assms(4) data by auto
qed

text \<open>With a scheme that accepts a signature for its own message only, the reordered value verifies and a
  changed one does not.\<close>

theorem sign_json_binds_witness:
  "case (sign_json fraction_text (@) (PDict [(''a'', PNone), (''b'', PInt 1)]) (replicate 32 7),
         public_key_jwk id (replicate 32 7)) of
     (Inr sig, Inr jwk) \<Rightarrow> verify_json_signature fraction_text (\<lambda>k m s. s = k @ m)
        (PDict [(''b'', PInt 1), (''a'', PNone)]) sig jwk
      \<and> \<not> verify_json_signature fraction_text (\<lambda>k m s. s = k @ m) (PDict [(''a'', PNone), (''b'', PInt 2)]) sig jwk
   | _ \<Rightarrow> False"
proof -
  let ?obj = "PDict [(''a'', PNone), (''b'', PInt 1)]"
  let ?obj' = "PDict [(''b'', PInt 1), (''a'', PNone)]"
  let ?obj2 = "PDict [(''a'', PNone), (''b'', PInt 2)]"
  let ?seed = "replicate 32 7 :: bytes"
  have seed: "length ?seed = 32" by (rule length_replicate)
  have "\<exists>data. canonical_json fraction_text False ?obj = Inr data"
    by (simp add: canonical_json_def)
  then obtain sig where sig: "sign_json fraction_text (@) ?obj ?seed = Inr sig"
    by (auto simp only: sign_json_def seed not_True_eq_False simp_thms if_False rbind.simps)
  obtain jwk where jwk: "public_key_jwk id ?seed = Inr jwk"
    by (simp only: public_key_jwk_def seed not_True_eq_False simp_thms if_False sum.inject)
  have "canon ?obj' = canon ?obj" by simp
  with sign_json_binds [OF fraction_text_ok sig jwk, of "\<lambda>k m s. s = k @ m" ?obj']
  have yes: "verify_json_signature fraction_text (\<lambda>k m s. s = k @ m) ?obj' sig jwk" by (simp only: id_apply simp_thms) blast
  have "canon ?obj2 \<noteq> canon ?obj" by simp
  with sign_json_binds [OF fraction_text_ok sig jwk, of "\<lambda>k m s. s = k @ m" ?obj2]
  have "\<not> verify_json_signature fraction_text (\<lambda>k m s. s = k @ m) ?obj2 sig jwk"
    by (simp only: id_apply simp_thms same_append_eq) blast
  with yes sig jwk show ?thesis by (simp only: prod.case sum.case simp_thms)
qed

end
