(* ===== verification/Datetime.thy ===== *)
theory Datetime
  imports Prelude
begin

text \<open>
  The part of Python's \<open>datetime\<close> the code uses: naive and aware values, comparison
  (which raises \<open>TypeError\<close> between a naive and an aware value), the proleptic Gregorian
  calendar, \<open>isoformat\<close>, and \<open>_rfc3339_nanos\<close> of \<open>integrity/chain.py\<close> and
  \<open>_iso\<close> of \<open>bitemporal/backends/sqlite.py\<close> on top of them. The main results are
  that the SQLite text form orders exactly as the instants do (\<open>sqlite_iso_less\<close>) and
  that the hash-chain form determines the instant (\<open>rfc3339_nanos_inj\<close>).
\<close>

section \<open>Values and comparison\<close>

text \<open>
  \<open>dt_wall\<close> counts microseconds of the local wall clock since 1 January of year 1;
  \<open>dt_off\<close> is the UTC offset in microseconds, \<open>None\<close> for a naive value. Python admits
  the years 1 to 9999 (\<open>in_range\<close>).
\<close>

record datetime =
  dt_wall :: int
  dt_off :: "int option"

definition aware :: "datetime \<Rightarrow> bool" where
  "aware d \<longleftrightarrow> dt_off d \<noteq> None"

definition instant :: "datetime \<Rightarrow> int" where
  "instant d = dt_wall d - (case dt_off d of None \<Rightarrow> 0 | Some off \<Rightarrow> off)"

definition aware_opt :: "datetime option \<Rightarrow> bool" where
  "aware_opt d = (case d of None \<Rightarrow> True | Some t \<Rightarrow> aware t)"

definition dt_eq :: "datetime \<Rightarrow> datetime \<Rightarrow> bool" where
  "dt_eq a b \<longleftrightarrow> aware a = aware b \<and> instant a = instant b"

definition dt_gt :: "datetime \<Rightarrow> datetime \<Rightarrow> bool res" where
  "dt_gt a b = (if aware a = aware b then Inr (instant b < instant a) else Inl TypeError)"

definition dt_le :: "datetime \<Rightarrow> datetime \<Rightarrow> bool res" where
  "dt_le a b = (if aware a = aware b then Inr (instant a \<le> instant b) else Inl TypeError)"

lemma aware_opt_simps [simp]: "aware_opt None" "aware_opt (Some t) = aware t"
  by (simp_all add: aware_opt_def)

lemma dt_gt_aware [simp]: "aware a \<Longrightarrow> aware b \<Longrightarrow> dt_gt a b = Inr (instant b < instant a)"
  by (simp add: dt_gt_def)

lemma dt_le_aware [simp]: "aware a \<Longrightarrow> aware b \<Longrightarrow> dt_le a b = Inr (instant a \<le> instant b)"
  by (simp add: dt_le_def)

text \<open>\<open>astimezone(timezone.utc)\<close>, and \<open>replace(tzinfo=timezone.utc)\<close> on a naive value.\<close>

definition to_utc :: "datetime \<Rightarrow> datetime" where
  "to_utc d = \<lparr>dt_wall = instant d, dt_off = Some 0\<rparr>"

lemma to_utc_simps [simp]:
  "aware (to_utc d)" "instant (to_utc d) = instant d" "dt_wall (to_utc d) = instant d"
  by (simp_all add: to_utc_def aware_def instant_def)

section \<open>The calendar\<close>

definition leap :: "int \<Rightarrow> bool" where
  "leap y \<longleftrightarrow> y mod 4 = 0 \<and> (y mod 100 \<noteq> 0 \<or> y mod 400 = 0)"

definition days_before_year :: "int \<Rightarrow> int" where
  "days_before_year y = (y - 1) * 365 + (y - 1) div 4 - (y - 1) div 100 + (y - 1) div 400"

lemma div_pred:
  fixes y m :: int
  assumes "0 < m"
  shows "y div m = (y - 1) div m + (if y mod m = 0 then 1 else 0)"
proof (cases "y mod m = 0")
  case True
  then have "y - 1 = m * (y div m - 1) + (m - 1)"
    using mult_div_mod_eq [of m y] by (simp add: algebra_simps)
  then have "(y - 1) div m = y div m - 1"
    using assms int_div_pos_eq [of "y - 1" m "y div m - 1" "m - 1"] by simp
  with True show ?thesis by simp
next
  case False
  have "y - 1 = m * (y div m) + (y mod m - 1)" using mult_div_mod_eq [of m y] by linarith
  moreover have "0 \<le> y mod m - 1" "y mod m - 1 < m"
    using False assms pos_mod_bound [of m y] pos_mod_sign [of m y] by linarith+
  ultimately have "(y - 1) div m = y div m" using int_div_pos_eq by blast
  with False show ?thesis by simp
qed

lemma days_before_year_next:
  "days_before_year (y + 1) = days_before_year y + (if leap y then 366 else 365)"
proof -
  note steps = div_pred [of 4 y] div_pred [of 100 y] div_pred [of 400 y]
  have "400 dvd y \<longrightarrow> 100 dvd y" "100 dvd y \<longrightarrow> 4 dvd y"
    by (auto intro: dvd_trans [of 100 400] dvd_trans [of 4 100])
  then have a: "y mod 400 = 0 \<longrightarrow> y mod 100 = 0" and b: "y mod 100 = 0 \<longrightarrow> y mod 4 = 0"
    by (simp_all only: dvd_eq_mod_eq_0)
  have sums: "y * 365 + A - B + C = (y - 1) * 365 + a - b + c + 365 + i - j + k"
    if "A = a + i" "B = b + j" "C = c + k" for A B C a b c i j k :: int
    using that by simp
  have "days_before_year (y + 1) = days_before_year y + 365
      + (if y mod 4 = 0 then 1 else 0) - (if y mod 100 = 0 then 1 else 0)
      + (if y mod 400 = 0 then 1 else 0)"
    unfolding days_before_year_def add_diff_cancel_right' by (intro sums steps) simp_all
  with a b show ?thesis by (cases "y mod 4 = 0"; cases "y mod 100 = 0"; cases "y mod 400 = 0")
      (simp_all add: leap_def)
qed

lemma days_before_year_strict: "days_before_year y < days_before_year (y + 1)"
  by (simp add: days_before_year_next)

lemma days_before_year_mono: "y \<le> z \<Longrightarrow> days_before_year y \<le> days_before_year z"
proof (induction z rule: int_ge_induct)
  case (step z)
  then show ?case using days_before_year_strict [of z] by simp
qed simp

function year_from :: "int \<Rightarrow> int \<Rightarrow> int" where
  "year_from y n = (if days_before_year (y + 1) \<le> n then year_from (y + 1) n else y)"
  by pat_completeness auto
termination
proof (relation "measure (\<lambda>(y, n). nat (n + 1 - days_before_year y))")
  fix y n :: int
  assume "days_before_year (y + 1) \<le> n"
  with days_before_year_strict [of y]
  show "((y + 1, n), y, n) \<in> measure (\<lambda>(y, n). nat (n + 1 - days_before_year y))" by simp
qed simp

declare year_from.simps [simp del]

text \<open>Day \<open>n\<close> (0 is 1 January of year 1) lies in the year \<open>year_of n\<close>; the search starts
  below it, since no year has more than 366 days.\<close>

definition year_of :: "int \<Rightarrow> int" where
  "year_of n = year_from (n div 366 + 1) n"

lemma year_from_bounds:
  "days_before_year y \<le> n \<Longrightarrow>
   days_before_year (year_from y n) \<le> n \<and> n < days_before_year (year_from y n + 1)"
proof (induction y n rule: year_from.induct)
  case (1 y n)
  then show ?case by (cases "days_before_year (y + 1) \<le> n") (simp_all add: year_from.simps [of y n])
qed

lemma days_before_year_bound: "0 \<le> k \<Longrightarrow> days_before_year (k + 1) \<le> k * 366"
  by (simp add: days_before_year_def)

lemma year_of_bounds:
  assumes "0 \<le> n"
  shows "days_before_year (year_of n) \<le> n" "n < days_before_year (year_of n + 1)"
proof -
  have "days_before_year (n div 366 + 1) \<le> (n div 366) * 366"
    using assms by (intro days_before_year_bound) simp
  also have "\<dots> \<le> n" by simp
  finally show "days_before_year (year_of n) \<le> n" "n < days_before_year (year_of n + 1)"
    unfolding year_of_def using year_from_bounds by blast+
qed

lemma year_of_mono:
  assumes "0 \<le> n" "n \<le> n'"
  shows "year_of n \<le> year_of n'"
proof (rule ccontr)
  assume "\<not> year_of n \<le> year_of n'"
  then have "days_before_year (year_of n' + 1) \<le> days_before_year (year_of n)"
    by (intro days_before_year_mono) simp
  with year_of_bounds [of n] year_of_bounds [of n'] assms show False by simp
qed

definition month_lengths :: "int \<Rightarrow> int list" where
  "month_lengths y = [31, if leap y then 29 else 28, 31, 30, 31, 30, 31, 31, 30, 31, 30, 31]"

text \<open>Day \<open>d\<close> (from 0) of a year, as month (from \<open>m\<close>) and day of the month (from 1).\<close>

fun month_day :: "int list \<Rightarrow> int \<Rightarrow> int \<Rightarrow> int \<times> int" where
  "month_day [] m d = (m, d + 1)"
| "month_day (l # ls) m d = (if d < l then (m, d + 1) else month_day ls (m + 1) (d - l))"

lemma month_day_ge: "m \<le> fst (month_day ls m d)"
  by (induction ls m d rule: month_day.induct) auto

lemma pair_less_iff: "(a, b) < (c, d) \<longleftrightarrow> a < c \<or> (a = c \<and> b < d)"
  for a c :: "'a::linorder" and b d :: "'b::linorder"
  by (auto simp: less_prod_def)

lemma month_day_strict: "d < d' \<Longrightarrow> month_day ls m d < month_day ls m d'"
proof (induction ls arbitrary: m d d')
  case (Cons l ls)
  show ?case
  proof (cases "d' < l")
    case True
    with Cons.prems show ?thesis by (simp add: pair_less_iff)
  next
    case False
    obtain a b where md: "month_day ls (m + 1) (d' - l) = (a, b)" by fastforce
    with month_day_ge [of "m + 1" ls "d' - l"] have "m < a" by simp
    with False md Cons.prems Cons.IH [of "d - l" "d' - l" "m + 1"] show ?thesis
      by (simp add: pair_less_iff)
  qed
qed (simp add: pair_less_iff)

definition civil :: "int \<Rightarrow> int \<times> int \<times> int" where
  "civil n = (year_of n, month_day (month_lengths (year_of n)) 1 (n - days_before_year (year_of n)))"

lemma civil_strict: "0 \<le> n \<Longrightarrow> n < n' \<Longrightarrow> civil n < civil n'"
  using year_of_mono [of n n']
    month_day_strict [of "n - days_before_year (year_of n)" "n' - days_before_year (year_of n)"]
  by (cases "year_of n = year_of n'") (simp_all add: civil_def pair_less_iff)

section \<open>Rendering\<close>

definition digit_char :: "int \<Rightarrow> char" where
  "digit_char k = char_of (nat (48 + k))"

fun pad :: "nat \<Rightarrow> int \<Rightarrow> string" where
  "pad 0 n = []"
| "pad (Suc w) n = pad w (n div 10) @ [digit_char (n mod 10)]"

definition us_per_day :: int where "us_per_day = 86400000000"

definition date_text :: "int \<Rightarrow> string" where
  "date_text n = (case civil n of (y, m, d) \<Rightarrow>
     pad 4 y @ ''-'' @ pad 2 m @ ''-'' @ pad 2 d)"

definition clock_text :: "int \<Rightarrow> string" where
  "clock_text s = pad 2 (s div 3600) @ '':'' @ pad 2 (s div 60 mod 60) @ '':'' @ pad 2 (s mod 60)"

definition seconds_text :: "int \<Rightarrow> string" where
  "seconds_text w = date_text (w div us_per_day) @ ''T'' @ clock_text (w mod us_per_day div 1000000)"

definition offset_text :: "int \<Rightarrow> string" where
  "offset_text off = (let a = \<bar>off\<bar>; s = a div 1000000; u = a mod 1000000 in
     (if off < 0 then ''-'' else ''+'') @ pad 2 (s div 3600) @ '':'' @ pad 2 (s div 60 mod 60)
     @ (if s mod 60 = 0 \<and> u = 0 then [] else '':'' @ pad 2 (s mod 60))
     @ (if u = 0 then [] else ''.'' @ pad 6 u))"

definition isoformat :: "datetime \<Rightarrow> string" where
  "isoformat d = seconds_text (dt_wall d)
     @ (let u = dt_wall d mod 1000000 in if u = 0 then [] else ''.'' @ pad 6 u)
     @ (case dt_off d of None \<Rightarrow> [] | Some off \<Rightarrow> offset_text off)"

text \<open>\<open>_rfc3339_nanos\<close>: naive values are read as UTC, aware ones converted; \<open>strftime\<close>
  down to the second, six digits of microseconds, three zeros.\<close>

definition rfc3339_nanos :: "datetime \<Rightarrow> string" where
  "rfc3339_nanos d = (let w = instant d in
     seconds_text w @ ''.'' @ pad 6 (w mod 1000000) @ ''000'' @ ''Z'')"

text \<open>\<open>_iso\<close> of the SQLite backend.\<close>

definition sqlite_iso :: "datetime \<Rightarrow> string" where
  "sqlite_iso d = isoformat (to_utc d)"

section \<open>Text order is time order\<close>

definition in_range :: "datetime \<Rightarrow> bool" where
  "in_range d \<longleftrightarrow> 0 \<le> instant d \<and> instant d < 3652059 * us_per_day"

lemma length_pad [simp]: "length (pad w n) = w"
  by (induction w arbitrary: n) auto

lemma of_char_digit: "0 \<le> a \<Longrightarrow> a < 10 \<Longrightarrow> of_char (digit_char a) = (48 + nat a :: nat)"
  by (simp add: digit_char_def nat_add_distrib)

lemma digit_char_less:
  assumes "0 \<le> a" "a < 10" "0 \<le> b" "b < 10"
  shows "digit_char a < digit_char b \<longleftrightarrow> a < b"
  using assms by (simp add: less_char_def of_char_digit nat_less_iff) linarith?

lemma pad_strict: "0 \<le> a \<Longrightarrow> a < b \<Longrightarrow> b < 10 ^ w \<Longrightarrow> pad w a < pad w b"
proof (induction w arbitrary: a b)
  case (Suc w)
  have div: "a div 10 \<le> b div 10" using Suc.prems by (simp add: zdiv_mono1)
  have bw: "b div 10 < 10 ^ w" using Suc.prems by (simp add: div_less_iff_less_mult mult.commute)
  show ?case
  proof (cases "a div 10 = b div 10")
    case True
    with Suc.prems(2) have "a mod 10 < b mod 10" by presburger
    with True show ?thesis by (simp add: list_less_same_length digit_char_less)
  next
    case False
    with div Suc.IH [of "a div 10" "b div 10"] bw Suc.prems(1)
    show ?thesis by (simp add: list_less_same_length)
  qed
qed simp

lemma fields_less:
  assumes "a < a' \<or> a = a' \<and> (b < b' \<or> b = b' \<and> c < c')"
    and "0 \<le> a" "a' < 10 ^ w" "0 \<le> b" "b' < 10 ^ v" "0 \<le> c" "c' < 10 ^ u"
  shows "pad w a @ p @ pad v b @ q @ pad u c < pad w a' @ p @ pad v b' @ q @ pad u c'"
  using assms pad_strict [of a a' w] pad_strict [of b b' v] pad_strict [of c c' u]
  by (auto simp: list_less_same_length)

lemma month_day_fst_le: "fst (month_day ls m d) \<le> m + int (length ls)"
  by (induction ls m d rule: month_day.induct) auto

lemma month_day_snd: "0 \<le> d \<Longrightarrow> d < sum_list ls \<Longrightarrow> \<forall>l\<in>set ls. l \<le> b \<Longrightarrow>
  0 < snd (month_day ls m d) \<and> snd (month_day ls m d) \<le> b"
  by (induction ls m d rule: month_day.induct) auto

lemma year_of_range:
  assumes "0 \<le> n" "n < 3652059"
  shows "1 \<le> year_of n" "year_of n < 10000"
proof -
  have "days_before_year 10000 = 3652059" "days_before_year 1 = 0"
    by (simp_all add: days_before_year_def)
  with days_before_year_mono [of 10000 "year_of n"] days_before_year_mono [of "year_of n + 1" 1]
    year_of_bounds [OF assms(1)] assms
  show "1 \<le> year_of n" "year_of n < 10000" by linarith+
qed

lemma civil_range:
  assumes "0 \<le> n" "n < 3652059" "civil n = (y, m, d)"
  shows "0 \<le> y" "y < 10 ^ 4" "0 \<le> m" "m < 10 ^ 2" "0 \<le> d" "d < 10 ^ 2"
proof -
  let ?ls = "month_lengths (year_of n)" and ?r = "n - days_before_year (year_of n)"
  have y: "y = year_of n" and md: "month_day ?ls 1 ?r = (m, d)"
    using assms(3) unfolding civil_def by (simp, metis prod.inject)
  have "sum_list ?ls = (if leap (year_of n) then 366 else 365)"
    by (simp add: month_lengths_def)
  then have "0 \<le> ?r" "?r < sum_list ?ls"
    using year_of_bounds [OF assms(1)] days_before_year_next [of "year_of n"] by auto
  then have "0 < d" "d \<le> 31"
    using month_day_snd [of ?r ?ls 31 1] md by (auto simp: month_lengths_def)
  moreover have "1 \<le> m" "m \<le> 13"
    using month_day_ge [of 1 ?ls ?r] month_day_fst_le [of ?ls 1 ?r] md
    by (simp_all add: month_lengths_def)
  ultimately show "0 \<le> y" "y < 10 ^ 4" "0 \<le> m" "m < 10 ^ 2" "0 \<le> d" "d < 10 ^ 2"
    using year_of_range [OF assms(1,2)] y by simp_all
qed

lemma date_text_strict: "0 \<le> n \<Longrightarrow> n < n' \<Longrightarrow> n' < 3652059 \<Longrightarrow> date_text n < date_text n'"
proof -
  assume n: "0 \<le> n" "n < n'" "n' < 3652059"
  obtain y m d y' m' d' where c: "civil n = (y, m, d)" "civil n' = (y', m', d')"
    by (cases "civil n"; cases "civil n'")
  from n civil_strict [of n n'] c have "(y, m, d) < (y', m', d')" by metis
  then have "y < y' \<or> y = y' \<and> (m < m' \<or> m = m' \<and> d < d')"
    unfolding pair_less_iff .
  then show ?thesis
    unfolding date_text_def c prod.case
    by (rule fields_less)
      (use civil_range [OF _ _ c(1)] civil_range [OF _ _ c(2)] n in simp_all)
qed

lemma length_date_text [simp]: "length (date_text n) = 10"
  by (simp add: date_text_def split: prod.split)

lemma length_clock_text [simp]: "length (clock_text s) = 8"
  by (simp add: clock_text_def)

lemma div_mod_less:
  fixes a b k :: int
  assumes "a < b" "0 < k"
  shows "a div k < b div k \<or> (a div k = b div k \<and> a mod k < b mod k)"
proof (cases "a div k = b div k")
  case True
  have "k * (b div k) + a mod k < k * (b div k) + b mod k"
    using assms(1) mult_div_mod_eq [of k a] mult_div_mod_eq [of k b] unfolding True by linarith
  then have "a mod k < b mod k" by linarith
  with True show ?thesis by simp
next
  case False
  with zdiv_mono1 [of a b k] assms show ?thesis by simp
qed

lemma clock_text_strict:
  assumes "0 \<le> s" "s < s'" "s' < 86400"
  shows "clock_text s < clock_text s'"
proof -
  have div: "s div 60 div 60 = s div 3600" "s' div 60 div 60 = s' div 3600"
    by (simp_all flip: zdiv_zmult2_eq)
  have bounds: "0 \<le> s div 3600" "s' div 3600 < 10 ^ 2"
    using assms by (simp_all add: pos_imp_zdiv_nonneg_iff div_less_iff_less_mult)
  have small: "x mod 60 < 10 ^ 2" "0 \<le> x mod 60" for x :: int
    using pos_mod_bound [of 60 x] pos_mod_sign [of 60 x] by simp_all
  have "s div 3600 < s' div 3600 \<or> s div 3600 = s' div 3600 \<and>
      (s div 60 mod 60 < s' div 60 mod 60 \<or>
       s div 60 mod 60 = s' div 60 mod 60 \<and> s mod 60 < s' mod 60)"
    using div_mod_less [OF assms(2), of 60] div_mod_less [of "s div 60" "s' div 60" 60]
    by (metis div zero_less_numeral)
  then show ?thesis
    unfolding clock_text_def by (rule fields_less) (fact bounds small)+
qed

lemma seconds_text_alt:
  "seconds_text w = date_text (w div 1000000 div 86400) @ ''T'' @ clock_text (w div 1000000 mod 86400)"
proof -
  have "w div us_per_day = w div 1000000 div 86400"
    using zdiv_zmult2_eq [of 86400 w 1000000] by (simp add: us_per_day_def)
  moreover have "w mod us_per_day div 1000000 = w div 1000000 mod 86400"
    using zmod_zmult2_eq [of 86400 w 1000000] by (simp add: us_per_day_def)
  ultimately show ?thesis by (simp add: seconds_text_def)
qed

lemma length_seconds_text [simp]: "length (seconds_text w) = 19"
  by (simp add: seconds_text_def)

lemma seconds_text_strict:
  assumes "0 \<le> w" "w div 1000000 < w' div 1000000" "w' < 3652059 * us_per_day"
  shows "seconds_text w < seconds_text w'"
proof -
  let ?s = "w div 1000000" and ?s' = "w' div 1000000"
  have "0 \<le> ?s" using assms(1) by (simp add: pos_imp_zdiv_nonneg_iff)
  then have lo: "0 \<le> ?s div 86400" by (simp add: pos_imp_zdiv_nonneg_iff)
  have "?s' < 3652059 * 86400"
    using assms(3) by (simp add: us_per_day_def div_less_iff_less_mult)
  then have hi: "?s' div 86400 < 3652059" by (simp add: div_less_iff_less_mult)
  have mods: "0 \<le> x mod 86400" "x mod 86400 < 86400" for x :: int by simp_all
  have "?s div 86400 < ?s' div 86400 \<or>
      (?s div 86400 = ?s' div 86400 \<and> ?s mod 86400 < ?s' mod 86400)"
    using div_mod_less [OF assms(2)] by simp
  then show ?thesis
  proof
    assume "?s div 86400 < ?s' div 86400"
    from date_text_strict [OF lo this hi] show ?thesis
      by (simp only: seconds_text_alt list_less_same_length length_date_text simp_thms)
  next
    assume *: "?s div 86400 = ?s' div 86400 \<and> ?s mod 86400 < ?s' mod 86400"
    from clock_text_strict [OF mods(1) conjunct2 [OF *] mods(2)] * show ?thesis
      by (simp only: seconds_text_alt list_less_same_length length_date_text same_append_eq simp_thms)
  qed
qed

lemma seconds_text_cong: "w div 1000000 = w' div 1000000 \<Longrightarrow> seconds_text w = seconds_text w'"
  by (simp add: seconds_text_alt)

lemma digit_char_0 [simp]: "digit_char 0 = CHR ''0''"
  by (simp add: digit_char_def char_of_def bit_iff_odd)

text \<open>Microseconds of the last second, as \<open>isoformat\<close> writes them before a UTC offset.\<close>

lemma fraction_strict:
  assumes "0 \<le> u" "u < u'" "u' < 1000000"
  shows "(if u = 0 then [] else ''.'' @ pad 6 u) @ ''+00:00''
    < (if u' = 0 then [] else ''.'' @ pad 6 u') @ ''+00:00''"
  using assms pad_strict [of u u' 6] by (auto simp: list_less_same_length)

lemma sqlite_iso_alt: "sqlite_iso d = seconds_text (instant d)
   @ (if instant d mod 1000000 = 0 then [] else ''.'' @ pad 6 (instant d mod 1000000)) @ ''+00:00''"
  by (simp add: sqlite_iso_def isoformat_def to_utc_def Let_def offset_text_def numeral_2_eq_2)

lemma sqlite_iso_strict:
  assumes "in_range a" "in_range b" "instant a < instant b"
  shows "sqlite_iso a < sqlite_iso b"
proof -
  let ?a = "instant a" and ?b = "instant b"
  have "?a div 1000000 < ?b div 1000000 \<or>
     (?a div 1000000 = ?b div 1000000 \<and> ?a mod 1000000 < ?b mod 1000000)"
    using div_mod_less [OF assms(3)] by simp
  then show ?thesis
  proof
    assume "?a div 1000000 < ?b div 1000000"
    then show ?thesis
      using seconds_text_strict [of ?a ?b] assms
      by (simp add: sqlite_iso_alt in_range_def list_less_same_length)
  next
    assume *: "?a div 1000000 = ?b div 1000000 \<and> ?a mod 1000000 < ?b mod 1000000"
    then show ?thesis
      using seconds_text_cong [of ?a ?b] fraction_strict [of "?a mod 1000000" "?b mod 1000000"]
      by (simp add: sqlite_iso_alt list_less_same_length)
  qed
qed

lemma sqlite_iso_cong: "instant a = instant b \<Longrightarrow> sqlite_iso a = sqlite_iso b"
  by (simp add: sqlite_iso_alt)

lemma sqlite_iso_less:
  assumes "in_range a" "in_range b"
  shows "sqlite_iso a < sqlite_iso b \<longleftrightarrow> instant a < instant b"
  using sqlite_iso_strict [OF assms] sqlite_iso_strict [OF assms(2,1)] sqlite_iso_cong [of a b]
  by (metis less_asym linorder_neqE)

lemma sqlite_iso_le:
  assumes "in_range a" "in_range b"
  shows "sqlite_iso a \<le> sqlite_iso b \<longleftrightarrow> instant a \<le> instant b"
  using sqlite_iso_less [OF assms(2,1)] by (simp add: linorder_not_less [symmetric])

lemma sqlite_iso_eq:
  assumes "in_range a" "in_range b"
  shows "sqlite_iso a = sqlite_iso b \<longleftrightarrow> instant a = instant b"
  using sqlite_iso_le [OF assms] sqlite_iso_le [OF assms(2,1)] by (auto intro: antisym)

lemma rfc3339_nanos_strict:
  assumes "in_range a" "in_range b" "instant a < instant b"
  shows "rfc3339_nanos a < rfc3339_nanos b"
proof -
  let ?a = "instant a" and ?b = "instant b"
  have mods: "0 \<le> x mod 1000000" "x mod 1000000 < 10 ^ 6" for x :: int by simp_all
  have "?a div 1000000 < ?b div 1000000 \<or>
     (?a div 1000000 = ?b div 1000000 \<and> ?a mod 1000000 < ?b mod 1000000)"
    using div_mod_less [OF assms(3)] by simp
  then show ?thesis
    using seconds_text_strict [of ?a ?b] seconds_text_cong [of ?a ?b] assms
      pad_strict [OF mods(1) _ mods(2), of ?a ?b]
    by (auto simp: rfc3339_nanos_def Let_def in_range_def list_less_same_length)
qed

lemma rfc3339_nanos_inj:
  assumes "in_range a" "in_range b" "rfc3339_nanos a = rfc3339_nanos b"
  shows "instant a = instant b"
  using rfc3339_nanos_strict [OF assms(1,2)] rfc3339_nanos_strict [OF assms(2,1)] assms(3)
  by (metis less_irrefl linorder_neqE)

end
