(* ===== verification/IsoParse.thy ===== *)
theory IsoParse
  imports Datetime "HOL-Library.Monad_Syntax"
begin

text \<open>
  \<open>datetime.fromisoformat\<close> on the extended format that \<open>isoformat\<close> writes (and with
  \<open>Z\<close> for a zero offset): fixed-width fields, range checks, \<open>ValueError\<close> otherwise. The
  result is the round trip \<open>fromisoformat_isoformat\<close>, on which the stored forms of records,
  chain entries and bundles rest. The other ISO 8601 spellings that newer Python versions accept
  are outside this model: nothing in the code writes them.
\<close>

section \<open>Fields\<close>

definition is_digit :: "char \<Rightarrow> bool" where
  "is_digit c \<longleftrightarrow> 48 \<le> (of_char c :: nat) \<and> (of_char c :: nat) \<le> 57"

definition digits_value :: "string \<Rightarrow> int" where
  "digits_value s = foldl (\<lambda>a c. 10 * a + (int (of_char c) - 48)) 0 s"

definition field :: "nat \<Rightarrow> string \<Rightarrow> (int \<times> string) option" where
  "field w s = (if w \<le> length s \<and> list_all is_digit (take w s)
     then Some (digits_value (take w s), drop w s) else None)"

definition sep :: "char \<Rightarrow> string \<Rightarrow> string option" where
  "sep c s = (case s of [] \<Rightarrow> None | d # t \<Rightarrow> if d = c then Some t else None)"

lemma sep_Cons [simp]: "sep c (d # t) = (if d = c then Some t else None)"
  by (simp add: sep_def)

lemma is_digit_char: "0 \<le> k \<Longrightarrow> k < 10 \<Longrightarrow> is_digit (digit_char k)"
  by (simp add: is_digit_def of_char_digit)

lemma pad_digits: "list_all is_digit (pad w n)"
  by (induction w arbitrary: n) (auto simp: is_digit_char)

lemma digits_value_pad: "digits_value (pad w n) = n mod 10 ^ w"
proof (induction w arbitrary: n)
  case (Suc w)
  have "int (of_char (digit_char (n mod 10))) = 48 + n mod 10"
    using of_char_digit [of "n mod 10"] by simp
  with Suc [of "n div 10"] show ?case
    by (simp add: digits_value_def zmod_zmult2_eq)
qed (simp add: digits_value_def)

lemma field_pad: "0 \<le> n \<Longrightarrow> n < 10 ^ w \<Longrightarrow> field w (pad w n @ r) = Some (n, r)"
  by (simp add: field_def pad_digits digits_value_pad)

section \<open>Dates, clock times and offsets\<close>

definition days_of_date :: "int \<Rightarrow> int \<Rightarrow> int \<Rightarrow> int" where
  "days_of_date y m d = days_before_year y + sum_list (take (nat (m - 1)) (month_lengths y)) + (d - 1)"

definition date_ok :: "int \<Rightarrow> int \<Rightarrow> int \<Rightarrow> bool" where
  "date_ok y m d \<longleftrightarrow> 1 \<le> y \<and> 1 \<le> m \<and> m \<le> 12 \<and> 1 \<le> d \<and> d \<le> month_lengths y ! nat (m - 1)"

definition parse_date :: "string \<Rightarrow> (int \<times> string) option" where
  "parse_date s = do {
     (y, s) \<leftarrow> field 4 s; s \<leftarrow> sep CHR ''-'' s;
     (m, s) \<leftarrow> field 2 s; s \<leftarrow> sep CHR ''-'' s;
     (d, s) \<leftarrow> field 2 s;
     if date_ok y m d then Some (days_of_date y m d, s) else None }"

definition parse_clock :: "string \<Rightarrow> (int \<times> string) option" where
  "parse_clock s = do {
     (h, s) \<leftarrow> field 2 s; s \<leftarrow> sep CHR '':'' s;
     (m, s) \<leftarrow> field 2 s; s \<leftarrow> sep CHR '':'' s;
     (c, s) \<leftarrow> field 2 s;
     if h < 24 \<and> m < 60 \<and> c < 60 then Some (3600 * h + 60 * m + c, s) else None }"

text \<open>An optional part introduced by \<open>c\<close>; absent, its value is zero.\<close>

definition optional_field :: "char \<Rightarrow> nat \<Rightarrow> string \<Rightarrow> (int \<times> string) option" where
  "optional_field c w s = (case sep c s of None \<Rightarrow> Some (0, s) | Some t \<Rightarrow> field w t)"

definition parse_offset :: "string \<Rightarrow> int option option" where
  "parse_offset s =
    (if s = [] then Some None
     else if s = ''Z'' then Some (Some 0)
     else do {
       (h, t) \<leftarrow> field 2 (tl s); t \<leftarrow> sep CHR '':'' t; (m, t) \<leftarrow> field 2 t;
       (c, t) \<leftarrow> optional_field CHR '':'' 2 t;
       (u, t) \<leftarrow> optional_field CHR ''.'' 6 t;
       let a = 1000000 * (3600 * h + 60 * m + c) + u in
       if t \<noteq> [] \<or> m \<ge> 60 \<or> c \<ge> 60 \<or> a \<ge> us_per_day then None
       else if hd s = CHR ''+'' then Some (Some a)
       else if hd s = CHR ''-'' then Some (Some (- a))
       else None })"

definition fromisoformat :: "string \<Rightarrow> datetime res" where
  "fromisoformat s =
    (case do {
       (n, s) \<leftarrow> parse_date s; s \<leftarrow> sep CHR ''T'' s;
       (c, s) \<leftarrow> parse_clock s;
       (u, s) \<leftarrow> optional_field CHR ''.'' 6 s;
       off \<leftarrow> parse_offset s;
       Some \<lparr>dt_wall = n * us_per_day + 1000000 * c + u, dt_off = off\<rparr> } of
     None \<Rightarrow> Inl ValueError | Some d \<Rightarrow> Inr d)"

section \<open>The round trip\<close>

lemma month_day_inverse:
  assumes "month_day ls m0 n = (m, d)" "0 \<le> n" "n < sum_list ls"
  shows "m0 \<le> m \<and> nat (m - m0) < length ls \<and> 1 \<le> d \<and> d \<le> ls ! nat (m - m0)
    \<and> sum_list (take (nat (m - m0)) ls) + (d - 1) = n"
  using assms
proof (induction ls arbitrary: m0 n)
  case (Cons l ls)
  show ?case
  proof (cases "n < l")
    case True
    with Cons.prems show ?thesis by auto
  next
    case False
    with Cons.prems have "month_day ls (m0 + 1) (n - l) = (m, d)" "0 \<le> n - l" "n - l < sum_list ls"
      by simp_all
    note IH = Cons.IH [OF this]
    then have "nat (m - m0) = Suc (nat (m - (m0 + 1)))" by arith
    with IH show ?thesis by simp
  qed
qed simp

lemma civil_inverse:
  assumes "0 \<le> n" "n < 3652059" "civil n = (y, m, d)"
  shows "date_ok y m d \<and> days_of_date y m d = n"
proof -
  let ?ls = "month_lengths (year_of n)" and ?r = "n - days_before_year (year_of n)"
  have y: "y = year_of n" and md: "month_day ?ls 1 ?r = (m, d)"
    using assms(3) unfolding civil_def by (simp, metis prod.inject)
  have "sum_list ?ls = (if leap (year_of n) then 366 else 365)" by (simp add: month_lengths_def)
  then have "0 \<le> ?r" "?r < sum_list ?ls"
    using year_of_bounds [OF assms(1)] days_before_year_next [of "year_of n"] by auto
  from month_day_inverse [OF md this] year_of_range [OF assms(1,2)] y
  show ?thesis by (auto simp: date_ok_def days_of_date_def month_lengths_def)
qed

lemma parse_date_text:
  assumes "0 \<le> n" "n < 3652059"
  shows "parse_date (date_text n @ r) = Some (n, r)"
proof -
  obtain y m d where c: "civil n = (y, m, d)" by (cases "civil n")
  from civil_inverse [OF assms c] civil_range [OF assms c] show ?thesis
    by (simp add: parse_date_def date_text_def c field_pad)
qed

lemma clock_fields:
  fixes s :: int
  assumes "0 \<le> s" "s < 86400"
  shows "0 \<le> s div 3600 \<and> s div 3600 < 24"
    and "s = 3600 * (s div 3600) + 60 * (s div 60 mod 60) + s mod 60"
proof -
  show "0 \<le> s div 3600 \<and> s div 3600 < 24"
    using assms by (simp add: pos_imp_zdiv_nonneg_iff div_less_iff_less_mult)
  have "s div 60 div 60 = s div 3600" by (simp flip: zdiv_zmult2_eq)
  then show "s = 3600 * (s div 3600) + 60 * (s div 60 mod 60) + s mod 60"
    using mult_div_mod_eq [of 60 s] mult_div_mod_eq [of 60 "s div 60"] by linarith
qed

lemma parse_clock_fields:
  assumes "0 \<le> h" "h < 24" "0 \<le> m" "m < 60" "0 \<le> c" "c < 60"
  shows "parse_clock (pad 2 h @ '':'' @ pad 2 m @ '':'' @ pad 2 c @ r) = Some (3600 * h + 60 * m + c, r)"
  using assms by (simp add: parse_clock_def field_pad)

lemma mod60: "0 \<le> x mod 60" "x mod 60 < 60" for x :: int
  by simp_all

lemma parse_clock_text:
  assumes "0 \<le> s" "s < 86400"
  shows "parse_clock (clock_text s @ r) = Some (s, r)"
  using parse_clock_fields [OF _ _ mod60 mod60, of "s div 3600" "s div 60" s r] clock_fields [OF assms]
  by (metis append.assoc clock_text_def)

lemma optional_field_absent: "r = [] \<or> hd r \<noteq> c \<Longrightarrow> optional_field c w r = Some (0, r)"
  by (cases r) (auto simp: optional_field_def sep_def)

lemma optional_field_pad:
  "0 \<le> u \<Longrightarrow> u < 10 ^ w \<Longrightarrow> optional_field c w (c # pad w u @ r) = Some (u, r)"
  by (simp add: optional_field_def field_pad)

text \<open>A fraction, written only when it is not zero.\<close>

lemma parse_fraction:
  assumes "0 \<le> u" "u < 1000000" "r = [] \<or> hd r \<noteq> CHR ''.''"
  shows "optional_field CHR ''.'' 6 ((if u = 0 then [] else ''.'' @ pad 6 u) @ r) = Some (u, r)"
  using assms optional_field_absent [of r "CHR ''.''" 6] optional_field_pad [of u 6 "CHR ''.''" r] by simp

text \<open>An offset as \<open>isoformat\<close> writes it, by its four fields.\<close>

definition offset_fields :: "bool \<Rightarrow> int \<Rightarrow> int \<Rightarrow> int \<Rightarrow> int \<Rightarrow> string" where
  "offset_fields neg h m c u = (if neg then ''-'' else ''+'') @ pad 2 h @ '':'' @ pad 2 m
     @ (if c = 0 \<and> u = 0 then [] else '':'' @ pad 2 c) @ (if u = 0 then [] else ''.'' @ pad 6 u)"

lemma length_offset_fields: "5 < length (offset_fields neg h m c u)"
  by (simp add: offset_fields_def)

lemma parse_offset_fields:
  assumes "0 \<le> h" "h < 24" "0 \<le> m" "m < 60" "0 \<le> c" "c < 60" "0 \<le> u" "u < 1000000"
  shows "parse_offset (offset_fields neg h m c u) =
    Some (Some (let a = 1000000 * (3600 * h + 60 * m + c) + u in if neg then - a else a))"
proof -
  have day: "1000000 * (3600 * h + 60 * m + c) + u < us_per_day"
    using assms by (simp add: us_per_day_def)
  have frac: "optional_field CHR ''.'' 6 (if u = 0 then [] else ''.'' @ pad 6 u) = Some (u, [])"
    using parse_fraction [OF assms(7,8), of "[]"] by simp
  have secs: "optional_field CHR '':'' 2 ((if c = 0 \<and> u = 0 then [] else '':'' @ pad 2 c) @ t) = Some (c, t)"
    if "t = (if u = 0 then [] else ''.'' @ pad 6 u)" for t
  proof (cases "c = 0 \<and> u = 0")
    case True
    with that show ?thesis using optional_field_absent [of t "CHR '':''" 2] by simp
  next
    case False
    with assms show ?thesis using optional_field_pad [of c 2 "CHR '':''" t] by auto
  qed
  have "offset_fields neg h m c u \<noteq> []" "offset_fields neg h m c u \<noteq> ''Z''"
    using length_offset_fields [of neg h m c u] by auto
  then show ?thesis
    using assms day
    by (simp add: parse_offset_def) (simp add: offset_fields_def field_pad secs frac Let_def)
qed

lemma parse_offset_text:
  assumes "\<bar>off\<bar> < us_per_day"
  shows "parse_offset (offset_text off) = Some (Some off)"
proof -
  let ?a = "\<bar>off\<bar>" let ?s = "?a div 1000000" and ?u = "?a mod 1000000"
  have s: "0 \<le> ?s" "?s < 86400"
    using assms by (simp_all add: pos_imp_zdiv_nonneg_iff div_less_iff_less_mult us_per_day_def)
  have txt_eq: "offset_text off = offset_fields (off < 0) (?s div 3600) (?s div 60 mod 60) (?s mod 60) ?u"
    by (simp add: offset_text_def offset_fields_def Let_def)
  have u: "0 \<le> ?u" "?u < 1000000" by simp_all
  have h: "0 \<le> ?s div 3600" "?s div 3600 < 24" using clock_fields(1) [OF s] by blast+
  have val: "1000000 * (3600 * (?s div 3600) + 60 * (?s div 60 mod 60) + ?s mod 60) + ?u = ?a"
    by (simp only: clock_fields(2) [OF s, symmetric] mult_div_mod_eq)
  show ?thesis
    unfolding txt_eq parse_offset_fields [OF h mod60 mod60 u] val by (simp add: Let_def)
qed

definition wf_datetime :: "datetime \<Rightarrow> bool" where
  "wf_datetime d \<longleftrightarrow> 0 \<le> dt_wall d \<and> dt_wall d < 3652059 * us_per_day \<and>
     (case dt_off d of None \<Rightarrow> True | Some off \<Rightarrow> \<bar>off\<bar> < us_per_day)"

lemma fromisoformat_isoformat:
  assumes "wf_datetime d"
  shows "fromisoformat (isoformat d) = Inr d"
proof -
  let ?w = "dt_wall d" let ?s = "?w div 1000000" and ?u = "?w mod 1000000"
  let ?o = "case dt_off d of None \<Rightarrow> [] | Some off \<Rightarrow> offset_text off"
  have w: "0 \<le> ?w" "?w < 3652059 * us_per_day" using assms by (simp_all add: wf_datetime_def)
  have off: "parse_offset ?o = Some (dt_off d)"
    using assms parse_offset_text
    by (cases "dt_off d") (simp_all add: wf_datetime_def parse_offset_def [of "[]"])
  have o: "?o = [] \<or> hd ?o \<noteq> CHR ''.''" by (auto simp: offset_text_def Let_def split: option.splits)
  have s: "0 \<le> ?s" using w by (simp add: pos_imp_zdiv_nonneg_iff)
  have "?s < 3652059 * 86400" using w(2) by (simp add: us_per_day_def div_less_iff_less_mult)
  then have n: "0 \<le> ?s div 86400" "?s div 86400 < 3652059"
    using s by (simp_all add: pos_imp_zdiv_nonneg_iff div_less_iff_less_mult)
  have c: "0 \<le> ?s mod 86400" "?s mod 86400 < 86400" and u: "0 \<le> ?u" "?u < 1000000" by simp_all
  have wall: "?s div 86400 * us_per_day + 1000000 * (?s mod 86400) + ?u = ?w"
    using mult_div_mod_eq [of 86400 ?s] mult_div_mod_eq [of 1000000 ?w] unfolding us_per_day_def by linarith
  have iso: "isoformat d = date_text (?s div 86400) @ ''T'' @ clock_text (?s mod 86400)
      @ (if ?u = 0 then [] else ''.'' @ pad 6 ?u) @ ?o"
    by (simp add: isoformat_def seconds_text_alt Let_def)
  show ?thesis
    unfolding fromisoformat_def iso
    by (simp only: parse_date_text [OF n] parse_clock_text [OF c] parse_fraction [OF u o, unfolded append.simps] off
        bind.bind_lunit prod.case append.simps sep_Cons if_True simp_thms wall option.case)
      simp
qed

end
