(* ===== verification/HashChain.thy ===== *)
theory HashChain
  imports Canonical Signing IsoParse
begin

text \<open>
  \<open>integrity/chain.py\<close>: hash-chain entries, their canonical input and hash, the appender with its
  compare-and-swap retry loop, and \<open>verify_chain_segment\<close>. A store is given by its two operations;
  both return a result or an exception together with the store afterwards. The locale
  \<open>hash_chain_store\<close> states what the \<open>HashChainStore\<close> protocol promises and carries the appender's
  lemmas. \<open>env\<close> is what other writers do to the store between the appender's own calls.
\<close>

section \<open>Entries and their hashes\<close>

record hash_chain_entry =
  row_id :: string
  tbl :: string
  entity_id :: "string option"
  observed_at :: datetime
  recorded_at :: datetime
  payload_hash :: string
  supersedes :: "string option"
  prior_hash :: string
  hash :: string
  signature :: "string option"

definition GENESIS_PRIOR_HASH :: string where
  "GENESIS_PRIOR_HASH = concat (replicate 32 ''00'')"

definition HASH_SPEC_VERSION :: int where
  "HASH_SPEC_VERSION = 1"

definition compute_payload_hash :: "(rat \<Rightarrow> string) \<Rightarrow> (bytes \<Rightarrow> string) \<Rightarrow> pydict \<Rightarrow> string res" where
  "compute_payload_hash fr sha row_payload =
    rbind (canonical_json fr True (PDict row_payload)) (\<lambda>b. Inr (sha b))"

definition entry_input ::
  "string \<Rightarrow> string \<Rightarrow> string option \<Rightarrow> datetime \<Rightarrow> datetime \<Rightarrow> string \<Rightarrow> string option \<Rightarrow> string \<Rightarrow> pydict" where
  "entry_input rid table entity observed recorded phash sups prior =
    [(''v'', PInt HASH_SPEC_VERSION), (''id'', PStr rid), (''table'', PStr table),
     (''entity'', of_opt_str entity), (''observed_at'', PStr (rfc3339_nanos observed)),
     (''recorded_at'', PStr (rfc3339_nanos recorded)), (''payload_hash'', PStr phash),
     (''supersedes'', of_opt_str sups), (''prior_hash'', PStr prior)]"

definition compute_entry_hash ::
  "(rat \<Rightarrow> string) \<Rightarrow> (bytes \<Rightarrow> string) \<Rightarrow> string \<Rightarrow> string \<Rightarrow> string option \<Rightarrow> datetime \<Rightarrow> datetime \<Rightarrow>
   string \<Rightarrow> string option \<Rightarrow> string \<Rightarrow> string res" where
  "compute_entry_hash fr sha rid table entity observed recorded phash sups prior =
    rbind (canonical_json fr True (PDict (entry_input rid table entity observed recorded phash sups prior)))
      (\<lambda>blob. Inr (sha blob))"

abbreviation hash_of_entry :: "(rat \<Rightarrow> string) \<Rightarrow> (bytes \<Rightarrow> string) \<Rightarrow> hash_chain_entry \<Rightarrow> string res" where
  "hash_of_entry fr sha e \<equiv> compute_entry_hash fr sha (row_id e) (tbl e) (entity_id e)
     (observed_at e) (recorded_at e) (payload_hash e) (supersedes e) (prior_hash e)"

text \<open>The bytes that are hashed.\<close>

definition input_bytes :: "pydict \<Rightarrow> bytes" where
  "input_bytes d = (case canonical_json fraction_text False (PDict d) of Inl _ \<Rightarrow> [] | Inr b \<Rightarrow> b)"

definition entry_bytes :: "hash_chain_entry \<Rightarrow> bytes" where
  "entry_bytes e = input_bytes (entry_input (row_id e) (tbl e) (entity_id e)
     (observed_at e) (recorded_at e) (payload_hash e) (supersedes e) (prior_hash e))"

lemma plain_opt_str [simp]: "plain_val (of_opt_str s)"
  by (cases s) simp_all

lemma plain_entry_input: "plain_val (PDict (entry_input i t e ob re ph su pr))"
  by (simp add: entry_input_def)

lemma canonical_entry_input:
  "canonical_json fr f (PDict (entry_input i t e ob re ph su pr)) = Inr (input_bytes (entry_input i t e ob re ph su pr))"
proof -
  let ?v = "PDict (entry_input i t e ob re ph su pr)"
  have p: "plain_val ?v" by (rule plain_entry_input)
  obtain b where "canonical_json fraction_text False ?v = Inr b" using canonical_json_plain(1) [OF p] by blast
  with canonical_json_plain(2) [OF p, of fr f fraction_text False] show ?thesis
    by (simp add: input_bytes_def)
qed

lemma compute_entry_hash_eq [simp]:
  "compute_entry_hash fr sha i t e ob re ph su pr = Inr (sha (input_bytes (entry_input i t e ob re ph su pr)))"
  by (simp add: compute_entry_hash_def canonical_entry_input)

lemma hash_of_entry_eq: "hash_of_entry fr sha e = Inr (sha (entry_bytes e))"
  by (simp add: entry_bytes_def)

text \<open>The bytes determine every field they cover, the two times as instants.\<close>

lemma of_opt_str_inj: "canon (of_opt_str a) = canon (of_opt_str b) \<longleftrightarrow> a = b"
  by (cases a; cases b) auto

lemma dget_entry_input:
  "dget (entry_input i t e ob re ph su pr) ''id'' = Some (PStr i)"
  "dget (entry_input i t e ob re ph su pr) ''table'' = Some (PStr t)"
  "dget (entry_input i t e ob re ph su pr) ''entity'' = Some (of_opt_str e)"
  "dget (entry_input i t e ob re ph su pr) ''observed_at'' = Some (PStr (rfc3339_nanos ob))"
  "dget (entry_input i t e ob re ph su pr) ''recorded_at'' = Some (PStr (rfc3339_nanos re))"
  "dget (entry_input i t e ob re ph su pr) ''payload_hash'' = Some (PStr ph)"
  "dget (entry_input i t e ob re ph su pr) ''supersedes'' = Some (of_opt_str su)"
  "dget (entry_input i t e ob re ph su pr) ''prior_hash'' = Some (PStr pr)"
  by (simp_all add: entry_input_def)

lemma entry_input_inj:
  assumes "input_bytes (entry_input i t e ob re ph su pr) = input_bytes (entry_input i' t' e' ob' re' ph' su' pr')"
    and "in_range ob" "in_range ob'" "in_range re" "in_range re'"
  shows "i = i'" "t = t'" "e = e'" "instant ob = instant ob'" "instant re = instant re'"
    "ph = ph'" "su = su'" "pr = pr'"
proof -
  let ?d = "entry_input i t e ob re ph su pr" and ?d' = "entry_input i' t' e' ob' re' ph' su' pr'"
  have "canon (PDict ?d) = canon (PDict ?d')"
    using canonical_json_strict_iff [OF fraction_text_ok canonical_entry_input [of fraction_text False i t e ob re ph su pr],
        of "PDict ?d'"]
      assms(1) by (simp add: canonical_entry_input)
  moreover have "distinct (dkeys ?d)" "distinct (dkeys ?d')" by (simp_all add: entry_input_def)
  ultimately have get: "map_option canon (dget ?d k) = map_option canon (dget ?d' k)" for k
    by (rule canon_dict_get)
  note str = dget_entry_input option.map canon.simps option.inject pyval.inject of_opt_str_inj
  show "i = i'" using get [of "''id''"] by (simp only: str)
  show "t = t'" using get [of "''table''"] by (simp only: str)
  show "e = e'" using get [of "''entity''"] by (simp only: str)
  show "ph = ph'" using get [of "''payload_hash''"] by (simp only: str)
  show "su = su'" using get [of "''supersedes''"] by (simp only: str)
  show "pr = pr'" using get [of "''prior_hash''"] by (simp only: str)
  show "instant ob = instant ob'"
    using get [of "''observed_at''"] assms(2,3) by (simp only: str) (rule rfc3339_nanos_inj)
  show "instant re = instant re'"
    using get [of "''recorded_at''"] assms(4,5) by (simp only: str) (rule rfc3339_nanos_inj)
qed

definition same_content :: "hash_chain_entry \<Rightarrow> hash_chain_entry \<Rightarrow> bool" where
  "same_content e e' \<longleftrightarrow> row_id e = row_id e' \<and> tbl e = tbl e' \<and> entity_id e = entity_id e' \<and>
     instant (observed_at e) = instant (observed_at e') \<and> instant (recorded_at e) = instant (recorded_at e') \<and>
     payload_hash e = payload_hash e' \<and> supersedes e = supersedes e' \<and> prior_hash e = prior_hash e' \<and>
     hash e = hash e'"

definition entry_in_range :: "hash_chain_entry \<Rightarrow> bool" where
  "entry_in_range e \<longleftrightarrow> in_range (observed_at e) \<and> in_range (recorded_at e)"

lemma entry_bytes_inj:
  assumes "entry_bytes e = entry_bytes e'" "entry_in_range e" "entry_in_range e'" "hash e = hash e'"
  shows "same_content e e'"
proof -
  note inj = entry_input_inj [OF assms(1) [unfolded entry_bytes_def]]
  from assms(2,3) have r: "in_range (observed_at e)" "in_range (observed_at e')"
    "in_range (recorded_at e)" "in_range (recorded_at e')" by (simp_all add: entry_in_range_def)
  show ?thesis unfolding same_content_def using inj [OF r] assms(4) by simp
qed

section \<open>Verification\<close>

fun verify_chain_segment ::
  "(rat \<Rightarrow> string) \<Rightarrow> (bytes \<Rightarrow> string) \<Rightarrow> hash_chain_entry list \<Rightarrow> string \<Rightarrow> (bool \<times> string option) res" where
  "verify_chain_segment fr sha [] expected = Inr (True, None)"
| "verify_chain_segment fr sha (e # es) expected =
    (if prior_hash e \<noteq> expected then Inr (False, Some (row_id e))
     else rbind (hash_of_entry fr sha e) (\<lambda>recomputed.
       if recomputed \<noteq> hash e then Inr (False, Some (row_id e))
       else verify_chain_segment fr sha es (hash e)))"

definition valid_hash :: "(bytes \<Rightarrow> string) \<Rightarrow> hash_chain_entry \<Rightarrow> bool" where
  "valid_hash sha e \<longleftrightarrow> hash e = sha (entry_bytes e)"

lemma verify_Cons:
  "verify_chain_segment fr sha (e # es) p =
    (if prior_hash e = p \<and> valid_hash sha e then verify_chain_segment fr sha es (hash e)
     else Inr (False, Some (row_id e)))"
  by (simp add: valid_hash_def entry_bytes_def)

declare verify_chain_segment.simps(2) [simp del]
declare verify_Cons [simp]

definition end_hash :: "string \<Rightarrow> hash_chain_entry list \<Rightarrow> string" where
  "end_hash p es = (if es = [] then p else hash (last es))"

lemma end_hash_simps [simp]: "end_hash p [] = p" "end_hash p (es @ [e]) = hash e"
  "end_hash p (e # es) = end_hash (hash e) es"
  by (auto simp: end_hash_def)

lemma verify_append:
  "verify_chain_segment fr sha (xs @ ys) p =
    (if verify_chain_segment fr sha xs p = Inr (True, None)
     then verify_chain_segment fr sha ys (end_hash p xs) else verify_chain_segment fr sha xs p)"
  by (induction xs arbitrary: p) auto

text \<open>The result names the first entry that breaks the chain.\<close>

lemma verify_total:
  "verify_chain_segment fr sha es p = Inr (True, None) \<or>
   (\<exists>xs e ys. es = xs @ e # ys \<and> verify_chain_segment fr sha xs p = Inr (True, None) \<and>
      (prior_hash e \<noteq> end_hash p xs \<or> \<not> valid_hash sha e) \<and>
      verify_chain_segment fr sha es p = Inr (False, Some (row_id e)))"
proof (induction es arbitrary: p)
  case (Cons e es)
  show ?case
  proof (cases "prior_hash e = p \<and> valid_hash sha e")
    case True
    show ?thesis
    proof (cases "verify_chain_segment fr sha es (hash e) = Inr (True, None)")
      case False
      with Cons.IH [of "hash e"] obtain xs e' ys where
        *: "es = xs @ e' # ys" "verify_chain_segment fr sha xs (hash e) = Inr (True, None)"
        "prior_hash e' \<noteq> end_hash (hash e) xs \<or> \<not> valid_hash sha e'"
        "verify_chain_segment fr sha es (hash e) = Inr (False, Some (row_id e'))" by metis
      show ?thesis
        by (rule disjI2, rule exI [of _ "e # xs"], rule exI [of _ e'], rule exI [of _ ys])
          (use * True in auto)
    qed (use True in simp)
  next
    case False
    then show ?thesis
      by (intro disjI2 exI [of _ "[]"] exI [of _ e] exI [of _ es]) auto
  qed
qed simp

text \<open>Two segments of the same length that verify and end in the same hash have the same content,
  unless the hash function collides on two of their inputs.\<close>

lemma verify_same_end:
  assumes "verify_chain_segment fr sha es p = Inr (True, None)"
    "verify_chain_segment fr sha es' p' = Inr (True, None)"
    "length es = length es'" "end_hash p es = end_hash p' es'"
    "\<forall>e\<in>set es \<union> set es'. entry_in_range e"
    "\<forall>e\<in>set es. \<forall>e'\<in>set es'. sha (entry_bytes e) = sha (entry_bytes e') \<longrightarrow> entry_bytes e = entry_bytes e'"
  shows "list_all2 same_content es es' \<and> p = p'"
  using assms
proof (induction es arbitrary: es' rule: rev_induct)
  case (snoc x xs)
  then obtain ys y where es': "es' = ys @ [y]"
    by (metis length_0_conv rev_exhaust snoc_eq_iff_butlast)
  from snoc.prems(1,2) have xs: "verify_chain_segment fr sha xs p = Inr (True, None)"
    "prior_hash x = end_hash p xs" "valid_hash sha x"
    and ys: "verify_chain_segment fr sha ys p' = Inr (True, None)"
    "prior_hash y = end_hash p' ys" "valid_hash sha y"
    unfolding es' by (auto simp: verify_append split: if_splits)
  have h: "hash x = hash y" using snoc.prems(4) es' by simp
  then have "entry_bytes x = entry_bytes y"
    using xs(3) ys(3) snoc.prems(6) es' by (auto simp: valid_hash_def)
  then have same: "same_content x y"
    using h snoc.prems(5) es' by (intro entry_bytes_inj) auto
  then have "end_hash p xs = end_hash p' ys" using xs(2) ys(2) by (simp add: same_content_def)
  then have "list_all2 same_content xs ys \<and> p = p'"
    using snoc.prems es' xs ys by (intro snoc.IH) auto
  with same es' show ?case by (simp add: list_all2_appendI)
qed simp

text \<open>Without a condition on the lengths: the entries of the common length, counted from the end, agree,
  and the hash the longer segment has reached there is the prior hash of the shorter one.\<close>

definition overhang :: "'a list \<Rightarrow> 'b list \<Rightarrow> nat" where
  "overhang xs ys = length xs - length ys"

lemma verify_drop:
  "verify_chain_segment fr sha es p = Inr (True, None) \<Longrightarrow>
   verify_chain_segment fr sha (drop n es) (end_hash p (take n es)) = Inr (True, None)"
  using verify_append [of fr sha "take n es" "drop n es" p] by (simp split: if_splits)

lemma end_hash_drop: "end_hash (end_hash p (take n es)) (drop n es) = end_hash p es"
proof (cases "drop n es = []")
  case False
  then have "es \<noteq> []" by auto
  with False show ?thesis by (simp add: end_hash_def)
qed (simp add: end_hash_def)

lemma verify_common_end:
  assumes "verify_chain_segment fr sha es p = Inr (True, None)"
    "verify_chain_segment fr sha es' p' = Inr (True, None)"
    "end_hash p es = end_hash p' es'"
    "\<forall>e\<in>set es \<union> set es'. entry_in_range e"
    "\<forall>e\<in>set es. \<forall>e'\<in>set es'. sha (entry_bytes e) = sha (entry_bytes e') \<longrightarrow> entry_bytes e = entry_bytes e'"
  shows "list_all2 same_content (drop (overhang es es') es) (drop (overhang es' es) es') \<and>
    end_hash p (take (overhang es es') es) = end_hash p' (take (overhang es' es) es')"
  using verify_drop [OF assms(1), of "overhang es es'"] verify_drop [OF assms(2), of "overhang es' es"]
    assms(3-5)
  by (intro verify_same_end [where fr = fr and sha = sha]) (auto simp: end_hash_drop overhang_def dest: in_set_dropD)

section \<open>What a store promises\<close>

definition in_segment :: "string \<Rightarrow> string option \<Rightarrow> hash_chain_entry \<Rightarrow> bool" where
  "in_segment table entity e \<longleftrightarrow> tbl e = table \<and> (entity = None \<or> entity_id e = entity)"

text \<open>The specification of the tail: the hash of the most recent entry of the segment.\<close>

definition tail_of :: "hash_chain_entry list \<Rightarrow> string \<Rightarrow> string option \<Rightarrow> string" where
  "tail_of es table entity = end_hash GENESIS_PRIOR_HASH (filter (in_segment table entity) es)"

lemma tail_of_Nil [simp]: "tail_of [] t e = GENESIS_PRIOR_HASH"
  by (simp add: tail_of_def)

lemma tail_of_snoc [simp]:
  "tail_of (es @ [x]) t e = (if in_segment t e x then hash x else tail_of es t e)"
  by (simp add: tail_of_def)

text \<open>\<open>chained\<close>: every entry was linked to the tail of its own segment when it was appended.\<close>

inductive chained :: "(bytes \<Rightarrow> string) \<Rightarrow> hash_chain_entry list \<Rightarrow> bool" for sha where
  chained_Nil: "chained sha []"
| chained_snoc: "chained sha es \<Longrightarrow> prior_hash x = tail_of es (tbl x) (entity_id x) \<Longrightarrow>
    valid_hash sha x \<Longrightarrow> chained sha (es @ [x])"

inductive_simps chained_Nil_iff [simp]: "chained sha []"

inductive_cases chained_elim: "chained sha es"

lemma chained_snoc_iff [simp]:
  "chained sha (es @ [x]) \<longleftrightarrow>
     chained sha es \<and> prior_hash x = tail_of es (tbl x) (entity_id x) \<and> valid_hash sha x"
  by (auto intro: chained_snoc elim: chained_elim)

lemma chained_prefix: "chained sha (es @ xs) \<Longrightarrow> chained sha es"
  by (induction xs rule: rev_induct) (auto simp flip: append_assoc)

text \<open>Every partition of a chained store verifies from genesis.\<close>

lemma chained_partition_verifies:
  "chained sha es \<Longrightarrow>
   verify_chain_segment fr sha (filter (in_segment t (Some e)) es) GENESIS_PRIOR_HASH = Inr (True, None)"
proof (induction rule: chained.induct)
  case (chained_snoc es x)
  then show ?case
    by (cases "in_segment t (Some e) x") (auto simp: verify_append tail_of_def in_segment_def [of _ _ x])
qed simp

text \<open>So does a whole table none of whose entries names a partition.\<close>

lemma chained_table_verifies:
  "chained sha es \<Longrightarrow> \<forall>x\<in>set es. tbl x = t \<longrightarrow> entity_id x = None \<Longrightarrow>
   verify_chain_segment fr sha (filter (in_segment t None) es) GENESIS_PRIOR_HASH = Inr (True, None)"
proof (induction rule: chained.induct)
  case (chained_snoc es x)
  then show ?case
    by (cases "in_segment t None x") (auto simp: verify_append tail_of_def in_segment_def [of _ _ x])
qed simp

section \<open>The appender\<close>

text \<open>Signing happens when a non-empty key was given; its errors are \<open>sign_digest\<close>'s.\<close>

definition make_signature :: "(bytes \<Rightarrow> bytes \<Rightarrow> bytes) \<Rightarrow> bytes option \<Rightarrow> string \<Rightarrow> string option res" where
  "make_signature sign key h = (case key of None \<Rightarrow> Inr None
     | Some k \<Rightarrow> if k = [] then Inr None else rbind (sign_digest sign k h) (\<lambda>s. Inr (Some s)))"

definition make_entry ::
  "(rat \<Rightarrow> string) \<Rightarrow> (bytes \<Rightarrow> string) \<Rightarrow> (bytes \<Rightarrow> bytes \<Rightarrow> bytes) \<Rightarrow> bytes option \<Rightarrow>
   string \<Rightarrow> string \<Rightarrow> string option \<Rightarrow> datetime \<Rightarrow> datetime \<Rightarrow> string \<Rightarrow> string option \<Rightarrow> string \<Rightarrow>
   hash_chain_entry res" where
  "make_entry fr sha sign key table rid entity observed recorded phash sups prior =
    rbind (compute_entry_hash fr sha rid table entity observed recorded phash sups prior) (\<lambda>h.
      rbind (make_signature sign key h) (\<lambda>sg.
        Inr \<lparr>row_id = rid, tbl = table, entity_id = entity, observed_at = observed,
             recorded_at = recorded, payload_hash = phash, supersedes = sups,
             prior_hash = prior, hash = h, signature = sg\<rparr>))"

text \<open>The retry loop. \<open>left\<close> attempts remain; other writers act before the read (\<open>env (2 * k)\<close>)
  and between the read and the append (\<open>env (2 * k + 1)\<close>) of attempt \<open>k\<close>. With no attempt allowed the
  code's \<open>assert\<close> fails.\<close>

fun append_loop ::
  "('s \<Rightarrow> string \<Rightarrow> string option \<Rightarrow> string res \<times> 's) \<Rightarrow> ('s \<Rightarrow> hash_chain_entry \<Rightarrow> unit res \<times> 's) \<Rightarrow>
   (nat \<Rightarrow> 's \<Rightarrow> 's) \<Rightarrow> (string \<Rightarrow> hash_chain_entry res) \<Rightarrow> string \<Rightarrow> string option \<Rightarrow>
   nat \<Rightarrow> nat \<Rightarrow> bool \<Rightarrow> 's \<Rightarrow> hash_chain_entry res \<times> 's" where
  "append_loop last_hash put env mk table entity 0 k conflict s =
    (Inl (if conflict then ChainConflictError else RaisedBy ''AssertionError''), s)"
| "append_loop last_hash put env mk table entity (Suc left) k conflict s =
    (case last_hash (env (2 * k) s) table entity of
       (Inl e, s1) \<Rightarrow> (Inl e, s1)
     | (Inr prior, s1) \<Rightarrow>
         (case mk prior of
            Inl e \<Rightarrow> (Inl e, s1)
          | Inr entry \<Rightarrow>
              (case put (env (2 * k + 1) s1) entry of
                 (Inr _, s2) \<Rightarrow> (Inr entry, s2)
               | (Inl e, s2) \<Rightarrow>
                   if e = ChainConflictError
                   then append_loop last_hash put env mk table entity left (Suc k) True s2
                   else (Inl e, s2))))"

definition append_row ::
  "(rat \<Rightarrow> string) \<Rightarrow> (bytes \<Rightarrow> string) \<Rightarrow> (bytes \<Rightarrow> bytes \<Rightarrow> bytes) \<Rightarrow>
   ('s \<Rightarrow> string \<Rightarrow> string option \<Rightarrow> string res \<times> 's) \<Rightarrow> ('s \<Rightarrow> hash_chain_entry \<Rightarrow> unit res \<times> 's) \<Rightarrow>
   (nat \<Rightarrow> 's \<Rightarrow> 's) \<Rightarrow> bytes option \<Rightarrow> string \<Rightarrow> string \<Rightarrow> string option \<Rightarrow> datetime \<Rightarrow> datetime \<Rightarrow>
   pydict \<Rightarrow> string option \<Rightarrow> nat \<Rightarrow> 's \<Rightarrow> hash_chain_entry res \<times> 's" where
  "append_row fr sha sign last_hash put env key table rid entity observed recorded payload sups attempts s =
    (case compute_payload_hash fr sha payload of
       Inl e \<Rightarrow> (Inl e, s)
     | Inr phash \<Rightarrow> append_loop last_hash put env
         (make_entry fr sha sign key table rid entity observed recorded phash sups)
         table entity attempts 0 False s)"

lemma make_entry_fields:
  assumes "make_entry fr sha sign key table rid entity ob re ph su prior = Inr e"
  shows "row_id e = rid" "tbl e = table" "entity_id e = entity" "observed_at e = ob" "recorded_at e = re"
    "payload_hash e = ph" "supersedes e = su" "prior_hash e = prior" "valid_hash sha e"
  using assms by (auto simp: make_entry_def rbind_Inr_iff valid_hash_def entry_bytes_def)

text \<open>What is assumed of other writers: they keep the invariant and only extend the store, by chained
  appends. \<open>mk\<close> builds, for a given prior hash, an entry of the segment with a valid hash.\<close>

definition other_writers ::
  "(bytes \<Rightarrow> string) \<Rightarrow> ('s \<Rightarrow> hash_chain_entry list) \<Rightarrow> ('s \<Rightarrow> bool) \<Rightarrow> (nat \<Rightarrow> 's \<Rightarrow> 's) \<Rightarrow> bool" where
  "other_writers sha entries invar env \<longleftrightarrow> (\<forall>k s. invar s \<longrightarrow> invar (env k s) \<and>
     (\<exists>xs. entries (env k s) = entries s @ xs) \<and>
     (chained sha (entries s) \<longrightarrow> chained sha (entries (env k s))))"

definition builds ::
  "(bytes \<Rightarrow> string) \<Rightarrow> (hash_chain_entry \<Rightarrow> bool) \<Rightarrow> (string \<Rightarrow> hash_chain_entry res) \<Rightarrow>
   string \<Rightarrow> string option \<Rightarrow> bool" where
  "builds sha storable mk t e \<longleftrightarrow> (\<forall>p x. mk p = Inr x \<longrightarrow>
     storable x \<and> tbl x = t \<and> entity_id x = e \<and> prior_hash x = p \<and> valid_hash sha x)"

lemma other_writersD:
  assumes "other_writers sha entries invar env" "invar s"
  shows "invar (env k s)" "\<exists>xs. entries (env k s) = entries s @ xs"
    "chained sha (entries s) \<Longrightarrow> chained sha (entries (env k s))"
  using assms unfolding other_writers_def by blast+

lemma make_entry_builds:
  assumes "\<And>x. observed_at x = ob \<Longrightarrow> recorded_at x = re \<Longrightarrow> storable x"
  shows "builds sha storable (make_entry fr sha sign key t i e ob re ph su) t e"
  unfolding builds_def using make_entry_fields assms by metis

text \<open>The protocol: \<open>entries\<close> is what the store holds, oldest first; \<open>storable\<close> restricts the
  entries it can represent. An append whose prior hash is the segment's tail is kept at the end; any
  other is refused and changes nothing.\<close>

locale hash_chain_store =
  fixes last_hash :: "'s \<Rightarrow> string \<Rightarrow> string option \<Rightarrow> string res \<times> 's"
    and append_entry :: "'s \<Rightarrow> hash_chain_entry \<Rightarrow> unit res \<times> 's"
    and entries :: "'s \<Rightarrow> hash_chain_entry list"
    and invar :: "'s \<Rightarrow> bool"
    and storable :: "hash_chain_entry \<Rightarrow> bool"
  assumes last_hash_law: "invar s \<Longrightarrow>
      \<exists>s'. last_hash s t e = (Inr (tail_of (entries s) t e), s') \<and> entries s' = entries s \<and> invar s'"
    and append_law: "invar s \<Longrightarrow> storable x \<Longrightarrow> prior_hash x = tail_of (entries s) (tbl x) (entity_id x) \<Longrightarrow>
      \<exists>s'. append_entry s x = (Inr (), s') \<and> entries s' = entries s @ [x] \<and> invar s'"
    and conflict_law: "invar s \<Longrightarrow> storable x \<Longrightarrow> prior_hash x \<noteq> tail_of (entries s) (tbl x) (entity_id x) \<Longrightarrow>
      \<exists>s'. append_entry s x = (Inl ChainConflictError, s') \<and> entries s' = entries s \<and> invar s'"
begin

text \<open>One attempt: the append succeeds exactly when nobody moved the tail after the read.\<close>

lemma attempt:
  assumes "other_writers sha entries invar env" "invar s" "mk (tail_of (entries sr) t e) = Inr x"
    "storable x" "tbl x = t" "entity_id x = e" "prior_hash x = tail_of (entries sr) t e"
    and sr_eq: "sr = env (2 * k) s"
  shows "\<exists>s1 s2. invar s1 \<and> entries s1 = entries sr \<and> invar s2 \<and>
    (if tail_of (entries (env (2 * k + 1) s1)) t e = tail_of (entries s1) t e
     then append_loop last_hash append_entry env mk t e (Suc left) k c s = (Inr x, s2) \<and>
       entries s2 = entries (env (2 * k + 1) s1) @ [x]
     else append_loop last_hash append_entry env mk t e (Suc left) k c s =
         append_loop last_hash append_entry env mk t e left (Suc k) True s2 \<and>
       entries s2 = entries (env (2 * k + 1) s1))"
proof -
    have inv0: "invar sr" unfolding sr_eq using other_writersD(1) [OF assms(1,2)] .
  from last_hash_law [OF this, of t e] obtain s1 where s1: "last_hash sr t e = (Inr (tail_of (entries sr) t e), s1)"
    "entries s1 = entries sr" "invar s1" by blast
  let ?s1 = "env (2 * k + 1) s1"
  have inv1: "invar ?s1" using other_writersD(1) [OF assms(1) s1(3)] .
  show ?thesis
  proof (cases "tail_of (entries ?s1) t e = tail_of (entries s1) t e")
    case True
    then have "prior_hash x = tail_of (entries ?s1) (tbl x) (entity_id x)" using assms(5-7) s1(2) by simp
    from append_law [OF inv1 assms(4) this] obtain s2 where
      "append_entry ?s1 x = (Inr (), s2)" "entries s2 = entries ?s1 @ [x]" "invar s2" by blast
    with True s1 assms(3) sr_eq show ?thesis by (intro exI [of _ s1] exI [of _ s2]) simp
  next
    case False
    then have "prior_hash x \<noteq> tail_of (entries ?s1) (tbl x) (entity_id x)" using assms(5-7) s1(2) by simp
    from conflict_law [OF inv1 assms(4) this] obtain s2 where
      "append_entry ?s1 x = (Inl ChainConflictError, s2)" "entries s2 = entries ?s1" "invar s2" by blast
    with False s1 assms(3) sr_eq show ?thesis by (intro exI [of _ s1] exI [of _ s2]) simp
  qed
qed

lemma append_loop_safe:
  assumes env: "other_writers sha entries invar env" and mk: "builds sha storable mk t e"
  shows "invar s \<Longrightarrow> append_loop last_hash append_entry env mk t e left k c s = (r, s') \<Longrightarrow>
    invar s' \<and> (chained sha (entries s) \<longrightarrow> chained sha (entries s')) \<and>
    (\<exists>xs. entries s' = entries s @ xs) \<and>
    (case r of Inl _ \<Rightarrow> True
     | Inr x \<Rightarrow> \<exists>es. entries s' = es @ [x] \<and> prior_hash x = tail_of es t e \<and> valid_hash sha x)"
proof (induction left arbitrary: k c s)
  case (Suc left)
  let ?s0 = "env (2 * k) s"
  obtain xs0 where inv0: "invar ?s0" and xs0: "entries ?s0 = entries s @ xs0"
    using other_writersD(1,2) [OF env Suc.prems(1)] by metis
  show ?case
  proof (cases "mk (tail_of (entries ?s0) t e)")
    case (Inl err)
    from last_hash_law [OF inv0, of t e] obtain s1 where
      s1: "last_hash ?s0 t e = (Inr (tail_of (entries ?s0) t e), s1)" "entries s1 = entries ?s0" "invar s1" by blast
    with Inl Suc.prems(2) have "r = Inl err" "s' = s1" by simp_all
    with s1 xs0 other_writersD(3) [OF env Suc.prems(1), of "2 * k"] show ?thesis by simp
  next
    case (Inr x)
    then have x: "storable x" "tbl x = t" "entity_id x = e" "prior_hash x = tail_of (entries ?s0) t e"
      "valid_hash sha x" using mk unfolding builds_def by blast+
    obtain s1 s2 where s: "invar s1" "entries s1 = entries ?s0" "invar s2"
      "if tail_of (entries (env (2 * k + 1) s1)) t e = tail_of (entries s1) t e
       then append_loop last_hash append_entry env mk t e (Suc left) k c s = (Inr x, s2) \<and>
         entries s2 = entries (env (2 * k + 1) s1) @ [x]
       else append_loop last_hash append_entry env mk t e (Suc left) k c s =
           append_loop last_hash append_entry env mk t e left (Suc k) True s2 \<and>
         entries s2 = entries (env (2 * k + 1) s1)"
      using attempt [where sr = "env (2 * k) s" and mk = mk and t = t and e = e, OF env Suc.prems(1) Inr x(1-4) refl]
      by blast
    let ?s1 = "env (2 * k + 1) s1"
    obtain xs1 where xs1: "entries ?s1 = entries s @ xs0 @ xs1"
      using other_writersD(2) [OF env s(1), of "2 * k + 1"] s(2) xs0 by auto
    have ch: "chained sha (entries s) \<Longrightarrow> chained sha (entries ?s1)"
      using other_writersD(3) [OF env Suc.prems(1), of "2 * k"] other_writersD(3) [OF env s(1), of "2 * k + 1"] s(2) by simp
    show ?thesis
    proof (cases "tail_of (entries ?s1) t e = tail_of (entries s1) t e")
      case True
      with s(4) Suc.prems(2) have "r = Inr x" "s' = s2" "entries s2 = entries ?s1 @ [x]" by simp_all
      with x s(2,3) ch xs1 True chained_snoc_iff [of sha "entries s @ xs0 @ xs1" x] show ?thesis
        by simp
    next
      case False
      with s(4) Suc.prems(2)
      have "append_loop last_hash append_entry env mk t e left (Suc k) True s2 = (r, s')"
        and e2: "entries s2 = entries ?s1" by simp_all
      from Suc.IH [OF s(3) this(1)] e2 ch xs1 show ?thesis by auto
    qed
  qed
qed auto

text \<open>With nobody else writing, the first attempt succeeds.\<close>

lemma append_loop_quiet:
  assumes "invar s" "mk (tail_of (entries s) t e) = Inr x" "builds sha storable mk t e"
  shows "\<exists>s'. append_loop last_hash append_entry (\<lambda>_ s. s) mk t e (Suc left) k c s = (Inr x, s') \<and>
    entries s' = entries s @ [x] \<and> invar s'"
proof -
  have env: "other_writers sha entries invar (\<lambda>_ s. s)" unfolding other_writers_def by auto
  have "storable x" "tbl x = t" "entity_id x = e" "prior_hash x = tail_of (entries s) t e"
    using assms(2,3) unfolding builds_def by blast+
  from attempt [where sr = s and mk = mk and t = t and e = e and k = k, OF env assms(1,2) this refl, of left c] show ?thesis by auto
qed

text \<open>If every attempt loses the race, the appender gives up with the conflict and has written
  nothing itself.\<close>

lemma append_loop_contended:
  assumes env: "other_writers sha entries invar env" and mk: "builds sha storable mk t e" "\<And>p. \<exists>x. mk p = Inr x"
    and lost: "\<And>k s. invar s \<Longrightarrow> tail_of (entries (env (2 * k + 1) s)) t e \<noteq> tail_of (entries s) t e"
  shows "invar s \<Longrightarrow> 0 < left \<or> c \<Longrightarrow>
    fst (append_loop last_hash append_entry env mk t e left k c s) = Inl ChainConflictError"
proof (induction left arbitrary: k c s)
  case (Suc left)
  obtain x where x: "mk (tail_of (entries (env (2 * k) s)) t e) = Inr x" using mk(2) by blast
  then have "storable x" "tbl x = t" "entity_id x = e" "prior_hash x = tail_of (entries (env (2 * k) s)) t e"
    using mk(1) unfolding builds_def by blast+
  from attempt [where sr = "env (2 * k) s" and mk = mk and t = t and e = e,
      OF env Suc.prems(1) x this refl, of left c] lost Suc.IH show ?case by metis
qed simp

text \<open>The appender as a whole.\<close>

lemma append_row_safe:
  assumes "append_row fr sha sign last_hash append_entry env key t rid e ob re payload su n s = (r, s')"
    and "other_writers sha entries invar env" "invar s" "chained sha (entries s)"
    and "\<And>x. observed_at x = ob \<Longrightarrow> recorded_at x = re \<Longrightarrow> storable x"
  shows "invar s' \<and> chained sha (entries s') \<and> (\<exists>xs. entries s' = entries s @ xs) \<and>
    (case r of Inl _ \<Rightarrow> True
     | Inr x \<Rightarrow> \<exists>es. entries s' = es @ [x] \<and> prior_hash x = tail_of es t e \<and> valid_hash sha x)"
proof (cases "compute_payload_hash fr sha payload")
  case (Inr ph)
  then show ?thesis
    using append_loop_safe [OF assms(2) make_entry_builds assms(3), OF assms(5)] assms(1,4)
    by (simp add: append_row_def)
qed (use assms in \<open>auto simp: append_row_def\<close>)

lemma append_row_alone:
  assumes "invar s" "compute_payload_hash fr sha payload = Inr ph" "0 < n"
    and "\<And>x. observed_at x = ob \<Longrightarrow> recorded_at x = re \<Longrightarrow> storable x"
    and "make_entry fr sha sign key t rid e ob re ph su (tail_of (entries s) t e) = Inr x"
  shows "\<exists>s'. append_row fr sha sign last_hash append_entry (\<lambda>_ s. s) key t rid e ob re payload su n s
      = (Inr x, s') \<and> entries s' = entries s @ [x] \<and> invar s'"
  using append_loop_quiet [OF assms(1,5) make_entry_builds, OF assms(4), of "n - 1" 0 False] assms(2,3)
  by (cases n) (auto simp: append_row_def)

end

section \<open>Sequences of store calls\<close>

datatype chain_call = ReadTail string "string option" | Append hash_chain_entry

datatype chain_reply = Tail "string res" | Appended "unit res"

fun run_calls ::
  "('s \<Rightarrow> string \<Rightarrow> string option \<Rightarrow> string res \<times> 's) \<Rightarrow> ('s \<Rightarrow> hash_chain_entry \<Rightarrow> unit res \<times> 's) \<Rightarrow>
   chain_call list \<Rightarrow> 's \<Rightarrow> chain_reply list \<times> 's" where
  "run_calls last_hash put [] s = ([], s)"
| "run_calls last_hash put (ReadTail t e # cs) s = (case last_hash s t e of (r, s1) \<Rightarrow>
     (case run_calls last_hash put cs s1 of (rs, s2) \<Rightarrow> (Tail r # rs, s2)))"
| "run_calls last_hash put (Append x # cs) s = (case put s x of (r, s1) \<Rightarrow>
     (case run_calls last_hash put cs s1 of (rs, s2) \<Rightarrow> (Appended r # rs, s2)))"

end
