(* ===== verification/ChainStores.thy ===== *)
theory ChainStores
  imports HashChain
begin

text \<open>
  \<open>integrity/stores.py\<close>: the in-memory store and the JSONL file store, each an interpretation of
  \<open>hash_chain_store\<close>. A store operation holds its lock from beginning to end, so it is one step. The
  file is a sequence of lines, a line what \<open>json.loads\<close> makes of it; the byte offset of the code is
  counted here in lines. Opening, locking and syncing the file are not modelled.
\<close>

section \<open>The in-memory store\<close>

type_synonym memory_chain = "hash_chain_entry list"

definition mem_tail :: "memory_chain \<Rightarrow> string \<Rightarrow> string option \<Rightarrow> string" where
  "mem_tail es table entity =
    (case List.find (\<lambda>e. \<not> (tbl e \<noteq> table) \<and> \<not> (entity \<noteq> None \<and> entity_id e \<noteq> entity)) (rev es) of
       None \<Rightarrow> GENESIS_PRIOR_HASH | Some e \<Rightarrow> hash e)"

definition mem_append :: "memory_chain \<Rightarrow> hash_chain_entry \<Rightarrow> unit res \<times> memory_chain" where
  "mem_append es e =
    (if prior_hash e \<noteq> mem_tail es (tbl e) (entity_id e) then (Inl ChainConflictError, es)
     else (Inr (), es @ [e]))"

definition mem_last_entry_hash :: "memory_chain \<Rightarrow> string \<Rightarrow> string option \<Rightarrow> string res \<times> memory_chain" where
  "mem_last_entry_hash es table entity = (Inr (mem_tail es table entity), es)"

definition mem_entries_for :: "memory_chain \<Rightarrow> string \<Rightarrow> string option \<Rightarrow> hash_chain_entry list" where
  "mem_entries_for es table entity =
    filter (\<lambda>e. tbl e = table \<and> (entity = None \<or> entity_id e = entity)) es"

lemma mem_tail_eq: "mem_tail es t e = tail_of es t e"
proof (induction es rule: rev_induct)
  case (snoc x es)
  then show ?case by (auto simp: mem_tail_def in_segment_def)
qed (simp add: mem_tail_def)

lemma mem_entries_for_eq: "mem_entries_for es t e = filter (in_segment t e) es"
  unfolding mem_entries_for_def by (rule filter_cong) (auto simp: in_segment_def)

interpretation mem: hash_chain_store mem_last_entry_hash mem_append "\<lambda>es. es" "\<lambda>_. True" "\<lambda>_. True"
  by unfold_locales (auto simp: mem_last_entry_hash_def mem_append_def mem_tail_eq)

section \<open>Entries as JSON objects\<close>

definition entry_to_dict :: "hash_chain_entry \<Rightarrow> pydict" where
  "entry_to_dict e =
    [(''row_id'', PStr (row_id e)), (''table'', PStr (tbl e)), (''entity_id'', of_opt_str (entity_id e)),
     (''observed_at'', PStr (isoformat (observed_at e))), (''recorded_at'', PStr (isoformat (recorded_at e))),
     (''payload_hash'', PStr (payload_hash e)), (''supersedes'', of_opt_str (supersedes e)),
     (''prior_hash'', PStr (prior_hash e)), (''hash'', PStr (hash e)), (''signature'', of_opt_str (signature e))]"

text \<open>\<open>str(d[k])\<close>, and \<open>None if d.get(k) is None else str(d[k])\<close>.\<close>

definition str_item :: "(rat \<Rightarrow> string) \<Rightarrow> pydict \<Rightarrow> string \<Rightarrow> string res" where
  "str_item fr d k = (case dget d k of None \<Rightarrow> Inl KeyError | Some v \<Rightarrow> Inr (py_str fr v))"

definition opt_str_item :: "(rat \<Rightarrow> string) \<Rightarrow> pydict \<Rightarrow> string \<Rightarrow> string option" where
  "opt_str_item fr d k = (if pget d k = PNone then None else Some (py_str fr (pget d k)))"

definition entry_from_dict :: "(rat \<Rightarrow> string) \<Rightarrow> pyval \<Rightarrow> hash_chain_entry res" where
  "entry_from_dict fr v = (case v of PDict d \<Rightarrow>
      rbind (str_item fr d ''row_id'') (\<lambda>rid.
      rbind (str_item fr d ''table'') (\<lambda>t.
      rbind (rbind (str_item fr d ''observed_at'') fromisoformat) (\<lambda>ob.
      rbind (rbind (str_item fr d ''recorded_at'') fromisoformat) (\<lambda>re.
      rbind (str_item fr d ''payload_hash'') (\<lambda>ph.
      rbind (str_item fr d ''prior_hash'') (\<lambda>pr.
      rbind (str_item fr d ''hash'') (\<lambda>h.
      Inr \<lparr>row_id = rid, tbl = t, entity_id = opt_str_item fr d ''entity_id'', observed_at = ob,
           recorded_at = re, payload_hash = ph, supersedes = opt_str_item fr d ''supersedes'',
           prior_hash = pr, hash = h, signature = opt_str_item fr d ''signature''\<rparr>)))))))
    | _ \<Rightarrow> Inl TypeError)"

definition storable_entry :: "hash_chain_entry \<Rightarrow> bool" where
  "storable_entry e \<longleftrightarrow> wf_datetime (observed_at e) \<and> wf_datetime (recorded_at e)"

lemma opt_str_item_of_opt [simp]: "dget d k = Some (of_opt_str s) \<Longrightarrow> opt_str_item fr d k = s"
  by (cases s) (auto simp: opt_str_item_def pget_def dget_or_def)

lemma entry_roundtrip:
  assumes "storable_entry e"
  shows "entry_from_dict fr (PDict (entry_to_dict e)) = Inr e"
proof -
  have "opt_str_item fr (entry_to_dict e) ''entity_id'' = entity_id e"
    "opt_str_item fr (entry_to_dict e) ''supersedes'' = supersedes e"
    "opt_str_item fr (entry_to_dict e) ''signature'' = signature e"
    by (rule opt_str_item_of_opt, simp add: entry_to_dict_def)+
  moreover have "str_item fr (entry_to_dict e) ''row_id'' = Inr (row_id e)"
    "str_item fr (entry_to_dict e) ''table'' = Inr (tbl e)"
    "str_item fr (entry_to_dict e) ''observed_at'' = Inr (isoformat (observed_at e))"
    "str_item fr (entry_to_dict e) ''recorded_at'' = Inr (isoformat (recorded_at e))"
    "str_item fr (entry_to_dict e) ''payload_hash'' = Inr (payload_hash e)"
    "str_item fr (entry_to_dict e) ''prior_hash'' = Inr (prior_hash e)"
    "str_item fr (entry_to_dict e) ''hash'' = Inr (hash e)"
    by (simp_all add: str_item_def entry_to_dict_def)
  ultimately show ?thesis
    using assms fromisoformat_isoformat by (simp add: entry_from_dict_def storable_entry_def)
qed

section \<open>The JSONL store\<close>

text \<open>A line that is not blank is a JSON value or not JSON at all. The file may end in an
  unterminated line, \<open>torn\<close>.\<close>

datatype json_line = Blank | NotJson | Json pyval

record jsonl_store =
  file_lines :: "json_line list"
  torn :: "json_line option"
  read_offset :: nat
  tails :: "(string \<times> string option, string) dict"
  table_tails :: "(string, string) dict"

text \<open>Reading one line: nothing for a blank one; bad JSON, a missing key and a bad time are reported
  as a truncated file, while a JSON value that is not an object escapes as \<open>TypeError\<close>.\<close>

definition read_line :: "(rat \<Rightarrow> string) \<Rightarrow> json_line \<Rightarrow> hash_chain_entry option res" where
  "read_line fr l = (case l of Blank \<Rightarrow> Inr None | NotJson \<Rightarrow> Inl TruncatedChainFileError
     | Json v \<Rightarrow> (case entry_from_dict fr v of
         Inl e \<Rightarrow> Inl (if e = ValueError \<or> e = KeyError then TruncatedChainFileError else e)
       | Inr x \<Rightarrow> Inr (Some x)))"

definition note_entry :: "jsonl_store \<Rightarrow> hash_chain_entry \<Rightarrow> jsonl_store" where
  "note_entry s e = s\<lparr>tails := dset (tails s) (tbl e, entity_id e) (hash e),
                      table_tails := dset (table_tails s) (tbl e) (hash e)\<rparr>"

fun fold_lines :: "(rat \<Rightarrow> string) \<Rightarrow> json_line list \<Rightarrow> jsonl_store \<Rightarrow> unit res \<times> jsonl_store" where
  "fold_lines fr [] s = (Inr (), s)"
| "fold_lines fr (l # ls) s = (case read_line fr l of
     Inl e \<Rightarrow> (Inl e, s)
   | Inr None \<Rightarrow> fold_lines fr ls s
   | Inr (Some e) \<Rightarrow> fold_lines fr ls (note_entry s e))"

definition refresh_tails :: "(rat \<Rightarrow> string) \<Rightarrow> jsonl_store \<Rightarrow> unit res \<times> jsonl_store" where
  "refresh_tails fr s = (let chunk = drop (read_offset s) (file_lines s) in
     if torn s \<noteq> None then (Inl TruncatedChainFileError, s)
     else if chunk = [] then (Inr (), s)
     else case fold_lines fr chunk s of
       (Inl e, s') \<Rightarrow> (Inl e, s')
     | (Inr _, s') \<Rightarrow> (Inr (), s'\<lparr>read_offset := read_offset s' + length chunk\<rparr>))"

definition jsonl_tail :: "jsonl_store \<Rightarrow> string \<Rightarrow> string option \<Rightarrow> string" where
  "jsonl_tail s table entity = (if entity \<noteq> None then dget_or (tails s) (table, entity) GENESIS_PRIOR_HASH
     else dget_or (table_tails s) table GENESIS_PRIOR_HASH)"

definition jsonl_append :: "(rat \<Rightarrow> string) \<Rightarrow> jsonl_store \<Rightarrow> hash_chain_entry \<Rightarrow> unit res \<times> jsonl_store" where
  "jsonl_append fr s e = (case refresh_tails fr s of
     (Inl err, s1) \<Rightarrow> (Inl err, s1)
   | (Inr _, s1) \<Rightarrow>
       if prior_hash e \<noteq> jsonl_tail s1 (tbl e) (entity_id e) then (Inl ChainConflictError, s1)
       else (Inr (), note_entry
         (s1\<lparr>file_lines := file_lines s1 @ [Json (PDict (entry_to_dict e))], read_offset := read_offset s1 + 1\<rparr>) e))"

definition jsonl_last_entry_hash ::
  "(rat \<Rightarrow> string) \<Rightarrow> jsonl_store \<Rightarrow> string \<Rightarrow> string option \<Rightarrow> string res \<times> jsonl_store" where
  "jsonl_last_entry_hash fr s table entity = (case refresh_tails fr s of
     (Inl err, s1) \<Rightarrow> (Inl err, s1) | (Inr _, s1) \<Rightarrow> (Inr (jsonl_tail s1 table entity), s1))"

text \<open>A new store object on an existing file, and \<open>load_entries\<close>.\<close>

definition jsonl_open :: "(rat \<Rightarrow> string) \<Rightarrow> json_line list \<Rightarrow> json_line option \<Rightarrow> unit res \<times> jsonl_store" where
  "jsonl_open fr ls t = refresh_tails fr \<lparr>file_lines = ls, torn = t, read_offset = 0, tails = [], table_tails = []\<rparr>"

fun load_lines :: "(rat \<Rightarrow> string) \<Rightarrow> json_line list \<Rightarrow> hash_chain_entry list res" where
  "load_lines fr [] = Inr []"
| "load_lines fr (l # ls) = rbind (read_line fr l) (\<lambda>e. rbind (load_lines fr ls) (\<lambda>es.
     Inr (case e of None \<Rightarrow> es | Some x \<Rightarrow> x # es)))"

definition load_entries :: "(rat \<Rightarrow> string) \<Rightarrow> jsonl_store \<Rightarrow> hash_chain_entry list res" where
  "load_entries fr s = load_lines fr (file_lines s @ (case torn s of None \<Rightarrow> [] | Some l \<Rightarrow> [l]))"

section \<open>The JSONL store implements the protocol\<close>

text \<open>The entries the readable lines hold, and the state in which the cached tails describe the
  first \<open>read_offset\<close> lines.\<close>

definition line_entries :: "(rat \<Rightarrow> string) \<Rightarrow> json_line list \<Rightarrow> hash_chain_entry list" where
  "line_entries fr ls = concat (map (\<lambda>l. case read_line fr l of Inr (Some e) \<Rightarrow> [e] | _ \<Rightarrow> []) ls)"

definition tails_describe :: "hash_chain_entry list \<Rightarrow> jsonl_store \<Rightarrow> bool" where
  "tails_describe es s \<longleftrightarrow> (\<forall>t e. jsonl_tail s t e = tail_of es t e)"

definition jsonl_ok :: "(rat \<Rightarrow> string) \<Rightarrow> jsonl_store \<Rightarrow> bool" where
  "jsonl_ok fr s \<longleftrightarrow> torn s = None \<and> (\<forall>l\<in>set (file_lines s). \<exists>x. read_line fr l = Inr x) \<and>
     read_offset s \<le> length (file_lines s) \<and>
     tails_describe (line_entries fr (take (read_offset s) (file_lines s))) s"

definition jsonl_entries :: "(rat \<Rightarrow> string) \<Rightarrow> jsonl_store \<Rightarrow> hash_chain_entry list" where
  "jsonl_entries fr s = line_entries fr (file_lines s)"

lemma line_entries_simps [simp]:
  "line_entries fr [] = []" "line_entries fr (ls @ ls') = line_entries fr ls @ line_entries fr ls'"
  by (simp_all add: line_entries_def)

lemma jsonl_tail_update [simp]:
  "jsonl_tail (s\<lparr>read_offset := n\<rparr>) t e = jsonl_tail s t e"
  "jsonl_tail (s\<lparr>file_lines := ls\<rparr>) t e = jsonl_tail s t e"
  by (simp_all add: jsonl_tail_def)

lemma jsonl_tail_note:
  "jsonl_tail (note_entry s e) t en = (if in_segment t en e then hash e else jsonl_tail s t en)"
  by (cases en) (auto simp: jsonl_tail_def note_entry_def in_segment_def)

lemma tails_describe_note:
  "tails_describe es s \<Longrightarrow> tails_describe (es @ [e]) (note_entry s e)"
  by (simp add: tails_describe_def jsonl_tail_note)

lemma note_entry_simps [simp]:
  "file_lines (note_entry s e) = file_lines s" "torn (note_entry s e) = torn s"
  "read_offset (note_entry s e) = read_offset s"
  by (simp_all add: note_entry_def)

lemma fold_lines_ok:
  "\<forall>l\<in>set ls. \<exists>x. read_line fr l = Inr x \<Longrightarrow> tails_describe es s \<Longrightarrow>
   \<exists>s'. fold_lines fr ls s = (Inr (), s') \<and> tails_describe (es @ line_entries fr ls) s' \<and>
     file_lines s' = file_lines s \<and> torn s' = torn s \<and> read_offset s' = read_offset s"
proof (induction ls arbitrary: es s)
  case (Cons l ls)
  then obtain x where x: "read_line fr l = Inr x" by auto
  show ?case
  proof (cases x)
    case None
    with Cons x show ?thesis by (auto simp: line_entries_def)
  next
    case (Some e)
    from Cons.IH [of "es @ [e]" "note_entry s e"] Cons.prems tails_describe_note [of es s e] x Some
    show ?thesis by (auto simp: line_entries_def)
  qed
qed simp

lemma refresh_ok:
  assumes "jsonl_ok fr s"
  shows "\<exists>s'. refresh_tails fr s = (Inr (), s') \<and> file_lines s' = file_lines s \<and> torn s' = None \<and>
    read_offset s' = length (file_lines s) \<and> tails_describe (jsonl_entries fr s) s'"
proof -
  let ?chunk = "drop (read_offset s) (file_lines s)"
  have ok: "torn s = None" "\<forall>l\<in>set ?chunk. \<exists>x. read_line fr l = Inr x"
    "read_offset s \<le> length (file_lines s)"
    "tails_describe (line_entries fr (take (read_offset s) (file_lines s))) s"
    using assms set_drop_subset [of "read_offset s" "file_lines s"] by (auto simp: jsonl_ok_def)
  from fold_lines_ok [OF ok(2,4)] obtain s' where s': "fold_lines fr ?chunk s = (Inr (), s')"
    "tails_describe (line_entries fr (take (read_offset s) (file_lines s)) @ line_entries fr ?chunk) s'"
    "file_lines s' = file_lines s" "torn s' = torn s" "read_offset s' = read_offset s" by blast
  have all: "tails_describe (jsonl_entries fr s) s'"
    using s'(2) by (simp add: jsonl_entries_def flip: line_entries_simps(2))
  show ?thesis
  proof (cases "?chunk = []")
    case True
    then have "s' = s" using s'(1) by simp
    with all True ok show ?thesis by (simp add: refresh_tails_def Let_def)
  next
    case False
    with s' ok all show ?thesis
      by (simp add: refresh_tails_def Let_def tails_describe_def)
  qed
qed

lemma read_line_entry [simp]:
  "storable_entry e \<Longrightarrow> read_line fr (Json (PDict (entry_to_dict e))) = Inr (Some e)"
  by (simp add: read_line_def entry_roundtrip)

lemma jsonl_last_hash_law:
  assumes "jsonl_ok fr s"
  shows "\<exists>s'. jsonl_last_entry_hash fr s t e = (Inr (tail_of (jsonl_entries fr s) t e), s') \<and>
    jsonl_entries fr s' = jsonl_entries fr s \<and> jsonl_ok fr s'"
proof -
  from refresh_ok [OF assms] obtain s' where s': "refresh_tails fr s = (Inr (), s')"
    "file_lines s' = file_lines s" "torn s' = None" "read_offset s' = length (file_lines s)"
    "tails_describe (jsonl_entries fr s) s'" by blast
  with assms show ?thesis
    by (intro exI [of _ s']) (auto simp: jsonl_last_entry_hash_def jsonl_entries_def jsonl_ok_def tails_describe_def)
qed

lemma jsonl_append_laws:
  assumes "jsonl_ok fr s" "storable_entry x"
  shows "\<exists>s'. jsonl_append fr s x =
      (if prior_hash x = tail_of (jsonl_entries fr s) (tbl x) (entity_id x) then Inr () else Inl ChainConflictError, s') \<and>
    jsonl_entries fr s' = (if prior_hash x = tail_of (jsonl_entries fr s) (tbl x) (entity_id x)
      then jsonl_entries fr s @ [x] else jsonl_entries fr s) \<and> jsonl_ok fr s'"
proof -
  from refresh_ok [OF assms(1)] obtain s1 where s1: "refresh_tails fr s = (Inr (), s1)"
    "file_lines s1 = file_lines s" "torn s1 = None" "read_offset s1 = length (file_lines s)"
    "tails_describe (jsonl_entries fr s) s1" by blast
  have tail: "jsonl_tail s1 t e = tail_of (jsonl_entries fr s) t e" for t e
    using s1(5) by (simp add: tails_describe_def)
  show ?thesis
  proof (cases "prior_hash x = tail_of (jsonl_entries fr s) (tbl x) (entity_id x)")
    case True
    let ?line = "Json (PDict (entry_to_dict x))"
    let ?s2 = "s1\<lparr>file_lines := file_lines s1 @ [?line], read_offset := read_offset s1 + 1\<rparr>"
    let ?s3 = "note_entry ?s2 x"
    have "jsonl_append fr s x = (Inr (), ?s3)" using s1(1) tail True by (simp add: jsonl_append_def)
    moreover have entries: "line_entries fr (file_lines ?s3) = jsonl_entries fr s @ [x]"
      using s1(2) assms(2) by (simp add: jsonl_entries_def line_entries_def)
    moreover have "tails_describe (jsonl_entries fr s) ?s2"
      using s1(5) by (simp add: tails_describe_def)
    then have "tails_describe (jsonl_entries fr s @ [x]) ?s3" by (rule tails_describe_note)
    with entries have "jsonl_ok fr ?s3"
      using assms s1(2,3,4) by (auto simp: jsonl_ok_def)
    ultimately show ?thesis using True by (intro exI [of _ ?s3]) (simp add: jsonl_entries_def)
  next
    case False
    with s1 tail assms(1) show ?thesis
      by (intro exI [of _ s1]) (auto simp: jsonl_append_def jsonl_ok_def jsonl_entries_def)
  qed
qed

interpretation jsonl: hash_chain_store
  "jsonl_last_entry_hash fr" "jsonl_append fr" "jsonl_entries fr" "jsonl_ok fr" storable_entry for fr
proof (unfold_locales, goal_cases)
  case (1 s t e)
  then show ?case by (rule jsonl_last_hash_law)
next
  case (2 s x)
  with jsonl_append_laws [OF 2(1,2)] show ?case by simp
next
  case (3 s x)
  with jsonl_append_laws [OF 3(1,2)] show ?case by simp
qed

text \<open>\<open>load_entries\<close> returns what the store holds, or refuses the whole file.\<close>

lemma load_lines_entries:
  "load_lines fr ls = Inr es \<Longrightarrow> es = line_entries fr ls \<and> (\<forall>l\<in>set ls. \<exists>x. read_line fr l = Inr x)"
  by (induction ls arbitrary: es) (auto simp: rbind_Inr_iff line_entries_def split: option.splits)

lemma load_lines_ok: "\<forall>l\<in>set ls. \<exists>x. read_line fr l = Inr x \<Longrightarrow> load_lines fr ls = Inr (line_entries fr ls)"
  by (induction ls) (auto simp: line_entries_def split: option.splits)

lemma jsonl_load_ok: "jsonl_ok fr s \<Longrightarrow> load_entries fr s = Inr (jsonl_entries fr s)"
  by (simp add: load_entries_def jsonl_ok_def load_lines_ok jsonl_entries_def)

section \<open>The two stores answer alike\<close>

context hash_chain_store
begin

lemma run_calls_spec:
  "invar s \<Longrightarrow> \<forall>x. Append x \<in> set cs \<longrightarrow> storable x \<Longrightarrow>
   \<exists>rs s'. run_calls last_hash append_entry cs s = (rs, s') \<and> invar s' \<and>
     run_calls mem_last_entry_hash mem_append cs (entries s) = (rs, entries s')"
proof (induction cs arbitrary: s)
  case (Cons c cs)
  show ?case
  proof (cases c)
    case (ReadTail t e)
    from last_hash_law [OF Cons.prems(1), of t e] obtain s1 where
      s1: "last_hash s t e = (Inr (tail_of (entries s) t e), s1)" "entries s1 = entries s" "invar s1" by blast
    have "\<forall>x. Append x \<in> set cs \<longrightarrow> storable x" using Cons.prems(2) by simp
    from Cons.IH [OF s1(3) this] s1 ReadTail show ?thesis
      by (auto simp: mem_last_entry_hash_def mem_tail_eq)
  next
    case (Append x)
    then have x: "storable x" and rest: "\<forall>x. Append x \<in> set cs \<longrightarrow> storable x" using Cons.prems(2) by simp_all
    show ?thesis
    proof (cases "prior_hash x = tail_of (entries s) (tbl x) (entity_id x)")
      case True
      from append_law [OF Cons.prems(1) x True] obtain s1 where
        s1: "append_entry s x = (Inr (), s1)" "entries s1 = entries s @ [x]" "invar s1" by blast
      from Cons.IH [OF s1(3) rest] s1 Append True show ?thesis by (auto simp: mem_append_def mem_tail_eq)
    next
      case False
      from conflict_law [OF Cons.prems(1) x False] obtain s1 where
        s1: "append_entry s x = (Inl ChainConflictError, s1)" "entries s1 = entries s" "invar s1" by blast
      from Cons.IH [OF s1(3) rest] s1 Append False show ?thesis by (auto simp: mem_append_def mem_tail_eq)
    qed
  qed
qed simp

end

section \<open>Properties\<close>

text \<open>C3: whatever other well-behaved writers of the same file do between the steps of \<open>append_row\<close>,
  the JSONL store afterwards still loads, every partition of it verifies from genesis, and a
  returned entry is the last one of the file, linked to the tail it replaced.\<close>

theorem append_row_jsonl_safe:
  assumes "jsonl_ok fr s" "chained sha (jsonl_entries fr s)"
    and "other_writers sha (jsonl_entries fr) (jsonl_ok fr) env" "wf_datetime ob" "wf_datetime re"
    and "append_row fr sha sign (jsonl_last_entry_hash fr) (jsonl_append fr) env key t rid e ob re payload su n s = (r, s')"
  shows "\<exists>es. load_entries fr s' = Inr es \<and>
    (\<forall>t' e'. verify_chain_segment fr sha (filter (in_segment t' (Some e')) es) GENESIS_PRIOR_HASH = Inr (True, None)) \<and>
    (case r of Inl _ \<Rightarrow> True
     | Inr x \<Rightarrow> \<exists>older. es = older @ [x] \<and> prior_hash x = tail_of older t e \<and> valid_hash sha x)"
proof -
  have store: "observed_at x = ob \<Longrightarrow> recorded_at x = re \<Longrightarrow> storable_entry x" for x
    using assms(4,5) by (simp add: storable_entry_def)
  from jsonl.append_row_safe [OF assms(6,3,1,2) store]
  show ?thesis by (auto simp: jsonl_load_ok chained_partition_verifies split: sum.splits)
qed

definition empty_jsonl :: jsonl_store where
  "empty_jsonl = \<lparr>file_lines = [], torn = None, read_offset = 0, tails = [], table_tails = []\<rparr>"

lemma empty_jsonl_ok [simp]: "jsonl_ok fr empty_jsonl" "jsonl_entries fr empty_jsonl = []"
  by (simp_all add: empty_jsonl_def jsonl_ok_def jsonl_entries_def tails_describe_def jsonl_tail_def dget_or_def)

definition noon :: datetime where
  "noon = \<lparr>dt_wall = 63000000000000000, dt_off = Some 0\<rparr>"

lemma noon_simps [simp]: "wf_datetime noon" "aware noon" "instant noon = 63000000000000000" "in_range noon"
  by (simp_all add: noon_def wf_datetime_def us_per_day_def aware_def instant_def in_range_def)

theorem append_row_jsonl_safe_witness:
  "\<exists>es. load_entries fraction_text (snd (append_row fraction_text (\<lambda>b. ''ab'') (\<lambda>k m. [])
     (jsonl_last_entry_hash fraction_text) (jsonl_append fraction_text) (\<lambda>_ s. s) None ''audit'' ''r1''
     (Some ''acct'') noon noon [(''amount'', PInt 5)] None 1 empty_jsonl)) = Inr es \<and>
   verify_chain_segment fraction_text (\<lambda>b. ''ab'') (filter (in_segment ''audit'' (Some ''acct'')) es)
     GENESIS_PRIOR_HASH = Inr (True, None)"
proof -
  have "other_writers (\<lambda>b. ''ab'') (jsonl_entries fraction_text) (jsonl_ok fraction_text) (\<lambda>_ s. s)"
    unfolding other_writers_def by auto
  from append_row_jsonl_safe [OF _ _ this noon_simps(1) noon_simps(1) prod.collapse [symmetric],
      of empty_jsonl "\<lambda>k m. []" None "''audit''" "''r1''" "Some ''acct''" "[(''amount'', PInt 5)]" None 1]
  show ?thesis by (simp only: empty_jsonl_ok chained_Nil_iff simp_thms) blast
qed

text \<open>C4: for any sequence of tail reads and appends, the JSONL store started on an empty file gives the
  same replies as the in-memory store, and what it loads back is what the in-memory store holds.\<close>

theorem jsonl_refines_memory:
  assumes "\<forall>x. Append x \<in> set calls \<longrightarrow> storable_entry x"
  shows "let (rs, s) = run_calls (jsonl_last_entry_hash fr) (jsonl_append fr) calls empty_jsonl;
      (rs', m) = run_calls mem_last_entry_hash mem_append calls []
    in rs = rs' \<and> load_entries fr s = Inr m"
proof -
  from jsonl.run_calls_spec [of fr empty_jsonl calls] assms
  obtain rs s' where "run_calls (jsonl_last_entry_hash fr) (jsonl_append fr) calls empty_jsonl = (rs, s')"
    "jsonl_ok fr s'" "run_calls mem_last_entry_hash mem_append calls [] = (rs, jsonl_entries fr s')" by auto
  then show ?thesis by (simp add: jsonl_load_ok)
qed

definition sample_entry :: "string \<Rightarrow> string option \<Rightarrow> string \<Rightarrow> string \<Rightarrow> hash_chain_entry" where
  "sample_entry i e p h = \<lparr>row_id = i, tbl = ''audit'', entity_id = e, observed_at = noon, recorded_at = noon,
     payload_hash = ''00'', supersedes = None, prior_hash = p, hash = h, signature = None\<rparr>"

lemma sample_entry_storable [simp]: "storable_entry (sample_entry i e p h)" "entry_in_range (sample_entry i e p h)"
  by (simp_all add: sample_entry_def storable_entry_def entry_in_range_def)

theorem jsonl_refines_memory_witness:
  "load_entries fraction_text (snd (run_calls (jsonl_last_entry_hash fraction_text) (jsonl_append fraction_text)
     [Append (sample_entry ''r1'' None GENESIS_PRIOR_HASH ''h1''), ReadTail ''audit'' None,
      Append (sample_entry ''r2'' None ''stale'' ''h2'')] empty_jsonl))
   = Inr [sample_entry ''r1'' None GENESIS_PRIOR_HASH ''h1'']"
proof -
  let ?calls = "[Append (sample_entry ''r1'' None GENESIS_PRIOR_HASH ''h1''), ReadTail ''audit'' None,
      Append (sample_entry ''r2'' None ''stale'' ''h2'')]"
  have "\<forall>x. Append x \<in> set ?calls \<longrightarrow> storable_entry x" by auto
  note jsonl_refines_memory [OF this, of fraction_text]
  moreover have "snd (run_calls mem_last_entry_hash mem_append ?calls [])
      = [sample_entry ''r1'' None GENESIS_PRIOR_HASH ''h1'']"
    by (simp add: mem_append_def mem_last_entry_hash_def mem_tail_def sample_entry_def)
  ultimately show ?thesis by (simp add: case_prod_beta Let_def)
qed

text \<open>C5: two segments that both verify and end in the same hash agree, over their common length counted
  from the end, on every field the hash covers (the times as instants), and the longer one has
  reached the prior hash of the shorter one where that begins; so segments of one length agree entry by
  entry and start from the same prior hash. Otherwise an entry of each is exhibited whose inputs
  are a collision of the hash function.\<close>

theorem tamper_evidence:
  assumes "verify_chain_segment fr sha es p = Inr (True, None)"
    "verify_chain_segment fr sha es' p' = Inr (True, None)"
    "end_hash p es = end_hash p' es'" "\<forall>e\<in>set es \<union> set es'. entry_in_range e"
  shows "(list_all2 same_content (drop (overhang es es') es) (drop (overhang es' es) es') \<and>
      end_hash p (take (overhang es es') es) = end_hash p' (take (overhang es' es) es') \<and>
      (length es = length es' \<longrightarrow> list_all2 same_content es es' \<and> p = p')) \<or>
    (\<exists>e\<in>set es. \<exists>e'\<in>set es'. entry_bytes e \<noteq> entry_bytes e' \<and> sha (entry_bytes e) = sha (entry_bytes e'))"
proof (rule disjCI)
  assume "\<not> (\<exists>e\<in>set es. \<exists>e'\<in>set es'. entry_bytes e \<noteq> entry_bytes e' \<and> sha (entry_bytes e) = sha (entry_bytes e'))"
  then have c: "\<forall>e\<in>set es. \<forall>e'\<in>set es'. sha (entry_bytes e) = sha (entry_bytes e') \<longrightarrow> entry_bytes e = entry_bytes e'" by blast
  show "list_all2 same_content (drop (overhang es es') es) (drop (overhang es' es) es') \<and>
      end_hash p (take (overhang es es') es) = end_hash p' (take (overhang es' es) es') \<and>
      (length es = length es' \<longrightarrow> list_all2 same_content es es' \<and> p = p')"
    using verify_common_end [OF assms c] by (auto simp: overhang_def)
qed

text \<open>A chain of two entries, and its second entry kept alone with another signature and its time in
  another zone.\<close>

definition sealed :: "hash_chain_entry \<Rightarrow> hash_chain_entry" where
  "sealed e = e\<lparr>hash := byte_text (entry_bytes e)\<rparr>"

definition first_entry :: hash_chain_entry where
  "first_entry = sealed (sample_entry ''r1'' None GENESIS_PRIOR_HASH [])"

definition second_entry :: hash_chain_entry where
  "second_entry = sealed (sample_entry ''r2'' None (hash first_entry) [])"

definition other_copy :: hash_chain_entry where
  "other_copy = second_entry\<lparr>observed_at := \<lparr>dt_wall = 63000007200000000, dt_off = Some 7200000000\<rparr>, signature := Some ''cc''\<rparr>"

theorem tamper_evidence_witness:
  "list_all2 same_content [second_entry] [other_copy] \<and> hash first_entry = prior_hash other_copy"
proof -
  have first: "prior_hash first_entry = GENESIS_PRIOR_HASH" "valid_hash byte_text first_entry" "entry_in_range first_entry"
    by (simp_all add: first_entry_def sealed_def sample_entry_def valid_hash_def entry_bytes_def entry_in_range_def)
  have second: "prior_hash second_entry = hash first_entry" "valid_hash byte_text second_entry" "entry_in_range second_entry"
    by (simp_all add: second_entry_def sealed_def sample_entry_def valid_hash_def entry_bytes_def entry_in_range_def)
  have obs: "observed_at second_entry = noon" by (simp add: second_entry_def sealed_def sample_entry_def)
  have same: "rfc3339_nanos \<lparr>dt_wall = 63000007200000000, dt_off = Some 7200000000\<rparr> = rfc3339_nanos noon"
    by (simp add: rfc3339_nanos_def instant_def noon_def)
  have third: "prior_hash other_copy = hash first_entry" "hash other_copy = hash second_entry" "entry_bytes other_copy = entry_bytes second_entry"
    "entry_in_range other_copy"
    using second(1,3) same obs
    by (simp_all add: other_copy_def entry_bytes_def entry_input_def entry_in_range_def in_range_def wf_datetime_def instant_def us_per_day_def)
  then have "valid_hash byte_text other_copy" using second(2) by (simp add: valid_hash_def)
  with first second third
  have "verify_chain_segment fraction_text byte_text [first_entry, second_entry] GENESIS_PRIOR_HASH = Inr (True, None)"
    "verify_chain_segment fraction_text byte_text [other_copy] (hash first_entry) = Inr (True, None)"
    "end_hash GENESIS_PRIOR_HASH [first_entry, second_entry] = end_hash (hash first_entry) [other_copy]"
    "\<forall>e\<in>set [first_entry, second_entry] \<union> set [other_copy]. entry_in_range e" by simp_all
  from tamper_evidence [OF this] show ?thesis using third(1) by (simp add: overhang_def)
qed

text \<open>\<open>verify_chain_segment\<close> never raises; it accepts, or names the first entry whose prior hash or
  own hash does not fit, everything before which verifies.\<close>

theorem verify_names_first_failure:
  "verify_chain_segment fr sha es p = Inr (True, None) \<or>
   (\<exists>xs e ys. es = xs @ e # ys \<and> verify_chain_segment fr sha xs p = Inr (True, None) \<and>
      \<not> (prior_hash e = end_hash p xs \<and> hash_of_entry fr sha e = Inr (hash e)) \<and>
      verify_chain_segment fr sha es p = Inr (False, Some (row_id e)))"
proof -
  have "hash_of_entry fr sha e = Inr (hash e) \<longleftrightarrow> valid_hash sha e" for e
    by (auto simp: valid_hash_def hash_of_entry_eq entry_bytes_def)
  then show ?thesis using verify_total [of fr sha es p] by simp
qed

text \<open>\<open>entries_for(table)\<close> without a partition is not a segment: two appends to different partitions of
  one table, each accepted by the in-memory store, give a list that fails verification at its second
  entry, unless the first hash happens to be the genesis sentinel.\<close>

theorem whole_table_does_not_verify:
  assumes "sha (entry_bytes x) = hash x" "sha (entry_bytes y) = hash y" "hash x \<noteq> GENESIS_PRIOR_HASH"
    "tbl x = tbl y" "entity_id x = Some a" "entity_id y = Some b" "a \<noteq> b"
    "prior_hash x = GENESIS_PRIOR_HASH" "prior_hash y = GENESIS_PRIOR_HASH"
  shows "run_calls mem_last_entry_hash mem_append [Append x, Append y] []
      = ([Appended (Inr ()), Appended (Inr ())], [x, y]) \<and>
    verify_chain_segment fr sha (mem_entries_for [x, y] (tbl x) None) GENESIS_PRIOR_HASH = Inr (False, Some (row_id y))"
  using assms by (simp add: mem_append_def mem_tail_def mem_entries_for_def valid_hash_def)

theorem whole_table_does_not_verify_witness:
  "verify_chain_segment fraction_text (\<lambda>b. ''ab'')
     (mem_entries_for [sample_entry ''r1'' (Some ''a'') GENESIS_PRIOR_HASH ''ab'',
        sample_entry ''r2'' (Some ''b'') GENESIS_PRIOR_HASH ''ab''] ''audit'' None) GENESIS_PRIOR_HASH
   = Inr (False, Some ''r2'')"
proof -
  have "hash (sample_entry ''r1'' (Some ''a'') GENESIS_PRIOR_HASH ''ab'') \<noteq> GENESIS_PRIOR_HASH"
    by (simp add: sample_entry_def GENESIS_PRIOR_HASH_def numeral_eq_Suc)
  from whole_table_does_not_verify [OF _ _ this, of "\<lambda>b. ''ab''"
      "sample_entry ''r2'' (Some ''b'') GENESIS_PRIOR_HASH ''ab''" "''a''" "''b''" fraction_text]
  show ?thesis by (simp add: sample_entry_def)
qed

end
