(* ===== verification/Bitemporal.thy ===== *)
theory Bitemporal
  imports Canonical IsoParse
begin

text \<open>
  \<open>bitemporal/record.py\<close>, \<open>store.py\<close>, \<open>asof.py\<close>, \<open>corrections.py\<close>, \<open>ingest.py\<close>: bitemporal records,
  the in-memory store, the clamped view and the write helpers. A store operation returns its result, or
  the exception, and the store afterwards. The locale \<open>bitemporal_store\<close> is the \<open>BitemporalStore\<close>
  protocol; view, corrections and ingestion are proved against it and the in-memory store interprets it.
  Python compares an aware and a naive time by raising \<open>TypeError\<close>, so reads return results; on
  aware times they never raise.
\<close>

section \<open>Records\<close>

record bt_record =
  r_id :: string
  r_key :: string
  r_valid :: datetime
  r_tx :: datetime
  r_value :: pyval
  r_source :: "string option"
  r_decision :: "string option"
  r_trust :: "string option"
  r_parent :: "string option"
  r_meta :: pydict

text \<open>\<open>new\<close>: \<open>now\<close> and \<open>fresh\<close> are what \<open>_utcnow\<close> and \<open>uuid4\<close> return at the call.\<close>

definition new_record ::
  "datetime \<Rightarrow> string \<Rightarrow> string \<Rightarrow> datetime \<Rightarrow> pyval \<Rightarrow> string option \<Rightarrow> datetime option \<Rightarrow> string option \<Rightarrow>
   string option \<Rightarrow> string option \<Rightarrow> pydict option \<Rightarrow> string option \<Rightarrow> bt_record res" where
  "new_record now fresh k valid v src tx_opt dec trust par meta rid =
    (if \<not> aware valid then Inl ValueError
     else let tx = (case tx_opt of None \<Rightarrow> now | Some t \<Rightarrow> t) in
       if \<not> aware tx then Inl ValueError
       else Inr \<lparr>r_id = (if str_truthy rid then the rid else fresh), r_key = k, r_valid = valid, r_tx = tx,
         r_value = v, r_source = src, r_decision = dec, r_trust = trust, r_parent = par,
         r_meta = (case meta of None \<Rightarrow> [] | Some m \<Rightarrow> m)\<rparr>)"

definition content_hash :: "(rat \<Rightarrow> string) \<Rightarrow> (bytes \<Rightarrow> string) \<Rightarrow> bt_record \<Rightarrow> string res" where
  "content_hash fr sha r = rbind (canonical_json_compat fr (r_value r)) (\<lambda>t. Inr (sha (utf8 t)))"

definition record_to_dict :: "bt_record \<Rightarrow> pydict" where
  "record_to_dict r =
    [(''record_id'', PStr (r_id r)), (''key'', PStr (r_key r)),
     (''valid_time'', PStr (isoformat (r_valid r))), (''transaction_time'', PStr (isoformat (r_tx r))),
     (''value'', r_value r), (''source'', of_opt_str (r_source r)), (''decision'', of_opt_str (r_decision r)),
     (''source_trust_level'', of_opt_str (r_trust r)), (''parent_record_id'', of_opt_str (r_parent r)),
     (''metadata'', PDict (r_meta r))]"

text \<open>\<open>d[k]\<close>; a value whose type the record does not admit is reported as \<open>TypeError\<close> here.\<close>

definition item :: "pydict \<Rightarrow> string \<Rightarrow> pyval res" where
  "item d k = (case dget d k of None \<Rightarrow> Inl KeyError | Some v \<Rightarrow> Inr v)"

definition as_string :: "pyval \<Rightarrow> string res" where
  "as_string v = (case v of PStr s \<Rightarrow> Inr s | _ \<Rightarrow> Inl TypeError)"

definition as_opt_string :: "pyval \<Rightarrow> string option res" where
  "as_opt_string v = (case v of PNone \<Rightarrow> Inr None | PStr s \<Rightarrow> Inr (Some s) | _ \<Rightarrow> Inl TypeError)"

text \<open>\<open>dict(x or {})\<close>\<close>

definition as_dict :: "pyval \<Rightarrow> pydict res" where
  "as_dict v = (if \<not> py_truthy v then Inr [] else case v of PDict d \<Rightarrow> Inr d | _ \<Rightarrow> Inl TypeError)"

definition record_from_dict :: "pydict \<Rightarrow> bt_record res" where
  "record_from_dict d =
    rbind (rbind (item d ''record_id'') as_string) (\<lambda>rid.
    rbind (rbind (item d ''key'') as_string) (\<lambda>k.
    rbind (rbind (rbind (item d ''valid_time'') as_string) fromisoformat) (\<lambda>vt.
    rbind (rbind (rbind (item d ''transaction_time'') as_string) fromisoformat) (\<lambda>tx.
    rbind (item d ''value'') (\<lambda>v.
    rbind (rbind (item d ''source'') as_opt_string) (\<lambda>src.
    rbind (as_opt_string (pget d ''decision'')) (\<lambda>dec.
    rbind (as_opt_string (pget d ''source_trust_level'')) (\<lambda>trust.
    rbind (as_opt_string (pget d ''parent_record_id'')) (\<lambda>par.
    rbind (as_dict (pget d ''metadata'')) (\<lambda>meta.
      Inr \<lparr>r_id = rid, r_key = k, r_valid = vt, r_tx = tx, r_value = v, r_source = src, r_decision = dec,
           r_trust = trust, r_parent = par, r_meta = meta\<rparr>))))))))))"

lemma as_opt_string_of [simp]: "as_opt_string (of_opt_str s) = Inr s"
  by (cases s) (simp_all add: as_opt_string_def)

lemma as_string_Str [simp]: "as_string (PStr s) = Inr s"
  by (simp add: as_string_def)

lemma as_dict_Dict [simp]: "as_dict (PDict d) = Inr d"
  by (simp add: as_dict_def)

lemma record_roundtrip:
  assumes "wf_datetime (r_valid r)" "wf_datetime (r_tx r)"
  shows "record_from_dict (record_to_dict r) = Inr r"
  using assms fromisoformat_isoformat
  by (simp add: record_from_dict_def record_to_dict_def item_def pget_def dget_or_def)

section \<open>The choice an as-of query makes\<close>

text \<open>A clamp that is given excludes later times.\<close>

definition after_clamp :: "datetime \<Rightarrow> datetime option \<Rightarrow> bool res" where
  "after_clamp t clamp = (case clamp of None \<Rightarrow> Inr False | Some c \<Rightarrow> dt_gt t c)"

definition is_candidate :: "datetime option \<Rightarrow> datetime option \<Rightarrow> bt_record \<Rightarrow> bool res" where
  "is_candidate tx vt r =
    rbind (after_clamp (r_tx r) tx) (\<lambda>b. if b then Inr False
      else rbind (after_clamp (r_valid r) vt) (\<lambda>b'. Inr (\<not> b')))"

text \<open>Comparison of the sort keys: tuples at their first difference.\<close>

definition parent_rank :: "bt_record \<Rightarrow> nat" where
  "parent_rank r = (if str_truthy (r_parent r) then 1 else 0)"

definition sort_key_gt :: "bt_record \<Rightarrow> bt_record \<Rightarrow> bool res" where
  "sort_key_gt a b =
    (if \<not> dt_eq (r_tx a) (r_tx b) then dt_gt (r_tx a) (r_tx b)
     else if \<not> dt_eq (r_valid a) (r_valid b) then dt_gt (r_valid a) (r_valid b)
     else Inr (parent_rank a > parent_rank b))"

fun rmax :: "('a \<Rightarrow> 'a \<Rightarrow> bool res) \<Rightarrow> 'a \<Rightarrow> 'a list \<Rightarrow> 'a res" where
  "rmax gt m [] = Inr m"
| "rmax gt m (x # xs) = rbind (gt x m) (\<lambda>b. rmax gt (if b then x else m) xs)"

definition pick_as_of :: "datetime option \<Rightarrow> datetime option \<Rightarrow> bt_record list \<Rightarrow> bt_record option res" where
  "pick_as_of tx vt rs = rbind (rfilter (is_candidate tx vt) rs) (\<lambda>cs.
     case cs of [] \<Rightarrow> Inr None | c # cs' \<Rightarrow> rbind (rmax sort_key_gt c cs') (\<lambda>r. Inr (Some r)))"

text \<open>On aware times all of this is pure.\<close>

definition aware_rec :: "bt_record \<Rightarrow> bool" where
  "aware_rec r \<longleftrightarrow> aware (r_valid r) \<and> aware (r_tx r)"

definition visible :: "datetime option \<Rightarrow> datetime option \<Rightarrow> bt_record \<Rightarrow> bool" where
  "visible tx vt r \<longleftrightarrow> (case tx of None \<Rightarrow> True | Some c \<Rightarrow> instant (r_tx r) \<le> instant c) \<and>
     (case vt of None \<Rightarrow> True | Some c \<Rightarrow> instant (r_valid r) \<le> instant c)"

definition sort_key_of :: "bt_record \<Rightarrow> int \<times> int \<times> nat" where
  "sort_key_of r = (instant (r_tx r), instant (r_valid r), parent_rank r)"

lemma is_candidate_aware:
  "aware_rec r \<Longrightarrow> aware_opt tx \<Longrightarrow> aware_opt vt \<Longrightarrow> is_candidate tx vt r = Inr (visible tx vt r)"
  by (cases tx; cases vt)
    (auto simp: is_candidate_def after_clamp_def visible_def aware_rec_def not_less)

lemma sort_key_gt_aware:
  "aware_rec a \<Longrightarrow> aware_rec b \<Longrightarrow> sort_key_gt a b = Inr (sort_key_of b < sort_key_of a)"
  by (auto simp: sort_key_gt_def sort_key_of_def aware_rec_def dt_eq_def pair_less_iff)

lemma rmax_pure:
  "\<forall>x\<in>set xs. \<forall>y\<in>insert m (set xs). gt x y = Inr (f y < f x) \<Longrightarrow> rmax gt m xs = Inr (max_by f m xs)"
  by (induction xs arbitrary: m) auto

lemma pick_as_of_aware:
  assumes "\<forall>r\<in>set rs. aware_rec r" "aware_opt tx" "aware_opt vt"
  shows "pick_as_of tx vt rs = Inr (first_max sort_key_of (filter (visible tx vt) rs))"
proof -
  have "rfilter (is_candidate tx vt) rs = Inr (filter (visible tx vt) rs)"
    using assms by (intro rfilter_pure) (simp add: is_candidate_aware)
  moreover have "rmax sort_key_gt c cs = Inr (max_by sort_key_of c cs)"
    if "set (c # cs) \<subseteq> set rs" for c cs
    using that assms(1) by (intro rmax_pure ballI sort_key_gt_aware) auto
  moreover have "set (filter (visible tx vt) rs) \<subseteq> set rs" by auto
  ultimately show ?thesis
    by (cases "filter (visible tx vt) rs") (simp_all add: pick_as_of_def first_max_def)
qed

text \<open>What an answer must satisfy: it is a candidate that no other candidate follows in the
  order of transaction time, valid time and being a correction.\<close>

definition best_of :: "bt_record list \<Rightarrow> bt_record option \<Rightarrow> bool" where
  "best_of cs a = (case a of None \<Rightarrow> cs = []
     | Some r \<Rightarrow> r \<in> set cs \<and> (\<forall>c\<in>set cs. sort_key_of c \<le> sort_key_of r))"

lemma best_of_first_max: "best_of cs (first_max sort_key_of cs)"
  by (auto simp: best_of_def dest: first_max_in first_max_ge split: option.splits)

lemma best_of_mset: "mset cs = mset cs' \<Longrightarrow> best_of cs a = best_of cs' a"
  by (auto simp: best_of_def dest: mset_eq_setD split: option.splits)

section \<open>The in-memory store\<close>

type_synonym memory_bt = "(string, bt_record list) dict"

definition bt_append :: "memory_bt \<Rightarrow> bt_record \<Rightarrow> unit res \<times> memory_bt" where
  "bt_append s r = (let bucket = dget_or s (r_key r) [] in
     if \<exists>x\<in>set bucket. r_id x = r_id r then (Inl ValueError, dset s (r_key r) bucket)
     else (Inr (), dset s (r_key r) (bucket @ [r])))"

text \<open>\<open>append_many\<close>: one \<open>append\<close> after the other; a failure leaves the earlier ones in.\<close>

fun bt_append_many :: "memory_bt \<Rightarrow> bt_record list \<Rightarrow> unit res \<times> memory_bt" where
  "bt_append_many s [] = (Inr (), s)"
| "bt_append_many s (r # rs) = (case bt_append s r of
     (Inl e, s') \<Rightarrow> (Inl e, s') | (Inr _, s') \<Rightarrow> bt_append_many s' rs)"

definition bt_history :: "memory_bt \<Rightarrow> string \<Rightarrow> bt_record list res" where
  "bt_history s k = Inr (dget_or s k [])"

definition bt_as_of :: "memory_bt \<Rightarrow> string \<Rightarrow> datetime option \<Rightarrow> datetime option \<Rightarrow> bt_record option res" where
  "bt_as_of s k tx vt = (let bucket = dget_or s k [] in
     if bucket = [] then Inr None else pick_as_of tx vt bucket)"

definition bt_latest :: "memory_bt \<Rightarrow> string \<Rightarrow> bt_record option res" where
  "bt_latest s k = bt_as_of s k None None"

definition bt_keys :: "memory_bt \<Rightarrow> string list" where
  "bt_keys s = dkeys s"

definition bt_len :: "memory_bt \<Rightarrow> nat" where
  "bt_len s = sum_list (map (\<lambda>kv. length (snd kv)) s)"

text \<open>The bucket of a key holds the records with that key.\<close>

definition bt_rows :: "memory_bt \<Rightarrow> bt_record list" where
  "bt_rows s = concat (map snd s)"

definition bt_inv :: "memory_bt \<Rightarrow> bool" where
  "bt_inv s \<longleftrightarrow> distinct (dkeys s) \<and> (\<forall>(k, rs)\<in>set s. rs \<noteq> [] \<and> (\<forall>r\<in>set rs. r_key r = k \<and> aware_rec r))"

lemma bt_inv_bucket:
  assumes "bt_inv s" "r \<in> set (dget_or s k [])"
  shows "r_key r = k" "aware_rec r"
  using assms by (auto simp: bt_inv_def dget_or_def split: option.splits dest!: map_of_SomeD)

lemma bt_inv_append:
  assumes "bt_inv s" "aware_rec r"
  shows "bt_inv (dset s (r_key r) (dget_or s (r_key r) [] @ [r]))"
proof -
  let ?b = "dget_or s (r_key r) [] @ [r]"
  have new: "\<forall>x\<in>set ?b. r_key x = r_key r \<and> aware_rec x"
    using assms(2) bt_inv_bucket [OF assms(1), of _ "r_key r"] by auto
  have "case kv of (k, rs) \<Rightarrow> rs \<noteq> [] \<and> (\<forall>x\<in>set rs. r_key x = k \<and> aware_rec x)"
    if "kv \<in> set (dset s (r_key r) ?b)" for kv
    using dset_items [OF that]
  proof
    assume "kv = (r_key r, ?b)"
    with new show ?thesis by simp
  next
    assume "kv \<in> set s"
    with assms(1) show ?thesis by (auto simp: bt_inv_def)
  qed
  then show ?thesis using assms(1) by (auto simp: bt_inv_def)
qed

lemma dset_same: "dget s k = Some v \<Longrightarrow> dset s k v = s"
  by (induction s k v rule: dset.induct) auto

lemma bt_append_cases:
  assumes "bt_inv s"
  shows "bt_append s r =
    (if \<exists>x\<in>set (dget_or s (r_key r) []). r_id x = r_id r then (Inl ValueError, s)
     else (Inr (), dset s (r_key r) (dget_or s (r_key r) [] @ [r])))"
  by (auto simp: bt_append_def Let_def dget_or_def dset_same split: option.splits)

lemma filter_key_rows:
  "bt_inv s \<Longrightarrow> filter (\<lambda>r. r_key r = k) (bt_rows s) = dget_or s k []"
proof (induction s)
  case (Cons kb s)
  obtain k0 b where kb: "kb = (k0, b)" by (cases kb)
  from Cons.prems have inv: "bt_inv s" and b: "\<forall>r\<in>set b. r_key r = k0" and new: "k0 \<notin> fst ` set s"
    by (auto simp: bt_inv_def kb)
  have "filter (\<lambda>r. r_key r = k) b = (if k = k0 then b else [])"
    using b by (auto simp: filter_empty_conv filter_id_conv)
  moreover have "dget s k0 = None" using new by (simp add: map_of_eq_None_iff)
  ultimately show ?case using Cons.IH [OF inv] by (auto simp: bt_rows_def kb dget_or_def)
qed (simp add: bt_rows_def dget_or_def)

lemma mset_rows_dset:
  "distinct (dkeys s) \<Longrightarrow> mset (bt_rows (dset s k (dget_or s k [] @ [r]))) = add_mset r (mset (bt_rows s))"
proof (induction s)
  case (Cons kb s)
  then show ?case by (cases kb) (auto simp: bt_rows_def dget_or_def)
qed (simp add: bt_rows_def dget_or_def)

lemma bt_keys_rows: "bt_inv s \<Longrightarrow> set (bt_keys s) = r_key ` set (bt_rows s)"
proof -
  assume inv: "bt_inv s"
  show ?thesis
  proof (rule set_eqI)
    fix k
    have "k \<in> set (bt_keys s) \<longleftrightarrow> dget_or s k [] \<noteq> []"
    proof (cases "dget s k")
      case None
      moreover from this have "k \<notin> set (dkeys s)" by (simp add: map_of_eq_None_iff)
      ultimately show ?thesis by (simp add: bt_keys_def dget_or_def)
    next
      case (Some b)
      then have "(k, b) \<in> set s" by (rule map_of_SomeD)
      with inv Some show ?thesis by (force simp: bt_keys_def dget_or_def bt_inv_def)
    qed
    also have "\<dots> \<longleftrightarrow> k \<in> r_key ` set (bt_rows s)"
      unfolding filter_key_rows [OF inv, symmetric] filter_empty_conv by auto
    finally show "k \<in> set (bt_keys s) \<longleftrightarrow> k \<in> r_key ` set (bt_rows s)" .
  qed
qed

lemma bt_as_of_aware:
  assumes "bt_inv s" "aware_opt tx" "aware_opt vt"
  shows "bt_as_of s k tx vt = Inr (first_max sort_key_of (filter (visible tx vt) (dget_or s k [])))"
  using pick_as_of_aware [OF _ assms(2,3), of "dget_or s k []"] bt_inv_bucket [OF assms(1)]
  by (auto simp: bt_as_of_def Let_def)

section \<open>The protocol\<close>

text \<open>\<open>rows\<close>: everything stored, in any order; \<open>stored r\<close>: the record a read gives back for \<open>r\<close>, with the
  same identity, key, instants and correction status; \<open>admits\<close> and \<open>clamp_ok\<close>: the records and the
  clamps the protocol covers.\<close>

locale bitemporal_store =
  fixes append_rec :: "'s \<Rightarrow> bt_record \<Rightarrow> unit res \<times> 's"
    and history :: "'s \<Rightarrow> string \<Rightarrow> bt_record list res"
    and as_of :: "'s \<Rightarrow> string \<Rightarrow> datetime option \<Rightarrow> datetime option \<Rightarrow> bt_record option res"
    and all_keys :: "'s \<Rightarrow> string list"
    and rows :: "'s \<Rightarrow> bt_record list"
    and invar :: "'s \<Rightarrow> bool"
    and admits :: "bt_record \<Rightarrow> bool"
    and stored :: "bt_record \<Rightarrow> bt_record"
    and clamp_ok :: "datetime option \<Rightarrow> bool"
  assumes append_law: "invar s \<Longrightarrow> admits r \<Longrightarrow>
      (\<exists>s'. append_rec s r = (Inr (), s') \<and> invar s' \<and> mset (rows s') = add_mset (stored r) (mset (rows s))) \<or>
      (\<exists>e s'. append_rec s r = (Inl e, s') \<and> invar s' \<and> mset (rows s') = mset (rows s))"
    and history_law: "invar s \<Longrightarrow> \<exists>hs. history s k = Inr hs \<and> mset hs = mset (filter (\<lambda>r. r_key r = k) (rows s))"
    and as_of_law: "invar s \<Longrightarrow> clamp_ok tx \<Longrightarrow> clamp_ok vt \<Longrightarrow>
      \<exists>a. as_of s k tx vt = Inr a \<and> best_of (filter (\<lambda>r. r_key r = k \<and> visible tx vt r) (rows s)) a"
    and keys_law: "invar s \<Longrightarrow> set (all_keys s) = r_key ` set (rows s)"
    and rows_aware: "invar s \<Longrightarrow> r \<in> set (rows s) \<Longrightarrow> aware_rec r"
    and stored_law: "admits r \<Longrightarrow> r_id (stored r) = r_id r \<and> r_key (stored r) = r_key r \<and>
      sort_key_of (stored r) = sort_key_of r"
    and admits_law: "admits r \<Longrightarrow> aware_rec r"
    and clamp_law: "clamp_ok t \<Longrightarrow> aware_opt t"

interpretation bt_mem: bitemporal_store
  bt_append bt_history bt_as_of bt_keys bt_rows bt_inv aware_rec "\<lambda>r. r" aware_opt
proof (unfold_locales, goal_cases)
  case (1 s r)
  then have "distinct (dkeys s)" by (simp add: bt_inv_def)
  with 1 mset_rows_dset [of s "r_key r" r] bt_inv_append [of s r] bt_append_cases [of s r]
  show ?case by (cases "\<exists>x\<in>set (dget_or s (r_key r) []). r_id x = r_id r") simp_all
next
  case (2 s k)
  then show ?case by (simp add: bt_history_def filter_key_rows)
next
  case (3 s tx vt k)
  have "filter (\<lambda>r. r_key r = k \<and> visible tx vt r) (bt_rows s) = filter (visible tx vt) (dget_or s k [])"
    using filter_key_rows [OF 3(1), of k] by (metis (no_types, lifting) filter_cong filter_filter)
  with bt_as_of_aware [OF 3] best_of_first_max show ?case by metis
next
  case (4 s)
  then show ?case by (rule bt_keys_rows)
next
  case (5 s r)
  then show ?case by (auto simp: bt_inv_def bt_rows_def)
qed auto

end
