(* ===== verification/AsOf.thy ===== *)
theory AsOf
  imports Bitemporal
begin

text \<open>
  The clients of a bitemporal store: \<open>AsOfView\<close> (\<open>bitemporal/asof.py\<close>), \<open>append_correction\<close>
  (\<open>corrections.py\<close>) and the ingestion helpers (\<open>ingest.py\<close>). They take the store's operations as
  arguments. The lemmas proved in \<open>bitemporal_store\<close> hold for every store; the stronger ones at the end
  are for the in-memory store, whose answers are a function of what was appended in which order.
\<close>

section \<open>The view\<close>

record as_of_view =
  v_tx :: "datetime option"
  v_vt :: "datetime option"

definition make_view :: "datetime option \<Rightarrow> datetime option \<Rightarrow> as_of_view res" where
  "make_view tx vt = (if tx = None \<and> vt = None then Inl ValueError else Inr \<lparr>v_tx = tx, v_vt = vt\<rparr>)"

definition view_latest ::
  "('s \<Rightarrow> string \<Rightarrow> datetime option \<Rightarrow> datetime option \<Rightarrow> bt_record option res) \<Rightarrow> 's \<Rightarrow> as_of_view \<Rightarrow>
   string \<Rightarrow> bt_record option res" where
  "view_latest as_of s v k = as_of s k (v_tx v) (v_vt v)"

text \<open>A caller's clamp replaces the view's unless it is later.\<close>

definition narrow :: "datetime option \<Rightarrow> datetime option \<Rightarrow> datetime option res" where
  "narrow own caller = (let t = (if caller \<noteq> None then caller else own) in
     case (own, t) of
       (Some o', Some t') \<Rightarrow> rbind (dt_gt t' o') (\<lambda>b. Inr (if b then own else t))
     | _ \<Rightarrow> Inr t)"

definition view_as_of ::
  "('s \<Rightarrow> string \<Rightarrow> datetime option \<Rightarrow> datetime option \<Rightarrow> bt_record option res) \<Rightarrow> 's \<Rightarrow> as_of_view \<Rightarrow>
   string \<Rightarrow> datetime option \<Rightarrow> datetime option \<Rightarrow> bt_record option res" where
  "view_as_of as_of s v k tx vt =
    rbind (narrow (v_tx v) tx) (\<lambda>tx'. rbind (narrow (v_vt v) vt) (\<lambda>vt'. as_of s k tx' vt'))"

definition upto_clamp :: "datetime \<Rightarrow> datetime option \<Rightarrow> bool res" where
  "upto_clamp t clamp = (case clamp of None \<Rightarrow> Inr True | Some c \<Rightarrow> dt_le t c)"

definition view_history ::
  "('s \<Rightarrow> string \<Rightarrow> bt_record list res) \<Rightarrow> 's \<Rightarrow> as_of_view \<Rightarrow> string \<Rightarrow> bt_record list res" where
  "view_history history s v k = rbind (history s k) (rfilter (\<lambda>r.
     rbind (upto_clamp (r_tx r) (v_tx v)) (\<lambda>b. if b then upto_clamp (r_valid r) (v_vt v) else Inr False)))"

definition view_keys ::
  "('s \<Rightarrow> string \<Rightarrow> bt_record list res) \<Rightarrow> ('s \<Rightarrow> string list) \<Rightarrow> 's \<Rightarrow> as_of_view \<Rightarrow> string list res" where
  "view_keys history all_keys s v =
    rfilter (\<lambda>k. rbind (view_history history s v k) (\<lambda>rs. Inr (rs \<noteq> []))) (all_keys s)"

definition view_append :: "as_of_view \<Rightarrow> bt_record list \<Rightarrow> unit res" where
  "view_append v rs = Inl AsOfViewWriteError"

section \<open>Corrections and ingestion\<close>

definition correction_meta :: "bt_record \<Rightarrow> pydict option \<Rightarrow> pydict" where
  "correction_meta original meta =
    (let d = dmerge (r_meta original) (case meta of None \<Rightarrow> [] | Some m \<Rightarrow> m) in
     if dget d ''correction_of'' = None then dset d ''correction_of'' (PStr (r_id original)) else d)"

definition append_correction ::
  "('s \<Rightarrow> bt_record \<Rightarrow> unit res \<times> 's) \<Rightarrow> datetime \<Rightarrow> string \<Rightarrow> 's \<Rightarrow> bt_record \<Rightarrow> pyval \<Rightarrow> string option \<Rightarrow>
   datetime option \<Rightarrow> pydict option \<Rightarrow> string option \<Rightarrow> bt_record res \<times> 's" where
  "append_correction append_rec now fresh s original value src tx meta deci =
    (case new_record now fresh (r_key original) (r_valid original) value
        (if str_truthy src then src else r_source original) tx deci (r_trust original)
        (Some (r_id original)) (Some (correction_meta original meta)) None of
       Inl e \<Rightarrow> (Inl e, s)
     | Inr c \<Rightarrow>
        (case dt_le (r_tx c) (r_tx original) of
           Inl e \<Rightarrow> (Inl e, s)
         | Inr b \<Rightarrow> if b then (Inl ValueError, s)
             else (case append_rec s c of (Inl e, s') \<Rightarrow> (Inl e, s') | (Inr _, s') \<Rightarrow> (Inr c, s'))))"

definition batch_append ::
  "('s \<Rightarrow> bt_record list \<Rightarrow> unit res \<times> 's) \<Rightarrow> datetime \<Rightarrow> 's \<Rightarrow> bt_record list \<Rightarrow> datetime option \<Rightarrow>
   bt_record list res \<times> 's" where
  "batch_append append_many now s records tx_opt =
    (let tx = (case tx_opt of None \<Rightarrow> now | Some t \<Rightarrow> t) in
     if \<not> aware tx then (Inl ValueError, s)
     else let normalized = map (\<lambda>r. r\<lparr>r_tx := tx\<rparr>) records in
       case append_many s normalized of
         (Inl e, s') \<Rightarrow> (Inl e, s') | (Inr _, s') \<Rightarrow> (Inr normalized, s'))"

text \<open>A record of the model always carries a transaction time, which \<open>stream_append\<close> preserves.\<close>

definition stream_append ::
  "('s \<Rightarrow> bt_record \<Rightarrow> unit res \<times> 's) \<Rightarrow> 's \<Rightarrow> bt_record \<Rightarrow> bt_record res \<times> 's" where
  "stream_append append_rec s r =
    (case append_rec s r of (Inl e, s') \<Rightarrow> (Inl e, s') | (Inr _, s') \<Rightarrow> (Inr r, s'))"

section \<open>On every store\<close>

lemma narrow_aware:
  assumes "aware_opt own" "aware_opt caller"
  shows "\<exists>t. narrow own caller = Inr t \<and> t \<in> {own, caller} \<and>
    (\<forall>x. (case t of None \<Rightarrow> True | Some c \<Rightarrow> instant x \<le> instant c) \<longleftrightarrow>
      (case own of None \<Rightarrow> True | Some c \<Rightarrow> instant x \<le> instant c) \<and>
      (case caller of None \<Rightarrow> True | Some c \<Rightarrow> instant x \<le> instant c))"
  using assms by (cases own; cases caller) (auto simp: narrow_def Let_def)

lemma narrow_visible:
  assumes "aware_opt (v_tx v)" "aware_opt tx" "aware_opt (v_vt v)" "aware_opt vt"
  shows "\<exists>tx' vt'. narrow (v_tx v) tx = Inr tx' \<and> narrow (v_vt v) vt = Inr vt' \<and>
    tx' \<in> {v_tx v, tx} \<and> vt' \<in> {v_vt v, vt} \<and>
    (\<forall>r. visible tx' vt' r \<longleftrightarrow> visible (v_tx v) (v_vt v) r \<and> visible tx vt r)"
  using narrow_aware [OF assms(1,2)] narrow_aware [OF assms(3,4)]
  unfolding visible_def by blast

lemma upto_aware: "aware t \<Longrightarrow> aware_opt c \<Longrightarrow>
  upto_clamp t c = Inr (case c of None \<Rightarrow> True | Some c' \<Rightarrow> instant t \<le> instant c')"
  by (cases c) (auto simp: upto_clamp_def)

lemma view_filter_aware:
  assumes "\<forall>r\<in>set hs. aware_rec r" "aware_opt (v_tx v)" "aware_opt (v_vt v)" "history s k = Inr hs"
  shows "view_history history s v k = Inr (filter (visible (v_tx v) (v_vt v)) hs)"
  unfolding view_history_def assms(4) rbind.simps
  using assms(1-3) by (intro rfilter_pure) (auto simp: upto_aware aware_rec_def visible_def)

lemma append_correction_Inr:
  assumes "append_correction append_rec now fresh s original value src tx meta deci = (Inr c, s')"
  shows "append_rec s c = (Inr (), s')" "r_key c = r_key original" "r_valid c = r_valid original"
    "r_parent c = Some (r_id original)" "r_value c = value" "aware_rec c" "r_id c = fresh"
    "aware (r_tx original)" "instant (r_tx original) < instant (r_tx c)"
    "r_tx c = (case tx of None \<Rightarrow> now | Some t \<Rightarrow> t)"
  using assms
  by (auto simp: append_correction_def new_record_def Let_def aware_rec_def dt_le_def str_truthy_def not_le
      split: if_splits sum.splits prod.splits)

context bitemporal_store
begin

text \<open>Whatever the view answers was visible at its clamps and at the caller's, and nothing visible at
  both comes after it.\<close>

lemma view_as_of_best:
  assumes "invar s" "clamp_ok (v_tx v)" "clamp_ok (v_vt v)" "clamp_ok tx" "clamp_ok vt"
  shows "\<exists>a. view_as_of as_of s v k tx vt = Inr a \<and>
    best_of (filter (\<lambda>r. r_key r = k \<and> visible (v_tx v) (v_vt v) r \<and> visible tx vt r) (rows s)) a"
proof -
  from narrow_visible [OF assms(2,4,3,5) [THEN clamp_law]] obtain tx' vt' where n: "narrow (v_tx v) tx = Inr tx'"
    "narrow (v_vt v) vt = Inr vt'" "tx' \<in> {v_tx v, tx}" "vt' \<in> {v_vt v, vt}"
    "\<And>r. visible tx' vt' r \<longleftrightarrow> visible (v_tx v) (v_vt v) r \<and> visible tx vt r" by blast
  with assms have "clamp_ok tx'" "clamp_ok vt'" by auto
  from as_of_law [OF assms(1) this, of k] n show ?thesis by (simp add: view_as_of_def)
qed

text \<open>\<open>history\<close> and \<open>keys\<close> of the view.\<close>

lemma view_history_visible:
  assumes "invar s" "aware_opt (v_tx v)" "aware_opt (v_vt v)"
  shows "\<exists>hs. view_history history s v k = Inr hs \<and>
    mset hs = mset (filter (\<lambda>r. r_key r = k \<and> visible (v_tx v) (v_vt v) r) (rows s))"
proof -
  from history_law [OF assms(1), of k] obtain hs where hs: "history s k = Inr hs"
    "mset hs = mset (filter (\<lambda>r. r_key r = k) (rows s))" by blast
  have "set hs = set (filter (\<lambda>r. r_key r = k) (rows s))" using hs(2) by (rule mset_eq_setD)
  then have "\<forall>r\<in>set hs. aware_rec r" using rows_aware [OF assms(1)] by auto
  from view_filter_aware [OF this assms(2,3), of history s k, OF hs(1)] hs(2) show ?thesis
    by (auto simp: mset_filter filter_filter_mset conj_commute)
qed

text \<open>A row whose transaction time is after the view's clamp changes no candidate set.\<close>

lemma later_row_invisible:
  assumes "mset (rows s') = add_mset (stored r) (mset (rows s))" "admits r" "v_tx v = Some c"
    "instant c < instant (r_tx r)"
  shows "mset (filter (\<lambda>x. r_key x = k \<and> visible (v_tx v) (v_vt v) x \<and> P x) (rows s'))
    = mset (filter (\<lambda>x. r_key x = k \<and> visible (v_tx v) (v_vt v) x \<and> P x) (rows s))"
proof -
  have "instant (r_tx (stored r)) = instant (r_tx r)" using stored_law [OF assms(2)] by (simp add: sort_key_of_def)
  with assms(3,4) have "\<not> visible (v_tx v) (v_vt v) (stored r)" by (simp add: visible_def)
  then show ?thesis by (simp add: mset_filter assms(1))
qed

text \<open>A correction later than everything known about the key is the answer wherever it is visible.\<close>

lemma correction_wins:
  assumes "invar s" "append_correction append_rec now fresh s original value src tx meta deci = (Inr c, s')"
    "admits c" "\<forall>r\<in>set (rows s). r_key r = r_key c \<longrightarrow> instant (r_tx r) < instant (r_tx c)"
    "clamp_ok tx'" "clamp_ok vt'" "visible tx' vt' c"
  shows "as_of s' (r_key c) tx' vt' = Inr (Some (stored c))"
proof -
  have app: "append_rec s c = (Inr (), s')" by (rule append_correction_Inr [OF assms(2)])
  from append_law [OF assms(1,3)] app have s': "invar s'"
    "mset (rows s') = add_mset (stored c) (mset (rows s))" by auto
  let ?cs = "filter (\<lambda>r. r_key r = r_key c \<and> visible tx' vt' r) (rows s')"
  from as_of_law [OF s'(1) assms(5,6), of "r_key c"] obtain a where
    a: "as_of s' (r_key c) tx' vt' = Inr a" "best_of ?cs a" by blast
  note st = stored_law [OF assms(3)]
  have set: "set (rows s') = insert (stored c) (set (rows s))"
    using s'(2) by (metis set_mset_add_mset_insert set_mset_mset)
  have "visible tx' vt' (stored c)" using assms(7) st
    by (auto simp: visible_def sort_key_of_def split: option.splits)
  then have mem: "stored c \<in> set ?cs" using st set by simp
  from a(2) mem obtain r where r: "a = Some r" "r \<in> set ?cs" "sort_key_of (stored c) \<le> sort_key_of r"
    by (cases a) (auto simp: best_of_def filter_empty_conv)
  have "r = stored c"
  proof (rule ccontr)
    assume "r \<noteq> stored c"
    with r(2) set have "r \<in> set (rows s)" "r_key r = r_key c" by auto
    with assms(4) have "instant (r_tx r) < instant (r_tx c)" by blast
    with r(3) st show False by (simp add: sort_key_of_def less_eq_prod_def)
  qed
  with a r show ?thesis by simp
qed

end

section \<open>On the in-memory store\<close>

lemma bt_append_bucket:
  assumes "bt_inv s" "bt_append s r = (res, s')"
  shows "dget_or s' k [] = dget_or s k [] @ (if isl res \<or> r_key r \<noteq> k then [] else [r])"
  using assms by (auto simp: bt_append_cases dget_or_def split: if_splits option.splits)

lemma bt_append_keys:
  assumes "bt_inv s" "bt_append s r = (res, s')"
  shows "bt_keys s' = bt_keys s @ (if isl res \<or> r_key r \<in> set (bt_keys s) then [] else [r_key r])"
  using assms by (force simp: bt_append_cases bt_keys_def dkeys_dset split: if_splits)

lemma bt_append_inv:
  "bt_inv s \<Longrightarrow> aware_rec r \<Longrightarrow> bt_append s r = (res, s') \<Longrightarrow> bt_inv s'"
  using bt_inv_append [of s r] by (auto simp: bt_append_cases split: if_splits)

text \<open>What \<open>append_many\<close> adds to a bucket, and the keys it adds.\<close>

lemma bt_append_many_adds:
  "bt_inv s \<Longrightarrow> \<forall>r\<in>set rs. aware_rec r \<Longrightarrow> bt_append_many s rs = (res, s') \<Longrightarrow>
   bt_inv s' \<and> (\<forall>k. \<exists>xs. dget_or s' k [] = dget_or s k [] @ xs \<and> set xs \<subseteq> set rs \<and> (\<forall>x\<in>set xs. r_key x = k)) \<and>
     (\<exists>ks. bt_keys s' = bt_keys s @ ks \<and> set ks \<inter> set (bt_keys s) = {})"
proof (induction rs arbitrary: s)
  case (Cons r rs)
  obtain res1 s1 where r: "bt_append s r = (res1, s1)" by (cases "bt_append s r")
  note b = bt_append_bucket [OF Cons.prems(1) r] and ks = bt_append_keys [OF Cons.prems(1) r]
  have inv: "bt_inv s1" using bt_append_inv [OF Cons.prems(1) _ r] Cons.prems(2) by simp
  show ?case
  proof (cases res1)
    case (Inl e)
    with Cons.prems r b ks inv show ?thesis by simp
  next
    case (Inr u)
    with Cons.prems r have "bt_append_many s1 rs = (res, s')" by simp
    from Cons.IH [OF inv _ this] Cons.prems(2) have IH: "bt_inv s'"
      "\<And>k. \<exists>xs. dget_or s' k [] = dget_or s1 k [] @ xs \<and> set xs \<subseteq> set rs \<and> (\<forall>x\<in>set xs. r_key x = k)"
      "\<exists>ks. bt_keys s' = bt_keys s1 @ ks \<and> set ks \<inter> set (bt_keys s1) = {}" by simp_all
    have "\<exists>xs. dget_or s' k [] = dget_or s k [] @ xs \<and> set xs \<subseteq> set (r # rs) \<and> (\<forall>x\<in>set xs. r_key x = k)" for k
    proof -
      from IH(2) [of k] obtain xs where "dget_or s' k [] = dget_or s1 k [] @ xs" "set xs \<subseteq> set rs"
        "\<forall>x\<in>set xs. r_key x = k" by blast
      with b [of k] show ?thesis
        by (intro exI [of _ "(if isl res1 \<or> r_key r \<noteq> k then [] else [r]) @ xs"]) auto
    qed
    moreover have "\<exists>ks. bt_keys s' = bt_keys s @ ks \<and> set ks \<inter> set (bt_keys s) = {}"
      using IH(3) ks by (auto split: if_splits)
    ultimately show ?thesis using IH(1) by blast
  qed
qed auto

text \<open>Records the view's clamps hide leave every read of the view as it was.\<close>

lemma hidden_bucket:
  "\<forall>x\<in>set xs. \<not> visible tx vt x \<Longrightarrow> filter (visible tx vt) (b @ xs) = filter (visible tx vt) b"
  by simp

text \<open>A view reads its store through the records its clamps show.\<close>

lemma memory_view_history:
  assumes "bt_inv t" "aware_opt (v_tx v)" "aware_opt (v_vt v)"
  shows "view_history bt_history t v k = Inr (filter (visible (v_tx v) (v_vt v)) (dget_or t k []))"
  using bt_inv_bucket(2) [OF assms(1)]
  by (intro view_filter_aware [OF _ assms(2,3)]) (auto simp: bt_history_def)

lemma memory_view_keys:
  assumes "bt_inv t" "aware_opt (v_tx v)" "aware_opt (v_vt v)"
  shows "view_keys bt_history bt_keys t v =
    Inr (filter (\<lambda>k. filter (visible (v_tx v) (v_vt v)) (dget_or t k []) \<noteq> []) (bt_keys t))"
  unfolding view_keys_def by (intro rfilter_pure) (simp add: memory_view_history [OF assms])

lemma memory_view_as_of:
  assumes "bt_inv s" "bt_inv s'" "aware_opt (v_tx v)" "aware_opt (v_vt v)" "aware_opt tx" "aware_opt vt"
    and same: "\<And>tx' vt'. (\<And>r. visible tx' vt' r \<Longrightarrow> visible (v_tx v) (v_vt v) r) \<Longrightarrow>
      filter (visible tx' vt') (dget_or s' k []) = filter (visible tx' vt') (dget_or s k [])"
  shows "view_as_of bt_as_of s' v k tx vt = view_as_of bt_as_of s v k tx vt"
proof -
  from narrow_visible [OF assms(3,5,4,6)] obtain tx' vt' where n: "narrow (v_tx v) tx = Inr tx'"
    "narrow (v_vt v) vt = Inr vt'" "tx' \<in> {v_tx v, tx}" "vt' \<in> {v_vt v, vt}"
    "\<And>r. visible tx' vt' r \<longleftrightarrow> visible (v_tx v) (v_vt v) r \<and> visible tx vt r" by blast
  have ok: "aware_opt tx'" "aware_opt vt'" using n(3,4) assms(3-6) by auto
  have "filter (visible tx' vt') (dget_or s' k []) = filter (visible tx' vt') (dget_or s k [])"
    by (rule same) (simp add: n(5))
  then show ?thesis
    by (simp add: view_as_of_def n(1,2) bt_as_of_aware [OF assms(2) ok] bt_as_of_aware [OF assms(1) ok])
qed

text \<open>Properties of the view.\<close>

text \<open>C6: no look-ahead. Appending, in one batch or many, records learned after the view's transaction
  clamp changes none of \<open>latest\<close>, \<open>as_of\<close> (under any clamps of the caller), \<open>history\<close> and \<open>keys\<close>.\<close>

theorem view_has_no_look_ahead:
  assumes "bt_inv s" "v_tx v = Some c" "aware c" "aware_opt (v_vt v)"
    and "\<forall>r\<in>set later. aware_rec r \<and> instant c < instant (r_tx r)"
    and "bt_append_many s later = (res, s')" "aware_opt tx" "aware_opt vt"
  shows "view_latest bt_as_of s' v k = view_latest bt_as_of s v k \<and>
    view_as_of bt_as_of s' v k tx vt = view_as_of bt_as_of s v k tx vt \<and>
    view_history bt_history s' v k = view_history bt_history s v k \<and>
    view_keys bt_history bt_keys s' v = view_keys bt_history bt_keys s v"
proof -
  have aw: "aware_opt (v_tx v)" using assms(2,3) by simp
  from bt_append_many_adds [OF assms(1) _ assms(6)] assms(5)
  have s': "bt_inv s'" and adds: "\<And>k. \<exists>xs. dget_or s' k [] = dget_or s k [] @ xs \<and> set xs \<subseteq> set later"
    and keys: "\<exists>ks. bt_keys s' = bt_keys s @ ks \<and> set ks \<inter> set (bt_keys s) = {}" by blast+
  have same: "filter (visible tx' vt') (dget_or s' k []) = filter (visible tx' vt') (dget_or s k [])"
    if "\<And>r. visible tx' vt' r \<Longrightarrow> visible (v_tx v) (v_vt v) r" for tx' vt' k
  proof -
    from adds [of k] obtain xs where xs: "dget_or s' k [] = dget_or s k [] @ xs" "set xs \<subseteq> set later" by blast
    have "\<not> visible tx' vt' x" if "x \<in> set later" for x
      using that assms(2,5) \<open>\<And>r. visible tx' vt' r \<Longrightarrow> visible (v_tx v) (v_vt v) r\<close> [of x]
      by (auto simp: visible_def)
    with xs show ?thesis by (metis hidden_bucket subsetD)
  qed
  have "view_latest bt_as_of s' v k = view_latest bt_as_of s v k"
    by (simp add: view_latest_def bt_as_of_aware [OF s' aw assms(4)] bt_as_of_aware [OF assms(1) aw assms(4)] same)
  moreover have "view_as_of bt_as_of s' v k tx vt = view_as_of bt_as_of s v k tx vt"
    by (rule memory_view_as_of [OF assms(1) s' aw assms(4,7,8) same])
  moreover have "view_history bt_history s' v k = view_history bt_history s v k"
    by (simp add: memory_view_history [OF _ aw assms(4)] s' assms(1) same)
  moreover have "view_keys bt_history bt_keys s' v = view_keys bt_history bt_keys s v"
  proof -
    from keys obtain ks where ks: "bt_keys s' = bt_keys s @ ks" "set ks \<inter> set (bt_keys s) = {}" by blast
    then have "dget_or s k [] = []" if "k \<in> set ks" for k
      using that by (intro dget_or_absent) (auto simp: bt_keys_def)
    then show ?thesis
      by (simp add: memory_view_keys [OF _ aw assms(4)] s' assms(1) ks(1) same filter_empty_conv)
  qed
  ultimately show ?thesis by blast
qed

definition day :: "int \<Rightarrow> datetime" where
  "day n = \<lparr>dt_wall = 63000000000000000 + n * us_per_day, dt_off = Some 0\<rparr>"

lemma day_simps [simp]: "aware (day n)" "instant (day n) = 63000000000000000 + n * us_per_day"
  by (simp_all add: day_def aware_def instant_def)

definition price :: "string \<Rightarrow> int \<Rightarrow> int \<Rightarrow> int \<Rightarrow> bt_record" where
  "price i v t x = \<lparr>r_id = i, r_key = ''USDC/USD'', r_valid = day v, r_tx = day t, r_value = PInt x,
     r_source = Some ''feed'', r_decision = None, r_trust = None, r_parent = None, r_meta = []\<rparr>"

lemma price_simps [simp]:
  "r_id (price i v t x) = i" "r_key (price i v t x) = ''USDC/USD''" "r_valid (price i v t x) = day v"
  "r_tx (price i v t x) = day t" "r_parent (price i v t x) = None" "aware_rec (price i v t x)"
  by (simp_all add: price_def aware_rec_def)

lemma us_per_day_pos: "0 < us_per_day"
  by (simp add: us_per_day_def)

theorem view_has_no_look_ahead_witness:
  "view_latest bt_as_of (snd (bt_append_many [(''USDC/USD'', [price ''a'' 0 1 100])] [price ''b'' 0 3 99]))
     \<lparr>v_tx = Some (day 2), v_vt = None\<rparr> ''USDC/USD''
   = view_latest bt_as_of [(''USDC/USD'', [price ''a'' 0 1 100])] \<lparr>v_tx = Some (day 2), v_vt = None\<rparr> ''USDC/USD''"
proof -
  let ?s = "[(''USDC/USD'', [price ''a'' 0 1 100])]" and ?later = "[price ''b'' 0 3 99]"
  have inv: "bt_inv ?s" by (simp add: bt_inv_def)
  have later: "\<forall>r\<in>set ?later. aware_rec r \<and> instant (day 2) < instant (r_tx r)"
    using us_per_day_pos by simp
  show ?thesis
    using view_has_no_look_ahead [OF inv _ _ _ later prod.collapse [symmetric],
        of "\<lparr>v_tx = Some (day 2), v_vt = None\<rparr>" None None "''USDC/USD''"]
    by simp
qed

text \<open>a correction later than everything recorded for its key is the answer to every query that can
  see it; every query whose clamps exclude it answers as before; and the record it corrects stays in
  the history, followed by the correction.\<close>

theorem correction_supersedes:
  assumes "bt_inv s" "append_correction bt_append now fresh s original value src tx meta deci = (Inr c, s')"
    and "\<forall>r\<in>set (dget_or s (r_key original) []). instant (r_tx r) < instant (r_tx c)"
    and "aware_opt tx'" "aware_opt vt'"
  shows "bt_as_of s' (r_key original) tx' vt' =
      (if visible tx' vt' c then Inr (Some c) else bt_as_of s (r_key original) tx' vt') \<and>
    bt_history s' (r_key original) = Inr (dget_or s (r_key original) [] @ [c]) \<and>
    r_parent c = Some (r_id original) \<and> r_valid c = r_valid original"
proof -
  note c = append_correction_Inr [OF assms(2)]
  have inv: "bt_inv s'" using bt_append_inv [OF assms(1) c(6,1)] .
  have b: "dget_or s' (r_key original) [] = dget_or s (r_key original) [] @ [c]"
    using bt_append_bucket [OF assms(1) c(1), of "r_key original"] c(2) by simp
  let ?b = "dget_or s (r_key original) []"
  have "first_max sort_key_of (filter (visible tx' vt') ?b @ [c]) = Some c"
    by (rule first_max_append_winner) (use assms(3) in \<open>auto simp: sort_key_of_def pair_less_iff\<close>)
  then show ?thesis
    using b c(3,4) by (simp add: bt_as_of_aware [OF inv assms(4,5)] bt_as_of_aware [OF assms(1,4,5)] bt_history_def)
qed

theorem correction_supersedes_witness:
  "bt_as_of (snd (append_correction bt_append (day 5) ''fix'' [(''USDC/USD'', [price ''a'' 0 1 100])]
      (price ''a'' 0 1 100) (PInt 97) None None None None)) ''USDC/USD'' (Some (day 6)) None
   = Inr (Some \<lparr>r_id = ''fix'', r_key = ''USDC/USD'', r_valid = day 0, r_tx = day 5, r_value = PInt 97,
       r_source = Some ''feed'', r_decision = None, r_trust = None, r_parent = Some ''a'',
       r_meta = [(''correction_of'', PStr ''a'')]\<rparr>)"
proof -
  let ?s = "[(''USDC/USD'', [price ''a'' 0 1 100])]"
  let ?c = "\<lparr>r_id = ''fix'', r_key = ''USDC/USD'', r_valid = day 0, r_tx = day 5, r_value = PInt 97,
       r_source = Some ''feed'', r_decision = None, r_trust = None, r_parent = Some ''a'',
       r_meta = [(''correction_of'', PStr ''a'')]\<rparr>"
  have run: "append_correction bt_append (day 5) ''fix'' ?s (price ''a'' 0 1 100) (PInt 97) None None None None
      = (Inr ?c, [(''USDC/USD'', [price ''a'' 0 1 100, ?c])])"
    using us_per_day_pos
    by (simp add: append_correction_def new_record_def Let_def str_truthy_def correction_meta_def dmerge_def
        bt_append_def dget_or_def) (simp add: price_def)
  have inv: "bt_inv ?s" by (simp add: bt_inv_def)
  have "visible (Some (day 6)) None ?c" using us_per_day_pos by (simp add: visible_def)
  moreover have "\<forall>r\<in>set (dget_or ?s (r_key (price ''a'' 0 1 100)) []). instant (r_tx r) < instant (r_tx ?c)"
    using us_per_day_pos by (simp add: dget_or_def)
  ultimately show ?thesis
    using correction_supersedes [OF inv run, of "Some (day 6)" None] run by simp
qed

end
