(* ===== verification/BitemporalBackends.thy ===== *)
theory BitemporalBackends
  imports AsOf
begin

text \<open>
  The durable stores of \<open>bitemporal/backends/\<close>: SQLite (\<open>sqlite.py\<close>) and Iceberg
  (\<open>iceberg.py\<close>), both interpretations of \<open>bitemporal_store\<close>. The database engines are represented by
  the rows they hold and by the order in which a scan visits them (\<open>db_scan\<close>, \<open>ice_scan\<close>), which SQL and
  Iceberg leave open; constraints, \<open>ORDER BY\<close> and \<open>LIMIT 1\<close> are spelled out. A JSON column is
  represented by the value \<open>json.loads\<close> reads back from it. The read-only fallback that compares in SQL
  (\<open>_compare_in_utc\<close>) and the engine settings are not modelled.
\<close>

section \<open>JSON columns\<close>

text \<open>What \<open>json.loads\<close> returns for \<open>json.dumps(v, sort_keys=True, default=str)\<close>.\<close>

fun json_image :: "pyval \<Rightarrow> pyval"
  and json_images :: "pyval list \<Rightarrow> pyval list"
  and json_items :: "(string \<times> pyval) list \<Rightarrow> (string \<times> pyval) list" where
  "json_image (PObj s) = PStr s"
| "json_image (PList xs) = PList (json_images xs)"
| "json_image (PDict d) = PDict (sort_key fst (json_items d))"
| "json_image v = v"
| "json_images [] = []"
| "json_images (x # xs) = json_image x # json_images xs"
| "json_items [] = []"
| "json_items ((k, x) # d) = (k, json_image x) # json_items d"

section \<open>SQLite\<close>

record sq_row =
  q_id :: string
  q_key :: string
  q_valid :: string
  q_tx :: string
  q_value :: pyval
  q_source :: "string option"
  q_decision :: "string option"
  q_trust :: "string option"
  q_parent :: "string option"
  q_meta :: pydict
  q_hash :: string

datatype sql_stmt = BeginTx | InsertRow sq_row | CommitTx | RollbackTx

text \<open>A connection: the rows as its statements see them, the rows a \<open>ROLLBACK\<close> brings back while a
  transaction is open, the order in which a scan visits rows, and the failures of the engine (a full
  disk, a lock) by the class of what is raised.\<close>

record sq_db =
  db_rows :: "sq_row list"
  db_saved :: "sq_row list option"
  db_scan :: "sq_row list \<Rightarrow> sq_row list"
  db_fault :: "sq_row list \<Rightarrow> sql_stmt \<Rightarrow> string option"

definition parse_iso :: "string \<Rightarrow> datetime res" where
  "parse_iso s = rbind (fromisoformat s) (\<lambda>d. Inr (if aware d then d else to_utc d))"

definition sq_row_to_record :: "sq_row \<Rightarrow> bt_record res" where
  "sq_row_to_record q =
    rbind (parse_iso (q_valid q)) (\<lambda>vt. rbind (parse_iso (q_tx q)) (\<lambda>tx.
      Inr \<lparr>r_id = q_id q, r_key = q_key q, r_valid = vt, r_tx = tx, r_value = q_value q,
           r_source = q_source q, r_decision = q_decision q, r_trust = q_trust q,
           r_parent = q_parent q, r_meta = q_meta q\<rparr>))"

definition record_to_params :: "(rat \<Rightarrow> string) \<Rightarrow> (bytes \<Rightarrow> string) \<Rightarrow> bt_record \<Rightarrow> sq_row res" where
  "record_to_params fr sha r = rbind (content_hash fr sha r) (\<lambda>h.
     Inr \<lparr>q_id = r_id r, q_key = r_key r, q_valid = sqlite_iso (r_valid r), q_tx = sqlite_iso (r_tx r),
          q_value = json_image (r_value r), q_source = r_source r, q_decision = r_decision r,
          q_trust = r_trust r, q_parent = r_parent r, q_meta = sort_key fst (json_items (r_meta r)), q_hash = h\<rparr>)"

text \<open>One statement. The primary key is unique, a parent must exist (possibly the row itself); \<open>BEGIN\<close>
  wants no open transaction, \<open>COMMIT\<close> and \<open>ROLLBACK\<close> want one.\<close>

definition sql_exec :: "sql_stmt \<Rightarrow> sq_db \<Rightarrow> unit res \<times> sq_db" where
  "sql_exec st s =
    (case (if st = RollbackTx then None else db_fault s (db_rows s) st) of
       Some cls \<Rightarrow> (Inl (RaisedBy cls), s)
     | None \<Rightarrow> (case st of
         BeginTx \<Rightarrow> if db_saved s \<noteq> None then (Inl (RaisedBy ''OperationalError''), s) else (Inr (), s\<lparr>db_saved := Some (db_rows s)\<rparr>)
       | InsertRow q \<Rightarrow>
           if q_id q \<in> q_id ` set (db_rows s) \<or> (case q_parent q of None \<Rightarrow> False | Some p \<Rightarrow> p \<notin> q_id ` set (db_rows s @ [q]))
           then (Inl (RaisedBy ''IntegrityError''), s) else (Inr (), s\<lparr>db_rows := db_rows s @ [q]\<rparr>)
       | CommitTx \<Rightarrow> (case db_saved s of None \<Rightarrow> (Inl (RaisedBy ''OperationalError''), s) | Some d \<Rightarrow> (Inr (), s\<lparr>db_saved := None\<rparr>))
       | RollbackTx \<Rightarrow> (case db_saved s of None \<Rightarrow> (Inl (RaisedBy ''OperationalError''), s)
           | Some d \<Rightarrow> (Inr (), s\<lparr>db_rows := d, db_saved := None\<rparr>))))"

text \<open>Statement after statement, up to the first that raises: what was inserted before it stays.\<close>

fun sql_run :: "sql_stmt list \<Rightarrow> sq_db \<Rightarrow> unit res \<times> sq_db" where
  "sql_run [] s = (Inr (), s)"
| "sql_run (st # sts) s = (case sql_exec st s of (Inl e, s1) \<Rightarrow> (Inl e, s1) | (Inr u, s1) \<Rightarrow> sql_run sts s1)"

definition sq_append_many ::
  "(rat \<Rightarrow> string) \<Rightarrow> (bytes \<Rightarrow> string) \<Rightarrow> sq_db \<Rightarrow> bt_record list \<Rightarrow> unit res \<times> sq_db" where
  "sq_append_many fr sha s records =
    (if records = [] then (Inr (), s)
     else case rmap (record_to_params fr sha) records of
       Inl e \<Rightarrow> (Inl e, s)
     | Inr qs \<Rightarrow> (case sql_run (BeginTx # map InsertRow qs @ [CommitTx]) s of
         (Inr u, s1) \<Rightarrow> (Inr (), s1)
       | (Inl e, s1) \<Rightarrow> (case sql_exec RollbackTx s1 of
           (Inl e', s2) \<Rightarrow> (Inl e', s2)
         | (Inr u, s2) \<Rightarrow> (Inl (if e = RaisedBy ''IntegrityError'' then ValueError else e), s2))))"

definition sq_append ::
  "(rat \<Rightarrow> string) \<Rightarrow> (bytes \<Rightarrow> string) \<Rightarrow> sq_db \<Rightarrow> bt_record \<Rightarrow> unit res \<times> sq_db" where
  "sq_append fr sha s r = sq_append_many fr sha s [r]"

text \<open>\<open>SELECT * ... ORDER BY transaction_time, valid_time\<close>.\<close>

definition sq_history :: "sq_db \<Rightarrow> string \<Rightarrow> bt_record list res" where
  "sq_history s k = rmap sq_row_to_record
    (sort_key (\<lambda>q. (q_tx q, q_valid q)) (filter (\<lambda>q. q_key q = k) (db_scan s (db_rows s))))"

definition sq_rank :: "sq_row \<Rightarrow> nat" where
  "sq_rank q = (if q_parent q \<noteq> None then 1 else 0)"

definition text_upto :: "string \<Rightarrow> datetime option \<Rightarrow> bool" where
  "text_upto t clamp = (case clamp of None \<Rightarrow> True | Some c \<Rightarrow> t \<le> sqlite_iso c)"

text \<open>\<open>ORDER BY ... DESC LIMIT 1\<close>: a row no other row exceeds; the first one the scan visits among
  equals.\<close>

definition sq_as_of :: "sq_db \<Rightarrow> string \<Rightarrow> datetime option \<Rightarrow> datetime option \<Rightarrow> bt_record option res" where
  "sq_as_of s k tx vt =
    (case first_max (\<lambda>q. (q_tx q, q_valid q, sq_rank q))
       (filter (\<lambda>q. q_key q = k \<and> text_upto (q_tx q) tx \<and> text_upto (q_valid q) vt) (db_scan s (db_rows s))) of
       None \<Rightarrow> Inr None
     | Some q \<Rightarrow> rbind (sq_row_to_record q) (\<lambda>r. Inr (Some r)))"

definition sq_keys :: "sq_db \<Rightarrow> string list" where
  "sq_keys s = sort (remdups (map q_key (db_rows s)))"

definition sq_len :: "sq_db \<Rightarrow> nat" where
  "sq_len s = length (db_rows s)"

text \<open>The rewrite of legacy rows: \<open>NOT LIKE '%+00:00'\<close> in either column.\<close>

definition utc_suffix :: "string \<Rightarrow> bool" where
  "utc_suffix s \<longleftrightarrow> 6 \<le> length s \<and> drop (length s - 6) s = ''+00:00''"

definition normalize_row :: "sq_row \<Rightarrow> sq_row res" where
  "normalize_row q = (if utc_suffix (q_valid q) \<and> utc_suffix (q_tx q) then Inr q
     else rbind (parse_iso (q_valid q)) (\<lambda>vt. rbind (parse_iso (q_tx q)) (\<lambda>tx.
       Inr (q\<lparr>q_valid := sqlite_iso vt, q_tx := sqlite_iso tx\<rparr>))))"

definition normalize_legacy :: "sq_db \<Rightarrow> unit res \<times> sq_db" where
  "normalize_legacy s = (case rmap normalize_row (db_rows s) of
     Inl e \<Rightarrow> (Inl e, s) | Inr qs \<Rightarrow> (Inr (), s\<lparr>db_rows := qs\<rparr>))"

section \<open>Times in a column\<close>

lemma parse_sqlite_iso:
  assumes "in_range d"
  shows "parse_iso (sqlite_iso d) = Inr (to_utc d)"
proof -
  have "wf_datetime (to_utc d)"
    using assms by (auto simp: wf_datetime_def in_range_def to_utc_def us_per_day_def)
  then show ?thesis by (simp add: parse_iso_def sqlite_iso_def fromisoformat_isoformat)
qed

definition sq_row_ok :: "sq_row \<Rightarrow> bool" where
  "sq_row_ok q \<longleftrightarrow> (\<exists>v t. in_range v \<and> in_range t \<and> q_valid q = sqlite_iso v \<and> q_tx q = sqlite_iso t) \<and>
     q_parent q \<noteq> Some []"

text \<open>The record a well-formed row stands for.\<close>

definition sq_record :: "sq_row \<Rightarrow> bt_record" where
  "sq_record q = (case sq_row_to_record q of Inr r \<Rightarrow> r | Inl _ \<Rightarrow> undefined)"

lemma sq_row_record:
  assumes "sq_row_ok q"
  shows "sq_row_to_record q = Inr (sq_record q)" "aware_rec (sq_record q)"
    "r_key (sq_record q) = q_key q" "r_id (sq_record q) = q_id q" "parent_rank (sq_record q) = sq_rank q"
    "\<exists>v t. in_range v \<and> in_range t \<and> q_valid q = sqlite_iso v \<and> q_tx q = sqlite_iso t \<and>
      instant (r_valid (sq_record q)) = instant v \<and> instant (r_tx (sq_record q)) = instant t"
proof -
  from assms obtain v t where vt: "in_range v" "in_range t" "q_valid q = sqlite_iso v" "q_tx q = sqlite_iso t"
    and par: "q_parent q \<noteq> Some []" by (auto simp: sq_row_ok_def)
  note p = parse_sqlite_iso [OF vt(1)] parse_sqlite_iso [OF vt(2)]
  show "sq_row_to_record q = Inr (sq_record q)" "aware_rec (sq_record q)"
    "r_key (sq_record q) = q_key q" "r_id (sq_record q) = q_id q" "parent_rank (sq_record q) = sq_rank q"
    using par
    by (auto simp: sq_record_def sq_row_to_record_def vt p aware_rec_def parent_rank_def sq_rank_def str_truthy_def
        split: option.splits)
  show "\<exists>v t. in_range v \<and> in_range t \<and> q_valid q = sqlite_iso v \<and> q_tx q = sqlite_iso t \<and>
      instant (r_valid (sq_record q)) = instant v \<and> instant (r_tx (sq_record q)) = instant t"
    by (rule exI [of _ v], rule exI [of _ t]) (simp add: sq_record_def sq_row_to_record_def vt p)
qed

definition clamp_in_range :: "datetime option \<Rightarrow> bool" where
  "clamp_in_range t \<longleftrightarrow> (case t of None \<Rightarrow> True | Some c \<Rightarrow> aware c \<and> in_range c)"

lemma text_visible:
  assumes "sq_row_ok q" "clamp_in_range tx" "clamp_in_range vt"
  shows "text_upto (q_tx q) tx \<and> text_upto (q_valid q) vt \<longleftrightarrow> visible tx vt (sq_record q)"
  using sq_row_record(6) [OF assms(1)] assms(2,3)
  by (cases tx; cases vt) (auto simp: text_upto_def visible_def clamp_in_range_def sqlite_iso_le)

lemma text_key_order:
  assumes "sq_row_ok q" "sq_row_ok p"
  shows "(q_tx q, q_valid q, sq_rank q) \<le> (q_tx p, q_valid p, sq_rank p) \<longleftrightarrow>
    sort_key_of (sq_record q) \<le> sort_key_of (sq_record p)"
  using sq_row_record(6) [OF assms(1)] sq_row_record(6) [OF assms(2)]
    sq_row_record(5) [OF assms(1)] sq_row_record(5) [OF assms(2)]
  by (auto simp: sort_key_of_def less_eq_prod_def sqlite_iso_less sqlite_iso_le sqlite_iso_eq)

section \<open>SQLite implements the protocol\<close>

definition sq_inv :: "sq_db \<Rightarrow> bool" where
  "sq_inv s \<longleftrightarrow> (\<forall>q\<in>set (db_rows s). sq_row_ok q) \<and> distinct (map q_id (db_rows s)) \<and>
     (\<forall>rs. mset (db_scan s rs) = mset rs) \<and> db_saved s = None"

definition sq_records :: "sq_db \<Rightarrow> bt_record list" where
  "sq_records s = map sq_record (db_rows s)"

definition sq_admits :: "bt_record \<Rightarrow> bool" where
  "sq_admits r \<longleftrightarrow> aware_rec r \<and> in_range (r_valid r) \<and> in_range (r_tx r) \<and> r_parent r \<noteq> Some []"

definition sq_stored :: "bt_record \<Rightarrow> bt_record" where
  "sq_stored r = r\<lparr>r_valid := to_utc (r_valid r), r_tx := to_utc (r_tx r), r_value := json_image (r_value r),
     r_meta := sort_key fst (json_items (r_meta r))\<rparr>"

lemma params_ok:
  assumes "sq_admits r"
  shows "\<exists>q. record_to_params fr sha r = Inr q \<and> sq_row_ok q \<and> sq_record q = sq_stored r \<and>
    q_id q = r_id r \<and> q_parent q = r_parent r"
proof -
  obtain t where "canonical_json_compat fr (r_value r) = Inr t" using canonical_json_compat_total by blast
  with assms show ?thesis
    by (auto simp: record_to_params_def content_hash_def sq_row_ok_def sq_admits_def sq_record_def
        sq_row_to_record_def parse_sqlite_iso sq_stored_def)
qed

lemma rmap_params:
  "\<forall>r\<in>set rs. sq_admits r \<Longrightarrow> \<exists>qs. rmap (record_to_params fr sha) rs = Inr qs \<and> (\<forall>q\<in>set qs. sq_row_ok q) \<and>
     map sq_record qs = map sq_stored rs"
proof (induction rs)
  case (Cons r rs)
  then obtain qs where "rmap (record_to_params fr sha) rs = Inr qs" "\<forall>q\<in>set qs. sq_row_ok q"
    "map sq_record qs = map sq_stored rs" by auto
  moreover obtain q where "record_to_params fr sha r = Inr q" "sq_row_ok q" "sq_record q = sq_stored r"
    using params_ok [of r fr sha] Cons.prems by auto
  ultimately show ?case by auto
qed simp

text \<open>The inserts of a batch inside its transaction: what they leave for a rollback does not change,
  and when all succeed the rows are there, with identifiers that differ.\<close>

lemma inserts_run:
  assumes "sql_run (map InsertRow qs) s = (out, s1)"
  shows "db_saved s1 = db_saved s \<and> db_scan s1 = db_scan s \<and> db_fault s1 = db_fault s \<and>
    (out = Inr () \<longrightarrow> db_rows s1 = db_rows s @ qs \<and> (distinct (map q_id (db_rows s)) \<longrightarrow> distinct (map q_id (db_rows s1))))"
  using assms
proof (induction qs arbitrary: s)
  case (Cons q qs)
  show ?case
  proof (cases "sql_exec (InsertRow q) s")
    case (Pair o1 s2)
    have st: "db_saved s2 = db_saved s \<and> db_scan s2 = db_scan s \<and> db_fault s2 = db_fault s"
      "o1 = Inr () \<Longrightarrow> db_rows s2 = db_rows s @ [q] \<and> q_id q \<notin> q_id ` set (db_rows s)"
      using Pair by (auto simp: sql_exec_def split: option.splits if_splits)
    show ?thesis
    proof (cases o1)
      case (Inl e)
      then have "out = Inl e" "s1 = s2" using Cons.prems Pair by simp_all
      then show ?thesis using st(1) by simp
    next
      case (Inr u)
      with Cons.prems Pair have "sql_run (map InsertRow qs) s2 = (out, s1)" by simp
      from Cons.IH [OF this] show ?thesis using st Inr by auto (metis disjoint_iff imageI)
    qed
  qed
qed simp

lemma sql_run_append:
  "sql_run (xs @ ys) s = (case sql_run xs s of (Inl e, s1) \<Rightarrow> (Inl e, s1) | (Inr u, s1) \<Rightarrow> sql_run ys s1)"
  by (induction xs arbitrary: s) (auto split: prod.splits sum.splits)

text \<open>A batch that fails leaves the rows it found, with no transaction open: where \<open>BEGIN\<close> has failed there
  is nothing to undo, and otherwise the rollback brings them back.\<close>

lemma batch_run:
  assumes "sq_append_many fr sha s rs = (out, s')" "db_saved s = None" "distinct (map q_id (db_rows s))"
  shows "case out of Inl e \<Rightarrow> s' = s
    | Inr u \<Rightarrow> (\<exists>qs. rmap (record_to_params fr sha) rs = Inr qs \<and> s' = s\<lparr>db_rows := db_rows s @ qs\<rparr> \<and> distinct (map q_id (db_rows s')))"
proof (cases "rs = []")
  case True
  then show ?thesis using assms by (auto simp: sq_append_many_def)
next
  case False
  show ?thesis
  proof (cases "rmap (record_to_params fr sha) rs")
    case (Inl e)
    then show ?thesis using assms(1) False by (auto simp: sq_append_many_def)
  next
    case qs: (Inr qs)
    show ?thesis
    proof (cases "db_fault s (db_rows s) BeginTx")
      case (Some c)
      then show ?thesis using assms(1,2) False qs by (auto simp: sq_append_many_def sql_exec_def)
    next
      case None
      let ?b = "s\<lparr>db_saved := Some (db_rows s)\<rparr>"
      obtain o1 s1 where run: "sql_run (map InsertRow qs) ?b = (o1, s1)" by (cases "sql_run (map InsertRow qs) ?b")
      note i = inserts_run [OF run]
      have undone: "s1\<lparr>db_rows := db_rows s, db_saved := None\<rparr> = s" using i assms(2) by (intro sq_db.equality) auto
      have kept: "o1 = Inr () \<Longrightarrow> s1\<lparr>db_saved := None\<rparr> = s\<lparr>db_rows := db_rows s @ qs\<rparr>"
        using i assms(2) by (intro sq_db.equality) auto
      have begin_ok: "sql_exec BeginTx s = (Inr (), ?b)" using None assms(2) by (simp add: sql_exec_def)
      show ?thesis
      proof (cases o1)
        case (Inl e)
        then show ?thesis using assms(1) False qs begin_ok run i undone
          by (auto simp: sq_append_many_def sql_run_append) (auto simp: sql_exec_def)
      next
        case (Inr u)
        then show ?thesis using assms(1,3) False qs begin_ok run i undone kept
          by (auto simp: sq_append_many_def sql_run_append) (auto simp: sql_exec_def split: option.splits)
      qed
    qed
  qed
qed

lemma sq_append_many_cases:
  assumes "sq_inv s" "\<forall>r\<in>set rs. sq_admits r"
  shows "(\<exists>e. sq_append_many fr sha s rs = (Inl e, s)) \<or>
    (\<exists>s'. sq_append_many fr sha s rs = (Inr (), s') \<and> sq_inv s' \<and> sq_records s' = sq_records s @ map sq_stored rs)"
proof -
  obtain out s' where run: "sq_append_many fr sha s rs = (out, s')" by (cases "sq_append_many fr sha s rs")
  have inv: "db_saved s = None" "distinct (map q_id (db_rows s))" using assms(1) by (simp_all add: sq_inv_def)
  show ?thesis
  proof (cases out)
    case (Inl e)
    then show ?thesis using batch_run [OF run inv] run by simp
  next
    case (Inr u)
    then obtain qs where "rmap (record_to_params fr sha) rs = Inr qs" "s' = s\<lparr>db_rows := db_rows s @ qs\<rparr>" "distinct (map q_id (db_rows s'))"
      using batch_run [OF run inv] by auto
    then show ?thesis using rmap_params [OF assms(2), of fr sha] run Inr assms(1) by (auto simp: sq_inv_def sq_records_def)
  qed
qed

lemma sq_append_cases:
  assumes "sq_inv s" "sq_admits r"
  shows "(\<exists>s'. sq_append fr sha s r = (Inr (), s') \<and> sq_inv s' \<and> sq_records s' = sq_records s @ [sq_stored r]) \<or>
    (\<exists>e. sq_append fr sha s r = (Inl e, s))"
  using sq_append_many_cases [OF assms(1), of "[r]" fr sha] assms(2) by (auto simp: sq_append_def)

lemma scan_set:
  assumes "sq_inv s"
  shows "set (db_scan s (db_rows s)) = set (db_rows s)"
  using assms unfolding sq_inv_def by (metis mset_eq_setD)

lemma mset_map_filter_record:
  assumes "\<forall>q\<in>set qs. sq_row_ok q"
  shows "image_mset sq_record (filter_mset (\<lambda>q. q_key q = k) (mset qs))
    = filter_mset (\<lambda>r. r_key r = k) (image_mset sq_record (mset qs))"
  using assms by (induction qs) (auto simp: sq_row_record(3))

lemma sq_history_rows:
  assumes "sq_inv s"
  shows "\<exists>hs. sq_history s k = Inr hs \<and> mset hs = mset (filter (\<lambda>r. r_key r = k) (sq_records s)) \<and>
    sorted (map (\<lambda>r. (instant (r_tx r), instant (r_valid r))) hs)"
proof -
  let ?qs = "sort_key (\<lambda>q. (q_tx q, q_valid q)) (filter (\<lambda>q. q_key q = k) (db_scan s (db_rows s)))"
  have ok: "\<forall>q\<in>set ?qs. sq_row_ok q" using assms scan_set [OF assms] by (auto simp: sq_inv_def)
  then have h: "sq_history s k = Inr (map sq_record ?qs)"
    unfolding sq_history_def by (intro rmap_pure) (auto simp: sq_row_record(1))
  have "mset (db_scan s (db_rows s)) = mset (db_rows s)" using assms by (simp add: sq_inv_def)
  then have m: "mset (map sq_record ?qs) = mset (filter (\<lambda>r. r_key r = k) (sq_records s))"
    using assms mset_map_filter_record [of "db_rows s" k] by (simp add: sq_records_def sq_inv_def mset_filter)
  have "sorted_wrt (\<lambda>a b. (instant (r_tx (sq_record a)), instant (r_valid (sq_record a)))
      \<le> (instant (r_tx (sq_record b)), instant (r_valid (sq_record b)))) ?qs"
  proof (rule sorted_wrt_mono_rel)
    show "sorted_wrt (\<lambda>a b. (q_tx a, q_valid a) \<le> (q_tx b, q_valid b)) ?qs"
      using sorted_sort_key [of "\<lambda>q. (q_tx q, q_valid q)" "filter (\<lambda>q. q_key q = k) (db_scan s (db_rows s))"]
      by (simp add: sorted_map)
    fix a b
    assume "a \<in> set ?qs" "b \<in> set ?qs" and le: "(q_tx a, q_valid a) \<le> (q_tx b, q_valid b)"
    with ok have ab: "sq_row_ok a" "sq_row_ok b" by blast+
    show "(instant (r_tx (sq_record a)), instant (r_valid (sq_record a)))
      \<le> (instant (r_tx (sq_record b)), instant (r_valid (sq_record b)))"
      using le sq_row_record(6) [OF ab(1)] sq_row_record(6) [OF ab(2)]
      by (auto simp: less_eq_prod_def sqlite_iso_less sqlite_iso_le sqlite_iso_eq)
  qed
  then have "sorted (map (\<lambda>r. (instant (r_tx r), instant (r_valid r))) (map sq_record ?qs))"
    by (simp add: sorted_map sorted_wrt_map)
  with h m show ?thesis by blast
qed

lemma sq_as_of_best:
  assumes "sq_inv s" "clamp_in_range tx" "clamp_in_range vt"
  shows "\<exists>a. sq_as_of s k tx vt = Inr a \<and>
    best_of (filter (\<lambda>r. r_key r = k \<and> visible tx vt r) (sq_records s)) a"
proof -
  let ?P = "\<lambda>q. q_key q = k \<and> text_upto (q_tx q) tx \<and> text_upto (q_valid q) vt"
  let ?qs = "filter ?P (db_scan s (db_rows s))" and ?key = "\<lambda>q. (q_tx q, q_valid q, sq_rank q)"
  have ok: "\<forall>q\<in>set (db_rows s). sq_row_ok q" using assms(1) by (simp add: sq_inv_def)
  have P: "?P q \<longleftrightarrow> r_key (sq_record q) = k \<and> visible tx vt (sq_record q)" if "q \<in> set (db_rows s)" for q
    using text_visible [OF _ assms(2,3), of q] sq_row_record(3) ok that by auto
  have set: "set (filter (\<lambda>r. r_key r = k \<and> visible tx vt r) (sq_records s)) = sq_record ` set ?qs"
    using P scan_set [OF assms(1)] by (auto simp: sq_records_def)
  show ?thesis
  proof (cases "first_max ?key ?qs")
    case None
    then have "?qs = []" by simp
    with set have "filter (\<lambda>r. r_key r = k \<and> visible tx vt r) (sq_records s) = []" by simp
    then show ?thesis using None by (simp add: sq_as_of_def best_of_def)
  next
    case (Some q)
    have q: "q \<in> set ?qs" using first_max_in [OF Some] .
    then have row: "sq_row_ok q" using ok scan_set [OF assms(1)] by simp
    have "sort_key_of (sq_record p) \<le> sort_key_of (sq_record q)" if "p \<in> set ?qs" for p
    proof -
      have "sq_row_ok p" using that ok scan_set [OF assms(1)] by simp
      then show ?thesis using first_max_ge [OF Some that] text_key_order [of p q] row by simp
    qed
    then have "best_of (filter (\<lambda>r. r_key r = k \<and> visible tx vt r) (sq_records s)) (Some (sq_record q))"
      using q unfolding best_of_def set option.case by blast
    then show ?thesis using Some sq_row_record(1) [OF row] by (simp add: sq_as_of_def)
  qed
qed

interpretation sqlite: bitemporal_store
  "sq_append fr sha" sq_history sq_as_of sq_keys sq_records sq_inv sq_admits sq_stored clamp_in_range for fr sha
proof (unfold_locales, goal_cases)
  case (1 s r)
  then show ?case using sq_append_cases [OF 1, of fr sha] by fastforce
next
  case (2 s k)
  then show ?case using sq_history_rows by blast
next
  case (3 s tx vt k)
  then show ?case by (rule sq_as_of_best)
next
  case (4 s)
  then show ?case using sq_row_record(3) by (force simp: sq_keys_def sq_records_def sq_inv_def image_iff)
next
  case (5 s r)
  then show ?case using sq_row_record(2) by (auto simp: sq_records_def sq_inv_def)
next
  case (6 r)
  then show ?case by (simp add: sq_stored_def sort_key_of_def parent_rank_def)
next
  case (7 r)
  then show ?case by (simp add: sq_admits_def)
next
  case (8 t)
  then show ?case by (cases t) (auto simp: clamp_in_range_def)
qed

section \<open>Legacy rows\<close>

text \<open>\<open>+\<close> occurs in a rendered time only as the sign of its offset, so only a zero offset ends in
  \<open>+00:00\<close>.\<close>

lemma plus_notin_pad [simp]: "CHR ''+'' \<notin> set (pad w n)"
proof (induction w arbitrary: n)
  case (Suc w)
  have "digit_char (n mod 10) \<noteq> CHR ''+''"
  proof
    assume "digit_char (n mod 10) = CHR ''+''"
    then have "(of_char (digit_char (n mod 10)) :: nat) = of_char CHR ''+''" by simp
    then show False using of_char_digit [of "n mod 10"] by simp
  qed
  with Suc show ?case by auto
qed simp

lemma plus_notin_seconds [simp]: "CHR ''+'' \<notin> set (seconds_text w)"
  by (simp add: seconds_text_def date_text_def clock_text_def split: prod.split)

lemma utc_suffix_isoformat:
  assumes "wf_datetime d" "utc_suffix (isoformat d)"
  shows "dt_off d = Some 0"
proof -
  let ?A = "seconds_text (dt_wall d) @ (let u = dt_wall d mod 1000000 in if u = 0 then [] else ''.'' @ pad 6 u)"
  have A: "CHR ''+'' \<notin> set ?A" by (simp add: Let_def)
  from assms(2) obtain U where U: "isoformat d = U @ ''+00:00''"
    unfolding utc_suffix_def by (metis append_take_drop_id)
  show ?thesis
  proof (cases "dt_off d")
    case None
    then have "CHR ''+'' \<notin> set (isoformat d)" using A by (simp add: isoformat_def)
    with U show ?thesis by simp
  next
    case (Some off)
    define sg rest where "sg = hd (offset_text off)" and "rest = tl (offset_text off)"
    have off: "offset_text off = sg # rest" "CHR ''+'' \<notin> set rest"
      by (simp_all add: sg_def rest_def offset_text_def Let_def)
    have iso: "isoformat d = ?A @ sg # rest" using Some off(1) by (simp add: isoformat_def)
    have "sg = CHR ''+''"
    proof (rule ccontr)
      assume "sg \<noteq> CHR ''+''"
      with A off(2) have "CHR ''+'' \<notin> set (isoformat d)" by (simp add: iso)
      with U show False by simp
    qed
    with iso U A off(2) have "rest = ''00:00''"
      using append_Cons_eq_iff [of "CHR ''+''" ?A rest U "''00:00''"] by simp
    moreover have "offset_text 0 = ''+00:00''" by (simp add: offset_text_def numeral_2_eq_2)
    ultimately have "offset_text off = offset_text 0" using \<open>sg = CHR ''+''\<close> off(1) by simp
    moreover have "\<bar>off\<bar> < us_per_day" using assms(1) Some by (simp add: wf_datetime_def)
    then have "parse_offset (offset_text off) = Some (Some off)" by (rule parse_offset_text)
    moreover have "parse_offset (offset_text 0) = Some (Some 0)"
      by (rule parse_offset_text) (simp add: us_per_day_def)
    ultimately show ?thesis using Some by simp
  qed
qed

lemma isoformat_utc: "dt_off d = Some 0 \<Longrightarrow> isoformat d = sqlite_iso d"
  by (cases d) (simp add: sqlite_iso_def to_utc_def instant_def)

text \<open>A row of an earlier version: its columns are times as \<open>isoformat\<close> wrote them.\<close>

definition legacy_row :: "sq_row \<Rightarrow> bool" where
  "legacy_row q \<longleftrightarrow> (\<exists>v t. wf_datetime v \<and> in_range v \<and> q_valid q = isoformat v \<and>
     wf_datetime t \<and> in_range t \<and> q_tx q = isoformat t) \<and> q_parent q \<noteq> Some []"

lemma parse_isoformat:
  assumes "wf_datetime d"
  shows "parse_iso (isoformat d) = Inr (if aware d then d else to_utc d)"
  using fromisoformat_isoformat [OF assms] by (simp add: parse_iso_def)

lemma sqlite_iso_to_utc [simp]: "sqlite_iso (to_utc d) = sqlite_iso d"
  by (rule sqlite_iso_cong) simp

lemma normalize_legacy_row:
  assumes "legacy_row q"
  shows "\<exists>q'. normalize_row q = Inr q' \<and> sq_row_ok q' \<and> q_id q' = q_id q \<and> q_key q' = q_key q \<and>
    (\<forall>v t. parse_iso (q_valid q) = Inr v \<and> parse_iso (q_tx q) = Inr t \<longrightarrow>
      instant (r_valid (sq_record q')) = instant v \<and> instant (r_tx (sq_record q')) = instant t)"
proof -
  from assms obtain v t where vt: "wf_datetime v" "in_range v" "q_valid q = isoformat v"
    "wf_datetime t" "in_range t" "q_tx q = isoformat t" and par: "q_parent q \<noteq> Some []"
    by (auto simp: legacy_row_def)
  let ?q' = "q\<lparr>q_valid := sqlite_iso v, q_tx := sqlite_iso t\<rparr>"
  have "normalize_row q = Inr ?q'"
  proof (cases "utc_suffix (q_valid q) \<and> utc_suffix (q_tx q)")
    case True
    then have "isoformat v = sqlite_iso v" "isoformat t = sqlite_iso t"
      using vt utc_suffix_isoformat isoformat_utc by auto
    with True vt(3,6) show ?thesis by (simp add: normalize_row_def)
  next
    case False
    have "sqlite_iso (if aware d then d else to_utc d) = sqlite_iso d" for d by simp
    then show ?thesis
      using parse_isoformat [OF vt(1)] parse_isoformat [OF vt(4)]
      unfolding normalize_row_def if_not_P [OF False] by (simp add: vt(3,6))
  qed
  moreover have "sq_row_ok ?q'" using vt par by (auto simp: sq_row_ok_def)
  moreover have "sq_record ?q' = \<lparr>r_id = q_id q, r_key = q_key q, r_valid = to_utc v, r_tx = to_utc t,
      r_value = q_value q, r_source = q_source q, r_decision = q_decision q, r_trust = q_trust q,
      r_parent = q_parent q, r_meta = q_meta q\<rparr>"
    using parse_sqlite_iso vt(2,5) by (simp add: sq_record_def sq_row_to_record_def)
  ultimately show ?thesis
    using parse_isoformat [OF vt(1)] parse_isoformat [OF vt(4)] vt(3,6)
    by (intro exI [of _ ?q']) (auto split: if_splits)
qed

section \<open>Iceberg\<close>

text \<open>A timestamp column holds the instant and is read back in UTC. \<open>ice_scan\<close> is \<open>None\<close> when the scan
  raises, which the code reads as an empty table.\<close>

record ice_row =
  i_id :: string
  i_key :: string
  i_valid :: datetime
  i_tx :: datetime
  i_value :: "pyval option"
  i_source :: "string option"
  i_trust :: "string option"
  i_decision :: "string option"
  i_parent :: "string option"
  i_meta :: "pydict option"

record ice_db =
  ice_rows :: "ice_row list"
  ice_scan :: "ice_row list \<Rightarrow> ice_row list option"

definition record_to_row :: "bt_record \<Rightarrow> ice_row" where
  "record_to_row r = \<lparr>i_id = r_id r, i_key = r_key r, i_valid = to_utc (r_valid r), i_tx = to_utc (r_tx r),
     i_value = Some (json_image (r_value r)), i_source = r_source r, i_trust = r_trust r,
     i_decision = r_decision r, i_parent = r_parent r, i_meta = Some (sort_key fst (json_items (r_meta r)))\<rparr>"

definition as_utc :: "datetime \<Rightarrow> datetime" where
  "as_utc d = (if aware d then d else to_utc d)"

definition row_to_record :: "ice_row \<Rightarrow> bt_record" where
  "row_to_record i = \<lparr>r_id = i_id i, r_key = i_key i, r_valid = as_utc (i_valid i), r_tx = as_utc (i_tx i),
     r_value = (case i_value i of None \<Rightarrow> PNone | Some v \<Rightarrow> v), r_source = i_source i,
     r_decision = i_decision i, r_trust = i_trust i, r_parent = i_parent i,
     r_meta = (case i_meta i of None \<Rightarrow> [] | Some m \<Rightarrow> m)\<rparr>"

definition ice_append_many :: "ice_db \<Rightarrow> bt_record list \<Rightarrow> unit res \<times> ice_db" where
  "ice_append_many s records =
    (if records = [] then (Inr (), s)
     else (Inr (), s\<lparr>ice_rows := ice_rows s @ map record_to_row records\<rparr>))"

definition ice_append :: "ice_db \<Rightarrow> bt_record \<Rightarrow> unit res \<times> ice_db" where
  "ice_append s r = ice_append_many s [r]"

definition scan_for_key :: "ice_db \<Rightarrow> string \<Rightarrow> bt_record list" where
  "scan_for_key s k = (case ice_scan s (filter (\<lambda>i. i_key i = k) (ice_rows s)) of
     None \<Rightarrow> [] | Some is \<Rightarrow> map row_to_record is)"

text \<open>\<open>rows.sort(key=lambda r: (r.transaction_time, r.valid_time))\<close>: the rows read are aware.\<close>

definition ice_history :: "ice_db \<Rightarrow> string \<Rightarrow> bt_record list res" where
  "ice_history s k = Inr (sort_key (\<lambda>r. (instant (r_tx r), instant (r_valid r))) (scan_for_key s k))"

definition ice_as_of :: "ice_db \<Rightarrow> string \<Rightarrow> datetime option \<Rightarrow> datetime option \<Rightarrow> bt_record option res" where
  "ice_as_of s k tx vt = pick_as_of tx vt (scan_for_key s k)"

definition ice_keys :: "ice_db \<Rightarrow> string list" where
  "ice_keys s = (case ice_scan s (ice_rows s) of None \<Rightarrow> []
     | Some is \<Rightarrow> dkeys (foldl (\<lambda>seen i. dset seen (i_key i) ()) [] is))"

definition ice_inv :: "ice_db \<Rightarrow> bool" where
  "ice_inv s \<longleftrightarrow> (\<forall>is. \<exists>js. ice_scan s is = Some js \<and> mset js = mset is)"

definition ice_records :: "ice_db \<Rightarrow> bt_record list" where
  "ice_records s = map row_to_record (ice_rows s)"

definition ice_stored :: "bt_record \<Rightarrow> bt_record" where
  "ice_stored r = row_to_record (record_to_row r)"

lemma row_to_record_simps [simp]:
  "aware_rec (row_to_record i)" "r_key (row_to_record i) = i_key i"
  by (auto simp: row_to_record_def aware_rec_def as_utc_def)

lemma scan_for_key_mset:
  assumes "ice_inv s"
  shows "mset (scan_for_key s k) = mset (filter (\<lambda>r. r_key r = k) (ice_records s))"
proof -
  obtain js where js: "ice_scan s (filter (\<lambda>i. i_key i = k) (ice_rows s)) = Some js"
    "mset js = mset (filter (\<lambda>i. i_key i = k) (ice_rows s))"
    using assms unfolding ice_inv_def by blast
  have "image_mset row_to_record (filter_mset (\<lambda>i. i_key i = k) (mset is))
      = filter_mset (\<lambda>r. r_key r = k) (image_mset row_to_record (mset is))" for "is"
    by (induction "is") auto
  with js show ?thesis by (simp add: scan_for_key_def ice_records_def mset_filter)
qed

lemma dkeys_fold_unit: "set (dkeys (foldl (\<lambda>seen i. dset seen (f i) ()) d xs)) = set (dkeys d) \<union> f ` set xs"
  by (induction xs arbitrary: d) auto

interpretation iceberg: bitemporal_store
  ice_append ice_history ice_as_of ice_keys ice_records ice_inv aware_rec ice_stored aware_opt
proof (unfold_locales, goal_cases)
  case (1 s r)
  then show ?case
    by (auto simp: ice_append_def ice_append_many_def ice_inv_def ice_records_def ice_stored_def)
next
  case (2 s k)
  then show ?case using scan_for_key_mset by (simp add: ice_history_def)
next
  case (3 s tx vt k)
  have aware: "\<forall>r\<in>set (scan_for_key s k). aware_rec r"
    by (auto simp: scan_for_key_def split: option.splits)
  have "mset (filter (visible tx vt) (scan_for_key s k))
      = mset (filter (\<lambda>r. r_key r = k \<and> visible tx vt r) (ice_records s))"
    using scan_for_key_mset [OF 3(1), of k] by (simp add: mset_filter filter_filter_mset conj_commute)
  with best_of_first_max pick_as_of_aware [OF aware 3(2,3)] show ?case
    unfolding ice_as_of_def by (metis best_of_mset)
next
  case (4 s)
  then obtain js where js: "ice_scan s (ice_rows s) = Some js" "mset js = mset (ice_rows s)"
    unfolding ice_inv_def by blast
  from js(2) have "set js = set (ice_rows s)" by (rule mset_eq_setD)
  with js(1) show ?case using dkeys_fold_unit [of i_key "[]" js] by (auto simp: ice_keys_def ice_records_def image_image)
next
  case (6 r)
  then show ?case
    by (simp add: ice_stored_def row_to_record_def record_to_row_def as_utc_def sort_key_of_def parent_rank_def)
qed (auto simp: ice_records_def)

section \<open>Properties\<close>

text \<open>Two answers of the same rank, and the same record where no two tie.\<close>

definition same_answer :: "bt_record list \<Rightarrow> bt_record option \<Rightarrow> bt_record option \<Rightarrow> bool" where
  "same_answer rs a b \<longleftrightarrow> (case (a, b) of
     (None, None) \<Rightarrow> True
   | (Some x, Some y) \<Rightarrow> sort_key_of x = sort_key_of y \<and>
       (inj_on sort_key_of (set rs) \<longrightarrow> r_id x = r_id y)
   | _ \<Rightarrow> False)"

lemma best_of_agree:
  assumes "best_of cs a" "best_of (map f cs) b" "\<forall>c\<in>set cs. sort_key_of (f c) = sort_key_of c \<and> r_id (f c) = r_id c"
    "set cs \<subseteq> set rs"
  shows "same_answer rs a b"
proof (cases a)
  case None
  with assms(1,2) show ?thesis by (auto simp: best_of_def same_answer_def split: option.splits)
next
  case (Some x)
  with assms(1) have x: "x \<in> set cs" "\<forall>c\<in>set cs. sort_key_of c \<le> sort_key_of x" by (auto simp: best_of_def)
  with assms(2) obtain y where y: "b = Some (f y)" "y \<in> set cs" "\<forall>c\<in>set cs. sort_key_of (f c) \<le> sort_key_of (f y)"
    by (auto simp: best_of_def split: option.splits)
  have eq: "sort_key_of x = sort_key_of y" using x y assms(3) by (metis order.antisym)
  moreover have "inj_on sort_key_of (set rs) \<Longrightarrow> x = y"
    using eq x(1) y(2) assms(4) by (auto dest: inj_onD)
  ultimately show ?thesis using Some y assms(3) by (auto simp: same_answer_def)
qed

lemma bt_append_many_rows:
  "bt_inv s \<Longrightarrow> \<forall>r\<in>set rs. aware_rec r \<Longrightarrow> bt_append_many s rs = (Inr (), s') \<Longrightarrow>
   bt_inv s' \<and> (\<forall>k. dget_or s' k [] = dget_or s k [] @ filter (\<lambda>r. r_key r = k) rs)"
proof (induction rs arbitrary: s)
  case (Cons r rs)
  obtain res1 s1 where r: "bt_append s r = (res1, s1)" by (cases "bt_append s r")
  with Cons.prems(3) have res: "res1 = Inr ()" "bt_append_many s1 rs = (Inr (), s')"
    by (auto split: sum.splits)
  have inv: "bt_inv s1" using bt_append_inv [OF Cons.prems(1) _ r] Cons.prems(2) by simp
  from Cons.IH [OF inv _ res(2)] Cons.prems(2) bt_append_bucket [OF Cons.prems(1) r] res(1)
  show ?case by simp
qed simp

text \<open>
  C7: Filled with the same records in the same order, the SQLite store and the in-memory store give
  as-of answers of the same rank: both none, or records with the same instants and correction status;
  and where no two records of the key tie, the same record.\<close>

theorem sqlite_agrees_with_memory:
  assumes "sq_inv s0" "db_rows s0 = []" "\<forall>r\<in>set rs. sq_admits r"
    and "bt_append_many [] rs = (Inr (), m)" "sq_append_many fr sha s0 rs = (Inr (), s)"
    and "clamp_in_range tx" "clamp_in_range vt"
  shows "\<exists>a b. bt_as_of m k tx vt = Inr a \<and> sq_as_of s k tx vt = Inr b \<and>
    same_answer (filter (\<lambda>r. r_key r = k) rs) a b"
proof -
  have aw: "\<forall>r\<in>set rs. aware_rec r" using assms(3) by (simp add: sq_admits_def)
  have ok: "aware_opt tx" "aware_opt vt" using assms(6,7) sqlite.clamp_law by blast+
  have "bt_inv []" by (simp add: bt_inv_def)
  from bt_append_many_rows [OF this aw assms(4)]
  have m: "bt_inv m" "dget_or m k [] = filter (\<lambda>r. r_key r = k) rs" by (simp_all add: dget_or_def)
  from sq_append_many_cases [OF assms(1,3), of fr sha] assms(2,5)
  have s: "sq_inv s" "sq_records s = map sq_stored rs" by (auto simp: sq_records_def)
  let ?cs = "filter (visible tx vt) (filter (\<lambda>r. r_key r = k) rs)"
  from sq_as_of_best [OF s(1) assms(6,7), of k] obtain b where b: "sq_as_of s k tx vt = Inr b"
    "best_of (filter (\<lambda>r. r_key r = k \<and> visible tx vt r) (map sq_stored rs)) b" unfolding s(2) by blast
  have st: "r_key (sq_stored r) = r_key r" "visible tx vt (sq_stored r) = visible tx vt r"
    "sort_key_of (sq_stored r) = sort_key_of r" "r_id (sq_stored r) = r_id r" for r
    by (cases tx; cases vt; simp add: sq_stored_def visible_def sort_key_of_def parent_rank_def)+
  have "filter (\<lambda>r. r_key r = k \<and> visible tx vt r) (map sq_stored rs) = map sq_stored ?cs"
    by (simp add: filter_map o_def st conj_commute)
  with b(2) have "best_of (map sq_stored ?cs) b" by simp
  moreover have "best_of ?cs (first_max sort_key_of ?cs)" by (rule best_of_first_max)
  ultimately have "same_answer (filter (\<lambda>r. r_key r = k) rs) (first_max sort_key_of ?cs) b"
    by (intro best_of_agree) (auto simp: st)
  with b(1) bt_as_of_aware [OF m(1) ok] m(2) show ?thesis by simp
qed

text \<open>C8: the SQLite batch is all or nothing, wherever it fails: at the \<open>BEGIN\<close>, at any insert (a duplicate
  identifier, a missing parent, a failure of the engine after other rows went in) or at the \<open>COMMIT\<close>. A
  batch that raises leaves the database with the rows it had and no transaction open; one that
  returns has added every record, in order, and kept the identifiers distinct.\<close>

theorem sqlite_batch_atomic:
  assumes "sq_inv s" "\<forall>r\<in>set rs. sq_admits r" "sq_append_many fr sha s rs = (res, s')"
  shows "(case res of Inl _ \<Rightarrow> s' = s
    | Inr _ \<Rightarrow> sq_records s' = sq_records s @ map sq_stored rs \<and> distinct (map q_id (db_rows s')) \<and> db_saved s' = None)"
  using sq_append_many_cases [OF assms(1,2), of fr sha] assms(3) by (auto simp: sq_inv_def)

text \<open>opening a database of an earlier version brings every row into the form the text comparisons
  rely on, keeping identity, key and both instants of each.\<close>

theorem normalize_legacy_sound:
  assumes "\<forall>q\<in>set (db_rows s). legacy_row q"
  shows "\<exists>s'. normalize_legacy s = (Inr (), s') \<and> db_scan s' = db_scan s \<and>
    list_all2 (\<lambda>q q'. sq_row_ok q' \<and> q_id q' = q_id q \<and> q_key q' = q_key q \<and>
      parse_iso (q_valid q) = Inr (r_valid (sq_record q)) \<and>
      instant (r_valid (sq_record q')) = instant (r_valid (sq_record q)) \<and>
      instant (r_tx (sq_record q')) = instant (r_tx (sq_record q))) (db_rows s) (db_rows s')"
proof -
  have "\<exists>qs'. rmap normalize_row qs = Inr qs' \<and>
    list_all2 (\<lambda>q q'. sq_row_ok q' \<and> q_id q' = q_id q \<and> q_key q' = q_key q \<and>
      parse_iso (q_valid q) = Inr (r_valid (sq_record q)) \<and>
      instant (r_valid (sq_record q')) = instant (r_valid (sq_record q)) \<and>
      instant (r_tx (sq_record q')) = instant (r_tx (sq_record q))) qs qs'"
    if "\<forall>q\<in>set qs. legacy_row q" for qs
    using that
  proof (induction qs)
    case (Cons q qs)
    then have q: "legacy_row q" by simp
    then obtain v t where vt: "wf_datetime v" "q_valid q = isoformat v" "wf_datetime t" "q_tx q = isoformat t"
      by (auto simp: legacy_row_def)
    have rec: "parse_iso (q_valid q) = Inr (r_valid (sq_record q))" "parse_iso (q_tx q) = Inr (r_tx (sq_record q))"
      using parse_isoformat [OF vt(1)] parse_isoformat [OF vt(3)]
      by (simp_all add: vt(2,4) sq_record_def sq_row_to_record_def)
    from Cons.IH Cons.prems obtain qs' where qs': "rmap normalize_row qs = Inr qs'"
      "list_all2 (\<lambda>q q'. sq_row_ok q' \<and> q_id q' = q_id q \<and> q_key q' = q_key q \<and>
        parse_iso (q_valid q) = Inr (r_valid (sq_record q)) \<and>
        instant (r_valid (sq_record q')) = instant (r_valid (sq_record q)) \<and>
        instant (r_tx (sq_record q')) = instant (r_tx (sq_record q))) qs qs'" by auto
    from normalize_legacy_row [OF q] obtain q' where "normalize_row q = Inr q'" "sq_row_ok q'"
      "q_id q' = q_id q" "q_key q' = q_key q" "instant (r_valid (sq_record q')) = instant (r_valid (sq_record q))"
      "instant (r_tx (sq_record q')) = instant (r_tx (sq_record q))" using rec by blast
    with qs' rec(1) show ?case by (intro exI [of _ "q' # qs'"]) simp
  qed simp
  from this [OF assms] show ?thesis by (auto simp: normalize_legacy_def)
qed

definition sq_empty :: sq_db where
  "sq_empty = \<lparr>db_rows = [], db_saved = None, db_scan = (\<lambda>rs. rs), db_fault = (\<lambda>_ _. None)\<rparr>"

lemma sq_empty_inv [simp]: "sq_inv sq_empty" "db_rows sq_empty = []"
  by (simp_all add: sq_empty_def sq_inv_def)

lemma price_admits [simp]: "\<bar>v\<bar> < 1000 \<Longrightarrow> \<bar>t\<bar> < 1000 \<Longrightarrow> sq_admits (price i v t x)"
  by (auto simp: sq_admits_def in_range_def us_per_day_def)

lemma append_price:
  "\<exists>s. sq_append_many fraction_text (\<lambda>b. ''ab'') sq_empty [price i v t x] = (Inr (), s)"
  by (simp add: sq_append_many_def record_to_params_def content_hash_def canonical_json_compat_def price_def
      sq_empty_def sql_exec_def)

theorem sqlite_agrees_with_memory_witness:
  "\<exists>b. sq_as_of (snd (sq_append_many fraction_text (\<lambda>b. ''ab'') sq_empty [price ''a'' 0 1 100])) ''USDC/USD'' None None = Inr b \<and>
     same_answer [price ''a'' 0 1 100] (Some (price ''a'' 0 1 100)) b"
proof -
  let ?rs = "[price ''a'' 0 1 100]"
  have adm: "\<forall>r\<in>set ?rs. sq_admits r" by simp
  have mem: "bt_append_many [] ?rs = (Inr (), [(''USDC/USD'', ?rs)])"
    by (simp add: bt_append_def dget_or_def)
  obtain s where s: "sq_append_many fraction_text (\<lambda>b. ''ab'') sq_empty ?rs = (Inr (), s)"
    using append_price by blast
  have "bt_as_of [(''USDC/USD'', ?rs)] ''USDC/USD'' None None = Inr (Some (price ''a'' 0 1 100))"
    by (simp add: bt_as_of_def dget_or_def pick_as_of_def is_candidate_def after_clamp_def)
  with sqlite_agrees_with_memory [OF sq_empty_inv adm mem s, of None None "''USDC/USD''"] s
  show ?thesis by (auto simp: clamp_in_range_def)
qed

text \<open>A batch whose second row has the identifier of its first: the first row was inserted and is taken
  back.\<close>

theorem sqlite_batch_atomic_witness:
  "\<exists>q. sql_run [BeginTx, InsertRow q, InsertRow q] sq_empty = (Inl (RaisedBy ''IntegrityError''), sq_empty\<lparr>db_rows := [q], db_saved := Some []\<rparr>) \<and>
     sq_append_many fraction_text (\<lambda>b. ''ab'') sq_empty [price ''a'' 0 1 100, price ''a'' 0 1 100] = (Inl ValueError, sq_empty)"
proof -
  let ?rs = "[price ''a'' 0 1 100, price ''a'' 0 1 100]"
  obtain q where q: "record_to_params fraction_text (\<lambda>b. ''ab'') (price ''a'' 0 1 100) = Inr q" "q_parent q = None"
    by (simp add: record_to_params_def content_hash_def canonical_json_compat_def price_def)
  have run: "sql_run [BeginTx, InsertRow q, InsertRow q] sq_empty
      = (Inl (RaisedBy ''IntegrityError''), sq_empty\<lparr>db_rows := [q], db_saved := Some []\<rparr>)"
    using q(2) by (simp add: sql_exec_def sq_empty_def)
  obtain s where s: "sq_append_many fraction_text (\<lambda>b. ''ab'') sq_empty ?rs = (Inl ValueError, s)"
    using q by (simp add: sq_append_many_def sql_exec_def sq_empty_def)
  have "\<forall>r\<in>set ?rs. sq_admits r" by simp
  from sqlite_batch_atomic [OF sq_empty_inv(1) this s] s run show ?thesis by auto
qed

theorem normalize_legacy_sound_witness:
  "\<exists>s'. normalize_legacy \<lparr>db_rows = [\<lparr>q_id = ''a'', q_key = ''k'', q_valid = isoformat (day 0),
       q_tx = isoformat \<lparr>dt_wall = 63000000000000000, dt_off = None\<rparr>, q_value = PNone, q_source = None,
       q_decision = None, q_trust = None, q_parent = None, q_meta = [], q_hash = []\<rparr>], db_saved = None, db_scan = (\<lambda>rs. rs), db_fault = (\<lambda>_ _. None)\<rparr>
     = (Inr (), s') \<and> length (db_rows s') = 1"
proof -
  let ?q = "\<lparr>q_id = ''a'', q_key = ''k'', q_valid = isoformat (day 0),
       q_tx = isoformat \<lparr>dt_wall = 63000000000000000, dt_off = None\<rparr>, q_value = PNone, q_source = None,
       q_decision = None, q_trust = None, q_parent = None, q_meta = [], q_hash = []\<rparr>"
  have "legacy_row ?q"
    unfolding legacy_row_def
    by (intro conjI exI [of _ "day 0"] exI [of _ "\<lparr>dt_wall = 63000000000000000, dt_off = None\<rparr>"])
      (simp_all add: wf_datetime_def in_range_def us_per_day_def day_def instant_def)
  then have "\<forall>q\<in>set (db_rows \<lparr>db_rows = [?q], db_saved = None, db_scan = (\<lambda>rs. rs), db_fault = (\<lambda>_ _. None)\<rparr>). legacy_row q" by simp
  from normalize_legacy_sound [OF this] show ?thesis by (auto dest: list_all2_lengthD)
qed

end
