(* ===== verification/Routing.thy ===== *)
theory Routing
  imports BitemporalBackends
begin

text \<open>
  \<open>routing/policy.py\<close>: rules and versioned policies, the bitemporal policy registry and the agent
  router. The registry is a client of a bitemporal store and takes its operations as arguments; the
  lemmas of this theory use the \<open>bitemporal_store\<close> protocol and, for exact answers, the in-memory
  store.
\<close>

section \<open>Rules\<close>

record policy_rule =
  rule_id :: string
  condition :: pydict
  choice :: string
  rationale :: "string option"

text \<open>The loop of \<open>PolicyRule.matches\<close> over the items of the condition.\<close>

fun items_match :: "(string \<times> pyval) list \<Rightarrow> pydict \<Rightarrow> bool res" where
  "items_match [] ctx = Inr True"
| "items_match ((f, expected) # cs) ctx =
    (let actual = pget ctx f in
     case expected of
       PDict ops \<Rightarrow>
         (case (dget ops ''in'', dget ops ''ne'') of
            (Some c, _) \<Rightarrow> rbind (py_in actual c) (\<lambda>b. if \<not> b then Inr False else items_match cs ctx)
          | (None, Some v) \<Rightarrow> if py_eq actual v then Inr False else items_match cs ctx
          | (None, None) \<Rightarrow> Inl KeyError)
     | _ \<Rightarrow> if \<not> py_eq actual expected then Inr False else items_match cs ctx)"

definition rule_matches :: "policy_rule \<Rightarrow> pydict \<Rightarrow> bool res" where
  "rule_matches r ctx = items_match (condition r) ctx"

section \<open>Policy versions\<close>

record policy_version =
  policy_id :: string
  version :: string
  rules :: "policy_rule list"
  default_choice :: "string option"
  description :: "string option"

record evaluation =
  ev_choice :: "string option"
  ev_rule :: "string option"
  ev_policy :: string
  ev_version :: string
  ev_rationale :: "string option"

fun select_from :: "policy_version \<Rightarrow> policy_rule list \<Rightarrow> pydict \<Rightarrow> evaluation res" where
  "select_from p [] ctx = Inr \<lparr>ev_choice = default_choice p, ev_rule = None, ev_policy = policy_id p,
     ev_version = version p,
     ev_rationale = Some (if str_truthy (default_choice p) then ''default_choice'' else ''no_match'')\<rparr>"
| "select_from p (r # rs) ctx = rbind (rule_matches r ctx) (\<lambda>b.
     if b then Inr \<lparr>ev_choice = Some (choice r), ev_rule = Some (rule_id r), ev_policy = policy_id p,
       ev_version = version p, ev_rationale = rationale r\<rparr>
     else select_from p rs ctx)"

definition select :: "policy_version \<Rightarrow> pydict \<Rightarrow> evaluation res" where
  "select p ctx = select_from p (rules p) ctx"

definition rule_to_dict :: "policy_rule \<Rightarrow> pydict" where
  "rule_to_dict r = [(''rule_id'', PStr (rule_id r)), (''condition'', PDict (condition r)),
     (''choice'', PStr (choice r)), (''rationale'', of_opt_str (rationale r))]"

definition version_to_dict :: "policy_version \<Rightarrow> pydict" where
  "version_to_dict p =
    [(''policy_id'', PStr (policy_id p)), (''version'', PStr (version p)),
     (''rules'', PList (map (\<lambda>r. PDict (rule_to_dict r)) (rules p))),
     (''default_choice'', of_opt_str (default_choice p)), (''description'', of_opt_str (description p))]"

text \<open>\<open>PolicyRule(**r)\<close>: an unexpected or a missing keyword raises \<open>TypeError\<close>, as does here a value
  outside the field's type.\<close>

definition kwarg :: "pydict \<Rightarrow> string \<Rightarrow> pyval res" where
  "kwarg d k = (case dget d k of None \<Rightarrow> Inl TypeError | Some v \<Rightarrow> Inr v)"

definition as_pydict :: "pyval \<Rightarrow> pydict res" where
  "as_pydict v = (case v of PDict d \<Rightarrow> Inr d | _ \<Rightarrow> Inl TypeError)"

definition rule_from_dict :: "pyval \<Rightarrow> policy_rule res" where
  "rule_from_dict v = rbind (as_pydict v) (\<lambda>d.
     if \<not> set (dkeys d) \<subseteq> {''rule_id'', ''condition'', ''choice'', ''rationale''} then Inl TypeError
     else rbind (rbind (kwarg d ''rule_id'') as_string) (\<lambda>i.
       rbind (rbind (kwarg d ''condition'') as_pydict) (\<lambda>c.
       rbind (rbind (kwarg d ''choice'') as_string) (\<lambda>ch.
       rbind (as_opt_string (pget d ''rationale'')) (\<lambda>ra.
         Inr \<lparr>rule_id = i, condition = c, choice = ch, rationale = ra\<rparr>)))))"

definition version_from_dict :: "pyval \<Rightarrow> policy_version res" where
  "version_from_dict v = rbind (as_pydict v) (\<lambda>d.
     rbind (rbind (item d ''policy_id'') as_string) (\<lambda>i.
     rbind (rbind (item d ''version'') as_string) (\<lambda>ve.
     rbind (item d ''rules'') (\<lambda>rv.
     rbind (case rv of PList rs \<Rightarrow> rmap rule_from_dict rs | _ \<Rightarrow> Inl TypeError) (\<lambda>rs.
     rbind (as_opt_string (pget d ''default_choice'')) (\<lambda>dc.
     rbind (as_opt_string (pget d ''description'')) (\<lambda>de.
       Inr \<lparr>policy_id = i, version = ve, rules = rs, default_choice = dc, description = de\<rparr>)))))))"

lemma as_pydict_Dict [simp]: "as_pydict (PDict d) = Inr d"
  by (simp add: as_pydict_def)

lemma rule_roundtrip: "rule_from_dict (PDict (rule_to_dict r)) = Inr r"
  by (simp add: rule_from_dict_def rule_to_dict_def kwarg_def pget_def dget_or_def)

lemma version_roundtrip: "version_from_dict (PDict (version_to_dict p)) = Inr p"
proof -
  have "rmap rule_from_dict (map (\<lambda>r. PDict (rule_to_dict r)) rs) = Inr rs" for rs
    by (induction rs) (simp_all add: rule_roundtrip)
  then show ?thesis by (simp add: version_from_dict_def version_to_dict_def item_def pget_def dget_or_def)
qed

section \<open>The registry\<close>

text \<open>\<open>store or InMemoryBitemporalStore()\<close>: a store with \<open>__len__\<close> is false when it is empty, so an empty
  store that was passed in is replaced by a new in-memory one (\<open>Inr []\<close>).\<close>

definition registry_store :: "('s \<Rightarrow> nat) \<Rightarrow> 's option \<Rightarrow> 's + memory_bt" where
  "registry_store len store = (case store of None \<Rightarrow> Inr []
     | Some s \<Rightarrow> if len s = 0 then Inr [] else Inl s)"

definition policy_key :: "string \<Rightarrow> string" where
  "policy_key pid = ''policy:'' @ pid"

definition publish ::
  "('s \<Rightarrow> bt_record \<Rightarrow> unit res \<times> 's) \<Rightarrow> datetime \<Rightarrow> string \<Rightarrow> 's \<Rightarrow> policy_version \<Rightarrow> datetime \<Rightarrow>
   datetime option \<Rightarrow> string \<Rightarrow> bt_record res \<times> 's" where
  "publish append_rec now fresh s p valid_from tx src =
    (case new_record now fresh (policy_key (policy_id p)) valid_from (PDict (version_to_dict p)) (Some src) tx
        None None None (Some [(''policy_version'', PStr (version p))]) None of
       Inl e \<Rightarrow> (Inl e, s)
     | Inr r \<Rightarrow> (case append_rec s r of (Inl e, s') \<Rightarrow> (Inl e, s') | (Inr _, s') \<Rightarrow> (Inr r, s')))"

definition get_policy ::
  "('s \<Rightarrow> string \<Rightarrow> datetime option \<Rightarrow> datetime option \<Rightarrow> bt_record option res) \<Rightarrow> 's \<Rightarrow> string \<Rightarrow>
   datetime option \<Rightarrow> datetime option \<Rightarrow> policy_version option res" where
  "get_policy as_of s pid tx vt = rbind (as_of s (policy_key pid) tx vt) (\<lambda>r.
     case r of None \<Rightarrow> Inr None | Some r \<Rightarrow> rbind (version_from_dict (r_value r)) (\<lambda>p. Inr (Some p)))"

definition policy_history ::
  "('s \<Rightarrow> string \<Rightarrow> bt_record list res) \<Rightarrow> 's \<Rightarrow> string \<Rightarrow> policy_version list res" where
  "policy_history history s pid =
    rbind (history s (policy_key pid)) (rmap (\<lambda>r. version_from_dict (r_value r)))"

section \<open>Decisions and the agent router\<close>

record agent_decision =
  d_id :: string
  d_use_case :: string
  d_context :: pydict
  d_candidates :: "string list"
  d_selected :: "string option"
  d_policy :: string
  d_version :: string
  d_rule :: "string option"
  d_evidence :: "string list"
  d_rationale :: "string option"
  d_at :: datetime

definition from_evaluation ::
  "datetime \<Rightarrow> string \<Rightarrow> string \<Rightarrow> pydict \<Rightarrow> string list \<Rightarrow> evaluation \<Rightarrow> string list option \<Rightarrow> string option \<Rightarrow>
   datetime option \<Rightarrow> agent_decision" where
  "from_evaluation now fresh use_case ctx candidates ev evidence did at_opt =
    \<lparr>d_id = (if str_truthy did then the did else fresh), d_use_case = use_case, d_context = ctx,
     d_candidates = candidates, d_selected = ev_choice ev, d_policy = ev_policy ev, d_version = ev_version ev,
     d_rule = ev_rule ev, d_evidence = (case evidence of None \<Rightarrow> [] | Some es \<Rightarrow> es),
     d_rationale = ev_rationale ev, d_at = (case at_opt of None \<Rightarrow> now | Some t \<Rightarrow> t)\<rparr>"

definition decision_to_dict :: "agent_decision \<Rightarrow> pydict" where
  "decision_to_dict d =
    [(''decision_id'', PStr (d_id d)), (''use_case'', PStr (d_use_case d)), (''context'', PDict (d_context d)),
     (''candidates'', PList (map PStr (d_candidates d))), (''selected'', of_opt_str (d_selected d)),
     (''policy_id'', PStr (d_policy d)), (''policy_version'', PStr (d_version d)),
     (''matched_rule_id'', of_opt_str (d_rule d)), (''evidence_refs'', PList (map PStr (d_evidence d))),
     (''rationale'', of_opt_str (d_rationale d)), (''decided_at'', PStr (isoformat (d_at d)))]"

definition route ::
  "('s \<Rightarrow> string \<Rightarrow> datetime option \<Rightarrow> datetime option \<Rightarrow> bt_record option res) \<Rightarrow> 's \<Rightarrow>
   datetime \<Rightarrow> string \<Rightarrow> string \<Rightarrow> string \<Rightarrow> (pydict \<Rightarrow> string list res) option \<Rightarrow> pydict \<Rightarrow> string list option \<Rightarrow>
   datetime option \<Rightarrow> datetime option \<Rightarrow> agent_decision res" where
  "route as_of s now fresh use_case pid provider ctx evidence as_of_tx decided_at =
    rbind (get_policy as_of s pid as_of_tx None) (\<lambda>p. case p of
      None \<Rightarrow> Inl LookupError
    | Some p \<Rightarrow> rbind (select p ctx) (\<lambda>ev.
        rbind (case provider of None \<Rightarrow> Inr (map choice (rules p)) | Some f \<Rightarrow> f ctx) (\<lambda>cs.
          Inr (from_evaluation now fresh use_case ctx cs ev evidence None decided_at))))"

section \<open>Selection\<close>

lemma select_from_cases:
  "select_from p rs ctx = (case dropWhile (\<lambda>r. rule_matches r ctx = Inr False) rs of
     [] \<Rightarrow> select_from p [] ctx
   | r # _ \<Rightarrow> (case rule_matches r ctx of Inl e \<Rightarrow> Inl e
       | Inr _ \<Rightarrow> Inr \<lparr>ev_choice = Some (choice r), ev_rule = Some (rule_id r), ev_policy = policy_id p,
           ev_version = version p, ev_rationale = rationale r\<rparr>))"
proof (induction rs)
  case (Cons r rs)
  show ?case
  proof (cases "rule_matches r ctx")
    case (Inr b)
    with Cons.IH show ?thesis by (cases b) simp_all
  qed simp
qed simp

lemma publish_Inr:
  assumes "publish append_rec now fresh s p vf tx src = (Inr r, s')"
  shows "append_rec s r = (Inr (), s')" "aware_rec r" "r_key r = policy_key (policy_id p)"
    "r_value r = PDict (version_to_dict p)" "r_valid r = vf" "r_tx r = (case tx of None \<Rightarrow> now | Some t \<Rightarrow> t)"
  using assms
  by (auto simp: publish_def new_record_def Let_def aware_rec_def split: if_splits sum.splits prod.splits)

text \<open>Any store that returns the published record returns the policy.\<close>

lemma get_published:
  "as_of s (policy_key pid) tx vt = Inr (Some r) \<Longrightarrow> r_value r = PDict (version_to_dict p) \<Longrightarrow>
   get_policy as_of s pid tx vt = Inr (Some p)"
  by (simp add: get_policy_def version_roundtrip)

section \<open>Properties\<close>

text \<open>the first rule that does not evaluate to false decides: if it matches, its choice, identity and
  rationale are returned, if its condition raises, so does the selection; with no such rule the
  default applies, marked as such, or there is no choice.\<close>

theorem select_first_match:
  "select p ctx = (case dropWhile (\<lambda>r. rule_matches r ctx = Inr False) (rules p) of
     [] \<Rightarrow> Inr \<lparr>ev_choice = default_choice p, ev_rule = None, ev_policy = policy_id p, ev_version = version p,
          ev_rationale = Some (if default_choice p \<in> {None, Some []} then ''no_match'' else ''default_choice'')\<rparr>
   | r # _ \<Rightarrow> (case rule_matches r ctx of Inl e \<Rightarrow> Inl e
       | Inr _ \<Rightarrow> Inr \<lparr>ev_choice = Some (choice r), ev_rule = Some (rule_id r), ev_policy = policy_id p,
           ev_version = version p, ev_rationale = rationale r\<rparr>))"
proof -
  have "(if str_truthy d then ''default_choice'' else ''no_match'')
      = (if d \<in> {None, Some []} then ''no_match'' else ''default_choice'')" for d
    by (auto simp: str_truthy_def split: option.split)
  then show ?thesis
    unfolding select_def select_from_cases [of p "rules p" ctx] select_from.simps(1) by (rule ssubst) (rule refl)
qed

text \<open>a policy published later than all its earlier versions is what \<open>get\<close> returns at every as-of
  point that sees it, exactly as published; other as-of points and other policies are unaffected.\<close>

theorem publish_then_get:
  assumes "bt_inv s" "publish bt_append now fresh s p valid_from tx src = (Inr r, s')"
    and "\<forall>x\<in>set (dget_or s (policy_key (policy_id p)) []). instant (r_tx x) < instant (r_tx r)"
    and "aware_opt tx'" "aware_opt vt'"
  shows "get_policy bt_as_of s' pid tx' vt' =
    (if pid = policy_id p \<and> visible tx' vt' r then Inr (Some p) else get_policy bt_as_of s pid tx' vt')"
proof -
  note r = publish_Inr [OF assms(2)]
  have inv: "bt_inv s'" using bt_append_inv [OF assms(1) r(2,1)] .
  note as_of = bt_as_of_aware [OF inv assms(4,5), of "policy_key pid"] bt_as_of_aware [OF assms(1,4,5), of "policy_key pid"]
  have b: "dget_or s' (policy_key pid) [] = dget_or s (policy_key pid) [] @ (if pid = policy_id p then [r] else [])"
    using bt_append_bucket [OF assms(1) r(1), of "policy_key pid"] r(3) by (auto simp: policy_key_def)
  show ?thesis
  proof (cases "pid = policy_id p \<and> visible tx' vt' r")
    case True
    let ?b = "filter (visible tx' vt') (dget_or s (policy_key pid) [])"
    have "first_max sort_key_of (?b @ [r]) = Some r"
      by (rule first_max_append_winner) (use assms(3) True in \<open>auto simp: sort_key_of_def pair_less_iff\<close>)
    with True b as_of(1) have "bt_as_of s' (policy_key pid) tx' vt' = Inr (Some r)" by simp
    from get_published [of bt_as_of, OF this r(4)] True show ?thesis by simp
  next
    case False
    with b have "filter (visible tx' vt') (dget_or s' (policy_key pid) [])
        = filter (visible tx' vt') (dget_or s (policy_key pid) [])" by auto
    with as_of have "bt_as_of s' (policy_key pid) tx' vt' = bt_as_of s (policy_key pid) tx' vt'" by simp
    then show ?thesis unfolding if_not_P [OF False] by (simp add: get_policy_def)
  qed
qed

definition payout_policy :: "string \<Rightarrow> string \<Rightarrow> policy_version" where
  "payout_policy v c = \<lparr>policy_id = ''payout'', version = v,
     rules = [\<lparr>rule_id = ''eu'', condition = [(''region'', PStr ''EU'')], choice = c, rationale = None\<rparr>],
     default_choice = Some ''manual'', description = None\<rparr>"

lemma publish_payout:
  "publish bt_append (day t) i [] (payout_policy v c) (day 0) None ''registry'' =
    (Inr \<lparr>r_id = i, r_key = ''policy:payout'', r_valid = day 0, r_tx = day t,
       r_value = PDict (version_to_dict (payout_policy v c)), r_source = Some ''registry'', r_decision = None,
       r_trust = None, r_parent = None, r_meta = [(''policy_version'', PStr v)]\<rparr>,
     [(''policy:payout'', [\<lparr>r_id = i, r_key = ''policy:payout'', r_valid = day 0, r_tx = day t,
       r_value = PDict (version_to_dict (payout_policy v c)), r_source = Some ''registry'', r_decision = None,
       r_trust = None, r_parent = None, r_meta = [(''policy_version'', PStr v)]\<rparr>])])"
  by (simp add: publish_def new_record_def Let_def str_truthy_def bt_append_def dget_or_def policy_key_def)
    (simp add: payout_policy_def)

theorem publish_then_get_witness:
  "get_policy bt_as_of (snd (publish bt_append (day 1) ''p1'' [] (payout_policy ''1'' ''sepa'') (day 0) None ''registry''))
     ''payout'' (Some (day 2)) None = Inr (Some (payout_policy ''1'' ''sepa''))"
proof -
  have "bt_inv []" by (simp add: bt_inv_def)
  from publish_then_get [OF this publish_payout, where tx' = "Some (day 2)" and vt' = None and pid = "''payout''"]
  show ?thesis using us_per_day_pos
    by (simp add: publish_payout visible_def dget_or_def) (simp add: payout_policy_def)
qed

text \<open>C9: replay. Routing as of a transaction time gives the same decision, or the same error, whatever was
  published or recorded after that time.\<close>

theorem route_replay:
  assumes "bt_inv s" "aware c" "\<forall>r\<in>set later. aware_rec r \<and> instant c < instant (r_tx r)"
    and "bt_append_many s later = (res, s')"
  shows "route bt_as_of s' now fresh use_case pid provider ctx evidence (Some c) decided_at
    = route bt_as_of s now fresh use_case pid provider ctx evidence (Some c) decided_at"
proof -
  from bt_append_many_adds [OF assms(1) _ assms(4)] assms(3)
  have inv: "bt_inv s'" and "\<exists>xs. dget_or s' (policy_key pid) [] = dget_or s (policy_key pid) [] @ xs \<and> set xs \<subseteq> set later"
    by blast+
  then obtain xs where xs: "dget_or s' (policy_key pid) [] = dget_or s (policy_key pid) [] @ xs" "set xs \<subseteq> set later"
    by blast
  have "\<forall>x\<in>set xs. \<not> visible (Some c) None x" using xs(2) assms(3) by (force simp: visible_def)
  then have "bt_as_of s' (policy_key pid) (Some c) None = bt_as_of s (policy_key pid) (Some c) None"
    using assms(2) by (simp add: bt_as_of_aware [OF inv] bt_as_of_aware [OF assms(1)] xs(1))
  then show ?thesis by (simp add: route_def get_policy_def)
qed

theorem route_replay_witness:
  "route bt_as_of (snd (bt_append_many [(''USDC/USD'', [price ''a'' 0 1 100])] [price ''b'' 0 3 99])) (day 9) ''id''
     ''uc'' ''payout'' None [] None (Some (day 2)) None
   = route bt_as_of [(''USDC/USD'', [price ''a'' 0 1 100])] (day 9) ''id'' ''uc'' ''payout'' None [] None (Some (day 2)) None"
proof -
  have inv: "bt_inv [(''USDC/USD'', [price ''a'' 0 1 100])]" by (simp add: bt_inv_def)
  have later: "\<forall>r\<in>set [price ''b'' 0 3 99]. aware_rec r \<and> instant (day 2) < instant (r_tx r)"
    using us_per_day_pos by simp
  show ?thesis
    using route_replay [OF inv day_simps(1) later prod.collapse [symmetric]] by blast
qed

text \<open>A registry built over an empty store does not use that store: what is published to it never
  reaches the store that was passed in.\<close>

theorem registry_replaces_empty_store:
  "registry_store sq_len (Some sq_empty) = Inr [] \<and> registry_store bt_len (Some []) = Inr []"
  by (simp add: registry_store_def sq_len_def bt_len_def)

end
