(* ===== verification/Events.thy ===== *)
theory Events
  imports Canonical Datetime
begin

text \<open>
  \<open>events/types.py\<close>, \<open>events/emitter.py\<close> and \<open>events/webhook.py\<close>: events, their dispatch
  to the configured bus and the webhook transport. The bus methods, the HTTP round trip,
  HMAC-SHA256, \<open>ipaddress\<close> and the split URL are arguments. The results: a webhook makes at
  most three attempts, a further one only after a 5xx status, and a transport that was
  constructed never sends in cleartext to a remote host unless told to.
\<close>

section \<open>json.dumps with the default separators\<close>

fun dumps :: "(rat \<Rightarrow> string) \<Rightarrow> bool \<Rightarrow> pyval \<Rightarrow> string"
  and dumps_items :: "(rat \<Rightarrow> string) \<Rightarrow> bool \<Rightarrow> pyval list \<Rightarrow> string list"
  and dumps_pairs :: "(rat \<Rightarrow> string) \<Rightarrow> bool \<Rightarrow> (string \<times> pyval) list \<Rightarrow> (string \<times> string) list" where
  \<comment> \<open>\<open>json.dumps(v, sort_keys=..., default=str)\<close>\<close>
  "dumps fr srt PNone = ''null''"
| "dumps fr srt (PBool b) = (if b then ''true'' else ''false'')"
| "dumps fr srt (PInt i) = int_text i"
| "dumps fr srt (PFloat f) =
     (case f of Fin r \<Rightarrow> fr r | NaN \<Rightarrow> ''NaN'' | PosInf \<Rightarrow> ''Infinity'' | NegInf \<Rightarrow> ''-Infinity'')"
| "dumps fr srt (PStr s) = json_str True s"
| "dumps fr srt (PObj s) = json_str True s"
| "dumps fr srt (PList xs) = ''['' @ comma_join (dumps_items fr srt xs) @ '']''"
| "dumps fr srt (PDict d) = (let kts = dumps_pairs fr srt d in
     ''{'' @ comma_join (map (\<lambda>(k, t). json_str True k @ '': '' @ t)
       (if srt then sort_key fst kts else kts)) @ ''}'')"
| "dumps_items fr srt [] = []"
| "dumps_items fr srt (x # xs) = dumps fr srt x # dumps_items fr srt xs"
| "dumps_pairs fr srt [] = []"
| "dumps_pairs fr srt ((k, x) # d) = (k, dumps fr srt x) # dumps_pairs fr srt d"

text \<open>\<open>getattr(obj, name, None)\<close> on an object given by its attributes,
  and \<open>float(v)\<close>; \<open>pf\<close> parses the text of a float.\<close>

abbreviation attr :: "pydict \<Rightarrow> string \<Rightarrow> pyval" where
  "attr obj n \<equiv> pget obj n"

definition to_float :: "(string \<Rightarrow> pyfloat option) \<Rightarrow> pyval \<Rightarrow> pyfloat res" where
  "to_float pf v = (case num_of v of Some f \<Rightarrow> Inr f
     | None \<Rightarrow> (case v of
         PStr s \<Rightarrow> (case pf s of Some f \<Rightarrow> Inr f | None \<Rightarrow> Inl ValueError)
       | _ \<Rightarrow> Inl TypeError))"

section \<open>Events and the bus\<close>

record briefcase_event =
  event_type :: string
  decision_id :: string
  timestamp :: datetime
  payload :: pydict
  idempotency_key :: string

text \<open>What \<open>emit\<close> looks at on the configured bus: whether its \<open>emit\<close> is a coroutine
  function and whether it has a \<open>publish\<close>. The value of the call is the argument
  \<open>call\<close>; what was sent is part of the result.\<close>

datatype publish_kind = SyncPublish | AsyncPublish

record event_bus =
  emit_is_coroutine :: bool
  publish_method :: "publish_kind option"

datatype bus_call = BusEmit briefcase_event | BusPublish briefcase_event

definition emit :: "(bus_call \<Rightarrow> unit res) \<Rightarrow> event_bus option \<Rightarrow> briefcase_event \<Rightarrow> unit res \<times> bus_call list" where
  "emit call bus ev = (case bus of
     None \<Rightarrow> (Inr (), [])
   | Some b \<Rightarrow>
       if emit_is_coroutine b then (call (BusEmit ev), [BusEmit ev])
       else (case publish_method b of
           None \<Rightarrow> (Inr (), [])
         | Some k \<Rightarrow> (call (BusPublish ev), [BusPublish ev])))"

definition decision_id_of :: "(rat \<Rightarrow> string) \<Rightarrow> pydict \<Rightarrow> string" where
  "decision_id_of fr dec = py_str fr
     (py_or (py_or (attr dec ''decision_id'') (attr dec ''id'')) (PStr []))"

definition emit_low_confidence ::
  "(rat \<Rightarrow> string) \<Rightarrow> (bus_call \<Rightarrow> unit res) \<Rightarrow> event_bus option \<Rightarrow> datetime \<Rightarrow> string \<Rightarrow>
   pydict \<Rightarrow> pyfloat \<Rightarrow> pyfloat \<Rightarrow> unit res \<times> bus_call list" where
  "emit_low_confidence fr call bus now uuid dec confidence threshold = emit call bus
     \<lparr>event_type = ''decision.low_confidence'', decision_id = decision_id_of fr dec, timestamp = now,
      payload = [(''confidence'', PFloat confidence), (''threshold'', PFloat threshold)],
      idempotency_key = uuid\<rparr>"

definition emit_drift_detected ::
  "(rat \<Rightarrow> string) \<Rightarrow> (bus_call \<Rightarrow> unit res) \<Rightarrow> event_bus option \<Rightarrow> datetime \<Rightarrow> string \<Rightarrow>
   pydict \<Rightarrow> pydict option \<Rightarrow> unit res \<times> bus_call list" where
  "emit_drift_detected fr call bus now uuid dec details = emit call bus
     \<lparr>event_type = ''drift.detected'', decision_id = decision_id_of fr dec, timestamp = now,
      payload = (case details of None \<Rightarrow> [] | Some d \<Rightarrow> d), idempotency_key = uuid\<rparr>"

text \<open>A bus receives an event at most once, and a bus whose \<open>emit\<close> is a plain method and
  which has no \<open>publish\<close> receives nothing.\<close>

lemma emit_at_most_once: "length (snd (emit call bus ev)) \<le> 1"
  by (simp add: emit_def split: option.splits)

lemma emit_plain_method_ignored:
  "\<not> emit_is_coroutine b \<Longrightarrow> publish_method b = None \<Longrightarrow> emit call (Some b) ev = (Inr (), [])"
  by (simp add: emit_def)

section \<open>The webhook transport\<close>

text \<open>The parts of the URL that \<open>urlsplit\<close> returns and the constructor reads.\<close>

record split_url =
  url_text :: string
  scheme :: string
  hostname :: "string option"

record webhook =
  hook_url :: split_url
  secret :: string
  subscribed_events :: "string list"
  hook_timeout :: rat

definition lower_char :: "char \<Rightarrow> char" where
  "lower_char c = (let n = code c in
     if (65 \<le> n \<and> n \<le> 90) \<or> (192 \<le> n \<and> n \<le> 222 \<and> n \<noteq> 215) then char_of (n + 32) else c)"

definition lower :: "string \<Rightarrow> string" where
  "lower s = map lower_char s"

text \<open>\<open>ip h\<close>: \<open>None\<close> when \<open>ipaddress.ip_address\<close> raises, else its \<open>is_loopback\<close>.\<close>

definition is_loopback_host :: "(string \<Rightarrow> bool option) \<Rightarrow> string \<Rightarrow> bool" where
  "is_loopback_host ip host =
     (if lower host = ''localhost'' then True
      else (case ip host of Some b \<Rightarrow> b | None \<Rightarrow> False))"

definition make_webhook ::
  "(string \<Rightarrow> bool option) \<Rightarrow> split_url \<Rightarrow> string \<Rightarrow> string list option \<Rightarrow> rat \<Rightarrow> bool \<Rightarrow> webhook res" where
  "make_webhook ip url sec subs to allow_insecure_http =
     (if scheme url = ''http'' \<and> \<not> allow_insecure_http
         \<and> \<not> is_loopback_host ip (case hostname url of Some h \<Rightarrow> h | None \<Rightarrow> [])
      then Inl ValueError
      else Inr \<lparr>hook_url = url, secret = sec,
        subscribed_events = (case subs of Some l \<Rightarrow> l | None \<Rightarrow> []), hook_timeout = to\<rparr>)"

definition is_subscribed :: "webhook \<Rightarrow> briefcase_event \<Rightarrow> bool" where
  "is_subscribed h ev =
     (if subscribed_events h = [] then True else event_type ev \<in> set (subscribed_events h))"

definition event_body :: "(rat \<Rightarrow> string) \<Rightarrow> briefcase_event \<Rightarrow> bytes" where
  "event_body fr ev = utf8 (dumps fr False (PDict
     [(''event_type'', PStr (event_type ev)), (''decision_id'', PStr (decision_id ev)),
      (''timestamp'', PStr (isoformat (timestamp ev))), (''idempotency_key'', PStr (idempotency_key ev)),
      (''payload'', PDict (payload ev))]))"

definition sign_body :: "(bytes \<Rightarrow> bytes \<Rightarrow> string) \<Rightarrow> bytes \<Rightarrow> string \<Rightarrow> string" where
  "sign_body hmac body sec = hmac (utf8 sec) body"

definition build_headers ::
  "(bytes \<Rightarrow> bytes \<Rightarrow> string) \<Rightarrow> webhook \<Rightarrow> briefcase_event \<Rightarrow> bytes \<Rightarrow> (string, string) dict" where
  "build_headers hmac h ev body =
     [(''Content-Type'', ''application/json''),
      (''X-Briefcase-Signature'', sign_body hmac body (secret h)),
      (''ce-id'', idempotency_key ev), (''ce-type'', event_type ev),
      (''ce-source'', ''briefcase-ai''), (''ce-specversion'', ''1.0''),
      (''ce-time'', isoformat (timestamp ev))]"

text \<open>One request: the URL, the body, the headers. The replies of the server to the
  successive attempts are \<open>net\<close>: a status, or an exception (timeout, network).\<close>

record request =
  rq_url :: string
  rq_body :: bytes
  rq_headers :: "(string, string) dict"

fun post_loop :: "nat \<Rightarrow> nat \<Rightarrow> (nat \<Rightarrow> int res) \<Rightarrow> request \<Rightarrow> bool \<times> request list" where
  \<comment> \<open>\<open>for _attempt in range(max_attempts)\<close>: attempts left, number of this attempt\<close>
  "post_loop 0 k net rq = (False, [])"
| "post_loop (Suc n) k net rq = (case net k of
     Inl e \<Rightarrow> (False, [rq])
   | Inr status \<Rightarrow>
       if status < 500 then (status < 400, [rq])
       else (let (ok, rqs) = post_loop n (Suc k) net rq in (ok, rq # rqs)))"

definition webhook_emit ::
  "(rat \<Rightarrow> string) \<Rightarrow> (bytes \<Rightarrow> bytes \<Rightarrow> string) \<Rightarrow> webhook \<Rightarrow> (nat \<Rightarrow> int res) \<Rightarrow> briefcase_event \<Rightarrow>
   bool \<times> request list" where
  "webhook_emit fr hmac h net ev =
     (if \<not> is_subscribed h ev then (False, [])
      else (let body = event_body fr ev in
        post_loop 3 0 net \<lparr>rq_url = url_text (hook_url h), rq_body = body,
          rq_headers = build_headers hmac h ev body\<rparr>))"

lemma post_loop_requests:
  "snd (post_loop n k net rq) = replicate (length (snd (post_loop n k net rq))) rq"
  by (induction n k net rq rule: post_loop.induct) (auto split: sum.splits prod.splits)

lemma post_loop_length: "length (snd (post_loop n k net rq)) \<le> n"
  by (induction n k net rq rule: post_loop.induct) (auto split: sum.splits prod.splits)

lemma post_loop_retries:
  "i + 1 < length (snd (post_loop n k net rq)) \<Longrightarrow> \<exists>status. net (k + i) = Inr status \<and> 500 \<le> status"
proof (induction n k net rq arbitrary: i rule: post_loop.induct)
  case (2 n k net rq)
  show ?case
  proof (cases "net k")
    case (Inr status)
    show ?thesis
    proof (cases "status < 500")
      case False
      with Inr 2 show ?thesis by (cases i) (fastforce split: prod.splits)+
    qed (use Inr 2(2) in simp)
  qed (use 2(2) in simp)
qed simp

lemma post_loop_accepted:
  "fst (post_loop n k net rq) \<longleftrightarrow>
     (\<exists>m status. length (snd (post_loop n k net rq)) = Suc m \<and> net (k + m) = Inr status \<and> status < 400)"
proof (induction n k net rq rule: post_loop.induct)
  case (2 n k net rq)
  show ?case
  proof (cases "net k")
    case (Inr status)
    show ?thesis
    proof (cases "status < 500")
      case False
      obtain ok rqs where l: "post_loop n (Suc k) net rq = (ok, rqs)" by (cases "post_loop n (Suc k) net rq")
      have "ok \<longleftrightarrow> (\<exists>m st. length rqs = Suc m \<and> net (Suc k + m) = Inr st \<and> st < 400)"
        using 2 [OF Inr False] l by simp
      with Inr False l show ?thesis by (cases rqs) auto
    qed (use Inr in auto)
  qed auto
qed simp

definition delivered :: "(nat \<Rightarrow> int res) \<Rightarrow> nat \<Rightarrow> bool" where
  \<comment> \<open>the last of \<open>k\<close> attempts was answered below 400\<close>
  "delivered net k \<longleftrightarrow> (\<exists>status. 0 < k \<and> net (k - 1) = Inr status \<and> status < 400)"

lemma make_webhook_fields:
  assumes "make_webhook ip url sec subs to insecure = Inr h"
  shows "hook_url h = url" "secret h = sec"
    "scheme url \<noteq> ''http'' \<or> insecure
       \<or> is_loopback_host ip (case hostname url of Some n \<Rightarrow> n | None \<Rightarrow> [])"
  using assms by (auto simp: make_webhook_def split: if_splits option.splits)

text \<open>The last of \<open>k\<close> attempts was acknowledged; an endpoint whose final answers are no redirects.\<close>

definition acknowledged :: "(nat \<Rightarrow> int res) \<Rightarrow> nat \<Rightarrow> bool" where
  "acknowledged net k \<longleftrightarrow> (\<exists>status. 0 < k \<and> net (k - 1) = Inr status \<and> 200 \<le> status \<and> status < 300)"

definition no_redirects :: "(nat \<Rightarrow> int res) \<Rightarrow> bool" where
  "no_redirects net \<longleftrightarrow> (\<forall>k status. net k = Inr status \<longrightarrow> 200 \<le> status \<and> (status < 300 \<or> 400 \<le> status))"

lemma delivered_acknowledged: "no_redirects net \<Longrightarrow> delivered net k \<longleftrightarrow> acknowledged net k"
  unfolding delivered_def acknowledged_def no_redirects_def by force

text \<open>A redirect is not followed, and not an acknowledgement either, but \<open>emit\<close> says True for it.\<close>

lemma redirect_reported:
  "is_subscribed h ev \<Longrightarrow> fst (webhook_emit fr hmac h (\<lambda>_. Inr 302) ev) \<and> \<not> acknowledged (\<lambda>_. Inr 302) 1"
  by (simp add: webhook_emit_def acknowledged_def numeral_3_eq_3 Let_def)

text \<open>
  C10: What a constructed webhook sends for an event: at most three requests, each further one
  only after a status of 500 or more; every request is to the configured URL with the body
  signed under the configured secret, for a subscribed event, and over plain http only to a
  loopback host or with the explicit permission. \<open>emit\<close> returns True when the last request was acknowledged
  with a 2xx status, and, from an endpoint that does not answer with redirects, only then: False
  after an error status, an exception, exhausted retries or for an event not subscribed to.
\<close>

theorem webhook_emit_bounded:
  assumes "make_webhook ip url sec subs to insecure = Inr h"
  shows "let (ok, rqs) = webhook_emit fr hmac h net ev in
    length rqs \<le> 3 \<and> (acknowledged net (length rqs) \<longrightarrow> ok) \<and> (no_redirects net \<longrightarrow> (ok \<longleftrightarrow> acknowledged net (length rqs)))
    \<and> (\<forall>i. i + 1 < length rqs \<longrightarrow> (\<exists>status. net i = Inr status \<and> 500 \<le> status))
    \<and> (\<forall>rq\<in>set rqs. is_subscribed h ev \<and> rq_url rq = url_text url \<and> rq_body rq = event_body fr ev
         \<and> dget (rq_headers rq) ''X-Briefcase-Signature'' = Some (hmac (utf8 sec) (event_body fr ev))
         \<and> (scheme url = ''http'' \<longrightarrow> insecure
              \<or> is_loopback_host ip (case hostname url of Some n \<Rightarrow> n | None \<Rightarrow> [])))"
proof (cases "is_subscribed h ev")
  case False
  then show ?thesis by (simp add: webhook_emit_def acknowledged_def)
next
  case True
  let ?rq = "\<lparr>rq_url = url_text (hook_url h), rq_body = event_body fr ev,
    rq_headers = build_headers hmac h ev (event_body fr ev)\<rparr>"
  obtain ok rqs where l: "post_loop 3 0 net ?rq = (ok, rqs)" by (cases "post_loop 3 0 net ?rq")
  have "length rqs \<le> 3" using post_loop_length [of 3 0 net ?rq] l by simp
  moreover have del: "ok \<longleftrightarrow> delivered net (length rqs)"
    using post_loop_accepted [of 3 0 net ?rq] l by (cases rqs) (auto simp: delivered_def)
  moreover have "acknowledged net (length rqs) \<longrightarrow> ok" using del by (auto simp: acknowledged_def delivered_def)
  moreover have "no_redirects net \<longrightarrow> (ok \<longleftrightarrow> acknowledged net (length rqs))" using del delivered_acknowledged by blast
  moreover have "\<exists>status. net i = Inr status \<and> 500 \<le> status" if "i + 1 < length rqs" for i
    using post_loop_retries [of i 3 0 net ?rq] l that by simp
  moreover have "rq_url rq = url_text url \<and> rq_body rq = event_body fr ev
      \<and> dget (rq_headers rq) ''X-Briefcase-Signature'' = Some (hmac (utf8 sec) (event_body fr ev))"
    if "rq \<in> set rqs" for rq
  proof -
    have "rq = ?rq" using post_loop_requests [of 3 0 net ?rq] l that by (metis in_set_replicate snd_conv)
    then show ?thesis using make_webhook_fields(1,2) [OF assms] by (simp add: build_headers_def sign_body_def)
  qed
  moreover have "webhook_emit fr hmac h net ev = (ok, rqs)"
    using True l by (simp add: webhook_emit_def Let_def)
  ultimately show ?thesis
    using True make_webhook_fields(3) [OF assms] by auto
qed

definition local_url :: split_url where
  "local_url = \<lparr>url_text = ''http://127.0.0.1/hook'', scheme = ''http'', hostname = Some ''127.0.0.1''\<rparr>"

definition flaky :: "nat \<Rightarrow> int res" where
  "flaky k = Inr (if k = 0 then 503 else 200)"

definition drift_event :: briefcase_event where
  "drift_event = \<lparr>event_type = ''drift.detected'', decision_id = ''d1'',
     timestamp = \<lparr>dt_wall = 0, dt_off = Some 0\<rparr>, payload = [], idempotency_key = ''k1''\<rparr>"

lemma webhook_emit_bounded_witness:
  "\<exists>h. make_webhook (\<lambda>h. Some (h = ''127.0.0.1'')) local_url ''s'' None 10 False = Inr h
     \<and> fst (webhook_emit (\<lambda>_. []) (\<lambda>_ _. ''mac'') h flaky drift_event)
     \<and> length (snd (webhook_emit (\<lambda>_. []) (\<lambda>_ _. ''mac'') h flaky drift_event)) = 2"
proof -
  let ?h = "\<lparr>hook_url = local_url, secret = ''s'', subscribed_events = [], hook_timeout = 10\<rparr>"
  have h: "make_webhook (\<lambda>h. Some (h = ''127.0.0.1'')) local_url ''s'' None 10 False = Inr ?h"
    by (simp add: make_webhook_def local_url_def is_loopback_host_def)
  have len: "length (snd (webhook_emit (\<lambda>_. []) (\<lambda>_ _. ''mac'') ?h flaky drift_event)) = 2"
    by (simp add: webhook_emit_def is_subscribed_def flaky_def numeral_3_eq_3 Let_def)
  have "fst (webhook_emit (\<lambda>_. []) (\<lambda>_ _. ''mac'') ?h flaky drift_event)"
    using webhook_emit_bounded [OF h, where fr = "\<lambda>_. []" and hmac = "\<lambda>_ _. ''mac''" and net = flaky
        and ev = drift_event] len
    by (auto simp: acknowledged_def flaky_def split: prod.splits)
  with h len show ?thesis by blast
qed

end
