(* ===== verification/Routers.thy ===== *)
theory Routers
  imports Events
begin

text \<open>
  \<open>routing/base.py\<close>, \<open>routing/internal.py\<close> and \<open>routing/opa.py\<close>: the confidence threshold
  router and the router that consults an OPA endpoint behind a cache. The readings of
  \<open>time.monotonic\<close>, the HTTP round trip (status check and JSON body included), SHA-256 and the
  event bus are arguments; clock arithmetic is exact. The results: without an answer of OPA
  only the internal router decides, and every decision attributed to OPA was given by OPA for
  an input with the same cache key at most a time-to-live ago.
\<close>

section \<open>The internal router\<close>

text \<open>What the routers read of a decision context: its plain attributes, and the nested
  objects by theirs.\<close>

datatype dc_output = OutList "pydict list" | OutDict pydict | OutOther

datatype dc_params = ParamsDict pydict | ParamsObj bool pydict

record decision_ctx =
  dc_attrs :: pydict
  dc_outputs :: dc_output
  dc_context :: "pydict option"
  dc_parameters :: dc_params

record routing_decision =
  action :: pyval
  source :: string
  eval_time_ms :: rat
  reason :: pyval

fun first_confidence :: "(string \<Rightarrow> pyfloat option) \<Rightarrow> pydict list \<Rightarrow> pyfloat option res" where
  "first_confidence pf [] = Inr None"
| "first_confidence pf (out # outs) =
     (if attr out ''confidence'' \<noteq> PNone then rbind (to_float pf (attr out ''confidence'')) (\<lambda>f. Inr (Some f))
      else first_confidence pf outs)"

definition get_confidence :: "(string \<Rightarrow> pyfloat option) \<Rightarrow> decision_ctx \<Rightarrow> pyfloat option res" where
  "get_confidence pf dc = (let conf = attr (dc_attrs dc) ''confidence'' in
     if conf \<noteq> PNone then rbind (to_float pf conf) (\<lambda>f. Inr (Some f))
     else (case dc_outputs dc of
         OutList outs \<Rightarrow> first_confidence pf outs
       | OutDict d \<Rightarrow> (let c = pget d ''confidence'' in
           if c \<noteq> PNone then rbind (to_float pf c) (\<lambda>f. Inr (Some f)) else Inr None)
       | OutOther \<Rightarrow> Inr None))"

definition float_text :: "(rat \<Rightarrow> string) \<Rightarrow> pyfloat option \<Rightarrow> string" where
  "float_text fr c = (case c of None \<Rightarrow> ''None'' | Some f \<Rightarrow> py_str fr (PFloat f))"

definition internal_route ::
  "(rat \<Rightarrow> string) \<Rightarrow> (string \<Rightarrow> pyfloat option) \<Rightarrow> pyfloat \<Rightarrow> rat \<Rightarrow> rat \<Rightarrow> decision_ctx \<Rightarrow> routing_decision res" where
  "internal_route fr pf threshold t0 t1 dc = rbind (get_confidence pf dc) (\<lambda>confidence.
     Inr \<lparr>action = (case confidence of
              Some c \<Rightarrow> if fl_le threshold c then PStr ''auto'' else PStr ''human_review''
            | None \<Rightarrow> PStr ''human_review''),
          source = ''internal'', eval_time_ms = (t1 - t0) * 1000,
          reason = PStr (''confidence='' @ float_text fr confidence @ '', threshold=''
            @ float_text fr (Some threshold))\<rparr>)"

lemma internal_action:
  assumes "internal_route fr pf threshold t0 t1 dc = Inr d"
  obtains c where "get_confidence pf dc = Inr c"
    "action d = (if \<exists>f. c = Some f \<and> fl_le threshold f then PStr ''auto'' else PStr ''human_review'')"
    "source d = ''internal''"
proof -
  obtain c where c: "get_confidence pf dc = Inr c" using assms by (auto simp: internal_route_def rbind_Inr_iff)
  show ?thesis using assms by (intro that [OF c]) (cases c; auto simp: internal_route_def c)+
qed

section \<open>The cache\<close>

record ttl_cache =
  ttl :: rat
  cache_store :: "(string, routing_decision \<times> rat) dict"

definition cache_get :: "rat \<Rightarrow> string \<Rightarrow> ttl_cache \<Rightarrow> routing_decision option \<times> ttl_cache" where
  "cache_get now key c = (case dget (cache_store c) key of
     None \<Rightarrow> (None, c)
   | Some (d, inserted_at) \<Rightarrow>
       if now - inserted_at > ttl c
       then (None, c\<lparr>cache_store := ddel (cache_store c) key\<rparr>)
       else (Some d, c))"

definition cache_set :: "rat \<Rightarrow> string \<Rightarrow> routing_decision \<Rightarrow> ttl_cache \<Rightarrow> ttl_cache" where
  "cache_set now key d c = c\<lparr>cache_store := dset (cache_store c) key (d, now)\<rparr>"

lemma cache_get_Some:
  "cache_get now key c = (Some d, c') \<Longrightarrow>
     \<exists>at_time. dget (cache_store c) key = Some (d, at_time) \<and> now - at_time \<le> ttl c \<and> c' = c"
  by (auto simp: cache_get_def split: option.splits if_splits)

lemma cache_get_entries:
  "dget (cache_store (snd (cache_get now key c))) k = Some e \<Longrightarrow> dget (cache_store c) k = Some e"
  by (auto simp: cache_get_def split: option.splits if_splits)

lemma cache_get_ttl [simp]: "ttl (snd (cache_get now key c)) = ttl c"
  by (simp add: cache_get_def split: option.splits prod.splits)

lemma cache_set_ttl [simp]: "ttl (cache_set now key d c) = ttl c"
  by (simp add: cache_set_def)

section \<open>The OPA router\<close>

definition build_input :: "(rat \<Rightarrow> string) \<Rightarrow> (string \<Rightarrow> pyfloat option) \<Rightarrow> decision_ctx \<Rightarrow> pydict res" where
  "build_input fr pf dc =
     (let confidence = attr (dc_attrs dc) ''confidence'';
          text_of = (\<lambda>v. PStr (py_str fr (py_or v (PStr []))));
          context_version = (case dc_context dc of
              Some ctx \<Rightarrow> text_of (attr ctx ''version'')
            | None \<Rightarrow> text_of (attr (dc_attrs dc) ''context_version''));
          model_name = (case dc_parameters dc of
              ParamsDict d \<Rightarrow> dget_or d ''model_name'' (PStr [])
            | ParamsObj truth at_params \<Rightarrow>
                if truth then text_of (attr at_params ''model_name'') else PStr []);
          tags = py_or (attr (dc_attrs dc) ''tags'') (PDict [])
      in rbind (if confidence \<noteq> PNone then rbind (to_float pf confidence) (\<lambda>f. Inr (PFloat f))
                else Inr PNone)
         (\<lambda>conf. Inr [(''confidence'', conf), (''context_version'', context_version),
            (''model_name'', model_name), (''tags'', tags)]))"

definition cache_key :: "(rat \<Rightarrow> string) \<Rightarrow> (bytes \<Rightarrow> string) \<Rightarrow> pydict \<Rightarrow> string" where
  "cache_key fr sha input_doc = sha (utf8 (dumps fr True (PDict input_doc)))"

text \<open>The action and reason of a response body; a body or result that is not an object has
  no \<open>get\<close>.\<close>

definition opa_result :: "pyval \<Rightarrow> (pyval \<times> pyval) res" where
  "opa_result data = (case data of
     PDict d \<Rightarrow> (case dget_or d ''result'' (PDict []) of
         PDict r \<Rightarrow> Inr (dget_or r ''action'' (PStr ''human_review''), pget r ''reason'')
       | _ \<Rightarrow> Inl AttributeError)
   | _ \<Rightarrow> Inl AttributeError)"

text \<open>What does not change from call to call, and the readings of the clock during one call
  in the order the call makes them.\<close>

record opa_env =
  float_repr :: "rat \<Rightarrow> string"
  parse_float :: "string \<Rightarrow> pyfloat option"
  digest :: "bytes \<Rightarrow> string"
  fallback_threshold :: pyfloat
  bus :: "event_bus option"
  bus_reply :: "bus_call \<Rightarrow> unit res"

record readings =
  t_start :: rat
  t_lookup :: rat
  t_end :: rat
  t_stored :: rat
  wall_now :: datetime
  event_uuid :: string

definition maybe_emit :: "opa_env \<Rightarrow> readings \<Rightarrow> routing_decision \<Rightarrow> decision_ctx \<Rightarrow> bus_call list" where
  "maybe_emit env rd decision dc =
     (if py_eq (action decision) (PStr ''human_review'') then
        (case to_float (parse_float env) (py_or (attr (dc_attrs dc) ''confidence'') (PFloat (Fin 0))) of
           Inl e \<Rightarrow> []
         | Inr c \<Rightarrow> snd (emit_low_confidence (float_repr env) (bus_reply env) (bus env) (wall_now rd)
             (event_uuid rd) (dc_attrs dc) c (Fin (85 / 100))))
      else [])"

definition opa_route ::
  "opa_env \<Rightarrow> readings \<Rightarrow> (pydict \<Rightarrow> pyval res) \<Rightarrow> decision_ctx \<Rightarrow> ttl_cache \<Rightarrow>
   routing_decision res \<times> bus_call list \<times> ttl_cache" where
  "opa_route env rd post dc c = (case build_input (float_repr env) (parse_float env) dc of
     Inl e \<Rightarrow> (Inl e, [], c)
   | Inr input_doc \<Rightarrow>
       (let key = cache_key (float_repr env) (digest env) input_doc;
            (cached, c1) = cache_get (t_lookup rd) key c
        in case cached of
             Some d \<Rightarrow> (Inr d, [], c1)
           | None \<Rightarrow> (case rbind (post input_doc) opa_result of
               Inl e \<Rightarrow>
                 (case internal_route (float_repr env) (parse_float env) (fallback_threshold env) 0 0 dc of
                    Inl e' \<Rightarrow> (Inl e', [], c1)
                  | Inr fb \<Rightarrow>
                      (let decision = \<lparr>action = action fb, source = ''internal'',
                             eval_time_ms = (t_end rd - t_start rd) * 1000,
                             reason = PStr ''OPA unavailable; fallback to internal router''\<rparr>
                       in (Inr decision, maybe_emit env rd decision dc, c1)))
             | Inr (act, why) \<Rightarrow>
                 (let decision = \<lparr>action = act, source = ''opa'',
                        eval_time_ms = (t_end rd - t_start rd) * 1000, reason = why\<rparr>
                  in (Inr decision, maybe_emit env rd decision dc,
                      cache_set (t_stored rd) key decision c1)))))"

text \<open>A call of the router, and a run of calls with the answers.\<close>

record opa_call =
  oc_rd :: readings
  oc_post :: "pydict \<Rightarrow> pyval res"
  oc_dc :: decision_ctx

fun opa_run :: "opa_env \<Rightarrow> opa_call list \<Rightarrow> ttl_cache \<Rightarrow> routing_decision res list \<times> ttl_cache" where
  "opa_run env [] c = ([], c)"
| "opa_run env (x # xs) c =
     (let (r, evs, c') = opa_route env (oc_rd x) (oc_post x) (oc_dc x) c;
          (rs, c'') = opa_run env xs c'
      in (r # rs, c''))"

text \<open>OPA was asked in call \<open>x\<close> about key \<open>key\<close> and granted \<open>d\<close>.\<close>

definition key_of :: "opa_env \<Rightarrow> decision_ctx \<Rightarrow> string option" where
  "key_of env dc = (case build_input (float_repr env) (parse_float env) dc of
     Inl e \<Rightarrow> None | Inr doc \<Rightarrow> Some (cache_key (float_repr env) (digest env) doc))"

definition opa_granted :: "opa_env \<Rightarrow> string \<Rightarrow> routing_decision \<Rightarrow> rat \<Rightarrow> opa_call \<Rightarrow> bool" where
  "opa_granted env key d stored x \<longleftrightarrow>
     (\<exists>doc. build_input (float_repr env) (parse_float env) (oc_dc x) = Inr doc
        \<and> cache_key (float_repr env) (digest env) doc = key
        \<and> rbind (oc_post x doc) opa_result = Inr (action d, reason d)
        \<and> source d = ''opa'' \<and> stored = t_stored (oc_rd x))"

definition cache_backed :: "opa_env \<Rightarrow> opa_call list \<Rightarrow> ttl_cache \<Rightarrow> bool" where
  "cache_backed env xs c \<longleftrightarrow> (\<forall>key d stored. dget (cache_store c) key = Some (d, stored) \<longrightarrow>
     (\<exists>x\<in>set xs. opa_granted env key d stored x))"

text \<open>One call: where its decision can come from, and that the cache stays backed.\<close>

lemma opa_route_cases:
  assumes "opa_route env rd post dc c = (r, evs, c')"
  obtains (bad) e k where "r = Inl e" "c' = snd (cache_get (t_lookup rd) k c) \<or> c' = c"
  | (cached) key d stored where "key_of env dc = Some key" "r = Inr d" "c' = c" "evs = []"
      "dget (cache_store c) key = Some (d, stored)" "t_lookup rd - stored \<le> ttl c"
  | (fallback) d fb key where "key_of env dc = Some key" "r = Inr d"
      "internal_route (float_repr env) (parse_float env) (fallback_threshold env) 0 0 dc = Inr fb"
      "action d = action fb" "source d = ''internal''" "c' = snd (cache_get (t_lookup rd) key c)"
  | (asked) d key where "r = Inr d" "key_of env dc = Some key"
      "opa_granted env key d (t_stored rd) \<lparr>oc_rd = rd, oc_post = post, oc_dc = dc\<rparr>"
      "c' = cache_set (t_stored rd) key d (snd (cache_get (t_lookup rd) key c))"
proof (cases "build_input (float_repr env) (parse_float env) dc")
  case (Inl e)
  then have "r = Inl e" "c' = c" using assms by (auto simp: opa_route_def)
  then show ?thesis using bad by blast
next
  case (Inr doc)
  define key where "key = cache_key (float_repr env) (digest env) doc"
  have key: "key_of env dc = Some key" using Inr by (simp add: key_of_def key_def)
  obtain hit c1 where g: "cache_get (t_lookup rd) key c = (hit, c1)"
    by (cases "cache_get (t_lookup rd) key c")
  show ?thesis
  proof (cases hit)
    case (Some d)
    then have "r = Inr d" "evs = []" "c' = c1"
      using assms Inr g by (auto simp: opa_route_def key_def Let_def)
    then show ?thesis using cached key cache_get_Some [of "t_lookup rd" key c d c1] g Some by blast
  next
    case None
    note run = assms [unfolded opa_route_def] Inr g None
    show ?thesis
    proof (cases "rbind (post doc) opa_result")
      case failed: (Inl e)
      show ?thesis
      proof (cases "internal_route (float_repr env) (parse_float env) (fallback_threshold env) 0 0 dc")
        case (Inl e')
        then have "r = Inl e'" "c' = c1" using run failed by (auto simp: key_def Let_def)
        then show ?thesis using bad [of e' key] g by simp
      next
        case (Inr fb)
        then show ?thesis using run failed g fallback key by (auto simp: key_def Let_def)
      qed
    next
      case (Inr av)
      obtain act why where av: "av = (act, why)" by (cases av)
      define d where "d = \<lparr>action = act, source = ''opa'',
        eval_time_ms = (t_end rd - t_start rd) * 1000, reason = why\<rparr>"
      have "r = Inr d" "c' = cache_set (t_stored rd) key d c1"
        using run Inr av by (auto simp: key_def d_def Let_def)
      moreover have "opa_granted env key d (t_stored rd) \<lparr>oc_rd = rd, oc_post = post, oc_dc = dc\<rparr>"
        using Inr av run(2) by (simp add: opa_granted_def d_def key_def)
      ultimately show ?thesis using asked key g by simp
    qed
  qed
qed

lemma opa_granted_eta: "\<lparr>oc_rd = oc_rd x, oc_post = oc_post x, oc_dc = oc_dc x\<rparr> = x"
  by simp

lemma cache_backed_mono: "cache_backed env xs c \<Longrightarrow> set xs \<subseteq> set ys \<Longrightarrow> cache_backed env ys c"
  unfolding cache_backed_def by blast

lemma cache_backed_get: "cache_backed env xs c \<Longrightarrow> cache_backed env xs (snd (cache_get now key c))"
  unfolding cache_backed_def using cache_get_entries by blast

lemma cache_backed_step:
  assumes "opa_route env (oc_rd x) (oc_post x) (oc_dc x) c = (r, evs, c')" and "cache_backed env xs c"
  shows "cache_backed env (xs @ [x]) c'"
proof -
  have old: "cache_backed env (xs @ [x]) (snd (cache_get now key c))" for now key
    by (rule cache_backed_mono [OF cache_backed_get [OF assms(2)]]) auto
  have id_case: "cache_backed env (xs @ [x]) c" by (rule cache_backed_mono [OF assms(2)]) auto
  from assms(1) show ?thesis
  proof (cases rule: opa_route_cases)
    case (asked d key)
    have "cache_backed env (xs @ [x]) (snd (cache_get (t_lookup (oc_rd x)) key c))" by (rule old)
    with asked(3) [unfolded opa_granted_eta] asked(4) show ?thesis
      by (auto simp: cache_backed_def cache_set_def split: if_splits)
  qed (use old id_case in auto)
qed

lemma opa_route_ttl:
  assumes "opa_route env rd post dc c = (r, evs, c')"
  shows "ttl c' = ttl c"
  using assms by (cases rule: opa_route_cases) auto

lemma opa_run_append:
  "opa_run env (xs @ ys) c = (let (rs, c1) = opa_run env xs c; (ss, c2) = opa_run env ys c1 in (rs @ ss, c2))"
  by (induction xs arbitrary: c) (auto split: prod.splits)

lemma opa_run_backed:
  "opa_run env xs c = (rs, c') \<Longrightarrow> cache_backed env ws c \<Longrightarrow>
     cache_backed env (ws @ xs) c' \<and> ttl c' = ttl c \<and> length rs = length xs"
proof (induction xs arbitrary: ws c rs)
  case (Cons x xs)
  obtain r evs c1 where st: "opa_route env (oc_rd x) (oc_post x) (oc_dc x) c = (r, evs, c1)"
    by (cases "opa_route env (oc_rd x) (oc_post x) (oc_dc x) c")
  obtain rs' where rest: "opa_run env xs c1 = (rs', c')" "rs = r # rs'"
    using Cons(2) st by (auto split: prod.splits)
  show ?case
    using Cons(1) [OF rest(1) cache_backed_step [OF st Cons(3)]] opa_route_ttl [OF st] rest(2) by simp
qed simp

text \<open>
  C11: In any run of the OPA router from an empty cache, a call that returns a decision either
  takes what the internal router would decide for this context (source \<open>internal\<close>), or hands
  out a decision that OPA itself gave, in this call or in an earlier one, for an input with the
  same cache key; a reused decision was stored at most one time-to-live before the lookup.
  Whatever the HTTP round trip does, no other decision is possible.
\<close>

theorem opa_decisions_granted:
  assumes "ttl c = period" "cache_store c = []"
    and "opa_run env (xs @ [x]) c = (rs @ [Inr d], c')"
  shows "(source d = ''internal''
           \<and> (\<exists>fb. internal_route (float_repr env) (parse_float env) (fallback_threshold env) 0 0 (oc_dc x) = Inr fb
                 \<and> action d = action fb))
       \<or> (\<exists>key stored y. key_of env (oc_dc x) = Some key \<and> opa_granted env key d stored y
            \<and> (y = x \<or> y \<in> set xs \<and> t_lookup (oc_rd x) - stored \<le> period))"
proof -
  obtain rs1 c1 where pre: "opa_run env xs c = (rs1, c1)" by (cases "opa_run env xs c")
  have b: "cache_backed env xs c1" "ttl c1 = period"
    using opa_run_backed [OF pre, of "[]"] assms(1,2) by (auto simp: cache_backed_def)
  obtain r evs c2 where st: "opa_route env (oc_rd x) (oc_post x) (oc_dc x) c1 = (r, evs, c2)"
    by (cases "opa_route env (oc_rd x) (oc_post x) (oc_dc x) c1")
  have r: "r = Inr d" using assms(3) pre st by (auto simp: opa_run_append)
  from st show ?thesis
  proof (cases rule: opa_route_cases)
    case (cached key d' stored)
    then show ?thesis using b r unfolding cache_backed_def by blast
  next
    case (asked d' key)
    then show ?thesis using r asked(3) [unfolded opa_granted_eta] by auto
  qed (use r in auto)
qed

text \<open>Three calls with one context: OPA answers, the answer is reused, and after the entry has
  expired OPA is down.\<close>

definition plain_env :: opa_env where
  "plain_env = \<lparr>float_repr = \<lambda>r. ''0.9'', parse_float = \<lambda>s. None, digest = \<lambda>b. ''key'',
     fallback_threshold = Fin (85 / 100), bus = None, bus_reply = \<lambda>_. Inr ()\<rparr>"

definition call_at :: "rat \<Rightarrow> pyval res \<Rightarrow> opa_call" where
  "call_at t body = \<lparr>oc_rd = \<lparr>t_start = t, t_lookup = t, t_end = t, t_stored = t,
       wall_now = \<lparr>dt_wall = 0, dt_off = Some 0\<rparr>, event_uuid = ''u''\<rparr>,
     oc_post = \<lambda>_. body,
     oc_dc = \<lparr>dc_attrs = [(''confidence'', PFloat (Fin (1 / 2)))], dc_outputs = OutOther,
       dc_context = None, dc_parameters = ParamsObj False []\<rparr>\<rparr>"

definition opa_yes :: "pyval res" where
  "opa_yes = Inr (PDict [(''result'', PDict [(''action'', PStr ''auto'')])])"

lemmas opa_eval = plain_env_def call_at_def opa_yes_def opa_route_def build_input_def cache_key_def
  cache_get_def cache_set_def opa_result_def maybe_emit_def internal_route_def get_confidence_def
  to_float_def py_or_def pget_def dget_or_def fl_le_def fl_eq_def float_text_def ddel_def

definition granted :: routing_decision where
  "granted = \<lparr>action = PStr ''auto'', source = ''opa'', eval_time_ms = 0, reason = PNone\<rparr>"

definition fallen_back :: routing_decision where
  "fallen_back = \<lparr>action = PStr ''human_review'', source = ''internal'', eval_time_ms = 0,
     reason = PStr ''OPA unavailable; fallback to internal router''\<rparr>"

lemma opa_steps:
  "opa_route plain_env (oc_rd (call_at 0 opa_yes)) (oc_post (call_at 0 opa_yes)) (oc_dc (call_at 0 opa_yes))
     \<lparr>ttl = 60, cache_store = []\<rparr> = (Inr granted, [], \<lparr>ttl = 60, cache_store = [(''key'', granted, 0)]\<rparr>)"
  "opa_route plain_env (oc_rd (call_at 5 b)) (oc_post (call_at 5 b)) (oc_dc (call_at 5 b))
     \<lparr>ttl = 60, cache_store = [(''key'', granted, 0)]\<rparr> = (Inr granted, [], \<lparr>ttl = 60, cache_store = [(''key'', granted, 0)]\<rparr>)"
  "opa_route plain_env (oc_rd (call_at 61 (Inl e))) (oc_post (call_at 61 (Inl e))) (oc_dc (call_at 61 (Inl e)))
     \<lparr>ttl = 60, cache_store = [(''key'', granted, 0)]\<rparr> = (Inr fallen_back, [], \<lparr>ttl = 60, cache_store = []\<rparr>)"
  by (simp_all add: opa_eval granted_def fallen_back_def emit_low_confidence_def emit_def Let_def)

lemma opa_decisions_granted_witness:
  "fst (opa_run plain_env
        ([call_at 0 opa_yes, call_at 5 (Inl (RaisedBy ''down''))] @ [call_at 61 (Inl (RaisedBy ''down''))])
        \<lparr>ttl = 60, cache_store = []\<rparr>) = [Inr granted, Inr granted] @ [Inr fallen_back]
     \<and> source fallen_back = ''internal''"
proof -
  let ?c = "\<lparr>ttl = 60, cache_store = []\<rparr>"
  let ?xs = "[call_at 0 opa_yes, call_at 5 (Inl (RaisedBy ''down''))]"
  let ?x = "call_at 61 (Inl (RaisedBy ''down''))"
  have run: "opa_run plain_env (?xs @ [?x]) ?c = ([Inr granted, Inr granted] @ [Inr fallen_back], ?c)"
    by (simp add: opa_steps)
  have no_grant: "\<not> opa_granted plain_env k fallen_back st y" for k st y
    by (simp add: opa_granted_def fallen_back_def)
  have "source fallen_back = ''internal''"
    using opa_decisions_granted [OF _ _ run, of 60] no_grant by auto
  then show ?thesis using run by simp
qed

end
