(* ===== verification/Quota.thy ===== *)
theory Quota
  imports Events
begin

text \<open>
  \<open>controls/ports.py\<close> (\<open>QuotaDecision\<close>, \<open>QuotaStore\<close>) and \<open>controls/quota_fixed_window.py\<close>.
  Each operation runs under the store's lock and is one step on its state. Times are floats
  whose arithmetic is exact; \<open>pf\<close> and \<open>pint\<close> parse the text of a float and of an int, and a
  reading of the wall clock is an argument. The contract of a quota store that the gateway
  relies on is the locale \<open>quota_store\<close>. The results: however calls for other keys, prunes
  and cooldowns interleave, no time interval as long as the window sees more than twice the
  limit of granted calls for one key; an active cooldown denies; and the one exception to
  both, a deadline that is no date.
\<close>

section \<open>Floats and integers\<close>

text \<open>\<open>int(v)\<close>.\<close>

definition to_int :: "(string \<Rightarrow> int option) \<Rightarrow> pyval \<Rightarrow> int res" where
  "to_int pint v = (case v of
     PInt i \<Rightarrow> Inr i
   | PBool b \<Rightarrow> Inr (if b then 1 else 0)
   | PFloat f \<Rightarrow> (case f of
       Fin r \<Rightarrow> Inr (if 0 \<le> r then \<lfloor>r\<rfloor> else \<lceil>r\<rceil>)
     | NaN \<Rightarrow> Inl ValueError | _ \<Rightarrow> Inl (RaisedBy ''OverflowError''))
   | PStr s \<Rightarrow> (case pint s of Some i \<Rightarrow> Inr i | None \<Rightarrow> Inl ValueError)
   | _ \<Rightarrow> Inl TypeError)"

text \<open>\<open>datetime.fromtimestamp(t, tz=timezone.utc)\<close>: microseconds by rounding half to even;
  the years 1 to 9999 only.\<close>

definition half_even :: "rat \<Rightarrow> int" where
  "half_even r = (let f = \<lfloor>r\<rfloor>; d = r - of_int f in
     if d < 1 / 2 then f else if 1 / 2 < d then f + 1 else if even f then f else f + 1)"

definition epoch_us :: int where
  "epoch_us = 719162 * us_per_day"

definition fromtimestamp :: "pyfloat \<Rightarrow> datetime res" where
  "fromtimestamp t = (case t of
     Fin r \<Rightarrow> (let us = epoch_us + half_even (r * 1000000) in
       if 0 \<le> us \<and> us < 3652059 * us_per_day then Inr \<lparr>dt_wall = us, dt_off = Some 0\<rparr>
       else Inl ValueError)
   | NaN \<Rightarrow> Inl ValueError
   | _ \<Rightarrow> Inl (RaisedBy ''OverflowError''))"

definition representable :: "pyfloat \<Rightarrow> bool" where
  "representable t \<longleftrightarrow> (\<exists>d. fromtimestamp t = Inr d)"

section \<open>The port and its contract\<close>

record quota_decision =
  allowed :: bool
  tokens_remaining :: "int option"
  cooldown_until :: "datetime option"

locale quota_store =
  fixes acquire :: "string \<Rightarrow> string \<Rightarrow> pydict \<Rightarrow> rat \<Rightarrow> 's \<Rightarrow> quota_decision \<times> 's"
    and mark :: "string \<Rightarrow> string \<Rightarrow> pyfloat \<Rightarrow> rat \<Rightarrow> 's \<Rightarrow> 's"
    and deadline :: "'s \<Rightarrow> string \<times> string \<Rightarrow> rat option"
    and valid :: "pydict \<Rightarrow> bool"
  assumes mark_deadline:
      "deadline (mark tn b (Fin s) t q) k = (if k = (tn, b) then Some (t + s) else deadline q k)"
    and mark_other: "k \<noteq> (tn, b) \<Longrightarrow> deadline (mark tn b x t q) k = deadline q k"
    and acquire_keeps: "deadline q k = Some c \<Longrightarrow> t < c \<Longrightarrow>
      deadline (snd (acquire tn b pol t q)) k = Some c"
    and acquire_denies: "valid pol \<Longrightarrow> deadline q (tn, b) = Some c \<Longrightarrow> t < c \<Longrightarrow> representable (Fin c) \<Longrightarrow>
      \<not> allowed (fst (acquire tn b pol t q))"

section \<open>The fixed-window store\<close>

record window =
  w_start :: pyfloat
  w_count :: int
  w_span :: pyfloat

type_synonym qkey = "string \<times> string"

record fixed_window =
  windows :: "(qkey, window) dict"
  cooldowns :: "(qkey, pyfloat) dict"
  acquires_since_prune :: nat

definition PRUNE_THRESHOLD :: nat where "PRUNE_THRESHOLD = 2048"
definition PRUNE_EVERY :: nat where "PRUNE_EVERY = 256"
definition PRUNE_HARD_BOUND :: nat where "PRUNE_HARD_BOUND = 2 * PRUNE_THRESHOLD"

definition new_fixed_window :: fixed_window where
  "new_fixed_window = \<lparr>windows = [], cooldowns = [], acquires_since_prune = 0\<rparr>"

definition stale :: "pyfloat \<Rightarrow> window \<Rightarrow> bool" where
  "stale ts w \<longleftrightarrow> fl_lt (w_start w) (fl_sub ts (fl_add (w_span w) (w_span w)))"

definition prune :: "pyfloat \<Rightarrow> fixed_window \<Rightarrow> fixed_window" where
  "prune ts q =
     (if length (windows q) \<le> PRUNE_THRESHOLD then q
      else let n = acquires_since_prune q + 1 in
        if length (windows q) \<le> PRUNE_HARD_BOUND \<and> n < PRUNE_EVERY
        then q\<lparr>acquires_since_prune := n\<rparr>
        else \<lparr>windows = filter (\<lambda>(k, w). \<not> stale ts w) (windows q),
              cooldowns = filter (\<lambda>(k, expiry). \<not> fl_lt expiry ts) (cooldowns q),
              acquires_since_prune = 0\<rparr>)"

text \<open>\<open>ts\<close>: the caller's \<open>now\<close>, or the wall clock when it is \<open>None\<close>; then the two entries
  of the policy. Any exception lets the call through.\<close>

definition time_of :: "(string \<Rightarrow> pyfloat option) \<Rightarrow> pyfloat \<Rightarrow> pyval \<Rightarrow> pyfloat res" where
  "time_of pf wall now = (if now = PNone then Inr wall else to_float pf now)"

definition subscript :: "pydict \<Rightarrow> string \<Rightarrow> pyval res" where
  "subscript d k = (case dget d k of Some v \<Rightarrow> Inr v | None \<Rightarrow> Inl KeyError)"

definition policy_limits ::
  "(string \<Rightarrow> pyfloat option) \<Rightarrow> (string \<Rightarrow> int option) \<Rightarrow> pydict \<Rightarrow> (int \<times> pyfloat) res" where
  "policy_limits pf pint policy =
     rbind (rbind (subscript policy ''limit'') (to_int pint)) (\<lambda>limit.
     rbind (rbind (subscript policy ''window_s'') (to_float pf)) (\<lambda>window_s. Inr (limit, window_s)))"

definition charge :: "qkey \<Rightarrow> int \<Rightarrow> pyfloat \<Rightarrow> pyfloat \<Rightarrow> fixed_window \<Rightarrow> quota_decision \<times> fixed_window" where
  "charge key limit window_s ts q =
     (let w = dget_or (windows q) key \<lparr>w_start = ts, w_count = 0, w_span = window_s\<rparr>;
          (start, count) = (if fl_le window_s (fl_sub ts (w_start w)) then (ts, 0) else (w_start w, w_count w))
      in if limit \<le> count
         then (\<lparr>allowed = False, tokens_remaining = Some 0, cooldown_until = None\<rparr>,
           q\<lparr>windows := dset (windows q) key \<lparr>w_start = start, w_count = count, w_span = window_s\<rparr>\<rparr>)
         else (\<lparr>allowed = True, tokens_remaining = Some (max 0 (limit - (count + 1))), cooldown_until = None\<rparr>,
           prune ts (q\<lparr>windows :=
             dset (windows q) key \<lparr>w_start = start, w_count = count + 1, w_span = window_s\<rparr>\<rparr>)))"

definition acquire_locked :: "qkey \<Rightarrow> int \<Rightarrow> pyfloat \<Rightarrow> pyfloat \<Rightarrow> fixed_window \<Rightarrow> (quota_decision \<times> fixed_window) res" where
  "acquire_locked key limit window_s ts q = (case dget (cooldowns q) key of
     None \<Rightarrow> Inr (charge key limit window_s ts q)
   | Some cooldown \<Rightarrow>
       if fl_lt ts cooldown
       then rbind (fromtimestamp cooldown) (\<lambda>d.
         Inr (\<lparr>allowed = False, tokens_remaining = Some 0, cooldown_until = Some d\<rparr>, q))
       else Inr (charge key limit window_s ts (q\<lparr>cooldowns := ddel (cooldowns q) key\<rparr>)))"

definition fw_acquire ::
  "(string \<Rightarrow> pyfloat option) \<Rightarrow> (string \<Rightarrow> int option) \<Rightarrow> string \<Rightarrow> string \<Rightarrow> pydict \<Rightarrow> pyval \<Rightarrow> pyfloat \<Rightarrow>
   fixed_window \<Rightarrow> quota_decision \<times> fixed_window" where
  "fw_acquire pf pint tenant_id bucket policy now wall q =
     (case rbind (time_of pf wall now) (\<lambda>ts. rbind (policy_limits pf pint policy) (\<lambda>(limit, window_s).
        acquire_locked (tenant_id, bucket) limit window_s ts q)) of
        Inl e \<Rightarrow> (\<lparr>allowed = True, tokens_remaining = None, cooldown_until = None\<rparr>, q)
      | Inr r \<Rightarrow> r)"

definition fw_mark_cooldown ::
  "(string \<Rightarrow> pyfloat option) \<Rightarrow> string \<Rightarrow> string \<Rightarrow> pyval \<Rightarrow> pyval \<Rightarrow> pyfloat \<Rightarrow> fixed_window \<Rightarrow> fixed_window" where
  "fw_mark_cooldown pf tenant_id bucket seconds now wall q =
     (case rbind (time_of pf wall now) (\<lambda>ts. rbind (to_float pf seconds) (\<lambda>s. Inr (fl_add ts s))) of
        Inl e \<Rightarrow> q
      | Inr expiry \<Rightarrow> q\<lparr>cooldowns := dset (cooldowns q) (tenant_id, bucket) expiry\<rparr>)"

definition fw_reset :: "fixed_window \<Rightarrow> fixed_window" where
  "fw_reset q = q\<lparr>windows := [], cooldowns := []\<rparr>"

section \<open>What one operation does to the entries of a key\<close>

lemma dget_filter_snd:
  "distinct (dkeys d) \<Longrightarrow> dget (filter (\<lambda>(k, v). P v) d) key =
     (case dget d key of Some v \<Rightarrow> if P v then Some v else None | None \<Rightarrow> None)"
  by (induction d) (auto simp: map_of_eq_None_iff split: option.splits)

definition fw_ok :: "fixed_window \<Rightarrow> bool" where
  "fw_ok q \<longleftrightarrow> distinct (dkeys (windows q)) \<and> distinct (dkeys (cooldowns q))"

lemma distinct_filter_keys: "distinct (dkeys d) \<Longrightarrow> distinct (dkeys (filter P d))"
  by (induction d) auto

lemma prune_ok: "fw_ok q \<Longrightarrow> fw_ok (prune ts q)"
  by (simp add: prune_def fw_ok_def Let_def distinct_filter_keys)

lemma prune_window:
  "fw_ok q \<Longrightarrow> dget (windows (prune ts q)) key = dget (windows q) key
     \<or> dget (windows (prune ts q)) key = None \<and> (\<exists>w. dget (windows q) key = Some w \<and> stale ts w)"
  by (auto simp: prune_def fw_ok_def Let_def dget_filter_snd split: option.splits)

lemma prune_cooldown:
  "fw_ok q \<Longrightarrow> dget (cooldowns (prune ts q)) key = dget (cooldowns q) key
     \<or> dget (cooldowns (prune ts q)) key = None \<and> (\<exists>c. dget (cooldowns q) key = Some c \<and> fl_lt c ts)"
  by (auto simp: prune_def fw_ok_def Let_def dget_filter_snd split: option.splits)

text \<open>The effect of \<open>acquire_locked\<close> on the two dictionaries.\<close>

lemma charge_ok: "fw_ok q \<Longrightarrow> fw_ok (snd (charge key limit ws ts q))"
  by (auto simp: charge_def Let_def fw_ok_def intro!: prune_ok [unfolded fw_ok_def])

lemma acquire_locked_ok:
  "acquire_locked key limit ws ts q = Inr (d, q') \<Longrightarrow> fw_ok q \<Longrightarrow> fw_ok q'"
  using charge_ok [of q key limit ws ts] charge_ok [of "q\<lparr>cooldowns := ddel (cooldowns q) key\<rparr>" key limit ws ts]
  by (auto simp: acquire_locked_def rbind_Inr_iff fw_ok_def split: option.splits if_splits)

lemma fw_acquire_ok: "fw_ok q \<Longrightarrow> fw_ok (snd (fw_acquire pf pint tn b pol now wall q))"
  by (auto simp: fw_acquire_def rbind_Inr_iff split: sum.splits intro: acquire_locked_ok)

lemma fw_mark_ok: "fw_ok q \<Longrightarrow> fw_ok (fw_mark_cooldown pf tn b s now wall q)"
  by (auto simp: fw_mark_cooldown_def fw_ok_def split: sum.splits)

definition fw_deadline :: "fixed_window \<Rightarrow> qkey \<Rightarrow> rat option" where
  "fw_deadline q k = (case dget (cooldowns q) k of Some (Fin c) \<Rightarrow> Some c | _ \<Rightarrow> None)"

lemma fw_deadline_Some [simp]: "fw_deadline q k = Some c \<longleftrightarrow> dget (cooldowns q) k = Some (Fin c)"
  by (auto simp: fw_deadline_def split: option.splits pyfloat.splits)

lemma dget_filter_kept: "dget d k = Some v \<Longrightarrow> P v \<Longrightarrow> dget (filter (\<lambda>(k, v). P v) d) k = Some v"
  by (induction d) auto

lemma prune_keeps_cooldown:
  "dget (cooldowns q) k = Some (Fin c) \<Longrightarrow> t < c \<Longrightarrow> dget (cooldowns (prune (Fin t) q)) k = Some (Fin c)"
  by (simp add: prune_def Let_def dget_filter_kept)

lemma charge_cooldown:
  "dget (cooldowns q) k = Some (Fin c) \<Longrightarrow> t < c \<Longrightarrow>
     dget (cooldowns (snd (charge key limit ws (Fin t) q))) k = Some (Fin c)"
  by (auto simp: charge_def Let_def intro!: prune_keeps_cooldown)

lemma acquire_locked_cooldown:
  assumes "acquire_locked key limit ws (Fin t) q = Inr (d, q')"
    and "dget (cooldowns q) k = Some (Fin c)" and "t < c"
  shows "dget (cooldowns q') k = Some (Fin c)"
proof (cases "k = key")
  case False
  then show ?thesis
    using assms charge_cooldown [of q k c t key limit ws]
      charge_cooldown [of "q\<lparr>cooldowns := ddel (cooldowns q) key\<rparr>" k c t key limit ws]
    by (auto simp: acquire_locked_def rbind_Inr_iff split: option.splits if_splits)
qed (use assms in \<open>auto simp: acquire_locked_def rbind_Inr_iff\<close>)

lemma acquire_locked_denies:
  assumes "dget (cooldowns q) key = Some (Fin c)" "t < c" "fromtimestamp (Fin c) = Inr dt"
  shows "acquire_locked key limit ws (Fin t) q =
    Inr (\<lparr>allowed = False, tokens_remaining = Some 0, cooldown_until = Some dt\<rparr>, q)"
  using assms by (simp add: acquire_locked_def)

lemma fw_acquire_at:
  "policy_limits pf pint pol = Inr (limit, ws) \<Longrightarrow>
   fw_acquire pf pint tn b pol PNone (Fin t) q = (case acquire_locked (tn, b) limit ws (Fin t) q of
     Inl e \<Rightarrow> (\<lparr>allowed = True, tokens_remaining = None, cooldown_until = None\<rparr>, q)
   | Inr r \<Rightarrow> r)"
  by (simp add: fw_acquire_def time_of_def split: sum.splits)

lemma fw_acquire_deadline:
  assumes "fw_deadline q k = Some c" "t < c"
  shows "fw_deadline (snd (fw_acquire pf pint tn b pol PNone (Fin t) q)) k = Some c"
  using assms by (auto simp: fw_acquire_def time_of_def rbind_Inr_iff split: sum.splits dest: acquire_locked_cooldown)

interpretation fw: quota_store "\<lambda>tn b pol t. fw_acquire pf pint tn b pol PNone (Fin t)"
  "\<lambda>tn b s t. fw_mark_cooldown pf tn b (PFloat s) PNone (Fin t)" fw_deadline
  "\<lambda>pol. \<exists>lw. policy_limits pf pint pol = Inr lw" for pf pint
proof unfold_locales
  fix q :: fixed_window and c t tn b pol
  assume dl: "fw_deadline q (tn, b) = Some c" "t < c" and "representable (Fin c)"
    and "\<exists>lw. policy_limits pf pint pol = Inr lw"
  then show "\<not> allowed (fst (fw_acquire pf pint tn b pol PNone (Fin t) q))"
    by (auto simp: fw_acquire_at acquire_locked_denies representable_def)
qed (auto simp: fw_mark_cooldown_def time_of_def to_float_def fw_deadline_def
    intro: fw_acquire_deadline [unfolded fw_deadline_def])

section \<open>Runs of the store\<close>

datatype quota_op =
    Acquire string string pydict rat
  | MarkCooldown string string pyfloat rat

fun op_time :: "quota_op \<Rightarrow> rat" where
  "op_time (Acquire tn b pol t) = t"
| "op_time (MarkCooldown tn b s t) = t"

fun op_key :: "quota_op \<Rightarrow> qkey" where
  "op_key (Acquire tn b pol t) = (tn, b)"
| "op_key (MarkCooldown tn b s t) = (tn, b)"

text \<open>The state after a run, and the times at which calls for \<open>key\<close> were let through,
  latest first.\<close>

fun fw_step ::
  "(string \<Rightarrow> pyfloat option) \<Rightarrow> (string \<Rightarrow> int option) \<Rightarrow> quota_op \<Rightarrow> fixed_window \<Rightarrow> bool \<times> fixed_window" where
  "fw_step pf pint (Acquire tn b pol t) q =
     (let (d, q') = fw_acquire pf pint tn b pol PNone (Fin t) q in (allowed d, q'))"
| "fw_step pf pint (MarkCooldown tn b s t) q = (False, fw_mark_cooldown pf tn b (PFloat s) PNone (Fin t) q)"

fun fw_run ::
  "(string \<Rightarrow> pyfloat option) \<Rightarrow> (string \<Rightarrow> int option) \<Rightarrow> quota_op list \<Rightarrow> fixed_window \<Rightarrow>
   (quota_op \<times> bool) list \<times> fixed_window" where
  "fw_run pf pint [] q = ([], q)"
| "fw_run pf pint (x # xs) q =
     (let (ok, q1) = fw_step pf pint x q; (trace, q2) = fw_run pf pint xs q1 in ((x, ok) # trace, q2))"

definition granted_times :: "qkey \<Rightarrow> (quota_op \<times> bool) list \<Rightarrow> rat list" where
  "granted_times key trace = map (\<lambda>(x, ok). op_time x) (filter (\<lambda>(x, ok). ok \<and> op_key x = key) trace)"

section \<open>Windows as groups of granted calls\<close>

text \<open>The granted calls of one key fall into windows, latest first: at most \<open>L\<close> calls in a
  span of \<open>W\<close> from the start, and starts at least \<open>W\<close> apart.\<close>

fun groups_ok :: "int \<Rightarrow> rat \<Rightarrow> (rat \<times> rat list) list \<Rightarrow> bool" where
  "groups_ok L W [] \<longleftrightarrow> True"
| "groups_ok L W ((s, ts) # gs) \<longleftrightarrow>
     length ts \<le> nat L \<and> (\<forall>t\<in>set ts. s \<le> t \<and> t < s + W)
     \<and> (case gs of [] \<Rightarrow> True | g # _ \<Rightarrow> fst g + W \<le> s) \<and> groups_ok L W gs"

abbreviation times_of :: "(rat \<times> rat list) list \<Rightarrow> rat list" where
  "times_of gs \<equiv> concat (map snd gs)"

abbreviation hits :: "rat \<Rightarrow> rat \<Rightarrow> rat list \<Rightarrow> nat" where
  "hits x W ts \<equiv> length (filter (\<lambda>t. x \<le> t \<and> t < x + W) ts)"

lemma groups_before: "groups_ok L W ((s, ts) # gs) \<Longrightarrow> 0 < W \<Longrightarrow> t \<in> set (times_of ((s, ts) # gs)) \<Longrightarrow> t < s + W"
proof (induction gs arbitrary: s ts)
  case (Cons g gs)
  obtain s' ts' where g: "g = (s', ts')" by (cases g)
  show ?case
  proof (cases "t \<in> set ts")
    case False
    then have "t < s' + W" using Cons(1) [of s' ts'] Cons(2-4) g by auto
    then show ?thesis using Cons(2,3) g by auto
  qed (use Cons(2) in auto)
qed auto

lemma hits_none:
  assumes "\<And>t. t \<in> set ts \<Longrightarrow> t < x \<or> x + W \<le> t"
  shows "hits x W ts = 0"
  using assms by (fastforce simp: filter_empty_conv)

lemma hits_early:
  assumes "groups_ok L W ((s, ts) # gs)" "0 < W" "s + W \<le> x"
  shows "hits x W (times_of ((s, ts) # gs)) = 0"
  using groups_before [OF assms(1,2)] assms(3) by (intro hits_none) force

lemma hits_one:
  assumes "groups_ok L W ((s, ts) # gs)" "0 < W" "s < x"
  shows "hits x W (times_of ((s, ts) # gs)) \<le> nat L"
proof -
  have "hits x W (times_of gs) = 0"
  proof (cases gs)
    case (Cons g gs')
    obtain s' ts' where g: "g = (s', ts')" by (cases g)
    then have "groups_ok L W ((s', ts') # gs')" "s' + W \<le> x" using assms Cons by auto
    then show ?thesis using hits_early assms(2) Cons g by blast
  qed simp
  moreover have "hits x W ts \<le> nat L"
    using assms(1) by (meson groups_ok.simps(2) le_trans length_filter_le)
  ultimately show ?thesis by simp
qed

lemma hits_two: "groups_ok L W gs \<Longrightarrow> 0 < W \<Longrightarrow> hits x W (times_of gs) \<le> 2 * nat L"
proof (induction gs)
  case (Cons g gs)
  obtain s ts where g: "g = (s, ts)" by (cases g)
  have ok: "groups_ok L W ((s, ts) # gs)" using Cons(2) g by simp
  have le: "hits x W ts \<le> nat L"
    using ok by (meson groups_ok.simps(2) le_trans length_filter_le)
  consider "x + W \<le> s" | "s < x" | "x \<le> s" "s < x + W" by linarith
  then show ?case
  proof cases
    case 1
    have "hits x W ts = 0" using ok 1 by (intro hits_none) force
    then show ?thesis using Cons(1,3) ok g by simp
  next
    case 2
    have "hits x W (times_of ((s, ts) # gs)) \<le> nat L" by (rule hits_one [OF ok Cons(3) 2])
    then show ?thesis using g by simp
  next
    case 3
    have "hits x W (times_of gs) \<le> nat L"
    proof (cases gs)
      case (Cons g' gs')
      obtain s' ts' where g': "g' = (s', ts')" by (cases g')
      then have "groups_ok L W ((s', ts') # gs')" "s' < x" using ok Cons 3 by auto
      then show ?thesis using hits_one \<open>0 < W\<close> Cons g' by blast
    qed simp
    then show ?thesis using le g by simp
  qed
qed simp

text \<open>What the state of the store says about the groups of one key.\<close>

definition entry_fits :: "int \<Rightarrow> rat \<Rightarrow> rat \<Rightarrow> window option \<Rightarrow> (rat \<times> rat list) list \<Rightarrow> bool" where
  "entry_fits L W now entry gs \<longleftrightarrow> groups_ok L W gs \<and> (case entry of
     None \<Rightarrow> (\<forall>g gs'. gs = g # gs' \<longrightarrow> fst g + W \<le> now)
   | Some w \<Rightarrow> (\<exists>s ts gs'. gs = (s, ts) # gs' \<and> s \<le> now
       \<and> w = \<lparr>w_start = Fin s, w_count = int (length ts), w_span = Fin W\<rparr>))"

definition window_inv :: "int \<Rightarrow> rat \<Rightarrow> qkey \<Rightarrow> rat \<Rightarrow> fixed_window \<Rightarrow> rat list \<Rightarrow> bool" where
  "window_inv L W key now q A \<longleftrightarrow> fw_ok q
     \<and> (\<forall>c. dget (cooldowns q) key = Some c \<longrightarrow> representable c)
     \<and> (\<exists>gs. times_of gs = A \<and> entry_fits L W now (dget (windows q) key) gs)"

lemma entry_fits_later: "entry_fits L W now e gs \<Longrightarrow> now \<le> t \<Longrightarrow> entry_fits L W t e gs"
  by (fastforce simp: entry_fits_def split: option.splits)

lemma entry_fits_pruned:
  assumes "entry_fits L W t (Some w) gs" "stale (Fin t) w" "0 < W"
  shows "entry_fits L W t None gs"
  using assms by (auto simp: entry_fits_def stale_def)

lemma window_inv_prune:
  assumes "window_inv L W key t q A" "0 < W"
  shows "window_inv L W key t (prune (Fin t) q) A"
proof -
  from assms obtain gs where inv: "fw_ok q" "\<forall>c. dget (cooldowns q) key = Some c \<longrightarrow> representable c"
    "times_of gs = A" "entry_fits L W t (dget (windows q) key) gs" by (auto simp: window_inv_def)
  have "entry_fits L W t (dget (windows (prune (Fin t) q)) key) gs"
    using prune_window [OF inv(1), of "Fin t" key] inv(4) entry_fits_pruned assms(2) by (metis (no_types))
  moreover have "\<forall>c. dget (cooldowns (prune (Fin t) q)) key = Some c \<longrightarrow> representable c"
    using prune_cooldown [OF inv(1), of "Fin t" key] inv(2) by auto
  ultimately show ?thesis using inv(3) prune_ok [OF inv(1)] by (auto simp: window_inv_def)
qed

text \<open>The window \<open>acquire\<close> charges the call to: the current one, or a new one when there is
  none or its span has passed.\<close>

lemma entry_charged:
  assumes "entry_fits L W t entry gs" "0 < W"
    and "w = (case entry of Some w \<Rightarrow> w | None \<Rightarrow> \<lparr>w_start = Fin t, w_count = 0, w_span = Fin W\<rparr>)"
    and "(start, cnt) = (if fl_le (Fin W) (fl_sub (Fin t) (w_start w)) then (Fin t, 0) else (w_start w, w_count w))"
  obtains s ts gs' where "start = Fin s" "cnt = int (length ts)" "s \<le> t" "t < s + W"
    "groups_ok L W ((s, ts) # gs')" "times_of ((s, ts) # gs') = times_of gs"
proof (cases entry)
  case None
  then have "start = Fin t" "cnt = 0" "groups_ok L W ((t, []) # gs)"
    using assms by (auto simp: entry_fits_def split: list.splits)
  then show ?thesis using that [of t "[]" gs] assms(2) by simp
next
  case (Some w')
  then obtain s ts gs' where gs: "gs = (s, ts) # gs'" "s \<le> t" "w = \<lparr>w_start = Fin s, w_count = int (length ts), w_span = Fin W\<rparr>"
    using assms(1,3) by (auto simp: entry_fits_def)
  show ?thesis
  proof (cases "W \<le> t - s")
    case True
    then have "start = Fin t" "cnt = 0" "groups_ok L W ((t, []) # gs)"
      using assms(1,4) gs by (auto simp: entry_fits_def)
    then show ?thesis using that [of t "[]" gs] assms(2) by simp
  next
    case False
    then have "start = Fin s" "cnt = int (length ts)" "groups_ok L W ((s, ts) # gs')" using assms(1,4) gs
      by (auto simp: entry_fits_def)
    then show ?thesis using that [of s ts gs'] gs False by simp
  qed
qed

lemma window_inv_charge:
  assumes inv: "window_inv L W key t q A" and "0 < W"
    and run: "charge key L (Fin W) (Fin t) q = (d, q')"
  shows "window_inv L W key t q' (if allowed d then t # A else A)"
proof -
  from inv obtain gs where ok: "fw_ok q" and cd: "\<forall>c. dget (cooldowns q) key = Some c \<longrightarrow> representable c"
    and gs: "times_of gs = A" "entry_fits L W t (dget (windows q) key) gs" by (auto simp: window_inv_def)
  define w where "w = dget_or (windows q) key \<lparr>w_start = Fin t, w_count = 0, w_span = Fin W\<rparr>"
  have w: "w = (case dget (windows q) key of Some w \<Rightarrow> w
      | None \<Rightarrow> \<lparr>w_start = Fin t, w_count = 0, w_span = Fin W\<rparr>)"
    by (simp add: w_def dget_or_def split: option.splits)
  obtain start cnt where sc: "(start, cnt) =
      (if fl_le (Fin W) (fl_sub (Fin t) (w_start w)) then (Fin t, 0) else (w_start w, w_count w))"
    by (metis surj_pair)
  obtain s ts gs' where g: "start = Fin s" "cnt = int (length ts)" "s \<le> t" "t < s + W"
    "groups_ok L W ((s, ts) # gs')" "times_of ((s, ts) # gs') = A"
    using entry_charged [OF gs(2) assms(2) w sc] gs(1) by metis
  show ?thesis
  proof (cases "L \<le> cnt")
    case True
    have "d = \<lparr>allowed = False, tokens_remaining = Some 0, cooldown_until = None\<rparr>"
      "q' = q\<lparr>windows := dset (windows q) key \<lparr>w_start = start, w_count = cnt, w_span = Fin W\<rparr>\<rparr>"
      using run True by (simp_all only: charge_def Let_def w_def [symmetric] sc [symmetric] prod.case if_True prod.inject)
    then show ?thesis using ok cd g
      by (auto simp: window_inv_def fw_ok_def entry_fits_def intro!: exI [of _ "(s, ts) # gs'"])
  next
    case room: False
    let ?q = "q\<lparr>windows := dset (windows q) key \<lparr>w_start = start, w_count = cnt + 1, w_span = Fin W\<rparr>\<rparr>"
    have d: "allowed d" "q' = prune (Fin t) ?q"
      using run room by (auto simp only: charge_def Let_def w_def [symmetric] sc [symmetric] prod.case if_False
          prod.inject quota_decision.simps)
    have "window_inv L W key t ?q (t # A)"
      using ok cd g room by (auto simp: window_inv_def fw_ok_def entry_fits_def intro!: exI [of _ "(s, t # ts) # gs'"])
    then show ?thesis using d window_inv_prune assms(2) by simp
  qed
qed

lemma window_inv_later: "window_inv L W key now q A \<Longrightarrow> now \<le> t \<Longrightarrow> window_inv L W key t q A"
  using entry_fits_later by (fastforce simp: window_inv_def)

lemma window_inv_ddel: "window_inv L W key now q A \<Longrightarrow> window_inv L W key now (q\<lparr>cooldowns := ddel (cooldowns q) k\<rparr>) A"
  by (auto simp: window_inv_def fw_ok_def)

lemma window_inv_acquire:
  assumes "window_inv L W key t q A" "0 < W" "acquire_locked key L (Fin W) (Fin t) q = Inr (d, q')"
  shows "window_inv L W key t q' (if allowed d then t # A else A)"
  using assms window_inv_charge [OF assms(1,2)] window_inv_charge [OF window_inv_ddel [OF assms(1), of key] assms(2)]
  by (auto simp: acquire_locked_def rbind_Inr_iff split: option.splits if_splits)

text \<open>Calls for other keys: their window entries differ, and a prune only drops what has
  passed.\<close>

lemma window_inv_other_entry:
  "window_inv L W key t q A \<Longrightarrow> k \<noteq> key \<Longrightarrow> window_inv L W key t (q\<lparr>windows := dset (windows q) k w\<rparr>) A"
  by (auto simp: window_inv_def fw_ok_def)

lemma window_inv_charge_other:
  assumes "window_inv L W key t q A" "0 < W" "k \<noteq> key"
  shows "window_inv L W key t (snd (charge k limit ws (Fin t) q)) A"
  using window_inv_other_entry [OF assms(1,3)] window_inv_prune [OF _ assms(2)]
  by (auto simp: charge_def Let_def)

lemma window_inv_acquire_other:
  assumes "window_inv L W key t q A" "0 < W" "k \<noteq> key" "acquire_locked k limit ws (Fin t) q = Inr (d, q')"
  shows "window_inv L W key t q' A"
  using assms(4) window_inv_charge_other [OF assms(1-3), of limit ws]
    window_inv_charge_other [OF window_inv_ddel [OF assms(1), of k] assms(2,3), of limit ws] assms(1)
  by (auto simp: acquire_locked_def rbind_Inr_iff split: option.splits if_splits)

text \<open>What the bound asks of the operations: calls for \<open>key\<close> under one policy, and cooldowns
  of \<open>key\<close> whose deadline is a date.\<close>

fun op_fits ::
  "(string \<Rightarrow> pyfloat option) \<Rightarrow> (string \<Rightarrow> int option) \<Rightarrow> qkey \<Rightarrow> int \<Rightarrow> rat \<Rightarrow> quota_op \<Rightarrow> bool" where
  "op_fits pf pint key L W (Acquire tn b pol t) =
     ((tn, b) = key \<longrightarrow> policy_limits pf pint pol = Inr (L, Fin W))"
| "op_fits pf pint key L W (MarkCooldown tn b s t) =
     ((tn, b) = key \<longrightarrow> representable (fl_add (Fin t) s))"

lemma window_inv_step:
  assumes inv: "window_inv L W key now q A" and "now \<le> op_time x" "0 < W" "op_fits pf pint key L W x"
    and step: "fw_step pf pint x q = (ok, q')"
  shows "window_inv L W key (op_time x) q' (if ok \<and> op_key x = key then op_time x # A else A)"
proof (cases x)
  case (MarkCooldown tn b s t)
  then show ?thesis using window_inv_later [OF inv assms(2)] assms(4) step
    by (auto simp: fw_mark_cooldown_def time_of_def to_float_def window_inv_def fw_ok_def split: if_splits)
next
  case (Acquire tn b pol t)
  have inv': "window_inv L W key t q A" using window_inv_later [OF inv assms(2)] Acquire by simp
  obtain d where d: "fw_acquire pf pint tn b pol PNone (Fin t) q = (d, q')" "ok = allowed d"
    using step Acquire by (auto split: prod.splits)
  show ?thesis
  proof (cases "(tn, b) = key")
    case True
    then have lim: "policy_limits pf pint pol = Inr (L, Fin W)" using assms(4) Acquire by simp
    have "\<exists>r. acquire_locked key L (Fin W) (Fin t) q = Inr r"
      using inv' by (auto simp: acquire_locked_def window_inv_def representable_def split: option.splits)
    then have "acquire_locked key L (Fin W) (Fin t) q = Inr (d, q')"
      using d(1) fw_acquire_at [OF lim, of tn b t q] True by auto
    from window_inv_acquire [OF inv' assms(3) this] show ?thesis using d(2) Acquire True by (simp split: if_splits)
  next
    case False
    then show ?thesis
      using d Acquire inv' window_inv_acquire_other [OF inv' assms(3) False]
      by (auto simp: fw_acquire_def time_of_def rbind_Inr_iff split: sum.splits)
  qed
qed

lemma granted_times_Cons:
  "granted_times key ((x, ok) # trace) =
     (if ok \<and> op_key x = key then [op_time x] else []) @ granted_times key trace"
  by (simp add: granted_times_def)

lemma window_inv_run:
  assumes "window_inv L W key now q A" "0 < W" "sorted (now # map op_time xs)"
    and "\<forall>x\<in>set xs. op_fits pf pint key L W x" "fw_run pf pint xs q = (trace, q')"
  shows "\<exists>t. window_inv L W key t q' (rev (granted_times key trace) @ A)"
  using assms
proof (induction xs arbitrary: now q A trace)
  case Nil
  then show ?case by (auto simp: granted_times_def)
next
  case (Cons x xs)
  obtain ok q1 where st: "fw_step pf pint x q = (ok, q1)" by (cases "fw_step pf pint x q")
  obtain trace' where rest: "fw_run pf pint xs q1 = (trace', q')" "trace = (x, ok) # trace'"
    using Cons(6) st by (auto split: prod.splits)
  have "window_inv L W key (op_time x) q1 (if ok \<and> op_key x = key then op_time x # A else A)"
    using Cons(2-5) by (intro window_inv_step [OF _ _ _ _ st]) auto
  from Cons(1) [OF this Cons(3) _ _ rest(1)] Cons(4,5)
  show ?case by (auto simp: rest(2) granted_times_Cons split: if_splits)
qed

lemma hits_rev: "hits x W (rev ts) = hits x W ts"
  by (simp add: rev_filter [symmetric])

text \<open>
  C12: Run any sequence of acquires and cooldown marks in time order on a fresh fixed-window
  store, for any mixture of tenants, buckets and policies, prunes included. If the calls for
  one key use the policy with limit \<open>L\<close> and a positive window \<open>W\<close>, and the cooldowns set for it
  end at a date, then every half-open time interval of length \<open>W\<close> contains at most \<open>2 L\<close>
  granted calls for that key.
\<close>

theorem quota_bound:
  assumes "0 < W" "sorted (map op_time xs)" "\<forall>x\<in>set xs. op_fits pf pint key L W x"
    and "fw_run pf pint xs new_fixed_window = (trace, q)"
  shows "length (filter (\<lambda>t. from \<le> t \<and> t < from + W) (granted_times key trace)) \<le> 2 * nat L"
proof (cases xs)
  case Nil
  then show ?thesis using assms(4) by (auto simp: granted_times_def)
next
  case (Cons x xs')
  have init: "window_inv L W key (op_time x) new_fixed_window []"
    by (auto simp: window_inv_def fw_ok_def new_fixed_window_def entry_fits_def intro!: exI [of _ "[]"])
  have "sorted (op_time x # map op_time xs)" using assms(2) Cons by auto
  from window_inv_run [OF init assms(1) this assms(3,4)]
  obtain t gs e where "times_of gs = rev (granted_times key trace)" "entry_fits L W t e gs"
    by (auto simp: window_inv_def)
  then show ?thesis using hits_two [of L W gs "from"] assms(1) hits_rev by (auto simp: entry_fits_def)
qed

definition one_per_ten :: pydict where
  "one_per_ten = [(''limit'', PInt 1), (''window_s'', PInt 10)]"

lemma one_per_ten_limits [simp]: "policy_limits pf pint one_per_ten = Inr (1, Fin 10)"
  by (simp add: one_per_ten_def policy_limits_def subscript_def to_int_def to_float_def)

definition three_calls :: "quota_op list" where
  "three_calls = [Acquire ''t'' ''b'' one_per_ten 0, Acquire ''t'' ''b'' one_per_ten 5, Acquire ''t'' ''b'' one_per_ten 12]"

lemmas quota_eval = fw_acquire_at acquire_locked_def charge_def prune_def PRUNE_THRESHOLD_def
  new_fixed_window_def granted_times_def dget_or_def

lemma three_calls_run:
  "granted_times (''t'', ''b'') (fst (fw_run pf pint three_calls new_fixed_window)) = [0, 12]"
  by (simp add: three_calls_def quota_eval)

lemma quota_bound_witness:
  "length (filter (\<lambda>t. 0 \<le> t \<and> t < 10) (granted_times (''t'', ''b'')
      (fst (fw_run (\<lambda>_. None) (\<lambda>_. None) three_calls new_fixed_window)))) \<le> 2
   \<and> granted_times (''t'', ''b'') (fst (fw_run (\<lambda>_. None) (\<lambda>_. None) three_calls new_fixed_window)) = [0, 12]"
proof -
  have fits: "\<forall>x\<in>set three_calls. op_fits (\<lambda>_. None) (\<lambda>_. None) (''t'', ''b'') 1 10 x"
    "sorted (map op_time three_calls)" by (auto simp: three_calls_def)
  obtain trace q where run: "fw_run (\<lambda>_. None) (\<lambda>_. None) three_calls new_fixed_window = (trace, q)"
    by (cases "fw_run (\<lambda>_. None) (\<lambda>_. None) three_calls new_fixed_window")
  show ?thesis
    using quota_bound [OF _ fits(2,1) run, of 0] three_calls_run [of "\<lambda>_. None" "\<lambda>_. None"] run by simp
qed

section \<open>Cooldowns\<close>

lemma deadline_step:
  assumes "fw_deadline q key = Some c" "op_time x < c" "\<not> (\<exists>s. x = MarkCooldown (fst key) (snd key) s (op_time x))"
  shows "fw_deadline (snd (fw_step pf pint x q)) key = Some c"
proof (cases x)
  case (Acquire tn b pol t)
  then show ?thesis using fw.acquire_keeps [OF assms(1), of t] assms(2) by (simp split: prod.splits) (metis snd_conv)
next
  case (MarkCooldown tn b s t)
  then have "key \<noteq> (tn, b)" using assms(3) by auto
  then show ?thesis using fw.mark_other assms(1) MarkCooldown by simp
qed

lemma deadline_run:
  assumes "fw_deadline q key = Some c"
    and "\<forall>x\<in>set xs. op_time x < c \<and> \<not> (\<exists>s. x = MarkCooldown (fst key) (snd key) s (op_time x))"
  shows "fw_deadline (snd (fw_run pf pint xs q)) key = Some c"
  using assms
proof (induction xs arbitrary: q)
  case (Cons x xs)
  then have "fw_deadline (snd (fw_step pf pint x q)) key = Some c" by (intro deadline_step) auto
  with Cons show ?case by (simp split: prod.splits) (metis snd_conv)
qed simp

text \<open>
  After a cooldown of \<open>s\<close> seconds is marked at time \<open>marked\<close>, every later acquire for that
  tenant and bucket before \<open>marked + s\<close> is denied, whatever other operations, acquires on the same
  key and prunes included, happen in between, as long as none of them marks that key again.
\<close>

theorem cooldown_denies:
  assumes "representable (Fin (marked + s))" "policy_limits pf pint pol = Inr lw" "t < marked + s"
    and "\<forall>x\<in>set xs. op_time x < marked + s \<and> \<not> (\<exists>s'. x = MarkCooldown tn b s' (op_time x))"
  shows "\<not> allowed (fst (fw_acquire pf pint tn b pol PNone (Fin t)
    (snd (fw_run pf pint xs (fw_mark_cooldown pf tn b (PFloat (Fin s)) PNone (Fin marked) q)))))"
proof (rule fw.acquire_denies)
  show "fw_deadline (snd (fw_run pf pint xs (fw_mark_cooldown pf tn b (PFloat (Fin s)) PNone (Fin marked) q))) (tn, b)
      = Some (marked + s)"
    by (rule deadline_run) (use assms(4) fw.mark_deadline in auto)
qed (use assms in auto)

lemma representable_example: "representable (Fin 100)"
  by (simp add: representable_def fromtimestamp_def half_even_def epoch_us_def us_per_day_def)

lemma cooldown_denies_witness:
  "\<not> allowed (fst (fw_acquire (\<lambda>_. None) (\<lambda>_. None) ''t'' ''b'' one_per_ten PNone (Fin 99)
    (snd (fw_run (\<lambda>_. None) (\<lambda>_. None) [Acquire ''t'' ''b'' one_per_ten 50]
      (fw_mark_cooldown (\<lambda>_. None) ''t'' ''b'' (PFloat (Fin 60)) PNone (Fin 40) new_fixed_window)))))"
  using cooldown_denies [where marked = 40 and s = 60 and pf = "\<lambda>_. None" and pint = "\<lambda>_. None" and pol = one_per_ten
      and t = 99 and tn = "''t''" and b = "''b''" and xs = "[Acquire ''t'' ''b'' one_per_ten 50]" and q = new_fixed_window]
    representable_example by simp

text \<open>
  A cooldown whose deadline is not a date (infinite, or beyond the year 9999) does the
  opposite of what it is for: until the deadline every acquire of the key is let through and
  none is counted, because building the denial raises and \<open>acquire\<close> fails open.
\<close>

theorem cooldown_overflow_allows:
  assumes "dget (cooldowns q) (tn, b) = Some c" "fl_lt (Fin t) c" "\<not> representable c"
  shows "fw_acquire pf pint tn b pol PNone (Fin t) q
    = (\<lparr>allowed = True, tokens_remaining = None, cooldown_until = None\<rparr>, q)"
proof -
  obtain e where "fromtimestamp c = Inl e" using assms(3) unfolding representable_def by (cases "fromtimestamp c") auto
  then show ?thesis using assms(1,2)
    by (cases "policy_limits pf pint pol") (auto simp: fw_acquire_def time_of_def acquire_locked_def)
qed

lemma cooldown_overflow_allows_witness:
  "allowed (fst (fw_acquire (\<lambda>_. None) (\<lambda>_. None) ''t'' ''b'' one_per_ten PNone (Fin 0)
    (fw_mark_cooldown (\<lambda>_. None) ''t'' ''b'' (PFloat PosInf) PNone (Fin 0) new_fixed_window)))"
  using cooldown_overflow_allows [of "fw_mark_cooldown (\<lambda>_. None) ''t'' ''b'' (PFloat PosInf) PNone (Fin 0) new_fixed_window"
      "''t''" "''b''" PosInf 0]
  by (simp add: fw_mark_cooldown_def time_of_def to_float_def new_fixed_window_def representable_def fromtimestamp_def)

end
