(* ===== verification/Throttle.thy ===== *)
theory Throttle
  imports Events
begin

text \<open>
  \<open>controls/throttle.py\<close> and \<open>controls/retry.py\<close>. Exceptions are objects with identity in a
  heap (\<open>nat \<Rightarrow> exc\<close>), linked by \<open>__cause__\<close> and \<open>__context__\<close>, cycles included. The
  classifier's loop is a total function; the results say that it is exact as soon as at most
  eight exceptions are linked, and what bounds the retry loop keeps. The successive outcomes
  of the wrapped call, the random numbers and the readings of the clock are arguments; float
  arithmetic is exact.
\<close>

section \<open>Exceptions\<close>

datatype response = NoResponse | DictResponse pydict | ObjResponse pyval
  \<comment> \<open>\<open>ObjResponse c\<close>: any other object, \<open>c\<close> its \<open>status_code\<close> or \<open>None\<close>\<close>

record exc =
  class_name :: string
  response_of :: response
  message :: string
  cause_of :: "nat option"
  context_of :: "nat option"

type_synonym heap = "nat \<Rightarrow> exc"

record classification =
  throttled :: bool
  transient :: bool

definition THROTTLED_CLASS_NAMES :: "string list" where
  "THROTTLED_CLASS_NAMES = [''RateLimitError'', ''ThrottlingException'', ''TooManyRequestsException'']"

definition THROTTLED_CODES :: "string list" where
  "THROTTLED_CODES = [''ThrottlingException'', ''Throttling'', ''TooManyRequestsException'']"

definition TRANSIENT_ONLY_CODES :: "string list" where
  "TRANSIENT_ONLY_CODES = [''ServiceQuotaExceededException'']"

definition MAX_CAUSE_DEPTH :: nat where "MAX_CAUSE_DEPTH = 8"

text \<open>\<open>re.search("throttl|rate.?limit", message, IGNORECASE)\<close>: the dot matches anything but a
  newline.\<close>

definition begins :: "string \<Rightarrow> string \<Rightarrow> bool" where
  "begins p s \<longleftrightarrow> take (length p) s = p"

fun message_matches :: "string \<Rightarrow> bool" where
  "message_matches [] = False"
| "message_matches (c # s) =
     (begins ''throttl'' (c # s)
      \<or> (begins ''rate'' (c # s) \<and>
          (begins ''limit'' (drop 4 (c # s))
           \<or> (drop 4 (c # s) \<noteq> [] \<and> hd (drop 4 (c # s)) \<noteq> CHR 0x0A \<and> begins ''limit'' (drop 5 (c # s)))))
      \<or> message_matches s)"

definition message_regex_hit :: "string \<Rightarrow> bool" where
  "message_regex_hit msg = message_matches (lower msg)"

text \<open>\<open>isinstance(code, int)\<close>, booleans included.\<close>

definition int_or_none :: "pyval \<Rightarrow> int option" where
  "int_or_none v = (case v of PInt i \<Rightarrow> Some i | PBool b \<Rightarrow> Some (if b then 1 else 0) | _ \<Rightarrow> None)"

text \<open>\<open>response.get(k) or {}\<close>, then \<open>.get\<close> on it: any other true value has no \<open>get\<close>.\<close>

definition sub_dict :: "pydict \<Rightarrow> string \<Rightarrow> pydict res" where
  "sub_dict d k = (case py_or (pget d k) (PDict []) of PDict m \<Rightarrow> Inr m | _ \<Rightarrow> Inl AttributeError)"

definition status_code :: "exc \<Rightarrow> int option res" where
  "status_code err = (case response_of err of
     NoResponse \<Rightarrow> Inr None
   | DictResponse d \<Rightarrow> rbind (sub_dict d ''ResponseMetadata'') (\<lambda>meta. Inr (int_or_none (pget meta ''HTTPStatusCode'')))
   | ObjResponse c \<Rightarrow> Inr (int_or_none c))"

definition error_code :: "exc \<Rightarrow> string option res" where
  "error_code err = (case response_of err of
     DictResponse d \<Rightarrow> rbind (sub_dict d ''Error'') (\<lambda>error.
       Inr (case pget error ''Code'' of PStr s \<Rightarrow> Some s | _ \<Rightarrow> None))
   | _ \<Rightarrow> Inr None)"

definition code_in :: "string option \<Rightarrow> string list \<Rightarrow> bool" where
  "code_in c cs = (case c of None \<Rightarrow> False | Some s \<Rightarrow> s \<in> set cs)"

definition classify_single :: "bool \<Rightarrow> exc \<Rightarrow> classification res" where
  "classify_single message_regex err =
     rbind (error_code err) (\<lambda>ecode. rbind (status_code err) (\<lambda>status.
       let by_type = class_name err \<in> set THROTTLED_CLASS_NAMES
             \<or> code_in ecode THROTTLED_CODES \<or> status = Some 429;
           transient_only = code_in ecode TRANSIENT_ONLY_CODES \<or> status = Some 503;
           thr = (if \<not> by_type \<and> message_regex then message_regex_hit (message err) else by_type)
       in Inr \<lparr>throttled = thr, transient = thr \<or> transient_only\<rparr>))"

text \<open>The loop: \<open>stack\<close> with its top first, the identities seen, the number visited, the
  classification so far.\<close>

definition either :: "classification \<Rightarrow> classification \<Rightarrow> classification" where
  "either a b = \<lparr>throttled = throttled a \<or> throttled b, transient = transient a \<or> transient b\<rparr>"

definition links :: "exc \<Rightarrow> nat list" where
  \<comment> \<open>what is pushed, the last push first\<close>
  "links e = (case context_of e of None \<Rightarrow> [] | Some c \<Rightarrow> [c]) @ (case cause_of e of None \<Rightarrow> [] | Some c \<Rightarrow> [c])"

function classify_loop ::
  "heap \<Rightarrow> bool \<Rightarrow> nat list \<Rightarrow> nat list \<Rightarrow> nat \<Rightarrow> classification \<Rightarrow> classification res" where
  "classify_loop h rx stack seen visited combined =
     (if stack = [] \<or> \<not> visited < MAX_CAUSE_DEPTH then Inr combined
      else let current = hd stack; rest = tl stack in
        if current \<in> set seen then classify_loop h rx rest seen visited combined
        else rbind (classify_single rx (h current)) (\<lambda>single.
          let combined' = either combined single in
          if throttled combined' then Inr combined'
          else classify_loop h rx (links (h current) @ rest) (current # seen) (Suc visited) combined'))"
  by pat_completeness auto
termination
  by (relation "measures [\<lambda>(h, rx, stack, seen, visited, c). MAX_CAUSE_DEPTH - visited,
      \<lambda>(h, rx, stack, seen, visited, c). length stack]") auto

declare classify_loop.simps [simp del]

definition classify_provider_error :: "heap \<Rightarrow> bool \<Rightarrow> nat \<Rightarrow> classification res" where
  "classify_provider_error h message_regex err =
     classify_loop h message_regex [err] [] 0 \<lparr>throttled = False, transient = False\<rparr>"

section \<open>The classifier is exact on short chains\<close>

definition linked :: "heap \<Rightarrow> nat \<Rightarrow> nat \<Rightarrow> bool" where
  "linked h a b \<longleftrightarrow> cause_of (h a) = Some b \<or> context_of (h a) = Some b"

definition chain_of :: "heap \<Rightarrow> nat \<Rightarrow> nat set" where
  "chain_of h e = {b. (linked h)\<^sup>*\<^sup>* e b}"

lemma set_links: "set (links (h a)) = {b. linked h a b}"
  by (auto simp: links_def linked_def split: option.splits)

lemma closed_is_chain:
  assumes "e \<in> S" "\<And>a b. a \<in> S \<Longrightarrow> linked h a b \<Longrightarrow> b \<in> S" "S \<subseteq> chain_of h e"
  shows "S = chain_of h e"
proof -
  have "b \<in> S" if "(linked h)\<^sup>*\<^sup>* e b" for b
    using that by induction (use assms in auto)
  then show ?thesis using assms(3) by (auto simp: chain_of_def)
qed

text \<open>What the loop knows when it is entered, and what it answers for a chain of at most
  eight exceptions that can all be classified by \<open>cl\<close>.\<close>

definition loop_inv :: "heap \<Rightarrow> (nat \<Rightarrow> classification) \<Rightarrow> nat \<Rightarrow> nat list \<Rightarrow> nat list \<Rightarrow> nat \<Rightarrow> classification \<Rightarrow> bool" where
  "loop_inv h cl e stack seen visited c \<longleftrightarrow>
     distinct seen \<and> visited = length seen \<and> set seen \<union> set stack \<subseteq> chain_of h e
     \<and> e \<in> set seen \<union> set stack
     \<and> (\<forall>a\<in>set seen. \<forall>b. linked h a b \<longrightarrow> b \<in> set seen \<union> set stack)
     \<and> \<not> throttled c \<and> (\<forall>a\<in>set seen. \<not> throttled (cl a))
     \<and> (transient c \<longleftrightarrow> (\<exists>a\<in>set seen. transient (cl a)))"

lemma chain_link: "a \<in> chain_of h e \<Longrightarrow> linked h a b \<Longrightarrow> b \<in> chain_of h e"
  by (auto simp: chain_of_def)

lemma single_throttled_transient: "classify_single rx x = Inr c \<Longrightarrow> throttled c \<Longrightarrow> transient c"
  by (auto simp: classify_single_def rbind_Inr_iff Let_def)

lemma classify_loop_exact:
  assumes "\<forall>a\<in>chain_of h e. classify_single rx (h a) = Inr (cl a)"
    and "finite (chain_of h e)" "card (chain_of h e) \<le> MAX_CAUSE_DEPTH"
    and "loop_inv h cl e stack seen visited c"
  shows "classify_loop h rx stack seen visited c =
    Inr \<lparr>throttled = (\<exists>a\<in>chain_of h e. throttled (cl a)), transient = (\<exists>a\<in>chain_of h e. transient (cl a))\<rparr>"
  using assms
proof (induction h rx stack seen visited c rule: classify_loop.induct)
  case (1 h rx stack seen visited c)
  note inv = 1(6) [unfolded loop_inv_def]
  show ?case
  proof (cases "stack = [] \<or> \<not> visited < MAX_CAUSE_DEPTH")
    case True
    have "set seen = chain_of h e"
    proof (cases "stack = []")
      case True
      then show ?thesis using inv by (intro closed_is_chain) auto
    next
      case False
      then have "card (chain_of h e) \<le> card (set seen)"
        using \<open>stack = [] \<or> _\<close> inv 1(5) by (simp add: distinct_card)
      then show ?thesis using inv 1(4) by (intro card_seteq) auto
    qed
    then have "c = \<lparr>throttled = (\<exists>a\<in>chain_of h e. throttled (cl a)), transient = (\<exists>a\<in>chain_of h e. transient (cl a))\<rparr>"
      using inv by auto
    then show ?thesis using True by (simp add: classify_loop.simps)
  next
    case go: False
    define cur where "cur = hd stack"
    have st: "stack = cur # tl stack" using go by (simp add: cur_def)
    show ?thesis
    proof (cases "cur \<in> set seen")
      case True
      have "set stack = insert cur (set (tl stack))" using st by (metis list.simps(15))
      then have "loop_inv h cl e (tl stack) seen visited c"
        using inv True unfolding loop_inv_def by auto
      from 1(1) [OF go refl refl _ 1(3-5) this]
      show ?thesis using True go cur_def by (subst classify_loop.simps) (simp add: Let_def)
    next
      case False
      have ch: "cur \<in> chain_of h e" using inv st by (metis Un_iff list.set_intros(1) subsetD)
      then have s: "classify_single rx (h cur) = Inr (cl cur)" using 1(3) by simp
      show ?thesis
      proof (cases "throttled (cl cur)")
        case True
        then have "transient (cl cur)" using s single_throttled_transient by blast
        then show ?thesis using True go False s ch
          by (subst classify_loop.simps) (auto simp: Let_def cur_def either_def)
      next
        case not_thr: False
        have "set stack = insert cur (set (tl stack))" using st by (metis list.simps(15))
        then have "loop_inv h cl e (links (h cur) @ tl stack) (cur # seen) (Suc visited) (either c (cl cur))"
          using inv False not_thr chain_link [OF ch] ch unfolding loop_inv_def
          by (auto simp: set_links either_def)
        from 1(2) [OF go cur_def refl _ refl _ 1(3-5) this]
        show ?thesis using not_thr go False s inv
          by (subst classify_loop.simps) (simp add: Let_def cur_def either_def)
      qed
    qed
  qed
qed

text \<open>
  C13: The classifier terminates on every heap, cycles included. When the exceptions linked to
  the error by cause and context, in any branching, are at most eight and none has a malformed
  response, the answer is exact: throttled (transient) exactly when one of them is.
\<close>

theorem classify_exact:
  assumes "\<forall>a\<in>chain_of h e. classify_single rx (h a) = Inr (cl a)"
    and "finite (chain_of h e)" "card (chain_of h e) \<le> 8"
  shows "classify_provider_error h rx e =
    Inr \<lparr>throttled = (\<exists>a\<in>chain_of h e. throttled (cl a)), transient = (\<exists>a\<in>chain_of h e. transient (cl a))\<rparr>"
  unfolding classify_provider_error_def
proof (rule classify_loop_exact [OF assms(1,2)])
  show "card (chain_of h e) \<le> MAX_CAUSE_DEPTH" using assms(3) by (simp add: MAX_CAUSE_DEPTH_def)
  show "loop_inv h cl e [e] [] 0 \<lparr>throttled = False, transient = False\<rparr>"
    by (simp add: loop_inv_def chain_of_def)
qed

text \<open>An error whose context is a throttle and whose cause leads back to it.\<close>

definition plain_exc :: exc where
  "plain_exc = \<lparr>class_name = ''AppError'', response_of = NoResponse, message = [], cause_of = Some 1, context_of = Some 2\<rparr>"

definition two_branches :: heap where
  "two_branches a = (if a = 0 then plain_exc
     else if a = 1 then plain_exc\<lparr>cause_of := Some 0, context_of := None\<rparr>
     else plain_exc\<lparr>class_name := ''RateLimitError'', cause_of := None, context_of := None\<rparr>)"

lemma two_branches_chain: "chain_of two_branches 0 = {0, 1, 2}"
  by (rule closed_is_chain [symmetric])
    (auto simp: linked_def two_branches_def plain_exc_def chain_of_def split: if_splits intro!: r_into_rtranclp)

lemma classify_exact_witness:
  "classify_provider_error two_branches False 0 = Inr \<lparr>throttled = True, transient = True\<rparr>"
proof -
  let ?cl = "\<lambda>a. \<lparr>throttled = (a = (2::nat)), transient = (a = 2)\<rparr>"
  have "\<forall>a\<in>chain_of two_branches 0. classify_single False (two_branches a) = Inr (?cl a)"
    by (auto simp: two_branches_chain two_branches_def plain_exc_def classify_single_def error_code_def
        status_code_def code_in_def THROTTLED_CLASS_NAMES_def)
  from classify_exact [OF this] show ?thesis by (simp add: two_branches_chain)
qed

section \<open>Retry\<close>

text \<open>\<open>jitter_s\<close> and \<open>rng\<close>: the random number drawn, used only for a positive jitter.\<close>

definition compute_backoff :: "nat \<Rightarrow> rat \<Rightarrow> rat \<Rightarrow> rat \<Rightarrow> rat \<Rightarrow> rat" where
  "compute_backoff attempt base_s cap_s jitter_s rng =
     (let delay = min cap_s (base_s * 2 ^ attempt)
      in if jitter_s > 0 then delay + rng * jitter_s else delay)"

definition should_retry :: "('e \<Rightarrow> classification res) \<Rightarrow> bool \<Rightarrow> 'e \<Rightarrow> bool res" where
  "should_retry classify retry_throttled err =
     rbind (classify err) (\<lambda>c. Inr (if throttled c then retry_throttled else transient c))"

record retry_opts =
  max_attempts :: int
  base_s :: rat
  cap_s :: rat
  jitter_s :: rat
  deadline_s :: "rat option"
  retry_throttled :: bool

datatype ('e, 'v) outcome = Returned 'v | Raised 'e | Failed pyexn
  \<comment> \<open>\<open>Failed\<close>: an exception of the retry code itself or of the classifier\<close>

definition past_deadline :: "retry_opts \<Rightarrow> rat \<Rightarrow> rat \<Rightarrow> rat \<Rightarrow> bool" where
  "past_deadline opt now start delay =
     (case deadline_s opt of None \<Rightarrow> False | Some d \<Rightarrow> (now - start) + delay > d)"

text \<open>Attempt \<open>k\<close> has the outcome \<open>fn k\<close>; \<open>clk k\<close> and \<open>rng k\<close> are read after it fails. The
  result: what the call ends with, the number of calls of \<open>fn\<close>, the sleeps.\<close>

fun retry_loop ::
  "retry_opts \<Rightarrow> ('e \<Rightarrow> classification res) \<Rightarrow> (nat \<Rightarrow> rat) \<Rightarrow> (nat \<Rightarrow> rat) \<Rightarrow> rat \<Rightarrow>
   (nat \<Rightarrow> 'e + 'v) \<Rightarrow> nat \<Rightarrow> nat \<Rightarrow> ('e, 'v) outcome \<times> nat \<times> rat list" where
  "retry_loop opt clf rng clk start fn 0 attempt = (Failed TypeError, 0, [])"
| "retry_loop opt clf rng clk start fn (Suc n) attempt = (case fn attempt of
     Inr v \<Rightarrow> (Returned v, 1, [])
   | Inl err \<Rightarrow> (case should_retry clf (retry_throttled opt) err of
       Inl x \<Rightarrow> (Failed x, 1, [])
     | Inr again \<Rightarrow>
         if \<not> again then (Raised err, 1, [])
         else if max_attempts opt \<le> int attempt + 1 then (Raised err, 1, [])
         else let delay = compute_backoff attempt (base_s opt) (cap_s opt) (jitter_s opt) (rng attempt) in
           if past_deadline opt (clk attempt) start delay
           then (Raised err, 1, [])
           else (let (r, calls, sleeps) = retry_loop opt clf rng clk start fn n (Suc attempt)
                 in (r, Suc calls, delay # sleeps))))"

definition retry_call ::
  "retry_opts \<Rightarrow> ('e \<Rightarrow> classification res) \<Rightarrow> (nat \<Rightarrow> rat) \<Rightarrow> (nat \<Rightarrow> rat) \<Rightarrow> rat \<Rightarrow>
   (nat \<Rightarrow> 'e + 'v) \<Rightarrow> ('e, 'v) outcome \<times> nat \<times> rat list" where
  "retry_call opt clf rng clk start fn =
     (if max_attempts opt < 1 then (Failed ValueError, 0, [])
      else retry_loop opt clf rng clk start fn (nat (max_attempts opt)) 0)"

text \<open>\<open>retry_call_async\<close> has the same body with awaited calls and sleeps.\<close>

definition retry_call_async ::
  "retry_opts \<Rightarrow> ('e \<Rightarrow> classification res) \<Rightarrow> (nat \<Rightarrow> rat) \<Rightarrow> (nat \<Rightarrow> rat) \<Rightarrow> rat \<Rightarrow>
   (nat \<Rightarrow> 'e + 'v) \<Rightarrow> ('e, 'v) outcome \<times> nat \<times> rat list" where
  "retry_call_async opt clf rng clk start fn =
     (if max_attempts opt < 1 then (Failed ValueError, 0, [])
      else retry_loop opt clf rng clk start fn (nat (max_attempts opt)) 0)"

text \<open>One run of the loop with \<open>n\<close> attempts left: each failure but the last was retryable and
  its sleep is the backoff of its number and fits the deadline.\<close>

definition sleep_ok :: "retry_opts \<Rightarrow> (nat \<Rightarrow> rat) \<Rightarrow> (nat \<Rightarrow> rat) \<Rightarrow> rat \<Rightarrow> nat \<Rightarrow> rat \<Rightarrow> bool" where
  "sleep_ok opt rng clk start k s \<longleftrightarrow>
     s = compute_backoff k (base_s opt) (cap_s opt) (jitter_s opt) (rng k)
     \<and> (\<forall>d. deadline_s opt = Some d \<longrightarrow> (clk k - start) + s \<le> d)"

definition retry_ok where
  "retry_ok opt clf rng clk start fn attempt r calls sleeps \<longleftrightarrow>
     calls = length sleeps + 1
     \<and> (\<forall>i < length sleeps. sleep_ok opt rng clk start (attempt + i) (sleeps ! i)
          \<and> (\<exists>e. fn (attempt + i) = Inl e \<and> should_retry clf (retry_throttled opt) e = Inr True))
     \<and> (case r of
          Returned v \<Rightarrow> fn (attempt + length sleeps) = Inr v
        | Raised e \<Rightarrow> fn (attempt + length sleeps) = Inl e
        | Failed x \<Rightarrow> (\<exists>e. fn (attempt + length sleeps) = Inl e \<and> clf e = Inl x))"

lemma retry_ok_last:
  assumes "case r of Returned v \<Rightarrow> fn attempt = Inr v | Raised e \<Rightarrow> fn attempt = Inl e
    | Failed x \<Rightarrow> (\<exists>e. fn attempt = Inl e \<and> clf e = Inl x)"
  shows "retry_ok opt clf rng clk start fn attempt r (Suc 0) []"
  using assms by (cases r) (simp_all add: retry_ok_def)

lemma retry_ok_step:
  assumes "retry_ok opt clf rng clk start fn (Suc attempt) r calls sleeps"
    and "fn attempt = Inl e" "should_retry clf (retry_throttled opt) e = Inr True"
    and "sleep_ok opt rng clk start attempt s"
  shows "retry_ok opt clf rng clk start fn attempt r (Suc calls) (s # sleeps)"
  using assms unfolding retry_ok_def
  by (auto simp: less_Suc_eq_0_disj nth_Cons split: nat.splits outcome.splits)

lemma retry_loop_ok:
  assumes "0 < n" "int attempt + int n = max_attempts opt"
    and "retry_loop opt clf rng clk start fn n attempt = (r, calls, sleeps)"
  shows "retry_ok opt clf rng clk start fn attempt r calls sleeps \<and> calls \<le> n"
  using assms
proof (induction opt clf rng clk start fn n attempt arbitrary: r calls sleeps rule: retry_loop.induct)
  case (2 opt clf rng clk start fn n attempt)
  show ?case
  proof (cases "fn attempt")
    case (Inr v)
    then show ?thesis using 2(4) by (auto intro!: retry_ok_last)
  next
    case (Inl err)
    show ?thesis
    proof (cases "should_retry clf (retry_throttled opt) err")
      case x: (Inl x)
      then have "clf err = Inl x" by (auto simp: should_retry_def rbind_Inl_iff)
      then show ?thesis using 2(4) Inl x by (auto intro!: retry_ok_last)
    next
      case again: (Inr again)
      define delay where "delay = compute_backoff attempt (base_s opt) (cap_s opt) (jitter_s opt) (rng attempt)"
      let ?late = "past_deadline opt (clk attempt) start delay"
      show ?thesis
      proof (cases "\<not> again \<or> max_attempts opt \<le> int attempt + 1 \<or> ?late")
        case True
        then have "r = Raised err" "calls = 1" "sleeps = []"
          using 2(4) Inl again by (auto simp: delay_def [symmetric] Let_def split: if_splits)
        then show ?thesis using Inl by (auto intro!: retry_ok_last)
      next
        case False
        obtain r' calls' sleeps' where rec: "retry_loop opt clf rng clk start fn n (Suc attempt) = (r', calls', sleeps')"
          by (cases "retry_loop opt clf rng clk start fn n (Suc attempt)")
        have res: "r = r'" "calls = Suc calls'" "sleeps = delay # sleeps'"
          using 2(4) Inl again False rec by (auto simp: delay_def [symmetric] Let_def split: if_splits)
        have "0 < n" "int (Suc attempt) + int n = max_attempts opt" using False 2(3) by auto
        then have "retry_ok opt clf rng clk start fn (Suc attempt) r' calls' sleeps' \<and> calls' \<le> n"
          using 2(1) [OF Inl again _ _ delay_def _ _ _ rec] False by auto
        moreover have "sleep_ok opt rng clk start attempt delay"
          using False by (auto simp: sleep_ok_def delay_def past_deadline_def)
        ultimately show ?thesis using retry_ok_step again Inl False res by fastforce
      qed
    qed
  qed
qed simp

lemma compute_backoff_bounds:
  assumes "0 \<le> base_s opt" "0 \<le> cap_s opt" "0 \<le> u" "u \<le> 1"
  shows "0 \<le> compute_backoff k (base_s opt) (cap_s opt) (jitter_s opt) u"
    "compute_backoff k (base_s opt) (cap_s opt) (jitter_s opt) u \<le> cap_s opt + max 0 (jitter_s opt)"
proof -
  define d where "d = min (cap_s opt) (base_s opt * 2 ^ k)"
  define j where "j = u * jitter_s opt"
  have d: "0 \<le> d" "d \<le> cap_s opt" using assms by (simp_all add: d_def)
  have j: "0 \<le> j \<and> j \<le> jitter_s opt" if "0 < jitter_s opt"
    unfolding j_def using assms(3,4) that by (simp add: mult_left_le_one_le)
  have eq: "compute_backoff k (base_s opt) (cap_s opt) (jitter_s opt) u = (if 0 < jitter_s opt then d + j else d)"
    by (simp add: compute_backoff_def d_def j_def Let_def)
  show "0 \<le> compute_backoff k (base_s opt) (cap_s opt) (jitter_s opt) u"
    "compute_backoff k (base_s opt) (cap_s opt) (jitter_s opt) u \<le> cap_s opt + max 0 (jitter_s opt)"
    unfolding eq using d j by (auto simp: max_def)
qed

text \<open>
  C14: With at least one attempt allowed, non-negative base and cap and random numbers in the
  unit interval, \<open>retry_call\<close> ends after between one and \<open>max_attempts\<close> calls with what the
  last call did; there is one sleep between two calls, each the backoff of its attempt, between
  zero and the cap plus the jitter, and never one that would pass the deadline; every call
  before the last failed with an error worth retrying.
\<close>

theorem retry_bounded:
  assumes "retry_call opt clf rng clk start fn = (r, calls, sleeps)" "1 \<le> max_attempts opt"
    and "0 \<le> base_s opt" "0 \<le> cap_s opt" "\<And>k. 0 \<le> rng k \<and> rng k \<le> 1"
  shows "1 \<le> calls \<and> int calls \<le> max_attempts opt \<and> retry_ok opt clf rng clk start fn 0 r calls sleeps
    \<and> (\<forall>s\<in>set sleeps. 0 \<le> s \<and> s \<le> cap_s opt + max 0 (jitter_s opt))"
proof -
  have run: "retry_loop opt clf rng clk start fn (nat (max_attempts opt)) 0 = (r, calls, sleeps)"
    using assms(1,2) by (simp add: retry_call_def)
  have ok: "retry_ok opt clf rng clk start fn 0 r calls sleeps" "calls \<le> nat (max_attempts opt)"
    using retry_loop_ok [OF _ _ run] assms(2) by auto
  have "0 \<le> s \<and> s \<le> cap_s opt + max 0 (jitter_s opt)" if "s \<in> set sleeps" for s
  proof -
    obtain k where k: "k < length sleeps" "s = sleeps ! k" using \<open>s \<in> set sleeps\<close> by (auto simp: in_set_conv_nth)
    have "sleep_ok opt rng clk start (0 + k) (sleeps ! k)"
      using ok(1) k(1) unfolding retry_ok_def by blast
    then have "s = compute_backoff k (base_s opt) (cap_s opt) (jitter_s opt) (rng k)"
      using k(2) unfolding sleep_ok_def by simp
    then show ?thesis using compute_backoff_bounds [OF assms(3,4)] assms(5) by blast
  qed
  then show ?thesis using ok assms(2) by (auto simp: retry_ok_def)
qed

definition three_tries :: retry_opts where
  "three_tries = \<lparr>max_attempts = 3, base_s = 1 / 2, cap_s = 30, jitter_s = 1 / 2, deadline_s = Some 10, retry_throttled = True\<rparr>"

definition always_transient :: "nat \<Rightarrow> classification res" where
  "always_transient e = Inr \<lparr>throttled = False, transient = True\<rparr>"

lemma retry_bounded_witness:
  "\<exists>sleeps. retry_call three_tries always_transient (\<lambda>_. 1) (\<lambda>_. 0) 0 (\<lambda>k. Inl k :: nat + unit) = (Raised 2, 3, sleeps)
     \<and> (\<forall>s\<in>set sleeps. 0 \<le> s \<and> s \<le> 61 / 2)"
proof -
  have run: "retry_call three_tries always_transient (\<lambda>_. 1) (\<lambda>_. 0) 0 (\<lambda>k. Inl k :: nat + unit) = (Raised 2, 3, [1, 3 / 2])"
    by (simp add: retry_call_def three_tries_def should_retry_def always_transient_def compute_backoff_def
        past_deadline_def Let_def numeral_3_eq_3)
  show ?thesis using retry_bounded [OF run] run by (auto simp: three_tries_def)
qed

lemma retry_loop_reaches:
  assumes "fn (attempt + k) = Inr v" "k < n" "deadline_s opt = None"
    and "\<forall>i<k. \<exists>e. fn (attempt + i) = Inl e \<and> should_retry clf (retry_throttled opt) e = Inr True"
    and "int attempt + int n = max_attempts opt"
  shows "\<exists>sleeps. retry_loop opt clf rng clk start fn n attempt = (Returned v, Suc k, sleeps)"
  using assms
proof (induction k arbitrary: attempt n)
  case 0
  then show ?case by (cases n) auto
next
  case (Suc k)
  obtain m where n: "n = Suc m" using Suc(3) by (cases n) auto
  obtain e where e: "fn attempt = Inl e" "should_retry clf (retry_throttled opt) e = Inr True"
    using Suc(5) by force
  have "\<exists>sleeps. retry_loop opt clf rng clk start fn m (Suc attempt) = (Returned v, Suc k, sleeps)"
    using Suc(1) [of "Suc attempt" m] Suc(2-6) n by force
  then show ?case using e Suc(3,4,6) n by (auto simp: Let_def past_deadline_def)
qed

text \<open>
  Without a deadline, a call that succeeds within \<open>max_attempts\<close> after failures that are
  all worth retrying is reached: its value is returned.
\<close>

theorem retry_reaches_success:
  assumes "fn k = Inr v" "int k < max_attempts opt" "deadline_s opt = None"
    and "\<forall>i<k. \<exists>e. fn i = Inl e \<and> should_retry clf (retry_throttled opt) e = Inr True"
  shows "\<exists>sleeps. retry_call opt clf rng clk start fn = (Returned v, Suc k, sleeps)"
  using retry_loop_reaches [of fn 0 k v "nat (max_attempts opt)" opt clf] assms by (simp add: retry_call_def)

lemma retry_reaches_success_witness:
  "\<exists>sleeps. retry_call (three_tries\<lparr>deadline_s := None\<rparr>) always_transient (\<lambda>_. 1) (\<lambda>_. 0) 0
     (\<lambda>k. if k < 2 then Inl k else Inr ''done'') = (Returned ''done'', 3, sleeps)"
  using retry_reaches_success [of "\<lambda>k. if k < 2 then Inl k else Inr ''done''" 2 "''done''"
      "three_tries\<lparr>deadline_s := None\<rparr>" always_transient]
  by (simp add: three_tries_def should_retry_def always_transient_def)

end
