(* ===== verification/Gateway.thy ===== *)
theory Gateway
  imports Quota Throttle
begin

text \<open>
  \<open>controls/gateway.py\<close>: one gated invocation. The quota store is given by its operations on a
  state; the answer of the entitlements hook, what the wrapped call does and the readings of
  the clock are arguments; exceptions live in the heap of \<open>Throttle\<close>. An invocation returns
  what it ends with, whether the wrapped call called, the outcome events and exported records,
  and the state of the store. The results: the call never runs without a debit (or the
  explicit policy to do without), and after a throttle no call of that bucket runs until the
  cooldown is over.
\<close>

section \<open>Outcomes and configuration\<close>

record gw_outcome =
  o_ok :: bool
  o_value :: pyval
  o_reason :: "string option"
  o_tokens :: "int option"
  o_cooldown_until :: "datetime option"
  o_cause :: "nat option"

record gateway_config =
  buckets :: "(string, pydict) dict"
  has_entitlements :: bool
  cooldown_seconds :: pyfloat
  has_exporter :: bool
  has_callback :: bool
  event_names :: "(string, string) dict"
  port_error_policy :: string
  message_regex_throttle :: bool

definition PORT_ERROR_POLICIES :: "string list" where
  "PORT_ERROR_POLICIES = [''propagate'', ''allow'', ''deny'']"

definition DEFAULT_EVENT_NAMES :: "(string, string) dict" where
  "DEFAULT_EVENT_NAMES = [(''ok'', ''gateway_ok''), (''hard_capped'', ''gateway_hard_capped''),
     (''quota_exhausted'', ''gateway_quota_exhausted''), (''throttled'', ''gateway_throttled''),
     (''internal'', ''gateway_internal_error'')]"

definition check_config :: "gateway_config \<Rightarrow> gateway_config res" where
  "check_config cfg = (if port_error_policy cfg \<notin> set PORT_ERROR_POLICIES then Inl ValueError else Inr cfg)"

text \<open>\<open>Gateway(config)\<close>: the event names in force; a missing store raises.\<close>

definition make_gateway :: "bool \<Rightarrow> gateway_config \<Rightarrow> (string, string) dict res" where
  "make_gateway has_store cfg =
     (if \<not> has_store then Inl ValueError else Inr (dmerge DEFAULT_EVENT_NAMES (event_names cfg)))"

section \<open>Ports, the wrapped call, and what an invocation leaves behind\<close>

text \<open>Port results are an exception of the heap or a value. The wrapped call returns, raises an
  \<open>Exception\<close> (a timeout of the deadline included), or raises one of the exceptions that always
  propagate.\<close>

datatype fn_result = FnValue pyval | FnError nat | FnFatal nat

record 's quota_port =
  port_acquire :: "string \<Rightarrow> string \<Rightarrow> pydict \<Rightarrow> 's \<Rightarrow> (nat + quota_decision) \<times> 's"
  port_mark :: "string \<Rightarrow> string \<Rightarrow> pyfloat \<Rightarrow> 's \<Rightarrow> (nat + unit) \<times> 's"

record gw_call =
  c_tenant :: string
  c_bucket :: string
  c_entitlements :: "nat + pyval"
  c_fn :: fn_result
  c_fn_name :: string
  c_heap :: heap
  c_started :: datetime
  c_throttled_at :: datetime
  c_ended :: datetime
  c_uuid :: string

datatype gw_end = Done gw_outcome | Error nat | Fatal nat | CodeError pyexn

record 's invocation =
  inv_end :: gw_end
  inv_ran :: bool
  inv_events :: "(string \<times> pydict) list"
  inv_records :: "pydict list"
  inv_store :: 's

section \<open>Reporting\<close>

definition outcome_key :: "gw_outcome \<Rightarrow> string" where
  "outcome_key out = (if o_ok out then ''ok'' else if str_truthy (o_reason out) then the (o_reason out) else ''internal'')"

definition opt_int :: "int option \<Rightarrow> pyval" where
  "opt_int i = (case i of None \<Rightarrow> PNone | Some n \<Rightarrow> PInt n)"

definition opt_iso :: "datetime option \<Rightarrow> pyval" where
  "opt_iso d = (case d of None \<Rightarrow> PNone | Some t \<Rightarrow> PStr (isoformat t))"

definition outcome_event :: "gateway_config \<Rightarrow> (string, string) dict \<Rightarrow> gw_outcome \<Rightarrow> gw_call \<Rightarrow> (string \<times> pydict) list" where
  \<comment> \<open>an exception of the callback is swallowed\<close>
  "outcome_event cfg events out c =
     (if \<not> has_callback cfg then []
      else let key = outcome_key out in
        [(dget_or events key key,
          [(''tenant_id'', PStr (c_tenant c)), (''bucket'', PStr (c_bucket c)), (''outcome'', PStr key),
           (''tokens_remaining'', opt_int (o_tokens out)), (''cooldown_until'', opt_iso (o_cooldown_until out))])])"

definition export_record :: "gateway_config \<Rightarrow> gw_outcome \<Rightarrow> gw_call \<Rightarrow> pydict list" where
  "export_record cfg out c =
     (if \<not> has_exporter cfg then []
      else [[(''decision_id'', PStr (c_uuid c)),
             (''decision_type'', PStr (''controls.gateway.'' @ c_bucket c)),
             (''function_name'', PStr (c_fn_name c)),
             (''inputs'', PDict [(''briefcase.controls.gateway.tenant_id'', PStr (c_tenant c)),
                (''briefcase.controls.gateway.bucket'', PStr (c_bucket c))]),
             (''outputs'', PDict [(''briefcase.controls.gateway.outcome'', PStr (outcome_key out)),
                (''briefcase.controls.quota.tokens_remaining'', opt_int (o_tokens out)),
                (''briefcase.controls.quota.cooldown_until'', opt_iso (o_cooldown_until out))]),
             (''started_at'', PStr (isoformat (c_started c))),
             (''ended_at'', PStr (isoformat (c_ended c))),
             (''execution_time_ms'', PFloat (Fin (of_int (instant (c_ended c) - instant (c_started c)) / 1000)))]
            @ (case o_cause out of
                 Some e \<Rightarrow> if o_ok out then [] else [(''error'', PStr (class_name (c_heap c e)))]
               | None \<Rightarrow> [])])"

definition finish ::
  "gateway_config \<Rightarrow> (string, string) dict \<Rightarrow> gw_call \<Rightarrow> gw_outcome \<Rightarrow> gw_end \<Rightarrow> bool \<Rightarrow> 's \<Rightarrow> 's invocation" where
  "finish cfg events c out how called st =
     \<lparr>inv_end = how, inv_ran = called, inv_events = outcome_event cfg events out c,
      inv_records = export_record cfg out c, inv_store = st\<rparr>"

definition silent :: "gw_end \<Rightarrow> bool \<Rightarrow> 's \<Rightarrow> 's invocation" where
  "silent how called st = \<lparr>inv_end = how, inv_ran = called, inv_events = [], inv_records = [], inv_store = st\<rparr>"

section \<open>Ports under the error policy\<close>

definition hard_capped :: "gateway_config \<Rightarrow> nat + pyval \<Rightarrow> nat + bool" where
  "hard_capped cfg hook =
     (if \<not> has_entitlements cfg then Inr False
      else case hook of
        Inr v \<Rightarrow> Inr (py_truthy v)
      | Inl e \<Rightarrow> if port_error_policy cfg = ''propagate'' then Inl e
                 else Inr (port_error_policy cfg = ''deny''))"

definition gw_acquire ::
  "gateway_config \<Rightarrow> 's quota_port \<Rightarrow> string \<Rightarrow> string \<Rightarrow> pydict \<Rightarrow> 's \<Rightarrow> (nat + quota_decision) \<times> 's" where
  "gw_acquire cfg port tenant_id bucket policy st =
     (let (r, st') = port_acquire port tenant_id bucket policy st in
      (case r of
         Inr d \<Rightarrow> Inr d
       | Inl e \<Rightarrow> if port_error_policy cfg = ''propagate'' then Inl e
          else if port_error_policy cfg = ''deny''
               then Inr \<lparr>allowed = False, tokens_remaining = Some 0, cooldown_until = None\<rparr>
               else Inr \<lparr>allowed = True, tokens_remaining = None, cooldown_until = None\<rparr>, st'))"

text \<open>\<open>cfg.clock() + timedelta(seconds=s)\<close>.\<close>

definition add_seconds :: "datetime \<Rightarrow> pyfloat \<Rightarrow> datetime res" where
  "add_seconds d s = (case s of
     Fin r \<Rightarrow> (let w = dt_wall d + half_even (r * 1000000) in
       if 0 \<le> w \<and> w < 3652059 * us_per_day then Inr (d\<lparr>dt_wall := w\<rparr>) else Inl (RaisedBy ''OverflowError''))
   | NaN \<Rightarrow> Inl ValueError
   | _ \<Rightarrow> Inl (RaisedBy ''OverflowError''))"

section \<open>The invocation\<close>

definition failed_outcome :: "string \<Rightarrow> int option \<Rightarrow> datetime option \<Rightarrow> nat option \<Rightarrow> gw_outcome" where
  "failed_outcome why tokens until cause =
     \<lparr>o_ok = False, o_value = PNone, o_reason = Some why, o_tokens = tokens, o_cooldown_until = until, o_cause = cause\<rparr>"

text \<open>After the call raised \<open>err\<close>: classify, and on a throttle mark the cooldown.\<close>

definition on_error ::
  "gateway_config \<Rightarrow> 's quota_port \<Rightarrow> (string, string) dict \<Rightarrow> gw_call \<Rightarrow> nat \<Rightarrow> 's \<Rightarrow> 's invocation" where
  "on_error cfg port events c err st =
     (case classify_provider_error (c_heap c) (message_regex_throttle cfg) err of
        Inl x \<Rightarrow> silent (CodeError x) True st
      | Inr cls \<Rightarrow>
          if throttled cls then
            (let (r, st') = port_mark port (c_tenant c) (c_bucket c) (cooldown_seconds cfg) st in
             case (case r of Inr _ \<Rightarrow> rbind (add_seconds (c_throttled_at c) (cooldown_seconds cfg)) (\<lambda>d. Inr (Some d))
                   | Inl _ \<Rightarrow> Inr None) of
               Inl x \<Rightarrow> silent (CodeError x) True st'
             | Inr until \<Rightarrow>
                 (let out = failed_outcome ''throttled'' (Some 0) until (Some err)
                  in finish cfg events c out (Done out) True st'))
          else (let out = failed_outcome ''internal'' None None (Some err)
                in finish cfg events c out (Done out) True st))"

definition invoke ::
  "gateway_config \<Rightarrow> 's quota_port \<Rightarrow> (string, string) dict \<Rightarrow> gw_call \<Rightarrow> 's \<Rightarrow> 's invocation" where
  "invoke cfg port events c st = (case dget (buckets cfg) (c_bucket c) of
     None \<Rightarrow> silent (CodeError ValueError) False st
   | Some policy \<Rightarrow> (case hard_capped cfg (c_entitlements c) of
       Inl e \<Rightarrow> finish cfg events c (failed_outcome ''internal'' None None (Some e)) (Error e) False st
     | Inr True \<Rightarrow>
         (let out = failed_outcome ''hard_capped'' (Some 0) None None
          in finish cfg events c out (Done out) False st)
     | Inr False \<Rightarrow>
         (let (r, st1) = gw_acquire cfg port (c_tenant c) (c_bucket c) policy st in
          case r of
            Inl e \<Rightarrow> finish cfg events c (failed_outcome ''internal'' None None (Some e)) (Error e) False st1
          | Inr decision \<Rightarrow>
              if \<not> allowed decision then
                (let out = failed_outcome ''quota_exhausted'' (tokens_remaining decision) (cooldown_until decision) None
                 in finish cfg events c out (Done out) False st1)
              else (case c_fn c of
                  FnValue v \<Rightarrow>
                    (let out = \<lparr>o_ok = True, o_value = v, o_reason = None, o_tokens = tokens_remaining decision,
                           o_cooldown_until = None, o_cause = None\<rparr>
                     in finish cfg events c out (Done out) True st1)
                | FnFatal e \<Rightarrow> silent (Fatal e) True st1
                | FnError err \<Rightarrow> on_error cfg port events c err st1))))"

section \<open>What an invocation can do\<close>

text \<open>An invocation that called the call was let through by the hook and by the store.\<close>

definition let_through :: "gateway_config \<Rightarrow> 's quota_port \<Rightarrow> gw_call \<Rightarrow> 's \<Rightarrow> bool" where
  "let_through cfg port c st \<longleftrightarrow> (\<exists>policy. dget (buckets cfg) (c_bucket c) = Some policy
     \<and> (\<not> has_entitlements cfg \<or> (\<exists>v. c_entitlements c = Inr v \<and> \<not> py_truthy v)
          \<or> (\<exists>e. c_entitlements c = Inl e) \<and> port_error_policy cfg \<noteq> ''propagate'' \<and> port_error_policy cfg \<noteq> ''deny'')
     \<and> (case fst (port_acquire port (c_tenant c) (c_bucket c) policy st) of
          Inr d \<Rightarrow> allowed d
        | Inl e \<Rightarrow> port_error_policy cfg \<noteq> ''propagate'' \<and> port_error_policy cfg \<noteq> ''deny''))"

lemma gw_acquire_allowed:
  assumes "gw_acquire cfg port tn b pol st = (Inr d, st')" "allowed d"
  shows "case fst (port_acquire port tn b pol st) of Inr d' \<Rightarrow> allowed d'
    | Inl e \<Rightarrow> port_error_policy cfg \<noteq> ''propagate'' \<and> port_error_policy cfg \<noteq> ''deny''"
  using assms by (auto simp: gw_acquire_def split: prod.splits sum.splits if_splits)

lemma hard_capped_open:
  "hard_capped cfg hook = Inr False \<Longrightarrow> \<not> has_entitlements cfg \<or> (\<exists>v. hook = Inr v \<and> \<not> py_truthy v)
     \<or> (\<exists>e. hook = Inl e) \<and> port_error_policy cfg \<noteq> ''propagate'' \<and> port_error_policy cfg \<noteq> ''deny''"
  by (auto simp: hard_capped_def split: sum.splits if_splits)

lemma finish_simps [simp]:
  "inv_end (finish cfg events c out how called st) = how" "inv_ran (finish cfg events c out how called st) = called"
  "inv_store (finish cfg events c out how called st) = st"
  "inv_events (finish cfg events c out how called st) = outcome_event cfg events out c"
  "inv_records (finish cfg events c out how called st) = export_record cfg out c"
  by (simp_all add: finish_def)

lemma silent_simps [simp]:
  "inv_end (silent how called st) = how" "inv_ran (silent how called st) = called" "inv_store (silent how called st) = st"
  "inv_events (silent how called st) = []" "inv_records (silent how called st) = []"
  by (simp_all add: silent_def)

lemma on_error_ran: "inv_ran (on_error cfg port events c err st)"
  by (auto simp: on_error_def Let_def split: sum.splits prod.splits)

lemma invoke_ran_let_through:
  assumes "inv_ran (invoke cfg port events c st)"
  shows "let_through cfg port c st"
proof -
  obtain policy where pol: "dget (buckets cfg) (c_bucket c) = Some policy"
    using assms by (auto simp: invoke_def split: option.splits)
  have hc: "hard_capped cfg (c_entitlements c) = Inr False"
    using assms pol by (auto simp: invoke_def Let_def split: sum.splits bool.splits)
  obtain r st1 where r: "gw_acquire cfg port (c_tenant c) (c_bucket c) policy st = (r, st1)"
    by (cases "gw_acquire cfg port (c_tenant c) (c_bucket c) policy st")
  obtain d where d: "r = Inr d" "allowed d"
    using assms pol hc r by (auto simp: invoke_def Let_def split: sum.splits if_splits)
  have "gw_acquire cfg port (c_tenant c) (c_bucket c) policy st = (Inr d, st1)" using r d(1) by simp
  from gw_acquire_allowed [OF this d(2)] show ?thesis
    using pol hard_capped_open [OF hc] unfolding let_through_def by (intro exI conjI)
qed

lemma finish_fn [simp]:
  "finish cfg events (c\<lparr>c_fn := f\<rparr>) out how called st = finish cfg events c out how called st"
  by (cases "o_cause out") (simp_all add: finish_def outcome_event_def export_record_def)

text \<open>
  C15: The wrapped call runs only when the bucket is configured, the hook did not cap the
  tenant and the store granted the call; a port that failed counts as consent only under the
  policy \<open>allow\<close>. A call that does not run has no influence on what the invocation returns,
  reports or stores.
\<close>

theorem gateway_call_needs_debit:
  "(inv_ran (invoke cfg port events c st) \<longrightarrow> let_through cfg port c st)
   \<and> (\<not> inv_ran (invoke cfg port events c st) \<longrightarrow>
        (\<forall>f. invoke cfg port events (c\<lparr>c_fn := f\<rparr>) st = invoke cfg port events c st))"
proof -
  have "invoke cfg port events (c\<lparr>c_fn := f\<rparr>) st = invoke cfg port events c st"
    if no: "\<not> inv_ran (invoke cfg port events c st)" for f
  proof (cases "dget (buckets cfg) (c_bucket c)")
    case (Some policy)
    show ?thesis
    proof (cases "hard_capped cfg (c_entitlements c)")
      case (Inr capped)
      obtain r st1 where r: "gw_acquire cfg port (c_tenant c) (c_bucket c) policy st = (r, st1)"
        by (cases "gw_acquire cfg port (c_tenant c) (c_bucket c) policy st")
      show ?thesis using no Some Inr r on_error_ran [of cfg port events c]
        by (auto simp: invoke_def Let_def split: sum.splits bool.splits fn_result.splits if_splits)
    qed (use Some in \<open>simp add: invoke_def\<close>)
  qed (simp add: invoke_def)
  then show ?thesis using invoke_ran_let_through [of cfg port events c st] by auto
qed

text \<open>
  What is reported: an invocation that returns an outcome, or re-raises a port error, is
  reported once to the callback and once to the exporter where these are configured, under the
  key of that outcome (\<open>internal\<close> for the port error); one that raises an unknown-bucket error,
  lets a fatal exception through, or fails inside its own error handling reports nothing.
\<close>

theorem gateway_reports_once:
  "case inv_end (invoke cfg port events c st) of
     Done out \<Rightarrow> inv_events (invoke cfg port events c st) = outcome_event cfg events out c
       \<and> inv_records (invoke cfg port events c st) = export_record cfg out c
       \<and> (o_ok out \<longleftrightarrow> inv_ran (invoke cfg port events c st) \<and> c_fn c = FnValue (o_value out))
   | Error e \<Rightarrow> inv_events (invoke cfg port events c st)
         = outcome_event cfg events (failed_outcome ''internal'' None None (Some e)) c
       \<and> \<not> inv_ran (invoke cfg port events c st)
   | _ \<Rightarrow> inv_events (invoke cfg port events c st) = [] \<and> inv_records (invoke cfg port events c st) = []"
proof (cases "dget (buckets cfg) (c_bucket c)")
  case (Some policy)
  show ?thesis
  proof (cases "hard_capped cfg (c_entitlements c)")
    case (Inr capped)
    obtain r st1 where r: "gw_acquire cfg port (c_tenant c) (c_bucket c) policy st = (r, st1)"
      by (cases "gw_acquire cfg port (c_tenant c) (c_bucket c) policy st")
    show ?thesis using Some Inr r
      by (auto simp: invoke_def on_error_def failed_outcome_def Let_def split: sum.splits bool.splits fn_result.splits prod.splits)
  qed (use Some in \<open>simp add: invoke_def\<close>)
qed (simp add: invoke_def)

section \<open>The gateway over a quota store\<close>

text \<open>A store behind the port, with the clock readings of the two operations.\<close>

definition timed_port ::
  "(string \<Rightarrow> string \<Rightarrow> pydict \<Rightarrow> rat \<Rightarrow> 's \<Rightarrow> quota_decision \<times> 's) \<Rightarrow>
   (string \<Rightarrow> string \<Rightarrow> pyfloat \<Rightarrow> rat \<Rightarrow> 's \<Rightarrow> 's) \<Rightarrow> rat \<Rightarrow> rat \<Rightarrow> 's quota_port" where
  "timed_port acq mrk ta tm =
     \<lparr>port_acquire = \<lambda>tn b pol st. (let (d, st') = acq tn b pol ta st in (Inr d, st')),
      port_mark = \<lambda>tn b s st. (Inr (), mrk tn b s tm st)\<rparr>"

fun gw_run ::
  "gateway_config \<Rightarrow> (rat \<Rightarrow> rat \<Rightarrow> 's quota_port) \<Rightarrow> (string, string) dict \<Rightarrow> (gw_call \<times> rat \<times> rat) list \<Rightarrow> 's \<Rightarrow>
   (gw_call \<times> 's invocation) list" where
  "gw_run cfg port events [] st = []"
| "gw_run cfg port events ((c, ta, tm) # xs) st =
     (let r = invoke cfg (port ta tm) events c st in (c, r) # gw_run cfg port events xs (inv_store r))"

lemma invoke_store:
  "inv_store (invoke cfg (timed_port acq mrk ta tm) events c st) = st
   \<or> (\<exists>pol. dget (buckets cfg) (c_bucket c) = Some pol
        \<and> (inv_store (invoke cfg (timed_port acq mrk ta tm) events c st) = snd (acq (c_tenant c) (c_bucket c) pol ta st)
           \<or> allowed (fst (acq (c_tenant c) (c_bucket c) pol ta st))
             \<and> inv_store (invoke cfg (timed_port acq mrk ta tm) events c st)
                 = mrk (c_tenant c) (c_bucket c) (cooldown_seconds cfg) tm (snd (acq (c_tenant c) (c_bucket c) pol ta st))))"
proof (cases "dget (buckets cfg) (c_bucket c)")
  case (Some pol)
  show ?thesis
  proof (cases "hard_capped cfg (c_entitlements c) = Inr False")
    case True
    obtain d st1 where a: "acq (c_tenant c) (c_bucket c) pol ta st = (d, st1)"
      by (cases "acq (c_tenant c) (c_bucket c) pol ta st")
    show ?thesis using Some True a
      by (cases "c_fn c") (auto simp: invoke_def gw_acquire_def timed_port_def on_error_def Let_def
          split: sum.splits prod.splits)
  next
    case False
    then show ?thesis using Some
      by (auto simp: invoke_def Let_def split: sum.splits bool.splits)
  qed
qed (simp add: invoke_def)

context quota_store begin

lemma invoke_keeps_deadline:
  assumes "deadline st k = Some cd" "ta < cd" "representable (Fin cd)"
    and "\<And>pol. dget (buckets cfg) (snd k) = Some pol \<Longrightarrow> valid pol"
  shows "deadline (inv_store (invoke cfg (timed_port acquire mark ta tm) events c st)) k = Some cd"
    and "(c_tenant c, c_bucket c) = k \<Longrightarrow> \<not> inv_ran (invoke cfg (timed_port acquire mark ta tm) events c st)"
proof -
  have deny: "\<not> allowed (fst (acquire (c_tenant c) (c_bucket c) pol ta st))"
    if "(c_tenant c, c_bucket c) = k" "dget (buckets cfg) (c_bucket c) = Some pol" for pol
    using acquire_denies [of pol st "c_tenant c" "c_bucket c"] that assms by auto
  show "\<not> inv_ran (invoke cfg (timed_port acquire mark ta tm) events c st)" if k: "(c_tenant c, c_bucket c) = k"
  proof
    assume "inv_ran (invoke cfg (timed_port acquire mark ta tm) events c st)"
    from invoke_ran_let_through [OF this] deny [OF k] show False
      by (auto simp: let_through_def timed_port_def case_prod_beta)
  qed
  have keep: "deadline (snd (acquire tn b pol ta st)) k = Some cd" for tn b pol
    by (rule acquire_keeps [OF assms(1,2)])
  show "deadline (inv_store (invoke cfg (timed_port acquire mark ta tm) events c st)) k = Some cd"
    using invoke_store [of cfg acquire mark ta tm events c st] assms(1) keep deny mark_other
    by metis
qed

lemma gw_run_blocked:
  assumes "deadline st k = Some cd" "representable (Fin cd)" "\<forall>x\<in>set xs. fst (snd x) < cd"
    and "\<And>pol. dget (buckets cfg) (snd k) = Some pol \<Longrightarrow> valid pol"
    and "(c, r) \<in> set (gw_run cfg (timed_port acquire mark) events xs st)" "(c_tenant c, c_bucket c) = k"
  shows "\<not> inv_ran r"
  using assms(1,3,5)
proof (induction xs arbitrary: st)
  case (Cons x xs)
  obtain c' ta tm where x: "x = (c', ta, tm)" by (cases x)
  note here = invoke_keeps_deadline [where ta = ta and cfg = cfg, OF Cons(2) _ assms(2,4)]
  show ?case
    using Cons(1) [OF here(1) [of tm events c']] here(2) [of c' tm events] Cons(3,4) x assms(6) by (auto simp: Let_def)
qed simp

end

section \<open>Over the fixed-window store\<close>

definition fw_port ::
  "(string \<Rightarrow> pyfloat option) \<Rightarrow> (string \<Rightarrow> int option) \<Rightarrow> rat \<Rightarrow> rat \<Rightarrow> fixed_window quota_port" where
  "fw_port pf pint = timed_port (\<lambda>tn b pol t. fw_acquire pf pint tn b pol PNone (Fin t))
     (\<lambda>tn b s t. fw_mark_cooldown pf tn b (PFloat s) PNone (Fin t))"

lemma throttled_store:
  assumes "inv_ran (invoke cfg (timed_port acq mrk ta tm) events c st)"
    and "c_fn c = FnError err" "classify_provider_error (c_heap c) (message_regex_throttle cfg) err = Inr cls" "throttled cls"
  shows "\<exists>st1. inv_store (invoke cfg (timed_port acq mrk ta tm) events c st)
    = mrk (c_tenant c) (c_bucket c) (cooldown_seconds cfg) tm st1"
proof -
  obtain pol where pol: "dget (buckets cfg) (c_bucket c) = Some pol"
    using assms(1) by (auto simp: invoke_def split: option.splits)
  have hc: "hard_capped cfg (c_entitlements c) = Inr False"
    using assms(1) pol by (auto simp: invoke_def Let_def split: sum.splits bool.splits)
  obtain d st1 where a: "acq (c_tenant c) (c_bucket c) pol ta st = (d, st1)"
    by (cases "acq (c_tenant c) (c_bucket c) pol ta st")
  show ?thesis using assms pol hc a
    by (auto simp: invoke_def gw_acquire_def timed_port_def on_error_def Let_def split: sum.splits if_splits)
qed

text \<open>
  C16: Once a call of a bucket was throttled by the provider at store time \<open>tm\<close>, no call of
  that tenant and bucket is made in any later run of invocations before \<open>tm\<close> plus the cooldown,
  whatever the other invocations in between do.
\<close>

theorem throttle_stops_spending:
  assumes "inv_ran (invoke cfg (fw_port pf pint ta tm) events c q)"
    and "c_fn c = FnError err"
    and "classify_provider_error (c_heap c) (message_regex_throttle cfg) err = Inr cls" "throttled cls"
    and "cooldown_seconds cfg = Fin s" "representable (Fin (tm + s))"
    and "dget (buckets cfg) (c_bucket c) = Some pol" "policy_limits pf pint pol = Inr lw"
    and "\<forall>x\<in>set xs. fst (snd x) < tm + s"
    and "(c', r) \<in> set (gw_run cfg (fw_port pf pint) events xs (inv_store (invoke cfg (fw_port pf pint ta tm) events c q)))"
    and "c_tenant c' = c_tenant c" "c_bucket c' = c_bucket c"
  shows "\<not> inv_ran r"
proof -
  define st where "st = inv_store (invoke cfg (fw_port pf pint ta tm) events c q)"
  have dl: "fw_deadline st (c_tenant c, c_bucket c) = Some (tm + s)"
    using throttled_store [OF assms(1) [unfolded fw_port_def] assms(2-4)] assms(5)
    by (auto simp: st_def fw_port_def fw.mark_deadline simp del: fw_deadline_Some)
  have "(c', r) \<in> set (gw_run cfg (fw_port pf pint) events xs st)" using assms(10) by (simp add: st_def)
  from fw.gw_run_blocked [OF dl assms(6,9) _ this [unfolded fw_port_def]]
  show ?thesis using assms(7,8,11,12) by auto
qed

text \<open>One throttled call, then a second invocation half an hour later.\<close>

definition chat_config :: gateway_config where
  "chat_config = \<lparr>buckets = [(''chat'', [(''limit'', PInt 5), (''window_s'', PInt 60)])], has_entitlements = False,
     cooldown_seconds = Fin 3600, has_exporter = True, has_callback = True, event_names = [],
     port_error_policy = ''propagate'', message_regex_throttle = False\<rparr>"

definition chat_call :: "fn_result \<Rightarrow> gw_call" where
  "chat_call f = \<lparr>c_tenant = ''t'', c_bucket = ''chat'', c_entitlements = Inr PNone, c_fn = f, c_fn_name = ''f'',
     c_heap = two_branches, c_started = \<lparr>dt_wall = 0, dt_off = Some 0\<rparr>,
     c_throttled_at = \<lparr>dt_wall = 0, dt_off = Some 0\<rparr>, c_ended = \<lparr>dt_wall = 0, dt_off = Some 0\<rparr>, c_uuid = ''u''\<rparr>"

lemma chat_limits: "policy_limits pf pint [(''limit'', PInt 5), (''window_s'', PInt 60)] = Inr (5, Fin 60)"
  by (simp add: policy_limits_def subscript_def to_int_def to_float_def)

lemma throttled_class: "classify_provider_error two_branches rx 2 = Inr \<lparr>throttled = True, transient = True\<rparr>"
  by (simp add: classify_provider_error_def classify_loop.simps MAX_CAUSE_DEPTH_def classify_single_def
      two_branches_def plain_exc_def error_code_def status_code_def THROTTLED_CLASS_NAMES_def code_in_def either_def)

lemma chat_ran: "inv_ran (invoke chat_config (fw_port pf pint 0 1) [] (chat_call (FnError 2)) new_fixed_window)"
  by (simp add: invoke_def chat_config_def chat_call_def hard_capped_def gw_acquire_def fw_port_def timed_port_def
      fw_acquire_at [OF chat_limits] quota_eval on_error_ran)

theorem gateway_call_needs_debit_witness:
  "let_through chat_config (fw_port (\<lambda>_. None) (\<lambda>_. None) 0 1) (chat_call (FnError 2)) new_fixed_window
   \<and> invoke chat_config (fw_port (\<lambda>_. None) (\<lambda>_. None) 0 1) [] ((chat_call (FnError 2))\<lparr>c_bucket := ''x'', c_fn := FnFatal 0\<rparr>) new_fixed_window
     = invoke chat_config (fw_port (\<lambda>_. None) (\<lambda>_. None) 0 1) [] ((chat_call (FnError 2))\<lparr>c_bucket := ''x''\<rparr>) new_fixed_window"
proof -
  let ?port = "fw_port (\<lambda>_. None) (\<lambda>_. None) 0 1" and ?other = "(chat_call (FnError 2))\<lparr>c_bucket := ''x''\<rparr>"
  have "\<not> inv_ran (invoke chat_config ?port [] ?other new_fixed_window)"
    by (simp add: invoke_def chat_config_def silent_def)
  then have "invoke chat_config ?port [] (?other\<lparr>c_fn := FnFatal 0\<rparr>) new_fixed_window = invoke chat_config ?port [] ?other new_fixed_window"
    using gateway_call_needs_debit [of chat_config ?port "[]" ?other new_fixed_window] by blast
  then show ?thesis
    using gateway_call_needs_debit [of chat_config ?port "[]" "chat_call (FnError 2)" new_fixed_window] chat_ran by simp
qed

lemma throttle_stops_spending_witness:
  "map (\<lambda>x. inv_ran (snd x)) (gw_run chat_config (fw_port (\<lambda>_. None) (\<lambda>_. None)) []
      [(chat_call (FnValue PNone), 1800, 1801)]
      (inv_store (invoke chat_config (fw_port (\<lambda>_. None) (\<lambda>_. None) 0 1) [] (chat_call (FnError 2)) new_fixed_window)))
    = [False]"
proof -
  let ?port = "fw_port (\<lambda>_. None) (\<lambda>_. None)"
  let ?xs = "[(chat_call (FnValue PNone), 1800, 1801)] :: (gw_call \<times> rat \<times> rat) list"
  let ?run = "gw_run chat_config ?port [] ?xs
    (inv_store (invoke chat_config (?port 0 1) [] (chat_call (FnError 2)) new_fixed_window))"
  obtain r where r: "?run = [(chat_call (FnValue PNone), r)]" by (simp add: Let_def)
  have rep: "representable (Fin (1 + 3600))"
    by (simp add: representable_def fromtimestamp_def half_even_def epoch_us_def us_per_day_def)
  have "\<not> inv_ran r"
    by (rule throttle_stops_spending [OF chat_ran, where err = 2 and s = 3600 and xs = ?xs and r = r
          and c' = "chat_call (FnValue PNone)" and cls = "\<lparr>throttled = True, transient = True\<rparr>"
          and pol = "[(''limit'', PInt 5), (''window_s'', PInt 60)]" and lw = "(5, Fin 60)"])
      (use rep r in \<open>auto simp: chat_call_def chat_config_def throttled_class chat_limits\<close>)
  with r show ?thesis by simp
qed

end
