(* ===== verification/Providers.thy ===== *)
theory Providers
  imports Events
begin

text \<open>
  \<open>controls/providers.py\<close>: scoped credentials and the ladder of completion providers. The
  environment is a map from variable names; a provider is given by its answers. A block under
  \<open>scoped_credential\<close> is a program of lookups and nested blocks. The results: inside a scope
  no lookup depends on the environment, and a credential goes only to the provider it was
  given for; the ladder asks each provider at most once, in order, and fails only when no
  available provider succeeds.
\<close>

section \<open>Scoped credentials\<close>

type_synonym scope = "(string \<times> string) option"

definition effective :: "string option \<Rightarrow> string option \<Rightarrow> bool" where
  "effective provider credential \<longleftrightarrow> str_truthy provider \<and> str_truthy credential"

text \<open>The value of the context variable while the block runs; on leaving an effective block
  the variable is reset to what it was.\<close>

definition scope_in_block :: "string option \<Rightarrow> string option \<Rightarrow> scope \<Rightarrow> scope" where
  "scope_in_block provider credential current =
     (if \<not> effective provider credential then current
      else Some (lower (strip (the provider)), the credential))"

definition scoped_credential ::
  "string option \<Rightarrow> string option \<Rightarrow> (scope \<Rightarrow> 'r \<times> scope) \<Rightarrow> scope \<Rightarrow> 'r \<times> scope" where
  "scoped_credential provider credential body current =
     (let (r, after) = body (scope_in_block provider credential current)
      in (r, if effective provider credential then current else after))"

definition scoped_provider_name :: "scope \<Rightarrow> string option" where
  "scoped_provider_name current = map_option fst current"

definition env_value :: "(string \<Rightarrow> string option) \<Rightarrow> string \<Rightarrow> string option" where
  \<comment> \<open>\<open>os.environ.get(v) or None\<close>\<close>
  "env_value env v = (if str_truthy (env v) then env v else None)"

definition resolve_credential :: "(string \<Rightarrow> string option) \<Rightarrow> scope \<Rightarrow> string \<Rightarrow> string \<Rightarrow> string option" where
  "resolve_credential env current provider env_var = (case current of
     Some (p, c) \<Rightarrow> if p = provider then Some c else None
   | None \<Rightarrow> env_value env env_var)"

text \<open>Programs over the two operations, with code that raises and code that catches what its body raises; a run logs
  every lookup with its answer, and tells the exception it ended with.\<close>

datatype cred_prog =
    Resolve string string
  | Raises pyexn
  | Block "string option" "string option" "cred_prog list"
  | Catch "cred_prog list"

type_synonym lookups = "(string \<times> string option) list"

fun run_prog :: "(string \<Rightarrow> string option) \<Rightarrow> cred_prog \<Rightarrow> scope \<Rightarrow> (lookups \<times> pyexn option) \<times> scope"
  and run_progs :: "(string \<Rightarrow> string option) \<Rightarrow> cred_prog list \<Rightarrow> scope \<Rightarrow> (lookups \<times> pyexn option) \<times> scope" where
  "run_prog env (Resolve p v) sc = (([(p, resolve_credential env sc p v)], None), sc)"
| "run_prog env (Raises e) sc = (([], Some e), sc)"
| "run_prog env (Block p c body) sc = scoped_credential p c (run_progs env body) sc"
| "run_prog env (Catch body) sc = (let ((l, e), sc1) = run_progs env body sc in ((l, None), sc1))"
| "run_progs env [] sc = (([], None), sc)"
| "run_progs env (x # xs) sc = (case run_prog env x sc of
     ((l, Some e), sc1) \<Rightarrow> ((l, Some e), sc1)
   | ((l, None), sc1) \<Rightarrow> (let ((ls, e), sc2) = run_progs env xs sc1 in ((l @ ls, e), sc2)))"

lemma run_restores: "snd (run_prog env x sc) = sc" "snd (run_progs env xs sc) = sc"
  by (induction env x sc and env xs sc rule: run_prog_run_progs.induct)
    (auto simp: scoped_credential_def scope_in_block_def split: prod.splits option.splits)

abbreviation looked :: "(string \<Rightarrow> string option) \<Rightarrow> cred_prog \<Rightarrow> scope \<Rightarrow> lookups" where
  "looked env x sc \<equiv> fst (fst (run_prog env x sc))"

lemma run_progs_Cons:
  "fst (run_progs env (x # xs) sc) = (case snd (fst (run_prog env x sc)) of Some e \<Rightarrow> (looked env x sc, Some e)
     | None \<Rightarrow> (looked env x sc @ fst (fst (run_progs env xs sc)), snd (fst (run_progs env xs sc))))"
  using run_restores(1) [of env x sc] by (auto split: prod.splits option.splits)

lemma run_prog_Block:
  "run_prog env (Block p c body) sc = (fst (run_progs env body (scope_in_block p c sc)), sc)"
  using run_restores(2) [of env body "scope_in_block p c sc"]
  by (cases "run_progs env body (scope_in_block p c sc)") (auto simp: scoped_credential_def scope_in_block_def)

lemma run_prog_Catch: "run_prog env (Catch body) sc = ((fst (fst (run_progs env body sc)), None), sc)"
  using run_restores(2) [of env body sc] by (auto split: prod.splits)

text \<open>The credentials a program pins to a provider, and those in force from outside.\<close>

fun pinned :: "cred_prog \<Rightarrow> (string \<times> string) set" and pinneds :: "cred_prog list \<Rightarrow> (string \<times> string) set" where
  "pinned (Resolve p v) = {}"
| "pinned (Raises e) = {}"
| "pinned (Catch body) = pinneds body"
| "pinned (Block p c body) =
     (if effective p c then {(lower (strip (the p)), the c)} else {}) \<union> pinneds body"
| "pinneds [] = {}"
| "pinneds (x # xs) = pinned x \<union> pinneds xs"

lemma resolve_scoped:
  "resolve_credential env (Some pc) p v = (if fst pc = p then Some (snd pc) else None)"
  by (cases pc) (simp add: resolve_credential_def)

lemma scope_in_block_Some: "sc \<noteq> None \<or> effective p c \<Longrightarrow> scope_in_block p c sc \<noteq> None"
  by (auto simp: scope_in_block_def)

lemma scope_in_block_in:
  "scope_in_block p c sc = Some pc \<Longrightarrow> (pc \<in> pinned (Block p c body)) \<or> sc = Some pc"
  by (auto simp: scope_in_block_def split: if_splits)

lemma run_scoped:
  "sc \<noteq> None \<Longrightarrow> fst (run_prog env x sc) = fst (run_prog env' x sc)
     \<and> (\<forall>(p, r)\<in>set (looked env x sc). \<forall>c. r = Some c \<longrightarrow> (p, c) \<in> pinned x \<union> set_option sc)"
  "sc \<noteq> None \<Longrightarrow> fst (run_progs env xs sc) = fst (run_progs env' xs sc)
     \<and> (\<forall>(p, r)\<in>set (fst (fst (run_progs env xs sc))). \<forall>c. r = Some c \<longrightarrow> (p, c) \<in> pinneds xs \<union> set_option sc)"
proof (induction x and xs arbitrary: sc and sc rule: pinned_pinneds.induct)
  case (1 p v)
  then show ?case by (auto simp: resolve_scoped split: if_splits)
next
  case (3 body)
  then show ?case by (auto simp: run_prog_Catch simp del: run_prog.simps)
next
  case (4 p c body)
  have "scope_in_block p c sc \<noteq> None" using 4(2) by (intro scope_in_block_Some) simp
  from 4(1) [OF this] show ?case
    unfolding run_prog_Block using scope_in_block_in [of p c sc _ body] by fastforce
next
  case (6 x xs)
  from 6(1) [OF 6(3)] 6(2) [OF 6(3)] show ?case unfolding run_progs_Cons by (fastforce split: option.splits)
qed simp_all

text \<open>
  C17: Bring-your-own-key isolation. Inside a block with a non-empty provider and credential,
  nested blocks included, the answers of all lookups are the same in every environment, so no
  platform credential is ever used; a credential that is returned for a provider was pinned to
  that provider by an enclosing block; and after the block, also when an exception leaves it, the scope is what it was
  before.
\<close>

theorem credential_isolated:
  assumes "effective p c"
  shows "fst (run_prog env (Block p c body) sc) = fst (run_prog env' (Block p c body) sc)
    \<and> (\<forall>(q, r)\<in>set (looked env (Block p c body) sc). \<forall>cred. r = Some cred \<longrightarrow> (q, cred) \<in> pinned (Block p c body))
    \<and> snd (run_prog env (Block p c body) sc) = sc"
proof -
  have sc: "scope_in_block p c sc = Some (lower (strip (the p)), the c)"
    using assms by (simp add: scope_in_block_def)
  show ?thesis
    using run_scoped(2) [of "scope_in_block p c sc" env body env'] assms
    unfolding run_prog_Block by (auto simp: sc)
qed

lemma name_normalized: "lower (strip '' OpenAI '') = ''openai''"
  by code_simp

text \<open>A block left by an exception after two lookups.\<close>

definition two_lookups :: "cred_prog list" where
  "two_lookups = [Catch [Resolve ''openai'' ''OPENAI_API_KEY''], Resolve ''bedrock'' ''AWS_KEY'', Raises ValueError, Resolve ''openai'' ''KEY'']"

lemma two_lookups_empty: "fst (run_prog (\<lambda>_. None) (Block (Some '' OpenAI '') (Some ''key'') two_lookups) None)
    = ([(''openai'', Some ''key''), (''bedrock'', None)], Some ValueError)"
  unfolding two_lookups_def run_prog_Block
  by (simp add: resolve_credential_def scope_in_block_def name_normalized effective_def str_truthy_def)

theorem credential_isolated_witness:
  "run_prog (\<lambda>_. Some ''platform'') (Block (Some '' OpenAI '') (Some ''key'') two_lookups) None
     = (([(''openai'', Some ''key''), (''bedrock'', None)], Some ValueError), None)"
proof -
  have "effective (Some '' OpenAI '') (Some ''key'')" by (simp add: effective_def str_truthy_def)
  from credential_isolated [OF this, of "\<lambda>_. Some ''platform''" two_lookups None "\<lambda>_. None"]
  show ?thesis using two_lookups_empty by (simp only: prod_eq_iff [of "run_prog _ _ _"] fst_conv snd_conv)
qed

section \<open>The registry\<close>

record completion =
  completion_text :: string
  input_tokens :: int
  output_tokens :: int
  model_id :: string
  provider_of :: string

text \<open>What a provider answers: whether it is available (or the exception of that test), and the
  outcome of a request, where an \<open>Exception\<close> is known by its text.\<close>

datatype provider_result = Completed completion | Errored string | Aborted pyexn

record llm_provider =
  provider_name :: string
  available :: "bool res"
  complete_with :: "string \<Rightarrow> string \<Rightarrow> int \<Rightarrow> provider_result"

record registry =
  providers :: "(string, llm_provider) dict"
  fallback_order :: "string list"
  fallback_label :: string
  preferred_env_var :: "string option"

definition new_registry ::
  "string list \<Rightarrow> string \<Rightarrow> string option \<Rightarrow> (string, llm_provider) dict option \<Rightarrow> registry" where
  "new_registry order label env_var backing =
     \<lparr>providers = (case backing of None \<Rightarrow> [] | Some m \<Rightarrow> m), fallback_order = order,
      fallback_label = label, preferred_env_var = env_var\<rparr>"

definition register_provider :: "llm_provider \<Rightarrow> registry \<Rightarrow> llm_provider \<times> registry" where
  "register_provider p reg = (p, reg\<lparr>providers := dset (providers reg) (provider_name p) p\<rparr>)"

text \<open>The generator: the names it will look at, each once, and the provider it yields for a
  name when it gets there.\<close>

fun dedup :: "string list \<Rightarrow> string list \<Rightarrow> string list" where
  "dedup [] seen = []"
| "dedup (n # ns) seen = (if n \<in> set seen then dedup ns seen else n # dedup ns (n # seen))"

definition ladder_names :: "registry \<Rightarrow> string option \<Rightarrow> string list" where
  "ladder_names reg preferred =
     dedup ((if str_truthy preferred then [lower (strip (the preferred))] else []) @ fallback_order reg) []"

definition yields :: "registry \<Rightarrow> string \<Rightarrow> llm_provider option res" where
  "yields reg n = (case dget (providers reg) n of
     None \<Rightarrow> Inr None
   | Some p \<Rightarrow> rbind (available p) (\<lambda>ok. Inr (if ok then Some p else None)))"

text \<open>\<open>complete_text\<close> and \<open>resolve_mode\<close> walk the generator; the names asked are logged.\<close>

fun walk_ladder ::
  "registry \<Rightarrow> (string \<times> string \<times> int) \<Rightarrow> string list \<Rightarrow> string option \<Rightarrow> completion res \<times> string list" where
  "walk_ladder reg q [] last_exc = (Inl (NoProviderAvailable
     (case last_exc of Some t \<Rightarrow> take 200 t | None \<Rightarrow> ''no provider configured'')), [])"
| "walk_ladder reg q (n # ns) last_exc = (case yields reg n of
     Inl e \<Rightarrow> (Inl e, [])
   | Inr None \<Rightarrow> walk_ladder reg q ns last_exc
   | Inr (Some p) \<Rightarrow> (case complete_with p (fst q) (fst (snd q)) (snd (snd q)) of
       Completed r \<Rightarrow> (Inr r, [n])
     | Aborted e \<Rightarrow> (Inl e, [n])
     | Errored t \<Rightarrow> (let (r, asked) = walk_ladder reg q ns (Some t) in (r, n # asked))))"

definition complete_text ::
  "(string \<Rightarrow> string option) \<Rightarrow> registry \<Rightarrow> string \<Rightarrow> string \<Rightarrow> int \<Rightarrow> string option \<Rightarrow> completion res \<times> string list" where
  "complete_text env reg sys prompt max_tokens preferred =
     (let pref = (if \<not> str_truthy preferred \<and> str_truthy (preferred_env_var reg)
                  then env_value env (the (preferred_env_var reg)) else preferred)
      in walk_ladder reg (sys, prompt, max_tokens) (ladder_names reg pref) None)"

fun first_yield :: "registry \<Rightarrow> string list \<Rightarrow> string res" where
  "first_yield reg [] = Inr (fallback_label reg)"
| "first_yield reg (n # ns) = (case yields reg n of
     Inl e \<Rightarrow> Inl e
   | Inr (Some p) \<Rightarrow> Inr (provider_name p)
   | Inr None \<Rightarrow> first_yield reg ns)"

definition resolve_mode :: "registry \<Rightarrow> string option \<Rightarrow> string res" where
  "resolve_mode reg preferred = first_yield reg (ladder_names reg preferred)"

lemma dedup_props: "distinct (dedup ns seen) \<and> set (dedup ns seen) = set ns - set seen"
  by (induction ns seen rule: dedup.induct) auto

lemma walk_subset: "set (snd (walk_ladder reg q ns l)) \<subseteq> set ns"
proof (induction ns arbitrary: l)
  case (Cons n ns)
  then show ?case
    by (cases "yields reg n") (auto split: option.splits provider_result.splits simp: case_prod_beta)
qed simp

lemma walk_distinct: "distinct ns \<Longrightarrow> distinct (snd (walk_ladder reg q ns l))"
proof (induction ns arbitrary: l)
  case (Cons n ns)
  have "n \<notin> set (snd (walk_ladder reg q ns l'))" for l' using walk_subset [of reg q ns l'] Cons(2) by auto
  moreover have "distinct (snd (walk_ladder reg q ns l'))" for l' using Cons by simp
  ultimately show ?case
    by (cases "yields reg n") (auto split: option.splits provider_result.splits simp: case_prod_beta)
qed simp

definition works :: "registry \<Rightarrow> (string \<times> string \<times> int) \<Rightarrow> string \<Rightarrow> completion \<Rightarrow> bool" where
  "works reg q n r \<longleftrightarrow> (\<exists>p. yields reg n = Inr (Some p) \<and> complete_with p (fst q) (fst (snd q)) (snd (snd q)) = Completed r)"

definition errors :: "registry \<Rightarrow> (string \<times> string \<times> int) \<Rightarrow> string \<Rightarrow> bool" where
  "errors reg q n \<longleftrightarrow> (\<exists>p t. yields reg n = Inr (Some p) \<and> complete_with p (fst q) (fst (snd q)) (snd (snd q)) = Errored t)"

lemma walk_result:
  assumes "\<And>n. n \<in> set ns \<Longrightarrow> yields reg n = Inr None \<or> errors reg q n \<or> (\<exists>r. works reg q n r)"
  shows "case fst (walk_ladder reg q ns l) of
     Inr r \<Rightarrow> (\<exists>us n vs. ns = us @ n # vs \<and> works reg q n r \<and> (\<forall>m\<in>set us. \<not> (\<exists>r'. works reg q m r'))
        \<and> snd (walk_ladder reg q ns l) = filter (errors reg q) us @ [n])
   | Inl e \<Rightarrow> (\<exists>t. e = NoProviderAvailable t) \<and> (\<forall>m\<in>set ns. \<not> (\<exists>r'. works reg q m r'))
        \<and> snd (walk_ladder reg q ns l) = filter (errors reg q) ns"
  using assms
proof (induction ns arbitrary: l)
  case (Cons n ns)
  have rest: "\<And>m. m \<in> set ns \<Longrightarrow> yields reg m = Inr None \<or> errors reg q m \<or> (\<exists>r. works reg q m r)" using Cons(2) by simp
  consider "yields reg n = Inr None" | p t where "yields reg n = Inr (Some p)"
      "complete_with p (fst q) (fst (snd q)) (snd (snd q)) = Errored t"
    | p r where "yields reg n = Inr (Some p)" "complete_with p (fst q) (fst (snd q)) (snd (snd q)) = Completed r"
    using Cons(2) [of n] by (auto simp: errors_def works_def)
  then show ?case
  proof cases
    case 1
    then have no: "\<not> errors reg q n" "\<not> (\<exists>r. works reg q n r)" by (auto simp: errors_def works_def)
    from Cons(1) [OF rest, of l] 1 no show ?thesis
      by (auto split: sum.splits) (metis append_Cons filter.simps(2) set_ConsD)
  next
    case 2
    then have e: "errors reg q n" "\<not> (\<exists>r. works reg q n r)" by (auto simp: errors_def works_def)
    from Cons(1) [OF rest, of "Some t"] 2 e show ?thesis
      by (auto split: sum.splits prod.splits) (metis append_Cons filter.simps(2) set_ConsD)
  next
    case 3
    then have "works reg q n r" by (auto simp: works_def)
    then show ?thesis using 3 by simp (rule exI [of _ "[]"], simp)
  qed
qed simp

text \<open>
  The provider ladder, when availability tests do not raise and no provider aborts the
  process: the names asked are distinct and in ladder order (the preferred one first, then the
  fallback order); the answer is the completion of the first provider that succeeds and only
  those before it that erred were asked; and it fails only when no provider of the ladder
  would have succeeded, after asking every available one.
\<close>

theorem ladder_first_success:
  assumes "pref = (if \<not> str_truthy preferred \<and> str_truthy (preferred_env_var reg)
      then env_value env (the (preferred_env_var reg)) else preferred)"
    and "\<And>n. n \<in> set (ladder_names reg pref) \<Longrightarrow>
      yields reg n = Inr None \<or> errors reg (sys, prompt, mt) n \<or> (\<exists>r. works reg (sys, prompt, mt) n r)"
  shows "distinct (snd (complete_text env reg sys prompt mt preferred)) \<and>
    (case fst (complete_text env reg sys prompt mt preferred) of
       Inr r \<Rightarrow> (\<exists>us n vs. ladder_names reg pref = us @ n # vs \<and> works reg (sys, prompt, mt) n r
          \<and> (\<forall>m\<in>set us. \<not> (\<exists>r'. works reg (sys, prompt, mt) m r'))
          \<and> snd (complete_text env reg sys prompt mt preferred) = filter (errors reg (sys, prompt, mt)) us @ [n])
     | Inl e \<Rightarrow> (\<exists>t. e = NoProviderAvailable t) \<and> (\<forall>m\<in>set (ladder_names reg pref). \<not> (\<exists>r'. works reg (sys, prompt, mt) m r'))
          \<and> snd (complete_text env reg sys prompt mt preferred) = filter (errors reg (sys, prompt, mt)) (ladder_names reg pref))"
proof -
  have run: "complete_text env reg sys prompt mt preferred = walk_ladder reg (sys, prompt, mt) (ladder_names reg pref) None"
    using assms(1) by (simp add: complete_text_def)
  have "distinct (ladder_names reg pref)" using dedup_props by (simp add: ladder_names_def)
  then show ?thesis using walk_distinct walk_result [OF assms(2), where l = None] unfolding run by auto
qed

definition two_providers :: registry where
  "two_providers = \<lparr>providers =
     [(''a'', \<lparr>provider_name = ''a'', available = Inr True, complete_with = \<lambda>_ _ _. Errored ''boom''\<rparr>),
      (''b'', \<lparr>provider_name = ''b'', available = Inr True, complete_with = \<lambda>_ p _. Completed
         \<lparr>completion_text = p, input_tokens = 0, output_tokens = 0, model_id = ''m'', provider_of = ''b''\<rparr>\<rparr>)],
     fallback_order = [''a'', ''b'', ''a''], fallback_label = ''none'', preferred_env_var = None\<rparr>"

lemma ladder_first_success_witness:
  "distinct (snd (complete_text (\<lambda>_. None) two_providers ''s'' ''p'' 600 None))
   \<and> snd (complete_text (\<lambda>_. None) two_providers ''s'' ''p'' 600 None) = [''a'', ''b'']"
proof -
  have names: "ladder_names two_providers None = [''a'', ''b'']"
    by (simp add: ladder_names_def two_providers_def str_truthy_def)
  have "distinct (snd (complete_text (\<lambda>_. None) two_providers ''s'' ''p'' 600 None))"
    using ladder_first_success [where reg = two_providers and preferred = None and env = "\<lambda>_. None" and sys = "''s''"
        and prompt = "''p''" and mt = 600 and pref = None]
    by (simp add: names) (simp add: two_providers_def str_truthy_def yields_def errors_def works_def)
  moreover have "snd (complete_text (\<lambda>_. None) two_providers ''s'' ''p'' 600 None) = [''a'', ''b'']"
    by (simp add: complete_text_def ladder_names_def two_providers_def str_truthy_def yields_def)
  ultimately show ?thesis by blast
qed

text \<open>What \<open>resolve_mode\<close> names is what the ladder yields first.\<close>

lemma first_yield_None: "(\<And>n. n \<in> set ns \<Longrightarrow> yields reg n = Inr None) \<Longrightarrow> first_yield reg ns = Inr (fallback_label reg)"
  by (induction ns) auto

end
