(* ===== verification/Examiner.thy ===== *)
theory Examiner
  imports Routing Signing
begin

text \<open>
  \<open>compliance/examiner.py\<close> and \<open>compliance/signed_bundle.py\<close>: audit bundles, their content
  hash, and the KMS signature over it. The evidence store and the policy store are given by
  their operations; SHA-256 and the KMS service are arguments. The results: a built bundle
  verifies and holds exactly the referenced evidence; two verifying bundles with one hash agree
  up to key order or exhibit a collision; a signature is only ever checked against the key and
  algorithm the verifier pinned, and survives serialization.
\<close>

section \<open>Bundles\<close>

record audit_bundle =
  b_decision :: pyval
  b_policy :: pyval
  b_evidence :: "pyval list"
  b_as_of :: pyval
  b_hash :: pyval
  b_schema :: pyval
  b_metadata :: pydict

definition hashable_payload :: "audit_bundle \<Rightarrow> pyval" where
  "hashable_payload b = PDict [(''schema_version'', b_schema b), (''decision'', b_decision b), (''policy'', b_policy b),
     (''evidence'', PList (b_evidence b)), (''as_of_transaction_time'', b_as_of b)]"

definition compute_hash :: "(rat \<Rightarrow> string) \<Rightarrow> (bytes \<Rightarrow> string) \<Rightarrow> audit_bundle \<Rightarrow> string res" where
  "compute_hash fr sha b =
     rbind (canonical_json_compat fr (hashable_payload b)) (\<lambda>t. Inr (''sha256:'' @ sha (utf8 t)))"

text \<open>The evidence loop: records in the order the store lists them; a reference found once is no
  longer wanted.\<close>

fun collect :: "string list \<Rightarrow> bt_record list \<Rightarrow> bt_record list \<times> string list" where
  "collect wanted [] = ([], wanted)"
| "collect wanted (r # rs) =
     (if r_id r \<in> set wanted
      then (let (found, left) = collect (filter (\<lambda>w. w \<noteq> r_id r) wanted) rs in (r # found, left))
      else collect wanted rs)"

definition gather_evidence ::
  "('s \<Rightarrow> string list) \<Rightarrow> ('s \<Rightarrow> string \<Rightarrow> bt_record list res) \<Rightarrow> 's \<Rightarrow> string list \<Rightarrow> bt_record list res" where
  "gather_evidence keys history s refs =
     (if refs = [] then Inr []
      else rbind (rmap (history s) (keys s)) (\<lambda>hs.
        let (found, left) = collect (remdups refs) (concat hs)
        in if left \<noteq> [] then Inl BundleIntegrityError else Inr found))"

definition unsealed ::
  "agent_decision \<Rightarrow> policy_version option \<Rightarrow> bt_record list \<Rightarrow> datetime \<Rightarrow> pydict option \<Rightarrow> audit_bundle" where
  "unsealed decision p found clamp metadata =
     \<lparr>b_decision = PDict (decision_to_dict decision),
      b_policy = (case p of None \<Rightarrow> PNone | Some v \<Rightarrow> PDict (version_to_dict v)),
      b_evidence = map (\<lambda>r. PDict (record_to_dict r)) (sort_key r_id found),
      b_as_of = PStr (isoformat clamp), b_hash = PStr [], b_schema = PStr ''1'',
      b_metadata = (case metadata of None \<Rightarrow> [] | Some m \<Rightarrow> m)\<rparr>"

definition build_bundle ::
  "(rat \<Rightarrow> string) \<Rightarrow> (bytes \<Rightarrow> string) \<Rightarrow>
   ('s \<Rightarrow> string list) \<Rightarrow> ('s \<Rightarrow> string \<Rightarrow> bt_record list res) \<Rightarrow>
   ('p \<Rightarrow> string \<Rightarrow> datetime option \<Rightarrow> datetime option \<Rightarrow> bt_record option res) \<Rightarrow>
   agent_decision \<Rightarrow> 's \<Rightarrow> 'p \<Rightarrow> datetime option \<Rightarrow> pydict option \<Rightarrow> audit_bundle res" where
  "build_bundle fr sha keys history as_of decision store registry as_of_tx metadata =
     (let clamp = (case as_of_tx of Some t \<Rightarrow> t | None \<Rightarrow> d_at decision) in
      rbind (get_policy as_of registry (d_policy decision) (Some clamp) None) (\<lambda>p.
      rbind (gather_evidence keys history store (d_evidence decision)) (\<lambda>found.
      let b = unsealed decision p found clamp metadata
      in rbind (compute_hash fr sha b) (\<lambda>h. Inr (b\<lparr>b_hash := PStr h\<rparr>)))))"

definition verify_bundle :: "(rat \<Rightarrow> string) \<Rightarrow> (bytes \<Rightarrow> string) \<Rightarrow> audit_bundle \<Rightarrow> unit res" where
  "verify_bundle fr sha b = rbind (compute_hash fr sha b) (\<lambda>expected.
     if \<not> py_eq (PStr expected) (b_hash b) then Inl BundleIntegrityError else Inr ())"

definition bundle_to_dict :: "audit_bundle \<Rightarrow> pydict" where
  "bundle_to_dict b = [(''schema_version'', b_schema b), (''decision'', b_decision b), (''policy'', b_policy b),
     (''evidence'', PList (b_evidence b)), (''as_of_transaction_time'', b_as_of b), (''content_hash'', b_hash b),
     (''metadata'', PDict (b_metadata b))]"

text \<open>\<open>list(x or [])\<close>.\<close>

definition as_list :: "pyval \<Rightarrow> pyval list res" where
  "as_list v = (if \<not> py_truthy v then Inr [] else case v of
     PList xs \<Rightarrow> Inr xs
   | PDict d \<Rightarrow> Inr (map PStr (dkeys d))
   | PStr s \<Rightarrow> Inr (map (\<lambda>c. PStr [c]) s)
   | _ \<Rightarrow> Inl TypeError)"

definition bundle_from_dict :: "pydict \<Rightarrow> audit_bundle res" where
  "bundle_from_dict d =
     rbind (item d ''decision'') (\<lambda>dec.
     rbind (as_list (pget d ''evidence'')) (\<lambda>ev.
     rbind (as_dict (pget d ''metadata'')) (\<lambda>meta.
       Inr \<lparr>b_decision = dec, b_policy = pget d ''policy'', b_evidence = ev,
            b_as_of = pget d ''as_of_transaction_time'', b_hash = dget_or d ''content_hash'' (PStr []),
            b_schema = dget_or d ''schema_version'' (PStr ''1''), b_metadata = meta\<rparr>)))"

section \<open>Signed bundles\<close>

record signed_bundle = audit_bundle +
  s_key :: pyval
  s_signature :: bytes
  s_algorithm :: pyval
  s_at :: datetime

definition RSA_PSS :: string where "RSA_PSS = ''RSASSA_PSS_SHA_256''"

text \<open>The KMS client: \<open>sign key message algorithm\<close>, and the answer of \<open>verify\<close>.\<close>

datatype kms_answer = SignatureValid pyval | InvalidSignature | KmsError pyexn

definition sign_bundle ::
  "(string \<Rightarrow> bytes \<Rightarrow> string \<Rightarrow> bytes res) \<Rightarrow> datetime \<Rightarrow> string \<Rightarrow> string \<Rightarrow> audit_bundle \<Rightarrow> signed_bundle res" where
  "sign_bundle kms_sign now key algorithm b =
     rbind (as_string (b_hash b)) (\<lambda>h.
     rbind (kms_sign key (utf8 h) algorithm) (\<lambda>sig.
       Inr (audit_bundle.extend b \<lparr>s_key = PStr key, s_signature = sig, s_algorithm = PStr algorithm, s_at = now\<rparr>)))"

definition build_and_sign ::
  "(string \<Rightarrow> bytes \<Rightarrow> string \<Rightarrow> bytes res) \<Rightarrow> datetime \<Rightarrow> string \<Rightarrow> string \<Rightarrow> audit_bundle res \<Rightarrow> signed_bundle res" where
  \<comment> \<open>the last argument: the result of \<open>ExaminerBundle.build\<close> on the caller's arguments\<close>
  "build_and_sign kms_sign now key algorithm built = rbind built (sign_bundle kms_sign now key algorithm)"

definition verify_signature ::
  "(string \<Rightarrow> bytes \<Rightarrow> bytes \<Rightarrow> string \<Rightarrow> kms_answer) \<Rightarrow> string \<Rightarrow> string \<Rightarrow> signed_bundle \<Rightarrow> bool res" where
  "verify_signature kms_verify expected_key expected_algorithm b =
     (if \<not> py_eq (s_key b) (PStr expected_key) then Inr False
      else if \<not> py_eq (s_algorithm b) (PStr expected_algorithm) then Inr False
      else (case b_hash b of
          PStr h \<Rightarrow> (case kms_verify expected_key (utf8 h) (s_signature b) expected_algorithm of
              SignatureValid v \<Rightarrow> Inr (py_truthy v)
            | InvalidSignature \<Rightarrow> Inr False
            | KmsError e \<Rightarrow> Inl e)
        | _ \<Rightarrow> Inl AttributeError))"

definition signed_to_dict :: "signed_bundle \<Rightarrow> pydict" where
  "signed_to_dict b = bundle_to_dict (audit_bundle.truncate b) @
     [(''kms_key_id'', s_key b), (''signature'', PStr (b64_encode False (s_signature b))),
      (''signing_algorithm'', s_algorithm b), (''signed_at'', PStr (isoformat (s_at b)))]"

definition signed_from_dict :: "datetime \<Rightarrow> pydict \<Rightarrow> signed_bundle res" where
  \<comment> \<open>\<open>now\<close>: the clock, read when the dictionary has no \<open>signed_at\<close>\<close>
  "signed_from_dict now d =
     rbind (let v = dget_or d ''signature'' (PStr []) in
         if py_truthy v then rbind (as_string v) (b64_decode False) else Inr []) (\<lambda>sig.
     rbind (let v = pget d ''signed_at'' in
         if py_truthy v then rbind (as_string v) fromisoformat else Inr now) (\<lambda>at_time.
     rbind (bundle_from_dict d) (\<lambda>b.
       Inr (audit_bundle.extend b \<lparr>s_key = dget_or d ''kms_key_id'' (PStr []), s_signature = sig,
              s_algorithm = dget_or d ''signing_algorithm'' (PStr RSA_PSS), s_at = at_time\<rparr>))))"

section \<open>A built bundle\<close>

lemma collect_props:
  assumes "distinct wanted" "collect wanted rs = (found, left)"
  shows "distinct (map r_id found)" "set (map r_id found) \<subseteq> set wanted" "set left = set wanted - set (map r_id found)"
    "set found \<subseteq> set rs"
proof -
  have "distinct (map r_id found) \<and> set (map r_id found) \<subseteq> set wanted
      \<and> set left = set wanted - set (map r_id found) \<and> set found \<subseteq> set rs"
    using assms
  proof (induction wanted rs arbitrary: found left rule: collect.induct)
    case (2 wanted r rs)
    show ?case
    proof (cases "r_id r \<in> set wanted")
      case True
      obtain f l where c: "collect (filter (\<lambda>w. w \<noteq> r_id r) wanted) rs = (f, l)"
        by (cases "collect (filter (\<lambda>w. w \<noteq> r_id r) wanted) rs")
      have "found = r # f" "left = l" using 2(4) True c by auto
      then show ?thesis using 2(1) [OF True _ c] 2(3) True by auto
    next
      case False
      then show ?thesis using 2(2) [OF False 2(3)] 2(4) by auto
    qed
  qed simp
  then show "distinct (map r_id found)" "set (map r_id found) \<subseteq> set wanted" "set left = set wanted - set (map r_id found)"
    "set found \<subseteq> set rs" by auto
qed

lemma rmap_origin: "rmap f xs = Inr ys \<Longrightarrow> y \<in> set ys \<Longrightarrow> \<exists>x\<in>set xs. f x = Inr y"
  by (induction xs arbitrary: ys) (auto simp: rbind_Inr_iff)

lemma compute_hash_field [simp]: "compute_hash fr sha (b\<lparr>b_hash := h\<rparr>) = compute_hash fr sha b"
  by (simp add: compute_hash_def hashable_payload_def)

text \<open>
  C18: A bundle that is built verifies. It holds the decision, the policy that was in force for it at
  the clamp (the decision time by default), and as evidence, sorted by identifier, exactly one
  stored record for every reference of the decision and nothing else.
\<close>

theorem built_bundle_verifies:
  assumes "build_bundle fr sha keys history as_of decision store registry as_of_tx metadata = Inr b"
  shows "verify_bundle fr sha b = Inr () \<and> b_decision b = PDict (decision_to_dict decision)
    \<and> (\<exists>p. get_policy as_of registry (d_policy decision)
          (Some (case as_of_tx of Some t \<Rightarrow> t | None \<Rightarrow> d_at decision)) None = Inr p
        \<and> b_policy b = (case p of None \<Rightarrow> PNone | Some v \<Rightarrow> PDict (version_to_dict v)))
    \<and> (\<exists>evidence. b_evidence b = map (\<lambda>r. PDict (record_to_dict r)) evidence \<and> sorted (map r_id evidence)
        \<and> distinct (map r_id evidence) \<and> set (map r_id evidence) = set (d_evidence decision)
        \<and> (\<forall>r\<in>set evidence. \<exists>k\<in>set (keys store). \<exists>h. history store k = Inr h \<and> r \<in> set h))"
proof -
  let ?clamp = "case as_of_tx of Some t \<Rightarrow> t | None \<Rightarrow> d_at decision"
  obtain p found where pf: "get_policy as_of registry (d_policy decision) (Some ?clamp) None = Inr p"
    "gather_evidence keys history store (d_evidence decision) = Inr found"
    using assms by (auto simp: build_bundle_def Let_def rbind_Inr_iff)
  obtain h where h: "compute_hash fr sha (unsealed decision p found ?clamp metadata) = Inr h"
    "b = (unsealed decision p found ?clamp metadata)\<lparr>b_hash := PStr h\<rparr>"
    using assms pf by (auto simp: build_bundle_def Let_def rbind_Inr_iff)
  have ev: "distinct (map r_id found) \<and> set (map r_id found) = set (d_evidence decision)
      \<and> (\<forall>r\<in>set found. \<exists>k\<in>set (keys store). \<exists>h. history store k = Inr h \<and> r \<in> set h)"
  proof (cases "d_evidence decision = []")
    case True
    then show ?thesis using pf(2) by (auto simp: gather_evidence_def)
  next
    case False
    then obtain hs where hs1: "rmap (history store) (keys store) = Inr hs"
      using pf(2) by (auto simp: gather_evidence_def rbind_Inr_iff)
    have hs: "collect (remdups (d_evidence decision)) (concat hs) = (found, [])"
      using pf(2) False hs1 by (cases "collect (remdups (d_evidence decision)) (concat hs)")
        (auto simp: gather_evidence_def split: if_splits)
    have "\<exists>k\<in>set (keys store). \<exists>h. history store k = Inr h \<and> r \<in> set h" if "r \<in> set (concat hs)" for r
      using that rmap_origin [OF hs1] by simp blast
    then show ?thesis using collect_props [OF distinct_remdups hs] hs1 by fastforce
  qed
  let ?sorted = "sort_key r_id found"
  have "distinct (map r_id ?sorted)" using ev by (simp add: distinct_map)
  then have "b_evidence b = map (\<lambda>r. PDict (record_to_dict r)) ?sorted \<and> sorted (map r_id ?sorted)
      \<and> distinct (map r_id ?sorted) \<and> set (map r_id ?sorted) = set (d_evidence decision)
      \<and> (\<forall>r\<in>set ?sorted. \<exists>k\<in>set (keys store). \<exists>h. history store k = Inr h \<and> r \<in> set h)"
    using ev h(2) by (simp add: unsealed_def)
  moreover have "verify_bundle fr sha b = Inr ()" using h by (simp add: verify_bundle_def)
  ultimately show ?thesis using pf(1) h(2) by (fastforce simp: unsealed_def)
qed

text \<open>The decision of \<open>Routing\<close>'s test policy, without evidence.\<close>

definition payout_decision :: agent_decision where
  "payout_decision = \<lparr>d_id = ''d1'', d_use_case = ''payout'', d_context = [], d_candidates = [''sepa''],
     d_selected = Some ''sepa'', d_policy = ''payout'', d_version = ''1'', d_rule = None, d_evidence = [''a''],
     d_rationale = None, d_at = day 2\<rparr>"

lemma built_bundle_verifies_witness:
  "\<exists>b. build_bundle fraction_text (\<lambda>_. ''00'') bt_keys bt_history bt_as_of payout_decision
        [(''USDC/USD'', [price ''a'' 0 1 100])] [] None None = Inr b
     \<and> verify_bundle fraction_text (\<lambda>_. ''00'') b = Inr () \<and> length (b_evidence b) = 1"
proof -
  have pol: "get_policy bt_as_of [] ''payout'' (Some (day 2)) None = Inr None"
    by (simp add: get_policy_def bt_as_of_def dget_or_def)
  have ev: "gather_evidence bt_keys bt_history [(''USDC/USD'', [price ''a'' 0 1 100])] [''a''] = Inr [price ''a'' 0 1 100]"
    by (simp add: gather_evidence_def bt_keys_def bt_history_def dget_or_def price_def)
  let ?b = "unsealed payout_decision None [price ''a'' 0 1 100] (day 2) None"
  obtain h where h: "compute_hash fraction_text (\<lambda>_. ''00'') ?b = Inr h"
    using canonical_json_compat_total [of fraction_text "hashable_payload ?b"] by (auto simp: compute_hash_def)
  have run: "build_bundle fraction_text (\<lambda>_. ''00'') bt_keys bt_history bt_as_of payout_decision
        [(''USDC/USD'', [price ''a'' 0 1 100])] [] None None = Inr (?b\<lparr>b_hash := PStr h\<rparr>)"
    using pol ev h by (simp add: build_bundle_def payout_decision_def Let_def)
  show ?thesis using built_bundle_verifies [OF run] run by (simp add: unsealed_def)
qed

section \<open>Tampering\<close>

text \<open>Every hashed field is made of JSON values, as all that \<open>json.loads\<close> returns is, NaN and the infinities
  apart; two bundles with the same fields up to the order of dictionary keys.\<close>

definition json_bundle :: "audit_bundle \<Rightarrow> bool" where
  "json_bundle b \<longleftrightarrow> strict_val (b_schema b) \<and> strict_val (b_decision b) \<and> strict_val (b_policy b)
     \<and> list_all strict_val (b_evidence b) \<and> strict_val (b_as_of b)"

definition same_audit :: "audit_bundle \<Rightarrow> audit_bundle \<Rightarrow> bool" where
  "same_audit b b' \<longleftrightarrow> canon (b_schema b) = canon (b_schema b') \<and> canon (b_decision b) = canon (b_decision b')
     \<and> canon (b_policy b) = canon (b_policy b') \<and> map canon (b_evidence b) = map canon (b_evidence b')
     \<and> canon (b_as_of b) = canon (b_as_of b')"

lemma payload_strict: "json_bundle b \<Longrightarrow> strict_val (hashable_payload b)"
  by (simp add: json_bundle_def hashable_payload_def list_all_iff)

lemma payload_same_audit:
  assumes "canon (hashable_payload b) = canon (hashable_payload b')"
  shows "same_audit b b'"
proof -
  let ?items = "\<lambda>b. [(''schema_version'', b_schema b), (''decision'', b_decision b), (''policy'', b_policy b),
     (''evidence'', PList (b_evidence b)), (''as_of_transaction_time'', b_as_of b)]"
  have "distinct (dkeys (?items b))" "distinct (dkeys (?items b'))" by simp_all
  note get = canon_dict_get [OF assms [unfolded hashable_payload_def] this]
  show ?thesis
    using get [of "''schema_version''"] get [of "''decision''"] get [of "''policy''"] get [of "''evidence''"]
      get [of "''as_of_transaction_time''"]
    by (simp add: same_audit_def)
qed

text \<open>The bytes whose digest is the content hash.\<close>

definition payload_bytes :: "(rat \<Rightarrow> string) \<Rightarrow> audit_bundle \<Rightarrow> bytes" where
  "payload_bytes fr b = (case canonical_json_compat fr (hashable_payload b) of Inl _ \<Rightarrow> [] | Inr t \<Rightarrow> utf8 t)"

lemma verify_bundle_iff: "verify_bundle fr sha b = Inr () \<longleftrightarrow> py_eq (PStr (''sha256:'' @ sha (payload_bytes fr b))) (b_hash b)"
  using canonical_json_compat_total [of fr "hashable_payload b"]
  by (auto simp: verify_bundle_def compute_hash_def payload_bytes_def split: if_splits)

text \<open>
  C19: Tamper evidence. Two bundles that verify under the same content hash, with hashed fields made of
  JSON values only, have the same schema version, decision, policy, evidence in the same order, and clamp, each
  up to the order of dictionary keys; or their two payloads are exhibited as different byte strings with
  one SHA-256 digest. The metadata is not covered.
\<close>

theorem bundle_tamper_evident:
  assumes "float_repr_ok fr" "verify_bundle fr sha b = Inr ()" "verify_bundle fr sha b' = Inr ()"
    and "b_hash b = b_hash b'" "json_bundle b" "json_bundle b'"
  shows "same_audit b b' \<or> (payload_bytes fr b \<noteq> payload_bytes fr b' \<and> sha (payload_bytes fr b) = sha (payload_bytes fr b'))"
proof (cases "payload_bytes fr b = payload_bytes fr b'")
  case True
  then have "canonical_json_compat fr (hashable_payload b) = canonical_json_compat fr (hashable_payload b')"
    using canonical_json_compat_total [of fr "hashable_payload b"] canonical_json_compat_total [of fr "hashable_payload b'"]
    by (auto simp: payload_bytes_def utf8_inj)
  from canonical_json_compat_inj [OF assms(1) payload_strict [OF assms(5)] payload_strict [OF assms(6)] this]
  show ?thesis using payload_same_audit by blast
next
  case False
  have "sha (payload_bytes fr b) = sha (payload_bytes fr b')"
    using assms(2-4) unfolding verify_bundle_iff by (cases "b_hash b'") simp_all
  with False show ?thesis by blast
qed

text \<open>A bundle, its copy with the keys of the decision reordered and other metadata, and a copy without the
  evidence: under a digest without collisions the second verifies, the third does not.\<close>

definition sealed_bundle :: "pyval \<Rightarrow> pyval list \<Rightarrow> pydict \<Rightarrow> audit_bundle" where
  "sealed_bundle dec ev m = (let b = \<lparr>b_decision = dec, b_policy = PNone, b_evidence = ev, b_as_of = PNone,
       b_hash = PNone, b_schema = PStr ''1'', b_metadata = m\<rparr>
     in b\<lparr>b_hash := PStr (''sha256:'' @ byte_text (payload_bytes fraction_text b))\<rparr>)"

lemma sealed_hash:
  "b_hash (sealed_bundle dec ev m) = PStr (''sha256:'' @ byte_text (payload_bytes fraction_text (sealed_bundle dec ev m)))"
  by (simp add: sealed_bundle_def Let_def payload_bytes_def hashable_payload_def)

lemma sealed_verifies: "verify_bundle fraction_text byte_text (sealed_bundle dec ev m) = Inr ()"
  unfolding verify_bundle_iff sealed_hash by simp

lemma bundle_tamper_evident_witness:
  "let b = sealed_bundle (PDict [(''a'', PInt 1), (''b'', PInt 2)]) [PStr ''e''] [];
       c = (sealed_bundle (PDict [(''b'', PInt 2), (''a'', PInt 1)]) [PStr ''e''] [(''k'', PNone)]);
       d = b\<lparr>b_evidence := []\<rparr>
   in b_hash b = b_hash c \<and> same_audit b c \<and> verify_bundle fraction_text byte_text d \<noteq> Inr ()"
proof -
  let ?b = "sealed_bundle (PDict [(''a'', PInt 1), (''b'', PInt 2)]) [PStr ''e''] []"
  let ?c = "sealed_bundle (PDict [(''b'', PInt 2), (''a'', PInt 1)]) [PStr ''e''] [(''k'', PNone)]"
  let ?d = "?b\<lparr>b_evidence := []\<rparr>"
  have j: "json_bundle ?b" "json_bundle ?c" "json_bundle ?d" by (simp_all add: json_bundle_def sealed_bundle_def Let_def)
  have "canon (hashable_payload ?b) = canon (hashable_payload ?c)"
    by (simp add: hashable_payload_def sealed_bundle_def Let_def)
  then have p: "payload_bytes fraction_text ?b = payload_bytes fraction_text ?c"
    using canonical_json_compat_canon [of fraction_text "hashable_payload ?b"] canonical_json_compat_canon [of fraction_text "hashable_payload ?c"]
    by (simp add: payload_bytes_def)
  have eq: "b_hash ?b = b_hash ?c" unfolding sealed_hash using p by simp
  have "same_audit ?b ?c" using bundle_tamper_evident [OF fraction_text_ok sealed_verifies sealed_verifies eq j(1,2)] by simp
  moreover have "verify_bundle fraction_text byte_text ?d \<noteq> Inr ()"
  proof
    assume "verify_bundle fraction_text byte_text ?d = Inr ()"
    from bundle_tamper_evident [OF fraction_text_ok sealed_verifies this _ j(1,3)]
    have "same_audit ?b ?d" by simp
    then show False by (simp add: same_audit_def sealed_bundle_def Let_def)
  qed
  ultimately show ?thesis using eq by (simp add: Let_def)
qed

section \<open>Serialization and the pinned key\<close>

lemma bundle_roundtrip: "bundle_from_dict (bundle_to_dict b @ d) = Inr b"
proof -
  have "as_list (PList (b_evidence b)) = Inr (b_evidence b)" by (simp add: as_list_def)
  then show ?thesis by (simp add: bundle_from_dict_def bundle_to_dict_def item_def pget_def dget_or_def)
qed

lemma signed_fields:
  "dget_or (signed_to_dict b) ''signature'' x = PStr (b64_encode False (s_signature b))"
  "pget (signed_to_dict b) ''signed_at'' = PStr (isoformat (s_at b))"
  "dget_or (signed_to_dict b) ''kms_key_id'' x = s_key b"
  "dget_or (signed_to_dict b) ''signing_algorithm'' x = s_algorithm b"
  by (simp_all add: signed_to_dict_def bundle_to_dict_def pget_def dget_or_def)

lemma isoformat_nonempty: "wf_datetime d \<Longrightarrow> isoformat d \<noteq> []"
  using fromisoformat_isoformat [of d] by (auto simp: fromisoformat_def parse_date_def field_def)

lemma b64_empty: "b64_encode u d = [] \<Longrightarrow> d = []"
  by (cases "(u, d)" rule: b64_encode.cases) (auto simp: Let_def)

text \<open>
  C20: A signed bundle whose time is a valid date survives serialization unchanged, so the receiver
  verifies what was signed; and verification succeeds only if the bundle names the key and the
  algorithm the verifier pinned and KMS accepted the signature over the content hash under
  exactly these, never under values read from the bundle.
\<close>

theorem signed_roundtrip_pinned:
  assumes "wf_datetime (s_at b)"
  shows "signed_from_dict now (signed_to_dict b) = Inr b
    \<and> (verify_signature kms key alg b = Inr True \<longrightarrow>
        (\<exists>h v. b_hash b = PStr h \<and> s_key b = PStr key \<and> s_algorithm b = PStr alg
          \<and> kms key (utf8 h) (s_signature b) alg = SignatureValid v \<and> py_truthy v))"
proof -
  have "rbind (let v = dget_or (signed_to_dict b) ''signature'' (PStr []) in
      if py_truthy v then rbind (as_string v) (b64_decode False) else Inr []) f = f (s_signature b)" for f :: "_ \<Rightarrow> signed_bundle res"
    using b64_roundtrip [of False 0 "s_signature b"] b64_empty [of False "s_signature b"]
    by (auto simp: signed_fields as_string_def b64_decode_def)
  moreover have "rbind (let v = pget (signed_to_dict b) ''signed_at'' in
      if py_truthy v then rbind (as_string v) fromisoformat else Inr now) f = f (s_at b)" for f :: "_ \<Rightarrow> signed_bundle res"
    using isoformat_nonempty [OF assms] fromisoformat_isoformat [OF assms] by (simp add: signed_fields as_string_def)
  moreover have "bundle_from_dict (signed_to_dict b) = Inr (audit_bundle.truncate b)"
    unfolding signed_to_dict_def by (rule bundle_roundtrip)
  ultimately have "signed_from_dict now (signed_to_dict b) = Inr b"
    by (simp add: signed_from_dict_def signed_fields audit_bundle.defs)
  moreover have "\<exists>h v. b_hash b = PStr h \<and> s_key b = PStr key \<and> s_algorithm b = PStr alg
      \<and> kms key (utf8 h) (s_signature b) alg = SignatureValid v \<and> py_truthy v"
    if "verify_signature kms key alg b = Inr True"
  proof -
    have eq: "py_eq v (PStr s) \<Longrightarrow> v = PStr s" for v s by (cases v) auto
    show ?thesis using that eq
      by (auto simp: verify_signature_def split: if_splits pyval.splits kms_answer.splits)
  qed
  ultimately show ?thesis by blast
qed

definition tiny_signed :: signed_bundle where
  "tiny_signed = audit_bundle.extend (sealed_bundle (PStr ''d'') [] [])
     \<lparr>s_key = PStr ''k'', s_signature = [1, 2], s_algorithm = PStr RSA_PSS, s_at = day 1\<rparr>"

lemma signed_roundtrip_pinned_witness: "signed_from_dict (day 9) (signed_to_dict tiny_signed) = Inr tiny_signed"
proof -
  have "wf_datetime (s_at tiny_signed)"
    by (simp add: tiny_signed_def audit_bundle.defs day_def wf_datetime_def us_per_day_def)
  from signed_roundtrip_pinned [OF this] show ?thesis by blast
qed

end
