(* ===== verification/Guardrails.thy ===== *)
theory Guardrails
  imports Quota
begin

text \<open>
  \<open>guardrails/_types.py\<close>, the spaces of \<open>guardrails/framework.py\<close> and the two environments
  \<open>guardrails/envs/rbac.py\<close> and \<open>envs/abac.py\<close>. The readings of \<open>time.monotonic\<close> are
  arguments; \<open>fnmatch\<close> is modelled for a case-sensitive file system. The results: RBAC grants
  exactly on its three lists; ABAC answers with the first rule that does not hold; and the
  intersection of two spaces contains exactly what both contain, unless two constrained lists
  have nothing in common.
\<close>

section \<open>fnmatch\<close>

datatype glob_item = One char | Range char char

datatype glob_tok = Lit char | AnyOne | Star | Class bool "glob_item list"

fun class_items :: "string \<Rightarrow> glob_item list" where
  "class_items [] = []"
| "class_items [c] = [One c]"
| "class_items [c, d] = [One c, One d]"
| "class_items (c # d # e # s) =
     (if d = CHR ''-'' then Range c e # class_items s else One c # class_items (d # e # s))"

text \<open>After \<open>[\<close>: whether negated, the set, and what follows the closing bracket; the first
  character of the set may be a bracket.\<close>

definition class_split :: "string \<Rightarrow> (bool \<times> string \<times> string) option" where
  "class_split s =
     (let neg = (s \<noteq> [] \<and> hd s = CHR ''!''); r = (if neg then tl s else s) in
      if r = [] then None
      else let body = takeWhile (\<lambda>c. c \<noteq> CHR '']'') (tl r); rest = drop (length body) (tl r) in
        if rest = [] then None else Some (neg, hd r # body, tl rest))"

lemma class_split_shorter: "class_split s = Some (neg, body, rest) \<Longrightarrow> length rest < length s"
  by (auto simp: class_split_def Let_def split: if_splits)

function glob_parse :: "string \<Rightarrow> glob_tok list" where
  "glob_parse [] = []"
| "glob_parse (c # s) =
     (if c = CHR ''*'' then Star # glob_parse s
      else if c = CHR ''?'' then AnyOne # glob_parse s
      else if c = CHR ''['' then
        (case class_split s of
           None \<Rightarrow> Lit c # glob_parse s
         | Some (neg, body, rest) \<Rightarrow> Class neg (class_items body) # glob_parse rest)
      else Lit c # glob_parse s)"
  by pat_completeness auto
termination
  by (relation "measure length") (auto dest: class_split_shorter)

fun item_has :: "char \<Rightarrow> glob_item \<Rightarrow> bool" where
  "item_has c (One d) = (c = d)"
| "item_has c (Range a b) = (a \<le> c \<and> c \<le> b)"

fun glob_match :: "glob_tok list \<Rightarrow> string \<Rightarrow> bool" where
  "glob_match [] s = (s = [])"
| "glob_match (Star # ts) [] = glob_match ts []"
| "glob_match (Star # ts) (c # s) = (glob_match ts (c # s) \<or> glob_match (Star # ts) s)"
| "glob_match (t # ts) [] = False"
| "glob_match (Lit d # ts) (c # s) = (c = d \<and> glob_match ts s)"
| "glob_match (AnyOne # ts) (c # s) = glob_match ts s"
| "glob_match (Class neg items # ts) (c # s) = ((\<exists>i\<in>set items. item_has c i) \<noteq> neg \<and> glob_match ts s)"

definition fnmatch :: "string \<Rightarrow> string \<Rightarrow> bool" where
  "fnmatch s pattern = glob_match (glob_parse pattern) s"

text \<open>A pattern without special characters matches itself only, and \<open>*\<close> matches everything.\<close>

definition plain_pattern :: "string \<Rightarrow> bool" where
  "plain_pattern p \<longleftrightarrow> CHR ''*'' \<notin> set p \<and> CHR ''?'' \<notin> set p \<and> CHR ''['' \<notin> set p"

lemma glob_literal: "glob_match (map Lit p) s \<longleftrightarrow> s = p"
proof (induction p arbitrary: s)
  case (Cons c p)
  then show ?case by (cases s) auto
qed simp

lemma fnmatch_plain: "plain_pattern p \<Longrightarrow> fnmatch s p \<longleftrightarrow> s = p"
proof -
  assume "plain_pattern p"
  then have "glob_parse p = map Lit p" by (induction p) (auto simp: plain_pattern_def)
  then show ?thesis by (simp add: fnmatch_def glob_literal)
qed

lemma fnmatch_star: "fnmatch s ''*''"
proof -
  have "glob_match [Star] s" by (induction s) auto
  then show ?thesis by (simp add: fnmatch_def)
qed

section \<open>Requests, results, explanations\<close>

datatype effect = ALLOW | DENY

definition effect_value :: "effect \<Rightarrow> string" where
  "effect_value e = (case e of ALLOW \<Rightarrow> ''allow'' | DENY \<Rightarrow> ''deny'')"

datatype violation_mode = BLOCK | WARN | AUDIT

definition mode_value :: "violation_mode \<Rightarrow> string" where
  "mode_value m = (case m of BLOCK \<Rightarrow> ''block'' | WARN \<Rightarrow> ''warn'' | AUDIT \<Rightarrow> ''audit'')"

record eval_request =
  agent :: string
  rq_action :: string
  resource :: string
  rq_context :: pydict
  request_id :: "string option"

definition request_key :: "(rat \<Rightarrow> string) \<Rightarrow> (bytes \<Rightarrow> string) \<Rightarrow> eval_request \<Rightarrow> string" where
  "request_key fr sha r = sha (utf8 (dumps fr True (PDict
     [(''a'', PStr (agent r)), (''c'', PStr (rq_action r)), (''r'', PStr (resource r)), (''x'', PDict (rq_context r))])))"

record eval_result =
  effect_of :: effect
  guardrail_name :: string
  res_reason :: "string option"
  res_policy_id :: "string option"
  lakefs_sha :: "string option"
  res_time_ms :: rat
  metadata :: pydict

definition is_allowed :: "eval_result \<Rightarrow> bool" where
  "is_allowed r \<longleftrightarrow> effect_of r = ALLOW"

record explanation =
  ex_decision_id :: pyval
  ex_effect :: effect
  ex_name :: string
  ex_extraction :: pyval
  ex_policy :: pyval
  ex_rbac :: pyval
  ex_abac :: pyval
  ex_sha :: pyval
  ex_time_ms :: rat

text \<open>The one-paragraph text; the extraction and the policy are dictionaries when present.\<close>

definition has_key :: "pydict \<Rightarrow> string \<Rightarrow> bool" where
  "has_key d k \<longleftrightarrow> k \<in> set (dkeys d)"

definition as_items :: "pyval \<Rightarrow> pydict" where
  "as_items v = (case v of PDict d \<Rightarrow> d | _ \<Rightarrow> [])"

definition upper_effect :: "effect \<Rightarrow> string" where
  "upper_effect e = (case e of ALLOW \<Rightarrow> ''ALLOW'' | DENY \<Rightarrow> ''DENY'')"

definition is_blank :: "char \<Rightarrow> bool" where
  "is_blank c = (let n = code c in (9 \<le> n \<and> n \<le> 13) \<or> (28 \<le> n \<and> n \<le> 32) \<or> n = 133 \<or> n = 160)"

definition to_narrative :: "(rat \<Rightarrow> string) \<Rightarrow> explanation \<Rightarrow> string" where
  "to_narrative fr e =
     (let ext = as_items (ex_extraction e); pol = as_items (ex_policy e);
          t = py_str fr;
          found = (if ext \<noteq> [] \<and> has_key ext ''quote''
            then ''The AI found '' @ [CHR 0x22] @ t (pget ext ''quote'') @ [CHR 0x22] @ '' in the source document''
              @ (if has_key ext ''attribute'' \<and> has_key ext ''value''
                 then '' and interpreted it as '' @ t (pget ext ''attribute'') @ '' = '' @ t (pget ext ''value'') @ ''.''
                 else [])
            else []);
          applied = (if pol \<noteq> []
            then '' Policy '' @ t (dget_or pol ''name'' (PStr ''unknown'')) @ '' requires ''
              @ t (dget_or pol ''condition'' (PStr [])) @ ''.''
            else []);
          whole = found @ applied @ '' Result: '' @ upper_effect (ex_effect e) @ ''.''
      in rev (dropWhile is_blank (rev (dropWhile is_blank whole))))"

definition to_compliance_json :: "explanation \<Rightarrow> pydict" where
  "to_compliance_json e =
     [(''decision_id'', ex_decision_id e), (''effect'', PStr (effect_value (ex_effect e))),
      (''guardrail_name'', PStr (ex_name e)), (''extraction'', ex_extraction e), (''policy_applied'', ex_policy e),
      (''rbac_result'', ex_rbac e), (''abac_result'', ex_abac e), (''lakefs_sha'', ex_sha e),
      (''eval_time_ms'', PFloat (Fin (ex_time_ms e)))]"

definition base_explain :: "eval_result \<Rightarrow> explanation" where
  "base_explain r = \<lparr>ex_decision_id = pget (metadata r) ''request_id'', ex_effect = effect_of r,
     ex_name = guardrail_name r, ex_extraction = pget (metadata r) ''extraction'',
     ex_policy = pget (metadata r) ''policy_applied'', ex_rbac = pget (metadata r) ''rbac_result'',
     ex_abac = pget (metadata r) ''abac_result'', ex_sha = of_opt_str (lakefs_sha r), ex_time_ms = res_time_ms r\<rparr>"

section \<open>Policy spaces\<close>

record space_bound =
  low :: pyfloat
  high :: pyfloat
  dtype :: string

definition any_bound :: space_bound where
  "any_bound = \<lparr>low = NegInf, high = PosInf, dtype = ''float''\<rparr>"

record policy_space =
  ps_agents :: "string list"
  ps_actions :: "string list"
  ps_resources :: "string list"
  context_schema :: "(string, space_bound) dict"

definition in_bound :: "space_bound \<Rightarrow> pyval \<Rightarrow> bool" where
  "in_bound b v = (case num_of v of None \<Rightarrow> True | Some f \<Rightarrow> \<not> (fl_lt f (low b) \<or> fl_lt (high b) f))"

definition space_contains :: "policy_space \<Rightarrow> eval_request \<Rightarrow> bool" where
  "space_contains sp r \<longleftrightarrow>
     (ps_agents sp = [] \<or> agent r \<in> set (ps_agents sp))
     \<and> (ps_actions sp = [] \<or> rq_action r \<in> set (ps_actions sp))
     \<and> list_all (\<lambda>(att, b). in_bound b (pget (rq_context r) att)) (context_schema sp)"

definition hd_or :: "string \<Rightarrow> string list \<Rightarrow> string" where
  "hd_or d xs = (case xs of [] \<Rightarrow> d | x # _ \<Rightarrow> x)"

definition boundary_values :: "space_bound \<Rightarrow> pyfloat list" where
  "boundary_values b =
     (let eps = (if dtype b = ''int'' then Fin 1 else Fin (1 / 100)) in
      if low b = NegInf \<and> high b = PosInf then []
      else (if low b \<noteq> NegInf then [fl_sub (low b) eps, low b, fl_add (low b) eps] else [])
         @ (if high b \<noteq> PosInf then [fl_sub (high b) eps, high b, fl_add (high b) eps] else []))"

definition boundary_sample :: "policy_space \<Rightarrow> string \<Rightarrow> space_bound \<Rightarrow> pyfloat \<Rightarrow> eval_request res" where
  "boundary_sample sp att b v =
     rbind (if dtype b = ''int'' then rbind (to_int (\<lambda>_. None) (PFloat v)) (\<lambda>i. Inr (PInt i)) else Inr (PFloat v))
       (\<lambda>x. Inr \<lparr>agent = hd_or ''default'' (ps_agents sp), rq_action = hd_or ''access'' (ps_actions sp),
          resource = hd_or ''/'' (ps_resources sp), rq_context = [(att, x)], request_id = None\<rparr>)"

definition boundary_samples :: "policy_space \<Rightarrow> eval_request list res" where
  "boundary_samples sp = rmap (\<lambda>(att, b, v). boundary_sample sp att b v)
     (concat (map (\<lambda>(att, b). map (\<lambda>v. (att, b, v)) (boundary_values b)) (context_schema sp)))"

section \<open>Space algebra\<close>

definition bound_or_any :: "policy_space \<Rightarrow> string \<Rightarrow> space_bound" where
  "bound_or_any sp att = dget_or (context_schema sp) att any_bound"

definition all_attrs :: "policy_space \<Rightarrow> policy_space \<Rightarrow> string list" where
  \<comment> \<open>in the code a set: the order of the resulting dictionary is not determined, and nothing
    that reads it depends on it\<close>
  "all_attrs a b = remdups (dkeys (context_schema a) @ dkeys (context_schema b))"

definition sorted_union :: "string list \<Rightarrow> string list \<Rightarrow> string list" where
  "sorted_union xs ys = sort (remdups (xs @ ys))"

definition space_union :: "policy_space \<Rightarrow> policy_space \<Rightarrow> policy_space" where
  "space_union a b = \<lparr>ps_agents = sorted_union (ps_agents a) (ps_agents b),
     ps_actions = sorted_union (ps_actions a) (ps_actions b),
     ps_resources = sorted_union (ps_resources a) (ps_resources b),
     context_schema = map (\<lambda>att. (att, \<lparr>low = fl_min (low (bound_or_any a att)) (low (bound_or_any b att)),
        high = fl_max (high (bound_or_any a att)) (high (bound_or_any b att)),
        dtype = dtype (bound_or_any a att)\<rparr>)) (all_attrs a b)\<rparr>"

definition meet_lists :: "string list \<Rightarrow> string list \<Rightarrow> string list" where
  "meet_lists xs ys = (if xs \<noteq> [] \<and> ys \<noteq> [] then sort (remdups (filter (\<lambda>x. x \<in> set ys) xs))
     else if xs \<noteq> [] then xs else ys)"

fun glob_meet_row :: "string \<Rightarrow> string list \<Rightarrow> string list \<Rightarrow> string list" where
  "glob_meet_row ra [] acc = acc"
| "glob_meet_row ra (rb # rbs) acc = glob_meet_row ra rbs
     (if ra = rb then (if ra \<notin> set acc then acc @ [ra] else acc)
      else if fnmatch rb ra then (if rb \<notin> set acc then acc @ [rb] else acc)
      else if fnmatch ra rb then (if ra \<notin> set acc then acc @ [ra] else acc)
      else acc)"

definition glob_intersect :: "string list \<Rightarrow> string list \<Rightarrow> string list" where
  "glob_intersect ras rbs = sort (foldl (\<lambda>acc ra. glob_meet_row ra rbs acc) [] ras)"

definition space_intersection :: "policy_space \<Rightarrow> policy_space \<Rightarrow> policy_space" where
  "space_intersection a b = \<lparr>ps_agents = meet_lists (ps_agents a) (ps_agents b),
     ps_actions = meet_lists (ps_actions a) (ps_actions b),
     ps_resources = (if ps_resources a \<noteq> [] \<and> ps_resources b \<noteq> [] then glob_intersect (ps_resources a) (ps_resources b)
        else if ps_resources a \<noteq> [] then ps_resources a else ps_resources b),
     context_schema = map (\<lambda>att. (att, \<lparr>low = fl_max (low (bound_or_any a att)) (low (bound_or_any b att)),
        high = fl_min (high (bound_or_any a att)) (high (bound_or_any b att)),
        dtype = dtype (bound_or_any a att)\<rparr>)) (all_attrs a b)\<rparr>"

definition is_compatible :: "policy_space \<Rightarrow> policy_space \<Rightarrow> bool" where
  "is_compatible a b = (let i = space_intersection a b in
     \<not> (ps_agents a \<noteq> [] \<and> ps_agents b \<noteq> [] \<and> ps_agents i = [])
     \<and> \<not> (ps_actions a \<noteq> [] \<and> ps_actions b \<noteq> [] \<and> ps_actions i = [])
     \<and> \<not> (ps_resources a \<noteq> [] \<and> ps_resources b \<noteq> [] \<and> ps_resources i = [])
     \<and> list_all (\<lambda>(att, bd). \<not> fl_lt (high bd) (low bd)) (context_schema i))"

definition dimension :: "'a list \<Rightarrow> int" where
  "dimension xs = (if xs \<noteq> [] then int (length xs) else - 1)"

definition dimensionality :: "policy_space \<Rightarrow> (string, int) dict" where
  "dimensionality sp = [(''agents'', dimension (ps_agents sp)), (''actions'', dimension (ps_actions sp)),
     (''resources'', dimension (ps_resources sp)), (''context_attrs'', int (length (context_schema sp)))]"

section \<open>Role-based access control\<close>

record rbac_env =
  rb_name :: string
  rb_agents :: "string list"
  rb_actions :: "string list"
  rb_resources :: "string list"
  rb_space :: policy_space

definition make_rbac :: "string list option \<Rightarrow> string list option \<Rightarrow> string list option \<Rightarrow> string \<Rightarrow> rbac_env" where
  "make_rbac ag ac rs nm =
     (let l = (\<lambda>x. case x of None \<Rightarrow> [] | Some xs \<Rightarrow> xs) in
      \<lparr>rb_name = nm, rb_agents = l ag, rb_actions = l ac, rb_resources = l rs,
       rb_space = \<lparr>ps_agents = l ag, ps_actions = l ac, ps_resources = l rs, context_schema = []\<rparr>\<rparr>)"

definition rbac_evaluate :: "rbac_env \<Rightarrow> rat \<Rightarrow> rat \<Rightarrow> eval_request \<Rightarrow> eval_result" where
  "rbac_evaluate env started ended r =
     (let (denied, why) =
        (if agent r \<notin> set (rb_agents env)
         then (True, ''agent '' @ [CHR 0x27] @ agent r @ [CHR 0x27] @ '' not in allowed agents'')
         else if rq_action r \<notin> set (rb_actions env)
         then (True, ''action '' @ [CHR 0x27] @ rq_action r @ [CHR 0x27] @ '' not in allowed actions'')
         else if \<not> list_ex (\<lambda>pattern. fnmatch (resource r) pattern) (rb_resources env)
         then (True, ''resource '' @ [CHR 0x27] @ resource r @ [CHR 0x27] @ '' does not match any allowed pattern'')
         else (False, ''RBAC check passed''))
      in \<lparr>effect_of = (if denied then DENY else ALLOW), guardrail_name = rb_name env, res_reason = Some why,
          res_policy_id = None, lakefs_sha = None, res_time_ms = (ended - started) * 1000,
          metadata = [(''rbac_result'', PDict [(''agent'', PStr (agent r)),
            (''agent_permitted'', PBool (agent r \<in> set (rb_agents env))),
            (''action_permitted'', PBool (rq_action r \<in> set (rb_actions env)))])]\<rparr>)"

definition rbac_explain :: "eval_result \<Rightarrow> explanation" where
  "rbac_explain r = \<lparr>ex_decision_id = pget (metadata r) ''request_id'', ex_effect = effect_of r,
     ex_name = guardrail_name r, ex_extraction = PNone, ex_policy = PNone,
     ex_rbac = pget (metadata r) ''rbac_result'', ex_abac = PNone, ex_sha = PNone, ex_time_ms = res_time_ms r\<rparr>"

section \<open>Attribute-based access control\<close>

record abac_rule =
  attribute :: string
  operator :: string
  rule_value :: pyval
  rule_effect :: effect

record abac_env =
  ab_name :: string
  ab_rules :: "abac_rule list"
  ab_space :: policy_space

definition rnot :: "bool res \<Rightarrow> bool res" where
  "rnot m = rbind m (\<lambda>b. Inr (\<not> b))"

definition check_rule :: "abac_rule \<Rightarrow> pyval \<Rightarrow> bool res" where
  "check_rule rule actual = (let expected = rule_value rule; op = operator rule in
     if op = ''>='' then py_le expected actual
     else if op = ''<='' then py_le actual expected
     else if op = ''>'' then py_lt expected actual
     else if op = ''<'' then py_lt actual expected
     else if op = ''=='' then Inr (py_eq actual expected)
     else if op = ''!='' then Inr (\<not> py_eq actual expected)
     else if op = ''in'' then py_in actual expected
     else if op = ''not_in'' then rnot (py_in actual expected)
     else Inr False)"

text \<open>The space of a rule list; a later comparison on an attribute replaces an earlier bound.\<close>

fun build_space :: "abac_rule list \<Rightarrow> (string, space_bound) dict \<Rightarrow> (string, space_bound) dict" where
  "build_space [] sch = sch"
| "build_space (rule # rules) sch = build_space rules
     (case num_of (rule_value rule) of
        Some f \<Rightarrow>
          if operator rule \<in> {''>='', ''>''}
          then dset sch (attribute rule) \<lparr>low = f, high = PosInf, dtype = ''float''\<rparr>
          else if operator rule \<in> {''<='', ''<''}
          then dset sch (attribute rule) \<lparr>low = NegInf, high = f, dtype = ''float''\<rparr>
          else if attribute rule \<notin> set (dkeys sch) then dset sch (attribute rule) any_bound else sch
      | None \<Rightarrow> if attribute rule \<notin> set (dkeys sch) then dset sch (attribute rule) any_bound else sch)"

definition make_abac :: "abac_rule list option \<Rightarrow> string \<Rightarrow> abac_env" where
  "make_abac rs nm = (let rules = (case rs of None \<Rightarrow> [] | Some l \<Rightarrow> l) in
     \<lparr>ab_name = nm, ab_rules = rules,
      ab_space = \<lparr>ps_agents = [], ps_actions = [''access''], ps_resources = [], context_schema = build_space rules []\<rparr>\<rparr>)"

definition violation :: "abac_rule \<Rightarrow> pyval \<Rightarrow> pydict" where
  "violation rule actual = [(''violated_rule'', PDict [(''attribute'', PStr (attribute rule)),
     (''operator'', PStr (operator rule)), (''expected'', rule_value rule), (''actual'', actual)])]"

definition abac_result :: "abac_env \<Rightarrow> rat \<Rightarrow> effect \<Rightarrow> string \<Rightarrow> pydict \<Rightarrow> eval_result" where
  "abac_result env elapsed eff why meta =
     \<lparr>effect_of = eff, guardrail_name = ab_name env, res_reason = Some why, res_policy_id = None,
      lakefs_sha = None, res_time_ms = elapsed, metadata = meta\<rparr>"

text \<open>The rule loop; \<open>elapsed\<close> is the time measured when it ends.\<close>

fun abac_loop :: "(rat \<Rightarrow> string) \<Rightarrow> abac_env \<Rightarrow> rat \<Rightarrow> abac_rule list \<Rightarrow> eval_request \<Rightarrow> eval_result res" where
  "abac_loop fr env elapsed [] r = Inr (abac_result env elapsed ALLOW ''All ABAC rules passed'' [])"
| "abac_loop fr env elapsed (rule # rules) r =
     (let actual = pget (rq_context r) (attribute rule) in
      if actual = PNone
      then Inr (abac_result env elapsed (rule_effect rule)
        (''Missing attribute '' @ [CHR 0x27] @ attribute rule @ [CHR 0x27]) (violation rule PNone))
      else rbind (check_rule rule actual) (\<lambda>ok.
        if \<not> ok
        then Inr (abac_result env elapsed (rule_effect rule)
          (''Rule violated: '' @ attribute rule @ '' '' @ operator rule @ '' '' @ py_str fr (rule_value rule)
            @ '' (actual: '' @ py_str fr actual @ '')'') (violation rule actual))
        else abac_loop fr env elapsed rules r))"

definition abac_evaluate :: "(rat \<Rightarrow> string) \<Rightarrow> abac_env \<Rightarrow> rat \<Rightarrow> rat \<Rightarrow> eval_request \<Rightarrow> eval_result res" where
  "abac_evaluate fr env started ended r = abac_loop fr env ((ended - started) * 1000) (ab_rules env) r"

definition abac_explain :: "(rat \<Rightarrow> string) \<Rightarrow> eval_result \<Rightarrow> explanation" where
  "abac_explain fr r =
     (let violated = pget (metadata r) ''violated_rule''; v = as_items violated; t = py_str fr in
      \<lparr>ex_decision_id = pget (metadata r) ''request_id'', ex_effect = effect_of r, ex_name = guardrail_name r,
       ex_extraction = (if py_truthy violated
         then PDict [(''attribute'', pget v ''attribute''), (''value'', pget v ''actual''),
           (''quote'', PStr (t (pget v ''attribute'') @ '' is '' @ t (pget v ''actual'') @ '', expected ''
              @ t (pget v ''operator'') @ '' '' @ t (pget v ''expected'')))]
         else PNone),
       ex_policy = PNone, ex_rbac = PNone, ex_abac = violated, ex_sha = PNone, ex_time_ms = res_time_ms r\<rparr>)"

section \<open>Properties\<close>

text \<open>
  The RBAC environment allows a request exactly when its agent and action are listed and its
  resource matches one of the patterns, and a request it allows lies in the request space it
  declares.
\<close>

theorem rbac_grants_iff:
  "(is_allowed (rbac_evaluate (make_rbac ag ac rs nm) t0 t1 r) \<longleftrightarrow>
      agent r \<in> set (case ag of None \<Rightarrow> [] | Some l \<Rightarrow> l) \<and> rq_action r \<in> set (case ac of None \<Rightarrow> [] | Some l \<Rightarrow> l)
      \<and> (\<exists>p\<in>set (case rs of None \<Rightarrow> [] | Some l \<Rightarrow> l). fnmatch (resource r) p))
   \<and> \<not> (is_allowed (rbac_evaluate (make_rbac ag ac rs nm) t0 t1 r) \<and> \<not> space_contains (rb_space (make_rbac ag ac rs nm)) r)"
  by (auto simp: is_allowed_def rbac_evaluate_def make_rbac_def Let_def space_contains_def list_ex_iff)

definition rule_holds :: "abac_rule \<Rightarrow> eval_request \<Rightarrow> bool" where
  "rule_holds rule r \<longleftrightarrow> pget (rq_context r) (attribute rule) \<noteq> PNone
     \<and> check_rule rule (pget (rq_context r) (attribute rule)) = Inr True"

definition rule_fails :: "abac_rule \<Rightarrow> eval_request \<Rightarrow> bool" where
  "rule_fails rule r \<longleftrightarrow> pget (rq_context r) (attribute rule) = PNone
     \<or> check_rule rule (pget (rq_context r) (attribute rule)) = Inr False"

lemma rule_cases:
  obtains "rule_holds rule r" "\<not> rule_fails rule r" | "rule_fails rule r" "\<not> rule_holds rule r"
  | e where "pget (rq_context r) (attribute rule) \<noteq> PNone"
      "check_rule rule (pget (rq_context r) (attribute rule)) = Inl e" "\<not> rule_holds rule r" "\<not> rule_fails rule r"
proof (cases "check_rule rule (pget (rq_context r) (attribute rule))")
  case (Inr b)
  then show ?thesis using that(1,2) unfolding rule_holds_def rule_fails_def by (cases b) auto
qed (use that in \<open>auto simp: rule_holds_def rule_fails_def\<close>)

lemma abac_loop_holds: "rule_holds rule r \<Longrightarrow> abac_loop fr env el (rule # rules) r = abac_loop fr env el rules r"
  by (simp add: rule_holds_def)

lemma abac_loop_fails: "rule_fails rule r \<Longrightarrow>
  \<exists>res. abac_loop fr env el (rule # rules) r = Inr res \<and> effect_of res = rule_effect rule"
  by (auto simp: rule_fails_def abac_result_def Let_def)

lemma abac_loop_allows:
  "(\<exists>res. abac_loop fr env el rules r = Inr res \<and> is_allowed res) \<longleftrightarrow>
     (case dropWhile (\<lambda>rule. rule_holds rule r) rules of
        [] \<Rightarrow> True | rule # _ \<Rightarrow> rule_fails rule r \<and> rule_effect rule = ALLOW)"
proof (induction rules)
  case Nil
  then show ?case by (simp add: is_allowed_def abac_result_def)
next
  case (Cons rule rules)
  show ?case
  proof (cases rule r rule: rule_cases)
    case 1
    then show ?thesis using Cons abac_loop_holds [OF 1(1)] by simp
  next
    case 2
    then show ?thesis using abac_loop_fails [OF 2(1), of fr env el rules] by (auto simp: is_allowed_def)
  qed simp
qed

text \<open>
  An ABAC environment allows a request exactly when every rule holds for it, or the first rule
  that does not hold fails, by a missing attribute or a false comparison, and carries the effect
  ALLOW; the rules after it are not looked at. In particular, when all rules carry DENY, it allows
  exactly the requests for which all hold, in whatever order the rules are listed.
\<close>

theorem abac_allows_iff:
  "(\<exists>res. abac_evaluate fr env t0 t1 r = Inr res \<and> is_allowed res) \<longleftrightarrow>
     (case dropWhile (\<lambda>rule. rule_holds rule r) (ab_rules env) of
        [] \<Rightarrow> True | rule # _ \<Rightarrow> rule_fails rule r \<and> rule_effect rule = ALLOW)"
  unfolding abac_evaluate_def by (rule abac_loop_allows)

text \<open>A rule set in which a missing attribute under an ALLOW rule hides a DENY rule.\<close>

definition masked_rules :: abac_env where
  "masked_rules = make_abac (Some [\<lparr>attribute = ''note'', operator = ''=='', rule_value = PStr ''x'', rule_effect = ALLOW\<rparr>,
     \<lparr>attribute = ''age'', operator = ''>='', rule_value = PInt 18, rule_effect = DENY\<rparr>]) ''abac''"

definition minor :: eval_request where
  "minor = \<lparr>agent = ''a'', rq_action = ''access'', resource = ''r'', rq_context = [(''age'', PInt 12)], request_id = None\<rparr>"

lemma abac_allows_iff_witness:
  "\<exists>res. abac_evaluate (\<lambda>_. []) masked_rules 0 0 minor = Inr res \<and> is_allowed res"
  by (simp add: abac_allows_iff masked_rules_def make_abac_def rule_fails_def rule_holds_def minor_def pget_def dget_or_def)

text \<open>Membership in the intersection, dimension by dimension.\<close>

lemma meet_lists_iff:
  assumes "xs \<noteq> [] \<and> ys \<noteq> [] \<longrightarrow> meet_lists xs ys \<noteq> []"
  shows "(meet_lists xs ys = [] \<or> x \<in> set (meet_lists xs ys)) \<longleftrightarrow> (xs = [] \<or> x \<in> set xs) \<and> (ys = [] \<or> x \<in> set ys)"
  using assms by (auto simp: meet_lists_def)

definition bounds_ok :: "policy_space \<Rightarrow> bool" where
  "bounds_ok sp \<longleftrightarrow> distinct (dkeys (context_schema sp))
     \<and> (\<forall>(att, b)\<in>set (context_schema sp). low b \<noteq> NaN \<and> high b \<noteq> NaN)"

lemma fl_max_lt: "x \<noteq> NaN \<Longrightarrow> y \<noteq> NaN \<Longrightarrow> fl_lt f (fl_max x y) \<longleftrightarrow> fl_lt f x \<or> fl_lt f y"
  by (cases f; cases x; cases y) (auto simp: fl_max_def)

lemma fl_min_lt: "x \<noteq> NaN \<Longrightarrow> y \<noteq> NaN \<Longrightarrow> fl_lt (fl_min x y) f \<longleftrightarrow> fl_lt x f \<or> fl_lt y f"
  by (cases f; cases x; cases y) (auto simp: fl_min_def)

lemma bound_or_any_ok: "bounds_ok sp \<Longrightarrow> low (bound_or_any sp att) \<noteq> NaN \<and> high (bound_or_any sp att) \<noteq> NaN"
  by (auto simp: bounds_ok_def bound_or_any_def dget_or_def any_bound_def split: option.splits dest: map_of_SomeD)

lemma in_any_bound [simp]: "in_bound any_bound v"
proof -
  have "\<not> fl_lt f NegInf" "\<not> fl_lt PosInf f" for f by (cases f; simp)+
  then show ?thesis by (auto simp: in_bound_def any_bound_def split: option.splits)
qed

lemma schema_contains:
  assumes "bounds_ok sp" "set (dkeys (context_schema sp)) \<subseteq> set atts"
  shows "list_all (\<lambda>(att, b). in_bound b (pget c att)) (context_schema sp)
    \<longleftrightarrow> (\<forall>att\<in>set atts. in_bound (bound_or_any sp att) (pget c att))"
proof
  assume L: "list_all (\<lambda>(att, b). in_bound b (pget c att)) (context_schema sp)"
  show "\<forall>att\<in>set atts. in_bound (bound_or_any sp att) (pget c att)"
  proof
    fix att
    show "in_bound (bound_or_any sp att) (pget c att)"
      using L by (cases "dget (context_schema sp) att") (auto simp: bound_or_any_def dget_or_def list_all_iff dest: map_of_SomeD)
  qed
next
  assume R: "\<forall>att\<in>set atts. in_bound (bound_or_any sp att) (pget c att)"
  have "in_bound b (pget c att)" if "(att, b) \<in> set (context_schema sp)" for att b
  proof -
    have "dget (context_schema sp) att = Some b" using assms(1) that by (simp add: bounds_ok_def)
    moreover have "att \<in> set atts" using that assms(2) by force
    ultimately show ?thesis using R by (force simp: bound_or_any_def dget_or_def)
  qed
  then show "list_all (\<lambda>(att, b). in_bound b (pget c att)) (context_schema sp)" by (auto simp: list_all_iff)
qed

text \<open>
  For compatible spaces without NaN bounds, a request lies in the intersection exactly when it
  lies in both spaces.
\<close>

theorem intersection_contains_iff:
  assumes "is_compatible a b" "bounds_ok a" "bounds_ok b"
  shows "space_contains (space_intersection a b) r \<longleftrightarrow> space_contains a r \<and> space_contains b r"
proof -
  let ?atts = "all_attrs a b"
  have ag: "ps_agents a \<noteq> [] \<and> ps_agents b \<noteq> [] \<longrightarrow> meet_lists (ps_agents a) (ps_agents b) \<noteq> []"
    and ac: "ps_actions a \<noteq> [] \<and> ps_actions b \<noteq> [] \<longrightarrow> meet_lists (ps_actions a) (ps_actions b) \<noteq> []"
    using assms(1) by (auto simp: is_compatible_def space_intersection_def Let_def)
  have one: "in_bound \<lparr>low = fl_max (low (bound_or_any a att)) (low (bound_or_any b att)),
        high = fl_min (high (bound_or_any a att)) (high (bound_or_any b att)), dtype = d\<rparr> v
      \<longleftrightarrow> in_bound (bound_or_any a att) v \<and> in_bound (bound_or_any b att) v" for att v d
    using bound_or_any_ok [OF assms(2), of att] bound_or_any_ok [OF assms(3), of att]
    by (auto simp: in_bound_def fl_max_lt fl_min_lt split: option.splits)
  have "list_all (\<lambda>(att, b). in_bound b (pget (rq_context r) att)) (context_schema (space_intersection a b))
      \<longleftrightarrow> (\<forall>att\<in>set ?atts. in_bound (bound_or_any a att) (pget (rq_context r) att))
        \<and> (\<forall>att\<in>set ?atts. in_bound (bound_or_any b att) (pget (rq_context r) att))"
    by (auto simp: space_intersection_def list_all_iff one)
  also have "\<dots> \<longleftrightarrow> list_all (\<lambda>(att, b). in_bound b (pget (rq_context r) att)) (context_schema a)
      \<and> list_all (\<lambda>(att, b). in_bound b (pget (rq_context r) att)) (context_schema b)"
    using schema_contains [OF assms(2), of ?atts "rq_context r"] schema_contains [OF assms(3), of ?atts "rq_context r"]
    by (simp add: all_attrs_def)
  finally show ?thesis
    using meet_lists_iff [OF ag, of "agent r"] meet_lists_iff [OF ac, of "rq_action r"]
    unfolding space_contains_def by (simp add: space_intersection_def) blast
qed

definition adults :: policy_space where
  "adults = \<lparr>ps_agents = [''nurse'', ''doctor''], ps_actions = [''access''], ps_resources = [''chart/*''],
     context_schema = [(''age'', \<lparr>low = Fin 18, high = PosInf, dtype = ''float''\<rparr>)]\<rparr>"

definition seniors_out :: policy_space where
  "seniors_out = \<lparr>ps_agents = [''doctor''], ps_actions = [], ps_resources = [''chart/7''],
     context_schema = [(''age'', \<lparr>low = NegInf, high = Fin 65, dtype = ''float''\<rparr>)]\<rparr>"

lemma chart_matches: "fnmatch ''chart/7'' ''chart/*''"
  by (simp add: fnmatch_def)

lemma intersection_contains_iff_witness:
  "space_contains (space_intersection adults seniors_out) (minor\<lparr>agent := ''doctor'', rq_context := [(''age'', PInt 40)]\<rparr>)"
proof -
  have c: "is_compatible adults seniors_out" "bounds_ok adults" "bounds_ok seniors_out"
    by (simp_all add: is_compatible_def Let_def space_intersection_def adults_def seniors_out_def meet_lists_def
        glob_intersect_def chart_matches all_attrs_def bound_or_any_def dget_or_def fl_max_def fl_min_def bounds_ok_def)
  show ?thesis
    unfolding intersection_contains_iff [OF c]
    by (simp add: space_contains_def adults_def seniors_out_def minor_def in_bound_def pget_def dget_or_def)
qed

end
