(* ===== verification/Wrappers.thy ===== *)
theory Wrappers
  imports Guardrails
begin

text \<open>
  The environments, wrappers, batches and pipelines of \<open>guardrails/framework.py\<close>. An
  environment is its operations over a state (its own and that of everything it wraps), an
  evaluation may raise. The readings of \<open>time.monotonic\<close>, the random draws and whether a worker
  thread finished in time are arguments. The contract under which caching is transparent is the
  locale \<open>keyed_env\<close>. The results: a cache in front of RBAC changes no verdict and stays within
  its bound; a pipeline of deny-by-default stages always answers, and a stage that raises counts as a denial; the decision rule of each pipeline mode.
\<close>

section \<open>Environments and the delegating wrapper\<close>

type_synonym 's evaluator = "eval_request \<Rightarrow> 's \<Rightarrow> eval_result res \<times> 's"

record 's guardrail_env =
  env_name :: string
  env_space :: policy_space
  env_evaluate :: "'s evaluator"
  env_explain :: "eval_result \<Rightarrow> explanation"
  env_reset :: "pydict option \<Rightarrow> 's \<Rightarrow> 's"
  env_close :: "'s \<Rightarrow> 's"

text \<open>\<open>BaseGuardrailEnv\<close>: the defaults around an evaluation; \<open>GuardrailWrapper\<close>: everything is
  delegated, and a subclass replaces the evaluation.\<close>

definition base_env :: "string \<Rightarrow> policy_space \<Rightarrow> 's evaluator \<Rightarrow> 's guardrail_env" where
  "base_env nm sp ev = \<lparr>env_name = nm, env_space = sp, env_evaluate = ev, env_explain = base_explain,
     env_reset = \<lambda>_ s. s, env_close = \<lambda>s. s\<rparr>"

definition lift_state :: "('s \<Rightarrow> 's) \<Rightarrow> 'w \<times> 's \<Rightarrow> 'w \<times> 's" where
  "lift_state f ws = (fst ws, f (snd ws))"

definition wrap_env :: "'s guardrail_env \<Rightarrow> ('w \<times> 's) evaluator \<Rightarrow> ('w \<times> 's) guardrail_env" where
  "wrap_env env ev = \<lparr>env_name = env_name env, env_space = env_space env, env_evaluate = ev,
     env_explain = env_explain env, env_reset = \<lambda>c. lift_state (env_reset env c), env_close = lift_state (env_close env)\<rparr>"

definition transform_request :: "(eval_request \<Rightarrow> eval_request) \<Rightarrow> 's evaluator \<Rightarrow> 's evaluator" where
  "transform_request f ev r s = ev (f r) s"

definition transform_result :: "(eval_result \<Rightarrow> eval_result) \<Rightarrow> 's evaluator \<Rightarrow> 's evaluator" where
  "transform_result f ev r s = (let (res, s') = ev r s in (rbind res (\<lambda>x. Inr (f x)), s'))"

section \<open>Cache\<close>

record lru_cache =
  lru_ttl :: rat
  lru_max :: int
  lru_store :: "(string, eval_result \<times> rat) dict"

text \<open>\<open>while len(store) > max_entries: store.popitem(last=False)\<close>.\<close>

fun evict :: "int \<Rightarrow> (string, 'e) dict \<Rightarrow> unit res \<times> (string, 'e) dict" where
  "evict m d = (if int (length d) > m then
     (case d of [] \<Rightarrow> (Inl KeyError, []) | _ # d' \<Rightarrow> evict m d') else (Inr (), d))"

declare evict.simps [simp del]

definition move_to_end :: "(string, 'e) dict \<Rightarrow> string \<Rightarrow> 'e \<Rightarrow> (string, 'e) dict" where
  "move_to_end d k e = ddel d k @ [(k, e)]"

definition cache_hit :: "eval_result \<Rightarrow> eval_result" where
  "cache_hit r = r\<lparr>res_time_ms := 0, metadata := dset (metadata r) ''cache_hit'' (PBool True)\<rparr>"

definition cache_fill ::
  "string \<Rightarrow> rat \<Rightarrow> 's evaluator \<Rightarrow> eval_request \<Rightarrow> lru_cache \<Rightarrow> 's \<Rightarrow> eval_result res \<times> lru_cache \<times> 's" where
  "cache_fill k t_insert ev r c s =
     (let (out, s') = ev r s in
      case out of
        Inl e \<Rightarrow> (Inl e, c, s')
      | Inr x \<Rightarrow> (let (ok, d) = evict (lru_max c) (dset (lru_store c) k (x, t_insert)) in
          (rbind ok (\<lambda>_. Inr x), c\<lparr>lru_store := d\<rparr>, s')))"

definition cache_evaluate ::
  "(eval_request \<Rightarrow> string) \<Rightarrow> rat \<Rightarrow> rat \<Rightarrow> 's evaluator \<Rightarrow> (lru_cache \<times> 's) evaluator" where
  \<comment> \<open>the clock at the lookup and at the insertion\<close>
  "cache_evaluate cache_key t_lookup t_insert ev r cs =
     (let (c, s) = cs; k = cache_key r in
      case dget (lru_store c) k of
        Some (res, inserted_at) \<Rightarrow>
          if t_lookup - inserted_at \<le> lru_ttl c
          then (Inr (cache_hit res), c\<lparr>lru_store := move_to_end (lru_store c) k (res, inserted_at)\<rparr>, s)
          else cache_fill k t_insert ev r (c\<lparr>lru_store := ddel (lru_store c) k\<rparr>) s
      | None \<Rightarrow> cache_fill k t_insert ev r c s)"

section \<open>The other wrappers\<close>

text \<open>Timeout: \<open>in_time\<close> says whether the worker finished before the deadline. A run that did
  not goes on, and its result is dropped.\<close>

definition timeout_evaluate ::
  "string \<Rightarrow> string \<Rightarrow> effect \<Rightarrow> bool \<Rightarrow> rat \<Rightarrow> 's evaluator \<Rightarrow> 's evaluator" where
  "timeout_evaluate nm limit_text fallback in_time elapsed_ms ev r s =
     (let (out, s') = ev r s in
      if \<not> in_time
      then (Inr \<lparr>effect_of = fallback, guardrail_name = nm,
              res_reason = Some (''Timeout: exceeded '' @ limit_text @ ''ms deadline''), res_policy_id = None,
              lakefs_sha = None, res_time_ms = elapsed_ms, metadata = [(''timeout'', PBool True)]\<rparr>, s')
      else (rbind out (\<lambda>x. Inr (x\<lparr>res_time_ms := elapsed_ms\<rparr>)), s'))"

record audit_log =
  al_max :: int
  al_log :: "(eval_request \<times> eval_result) list"

definition audit_evaluate :: "'s evaluator \<Rightarrow> (audit_log \<times> 's) evaluator" where
  "audit_evaluate ev r ls =
     (let (l, s) = ls; (out, s') = ev r s in
      case out of
        Inl e \<Rightarrow> (Inl e, l, s')
      | Inr x \<Rightarrow> (Inr x, (if int (length (al_log l)) < al_max l then l\<lparr>al_log := al_log l @ [(r, x)]\<rparr> else l), s'))"

definition audit_flush :: "audit_log \<Rightarrow> (eval_request \<times> eval_result) list \<times> audit_log" where
  "audit_flush l = (al_log l, l\<lparr>al_log := []\<rparr>)"

definition sampling_evaluate :: "string \<Rightarrow> rat \<Rightarrow> rat \<Rightarrow> 's evaluator \<Rightarrow> 's evaluator" where
  "sampling_evaluate nm rate draw ev r s =
     (if draw > rate
      then (Inr \<lparr>effect_of = ALLOW, guardrail_name = nm, res_reason = Some ''Sampling: skipped'', res_policy_id = None,
              lakefs_sha = None, res_time_ms = 0, metadata = [(''sampled_out'', PBool True)]\<rparr>, s)
      else ev r s)"

definition deny_by_default :: "string \<Rightarrow> (pyexn \<Rightarrow> string) \<Rightarrow> (pyexn \<Rightarrow> string) \<Rightarrow> 's evaluator \<Rightarrow> 's evaluator" where
  \<comment> \<open>the class name and the text of an exception\<close>
  "deny_by_default nm class_of text_of ev r s =
     (let (out, s') = ev r s in
      case out of
        Inr x \<Rightarrow> (Inr x, s')
      | Inl e \<Rightarrow> (Inr \<lparr>effect_of = DENY, guardrail_name = nm,
            res_reason = Some (''Deny-by-default: '' @ class_of e @ '': '' @ text_of e), res_policy_id = None,
            lakefs_sha = None, res_time_ms = 0,
            metadata = [(''error'', PBool True), (''exception'', PStr (text_of e))]\<rparr>, s'))"

definition soften :: "violation_mode \<Rightarrow> eval_result \<Rightarrow> eval_result" where
  "soften mode x =
     (if effect_of x = DENY \<and> mode \<noteq> BLOCK
      then x\<lparr>effect_of := ALLOW, metadata := dset (dset (metadata x) ''violation_mode'' (PStr (mode_value mode)))
             ''original_effect'' (PStr ''deny'')\<rparr>
      else x)"

definition violation_mode_evaluate :: "violation_mode \<Rightarrow> 's evaluator \<Rightarrow> 's evaluator" where
  "violation_mode_evaluate mode ev = transform_result (soften mode) ev"

section \<open>Batches\<close>

fun run_all :: "('s evaluator \<times> eval_request) list \<Rightarrow> 's \<Rightarrow> eval_result list res \<times> 's" where
  "run_all [] s = (Inr [], s)"
| "run_all ((ev, r) # xs) s = (let (out, s1) = ev r s in
     case out of
       Inl e \<Rightarrow> (Inl e, s1)
     | Inr x \<Rightarrow> (let (rest, s2) = run_all xs s1 in (rbind rest (\<lambda>ys. Inr (x # ys)), s2)))"

definition evaluate_batch :: "'s evaluator list \<Rightarrow> eval_request list \<Rightarrow> 's \<Rightarrow> eval_result list res \<times> 's" where
  "evaluate_batch envs requests s =
     (case envs of
        [env] \<Rightarrow> run_all (map (\<lambda>r. (env, r)) requests) s
      | _ \<Rightarrow> (case requests of
          [req] \<Rightarrow> run_all (map (\<lambda>env. (env, req)) envs) s
        | _ \<Rightarrow> if length requests \<noteq> length envs then (Inl ValueError, s) else run_all (zip envs requests) s))"

definition from_single :: "'s evaluator \<Rightarrow> nat \<Rightarrow> 's evaluator list" where
  "from_single env n = replicate n env"

section \<open>Pipelines\<close>

datatype pipeline_mode = FIRST_DENY | ALL_STAGES | MAJORITY

record pipeline_result =
  final_effect :: effect
  individual_results :: "eval_result list"
  short_circuited :: bool
  pl_time_ms :: rat

definition settle :: "pipeline_mode \<Rightarrow> eval_result list \<Rightarrow> effect" where
  "settle mode results =
     (if mode = MAJORITY
      then (if 2 * length (filter (\<lambda>x. effect_of x = ALLOW) results) > length results then ALLOW else DENY)
      else (if list_ex (\<lambda>x. effect_of x = DENY) results then DENY else ALLOW))"

fun pipeline_loop ::
  "pipeline_mode \<Rightarrow> rat \<Rightarrow> 's evaluator list \<Rightarrow> eval_result list \<Rightarrow> eval_request \<Rightarrow> 's \<Rightarrow> pipeline_result res \<times> 's" where
  "pipeline_loop mode elapsed [] results r s =
     (Inr \<lparr>final_effect = settle mode results, individual_results = results, short_circuited = False,
           pl_time_ms = elapsed\<rparr>, s)"
| "pipeline_loop mode elapsed (stage # stages) results r s =
     (let (out, s') = stage r s in
      case out of
        Inl e \<Rightarrow> (Inl e, s')
      | Inr x \<Rightarrow>
          if mode = FIRST_DENY \<and> effect_of x = DENY
          then (Inr \<lparr>final_effect = DENY, individual_results = results @ [x], short_circuited = True,
                     pl_time_ms = elapsed\<rparr>, s')
          else pipeline_loop mode elapsed stages (results @ [x]) r s')"

definition pipeline_evaluate ::
  "pipeline_mode \<Rightarrow> rat \<Rightarrow> 's evaluator list \<Rightarrow> eval_request \<Rightarrow> 's \<Rightarrow> pipeline_result res \<times> 's" where
  \<comment> \<open>\<open>elapsed\<close>: the time measured when it ends\<close>
  "pipeline_evaluate mode elapsed stages r s = pipeline_loop mode elapsed stages [] r s"

fun check_compatibility :: "policy_space list \<Rightarrow> bool" where
  "check_compatibility (a # b # rest) = (is_compatible a b \<and> check_compatibility (b # rest))"
| "check_compatibility _ = True"

text \<open>\<open>SyncAdapter\<close>: the same operations behind \<open>async\<close>.\<close>

definition sync_adapter :: "'s guardrail_env \<Rightarrow> 's guardrail_env" where
  "sync_adapter env = \<lparr>env_name = env_name env, env_space = env_space env, env_evaluate = env_evaluate env,
     env_explain = env_explain env, env_reset = env_reset env, env_close = env_close env\<rparr>"

section \<open>When caching is transparent\<close>

definition verdict :: "eval_result \<Rightarrow> effect \<times> string \<times> string option" where
  "verdict x = (effect_of x, guardrail_name x, res_reason x)"

definition verdict_of :: "eval_result res \<Rightarrow> pyexn + effect \<times> string \<times> string option" where
  "verdict_of out = (case out of Inl e \<Rightarrow> Inl e | Inr x \<Rightarrow> Inr (verdict x))"

lemma verdict_of_simps [simp]: "verdict_of (Inl e) = Inl e" "verdict_of (Inr x) = Inr (verdict x)"
  by (simp_all add: verdict_of_def)

lemma verdict_cache_hit [simp]: "verdict (cache_hit x) = verdict x"
  by (simp add: verdict_def cache_hit_def)

text \<open>The contract: verdicts depend on the request only, and requests with one key have one
  verdict, or else the pair is \<open>excused\<close>.\<close>

locale keyed_env =
  fixes ev :: "'s evaluator"
    and decide :: "eval_request \<Rightarrow> pyexn + effect \<times> string \<times> string option"
    and key :: "eval_request \<Rightarrow> string"
    and excused :: "eval_request \<Rightarrow> eval_request \<Rightarrow> bool"
  assumes decides: "verdict_of (fst (ev r s)) = decide r"
    and same_key: "key r = key r' \<Longrightarrow> decide r = decide r' \<or> excused r r'"

lemma evict_drop: "0 \<le> m \<Longrightarrow> evict m d = (Inr (), drop (length d - nat m) d)"
proof (induction m d rule: evict.induct)
  case (1 m d)
  show ?case
  proof (cases "int (length d) > m")
    case True
    then obtain e d' where d: "d = e # d'" using 1(2) by (cases d) auto
    have "Suc (length d') - nat m = Suc (length d' - nat m)" using True 1(2) d by simp
    then show ?thesis using 1(1) [OF True d 1(2)] True unfolding d by (subst evict.simps) simp
  qed (simp add: evict.simps)
qed

lemma ddel_items: "set (ddel d k) \<subseteq> set d"
  by (auto simp: ddel_def)

lemma length_ddel_present: "dget d k = Some e \<Longrightarrow> length (ddel d k) < length d"
  unfolding ddel_def by (rule length_filter_less [of "(k, e)"]) (auto dest: map_of_SomeD)

lemma length_ddel: "length (ddel d k) \<le> length d"
  by (simp add: ddel_def)

text \<open>What is stored was answered for one of the requests in \<open>Q\<close>.\<close>

definition stored_ok ::
  "(eval_request \<Rightarrow> string) \<Rightarrow> (eval_request \<Rightarrow> pyexn + effect \<times> string \<times> string option) \<Rightarrow> eval_request set \<Rightarrow> lru_cache \<Rightarrow> bool" where
  "stored_ok key decide Q c \<longleftrightarrow> 0 \<le> lru_max c \<and> int (length (lru_store c)) \<le> lru_max c
     \<and> (\<forall>(k, x, t)\<in>set (lru_store c). \<exists>r\<in>Q. key r = k \<and> decide r = Inr (verdict x))"

fun cache_run ::
  "(eval_request \<Rightarrow> string) \<Rightarrow> 's evaluator \<Rightarrow> (eval_request \<times> rat \<times> rat) list \<Rightarrow> lru_cache \<times> 's \<Rightarrow>
   (eval_request \<times> eval_result res) list \<times> lru_cache \<times> 's" where
  "cache_run key ev [] cs = ([], cs)"
| "cache_run key ev ((r, t1, t2) # xs) cs =
     (let (out, cs') = cache_evaluate key t1 t2 ev r cs; (outs, cs'') = cache_run key ev xs cs' in ((r, out) # outs, cs''))"

lemma stored_ok_insert:
  assumes "0 \<le> lru_max c" "\<forall>(k, x, t)\<in>set d. \<exists>r\<in>Q. key r = k \<and> decide r = Inr (verdict x)" "decide r = Inr (verdict x)" "r \<in> Q"
    and "evict (lru_max c) (dset d (key r) (x, t)) = (ok, d')"
  shows "ok = Inr () \<and> stored_ok key decide Q (c\<lparr>lru_store := d'\<rparr>)"
proof -
  have d': "ok = Inr ()" "d' = drop (length (dset d (key r) (x, t)) - nat (lru_max c)) (dset d (key r) (x, t))"
    using assms(5) evict_drop [OF assms(1), of "dset d (key r) (x, t)"] by auto
  have "\<exists>r\<in>Q. key r = k \<and> decide r = Inr (verdict y)" if "(k, y, u) \<in> set d'" for k y u
  proof -
    have "(k, y, u) \<in> set (dset d (key r) (x, t))" using that d'(2) in_set_dropD by metis
    from dset_items [OF this] show ?thesis using assms(2-4) by fastforce
  qed
  then show ?thesis using d' assms(1) by (auto simp: stored_ok_def)
qed

context keyed_env begin

lemma cache_fill_transparent:
  assumes "stored_ok key decide Q c" "r \<in> Q" "cache_fill (key r) t2 ev r c s = (out, c', s')"
  shows "stored_ok key decide Q c' \<and> verdict_of out = decide r"
proof -
  obtain o1 s1 where e: "ev r s = (o1, s1)" by (cases "ev r s")
  have dec: "verdict_of o1 = decide r" using decides [of r s] e by simp
  show ?thesis
  proof (cases o1)
    case (Inl x)
    then show ?thesis using assms dec e by (auto simp: cache_fill_def)
  next
    case (Inr x)
    obtain ok d' where ev: "evict (lru_max c) (dset (lru_store c) (key r) (x, t2)) = (ok, d')"
      by (cases "evict (lru_max c) (dset (lru_store c) (key r) (x, t2))")
    have "ok = Inr () \<and> stored_ok key decide Q (c\<lparr>lru_store := d'\<rparr>)"
      using assms(1,2) dec Inr by (intro stored_ok_insert [where key = key and r = r, OF _ _ _ _ ev]) (auto simp: stored_ok_def)
    then show ?thesis using assms(3) Inr ev dec e by (auto simp: cache_fill_def)
  qed
qed

lemma cache_evaluate_transparent:
  assumes "stored_ok key decide Q c" "r \<in> Q" "cache_evaluate key t1 t2 ev r (c, s) = (out, c', s')"
  shows "stored_ok key decide Q c' \<and> (verdict_of out = decide r \<or> (\<exists>r'\<in>Q. excused r' r))"
proof (cases "dget (lru_store c) (key r)")
  case None
  then show ?thesis using cache_fill_transparent [OF assms(1,2)] assms(3) by (simp add: cache_evaluate_def Let_def)
next
  case (Some xt)
  obtain x t where xt: "xt = (x, t)" by (cases xt)
  have mem: "(key r, x, t) \<in> set (lru_store c)" using Some xt map_of_SomeD by fastforce
  show ?thesis
  proof (cases "t1 - t \<le> lru_ttl c")
    case True
    have "out = Inr (cache_hit x)" "c' = c\<lparr>lru_store := move_to_end (lru_store c) (key r) (x, t)\<rparr>"
      using assms(3) Some xt True by (auto simp: cache_evaluate_def Let_def)
    moreover have "stored_ok key decide Q (c\<lparr>lru_store := move_to_end (lru_store c) (key r) (x, t)\<rparr>)"
      using assms(1) mem length_ddel_present [OF Some] ddel_items [of "lru_store c" "key r"]
      by (auto simp: stored_ok_def move_to_end_def)
    moreover obtain r' where "r' \<in> Q" "key r' = key r" "decide r' = Inr (verdict x)"
      using assms(1) mem by (auto simp: stored_ok_def)
    ultimately show ?thesis using same_key [of r' r] by auto
  next
    case False
    have "stored_ok key decide Q (c\<lparr>lru_store := ddel (lru_store c) (key r)\<rparr>)"
      using assms(1) ddel_items [of "lru_store c" "key r"] length_ddel [of "lru_store c" "key r"]
      by (auto simp: stored_ok_def)
    from cache_fill_transparent [OF this assms(2)] show ?thesis
      using assms(3) Some xt False by (simp add: cache_evaluate_def Let_def)
  qed
qed

lemma cache_run_transparent:
  assumes "stored_ok key decide Q c" "fst ` set xs \<subseteq> Q" "cache_run key ev xs (c, s) = (outs, c', s')"
  shows "stored_ok key decide Q c' \<and> (\<forall>(r, out)\<in>set outs. verdict_of out = decide r \<or> (\<exists>r'\<in>Q. excused r' r))"
  using assms
proof (induction xs arbitrary: c s outs)
  case (Cons x xs)
  obtain r t1 t2 where x: "x = (r, t1, t2)" by (cases x)
  obtain out c1 s1 where st: "cache_evaluate key t1 t2 ev r (c, s) = (out, c1, s1)"
    by (cases "cache_evaluate key t1 t2 ev r (c, s)") auto
  obtain outs' where rest: "cache_run key ev xs (c1, s1) = (outs', c', s')" "outs = (r, out) # outs'"
    using Cons(4) x st by (auto split: prod.splits)
  have r: "r \<in> Q" "fst ` set xs \<subseteq> Q" using Cons(3) x by auto
  show ?case using cache_evaluate_transparent [OF Cons(2) r(1) st] Cons(1) [OF _ r(2) rest(1)] rest(2) by auto
qed simp

end

section \<open>A cache in front of RBAC\<close>

text \<open>The bytes whose digest is the key of a request; two requests whose bytes are a collision.\<close>

definition request_bytes :: "(rat \<Rightarrow> string) \<Rightarrow> eval_request \<Rightarrow> bytes" where
  "request_bytes fr r = utf8 (dumps fr True (PDict
     [(''a'', PStr (agent r)), (''c'', PStr (rq_action r)), (''r'', PStr (resource r)), (''x'', PDict (rq_context r))]))"

definition keys_collide :: "(rat \<Rightarrow> string) \<Rightarrow> (bytes \<Rightarrow> string) \<Rightarrow> eval_request \<Rightarrow> eval_request \<Rightarrow> bool" where
  "keys_collide fr sha r r' \<longleftrightarrow> request_bytes fr r \<noteq> request_bytes fr r' \<and> sha (request_bytes fr r) = sha (request_bytes fr r')"

definition rbac_evaluator :: "rbac_env \<Rightarrow> rat \<Rightarrow> rat \<Rightarrow> unit evaluator" where
  "rbac_evaluator env started ended r s = (Inr (rbac_evaluate env started ended r), s)"

definition rbac_verdict :: "rbac_env \<Rightarrow> eval_request \<Rightarrow> pyexn + effect \<times> string \<times> string option" where
  "rbac_verdict env r = Inr (verdict (rbac_evaluate env 0 0 r))"

lemma request_text:
  "dumps fr True (PDict [(''a'', PStr a), (''c'', PStr c), (''r'', PStr r), (''x'', x)]) =
     ''{'' @ json_str True ''a'' @ '': '' @ json_str True a @ '', '' @ json_str True ''c'' @ '': '' @ json_str True c @ '', ''
       @ json_str True ''r'' @ '': '' @ json_str True r @ '', '' @ json_str True ''x'' @ '': '' @ dumps fr True x @ ''}''"
  by (simp add: less_list_code)

lemma request_key_eq:
  assumes "request_key fr sha q = request_key fr sha q'" "\<not> keys_collide fr sha q q'"
  shows "agent q = agent q' \<and> rq_action q = rq_action q' \<and> resource q = resource q'"
proof -
  have eq: "dumps fr True (PDict [(''a'', PStr (agent q)), (''c'', PStr (rq_action q)), (''r'', PStr (resource q)), (''x'', PDict (rq_context q))])
      = dumps fr True (PDict [(''a'', PStr (agent q')), (''c'', PStr (rq_action q')), (''r'', PStr (resource q')), (''x'', PDict (rq_context q'))])"
    using assms unfolding request_key_def keys_collide_def request_bytes_def by (metis utf8_inj)
  have "json_str True (agent q) @ t = json_str True (agent q') @ t' \<Longrightarrow> agent q = agent q' \<and> t = t'" for t t'
    by (rule json_str_prefix)
  moreover have "json_str True (rq_action q) @ t = json_str True (rq_action q') @ t' \<Longrightarrow> rq_action q = rq_action q' \<and> t = t'" for t t'
    by (rule json_str_prefix)
  moreover have "json_str True (resource q) @ t = json_str True (resource q') @ t' \<Longrightarrow> resource q = resource q' \<and> t = t'" for t t'
    by (rule json_str_prefix)
  ultimately show ?thesis using eq unfolding request_text same_append_eq by blast
qed

lemma rbac_same_request:
  "agent q = agent q' \<Longrightarrow> rq_action q = rq_action q' \<Longrightarrow> resource q = resource q' \<Longrightarrow>
     rbac_evaluate env t0 t1 q = rbac_evaluate env t0 t1 q'"
  by (simp add: rbac_evaluate_def)

interpretation rbac: keyed_env "rbac_evaluator env t0 t1" "rbac_verdict env" "request_key fr sha" "keys_collide fr sha"
  for env t0 t1 fr sha
proof unfold_locales
  fix r s
  show "verdict_of (fst (rbac_evaluator env t0 t1 r s)) = rbac_verdict env r"
    by (simp add: rbac_evaluator_def rbac_verdict_def verdict_def rbac_evaluate_def Let_def split: prod.splits)
next
  fix r r'
  assume "request_key fr sha r = request_key fr sha r'"
  then show "rbac_verdict env r = rbac_verdict env r' \<or> keys_collide fr sha r r'"
    using request_key_eq rbac_same_request by (metis rbac_verdict_def)
qed

text \<open>
  C21: Caching RBAC is transparent and bounded: in every run of requests through an initially empty
  cache, at any clock readings and with any time-to-live and any bound of at least zero, every
  answer has the effect, name and reason the RBAC environment gives for that request, unless
  another request of the same run is exhibited whose serialized form differs and has the same SHA-256
  digest; and the cache never holds more entries than its bound.
\<close>

theorem cached_rbac_transparent:
  assumes "0 \<le> m" "cache_run (request_key fr sha) (rbac_evaluator env t0 t1) xs (\<lparr>lru_ttl = ttl, lru_max = m, lru_store = []\<rparr>, ()) = (outs, c, s)"
  shows "int (length (lru_store c)) \<le> lru_max c
    \<and> (\<forall>(r, out)\<in>set outs. (\<exists>x. out = Inr x \<and> verdict x = verdict (rbac_evaluate env 0 0 r))
         \<or> (\<exists>r'\<in>fst ` set xs. keys_collide fr sha r' r))"
proof -
  have "stored_ok (request_key fr sha) (rbac_verdict env) (fst ` set xs) \<lparr>lru_ttl = ttl, lru_max = m, lru_store = []\<rparr>"
    using assms(1) by (simp add: stored_ok_def)
  from rbac.cache_run_transparent [OF this subset_refl assms(2)]
  have c: "stored_ok (request_key fr sha) (rbac_verdict env) (fst ` set xs) c"
    and o: "\<forall>(r, out)\<in>set outs. verdict_of out = rbac_verdict env r \<or> (\<exists>r'\<in>fst ` set xs. keys_collide fr sha r' r)" by auto
  have "\<exists>x. out = Inr x \<and> verdict x = verdict (rbac_evaluate env 0 0 r)" if "verdict_of out = rbac_verdict env r" for r out
    using that by (cases out) (auto simp: rbac_verdict_def)
  then show ?thesis using c o by (auto simp: stored_ok_def)
qed

definition chart_rbac :: rbac_env where
  "chart_rbac = make_rbac (Some [''nurse'']) (Some [''read'']) (Some [''chart/7'']) ''rbac''"

definition read_chart :: "string \<Rightarrow> eval_request" where
  "read_chart who = \<lparr>agent = who, rq_action = ''read'', resource = ''chart/7'', rq_context = [], request_id = None\<rparr>"

theorem cached_rbac_transparent_witness:
  "list_all (\<lambda>(r, out). \<exists>x. out = Inr x \<and> verdict x = verdict (rbac_evaluate chart_rbac 0 0 r))
     (fst (cache_run (request_key fraction_text byte_text) (rbac_evaluator chart_rbac 0 0)
       [(read_chart ''nurse'', 0, 1), (read_chart ''nurse'', 2, 3), (read_chart ''visitor'', 4, 5), (read_chart ''nurse'', 6, 7)]
       (\<lparr>lru_ttl = 60, lru_max = 1, lru_store = []\<rparr>, ())))"
proof -
  let ?xs = "[(read_chart ''nurse'', 0, 1), (read_chart ''nurse'', 2, 3), (read_chart ''visitor'', 4, 5), (read_chart ''nurse'', 6, 7)] :: (eval_request \<times> rat \<times> rat) list"
  obtain outs c s where run: "cache_run (request_key fraction_text byte_text) (rbac_evaluator chart_rbac 0 0)
       ?xs (\<lparr>lru_ttl = 60, lru_max = 1, lru_store = []\<rparr>, ()) = (outs, c, s)"
    by (metis surj_pair)
  have "(0 :: int) \<le> 1" by simp
  from cached_rbac_transparent [OF this run] show ?thesis using run by (simp add: list_all_iff keys_collide_def)
qed

section \<open>Pipelines fail closed\<close>

lemma deny_by_default_total: "\<exists>x. fst (deny_by_default nm cl tx ev r s) = Inr x"
  by (auto simp: deny_by_default_def Let_def split: prod.splits sum.splits)

lemma deny_by_default_allows:
  "fst (deny_by_default nm cl tx ev r s) = Inr x \<Longrightarrow> is_allowed x \<Longrightarrow> fst (ev r s) = Inr x"
  by (auto simp: deny_by_default_def Let_def is_allowed_def split: prod.splits sum.splits)

lemma deny_by_default_state: "snd (deny_by_default nm cl tx ev r s) = snd (ev r s)"
  by (auto simp: deny_by_default_def Let_def split: prod.splits sum.splits)

text \<open>Which stages allow, each at the state the stages before it left; one that raises does not.\<close>

fun votes :: "'s evaluator list \<Rightarrow> eval_request \<Rightarrow> 's \<Rightarrow> bool list" where
  "votes [] r s = []"
| "votes (ev # evs) r s = (case fst (ev r s) of Inl e \<Rightarrow> False | Inr x \<Rightarrow> is_allowed x) # votes evs r (snd (ev r s))"

lemma effect_cases: "effect_of x \<noteq> DENY \<longleftrightarrow> effect_of x = ALLOW"
  by (cases "effect_of x") auto

lemma settle_allows:
  "settle mode results = ALLOW \<longleftrightarrow> (if mode = MAJORITY then length results < 2 * length (filter (\<lambda>x. effect_of x = ALLOW) results)
     else \<forall>x\<in>set results. effect_of x = ALLOW)"
  by (auto simp: settle_def list_ex_iff effect_cases [symmetric])

lemma pipeline_guarded:
  "\<exists>p. fst (pipeline_loop mode el (map (deny_by_default nm cl tx) evs) results r s) = Inr p
    \<and> (final_effect p = ALLOW \<longleftrightarrow>
        (if mode = MAJORITY
         then length results + length evs < 2 * (length (filter (\<lambda>x. effect_of x = ALLOW) results) + length (filter id (votes evs r s)))
         else (\<forall>x\<in>set results. effect_of x = ALLOW) \<and> list_all id (votes evs r s)))"
proof (induction evs arbitrary: results s)
  case Nil
  then show ?case by (simp add: settle_allows)
next
  case (Cons ev evs)
  obtain x s' where st: "deny_by_default nm cl tx ev r s = (Inr x, s')"
    using deny_by_default_total [of nm cl tx ev r s] by (metis prod.collapse)
  have s': "s' = snd (ev r s)" using deny_by_default_state [of nm cl tx ev r s] st by simp
  have x: "(case fst (ev r s) of Inl e \<Rightarrow> False | Inr y \<Rightarrow> is_allowed y) \<longleftrightarrow> effect_of x = ALLOW"
    using st by (auto simp: deny_by_default_def Let_def is_allowed_def split: prod.splits sum.splits)
  show ?case
  proof (cases "mode = FIRST_DENY \<and> effect_of x = DENY")
    case True
    then show ?thesis using st x by (simp add: Let_def)
  next
    case False
    show ?thesis using Cons [of "results @ [x]" s'] st False x s' by (auto split: if_splits)
  qed
qed

text \<open>
  C22: A pipeline whose stages are all wrapped in \<open>DenyByDefaultWrapper\<close> always returns a result, in every
  mode and whatever its stages raise, and a stage that raises counts as a denial. In the modes
  FIRST_DENY and ALL the final effect is ALLOW exactly when every stage, run in order, itself returns an
  allowing result; in the mode MAJORITY, which is documented as a majority vote, exactly when more than half of
  the stages do.
\<close>

theorem pipeline_fails_closed:
  "\<exists>p. fst (pipeline_evaluate mode elapsed (map (deny_by_default nm cl tx) evs) r s) = Inr p
    \<and> (final_effect p = ALLOW \<longleftrightarrow>
        (if mode = MAJORITY then length evs < 2 * length (filter id (votes evs r s)) else list_all id (votes evs r s)))"
  using pipeline_guarded [of mode elapsed nm cl tx evs "[]" r s] unfolding pipeline_evaluate_def by (simp split: if_splits)

text \<open>A stage that allows and one that raises: denied in every mode.\<close>

lemma pipeline_fails_closed_witness:
  "\<forall>mode. \<exists>p. fst (pipeline_evaluate mode 0 (map (deny_by_default ''p'' (\<lambda>_. ''E'') (\<lambda>_. []))
       [rbac_evaluator chart_rbac 0 0, \<lambda>r s. (Inl (RaisedBy ''boom''), s)]) (read_chart ''nurse'') ()) = Inr p
     \<and> final_effect p = DENY"
proof
  fix mode
  let ?evs = "[rbac_evaluator chart_rbac 0 0, \<lambda>r s. (Inl (RaisedBy ''boom''), s)]"
  from pipeline_fails_closed [of mode 0 "''p''" "\<lambda>_. ''E''" "\<lambda>_. []" ?evs "read_chart ''nurse''" "()"]
  obtain p where p: "fst (pipeline_evaluate mode 0 (map (deny_by_default ''p'' (\<lambda>_. ''E'') (\<lambda>_. [])) ?evs) (read_chart ''nurse'') ()) = Inr p"
    "final_effect p = ALLOW \<longleftrightarrow> (if mode = MAJORITY then length ?evs < 2 * length (filter id (votes ?evs (read_chart ''nurse'') ()))
       else list_all id (votes ?evs (read_chart ''nurse'') ()))" by blast
  have "final_effect p \<noteq> ALLOW" using p(2) by (simp split: if_splits)
  then show "\<exists>p. fst (pipeline_evaluate mode 0 (map (deny_by_default ''p'' (\<lambda>_. ''E'') (\<lambda>_. [])) ?evs) (read_chart ''nurse'') ()) = Inr p
     \<and> final_effect p = DENY"
    using p(1) by (cases "final_effect p") auto
qed

definition pure_stage :: "(eval_request \<Rightarrow> eval_result) \<Rightarrow> 's evaluator" where
  "pure_stage f r s = (Inr (f r), s)"

lemma pipeline_pure:
  "fst (pipeline_loop mode el (map pure_stage fs) results r s) =
     (let xs = map (\<lambda>f. f r) fs; us = takeWhile (\<lambda>x. effect_of x = ALLOW) xs in
      if mode = FIRST_DENY \<and> us \<noteq> xs
      then Inr \<lparr>final_effect = DENY, individual_results = results @ take (Suc (length us)) xs, short_circuited = True, pl_time_ms = el\<rparr>
      else Inr \<lparr>final_effect = settle mode (results @ xs), individual_results = results @ xs, short_circuited = False, pl_time_ms = el\<rparr>)"
proof (induction fs arbitrary: results)
  case (Cons f fs)
  show ?case
  proof (cases "mode = FIRST_DENY \<and> effect_of (f r) = DENY")
    case True
    then show ?thesis by (simp add: pure_stage_def Let_def)
  next
    case False
    have step: "fst (pipeline_loop mode el (map pure_stage (f # fs)) results r s)
        = fst (pipeline_loop mode el (map pure_stage fs) (results @ [f r]) r s)"
      using False by (auto simp: pure_stage_def Let_def)
    show ?thesis
    proof (cases "mode = FIRST_DENY")
      case True
      then have "effect_of (f r) = ALLOW" using False effect_cases by auto
      then show ?thesis unfolding step Cons using True by (simp add: Let_def)
    next
      case no: False
      then show ?thesis unfolding step Cons by (simp add: Let_def)
    qed
  qed
qed (simp add: Let_def)

text \<open>
  The decision rule over pure stages: with the results of all stages in order, ALL denies if one
  denies; FIRST_DENY gives the same final effect but reports only the results up to the first
  denial; MAJORITY allows exactly on a strict majority, so an empty pipeline denies there and
  allows in the other two modes.
\<close>

theorem pipeline_modes:
  "\<exists>p. fst (pipeline_evaluate mode elapsed (map pure_stage fs) r s) = Inr p
    \<and> (final_effect p = ALLOW \<longleftrightarrow>
        (if mode = MAJORITY then length fs < 2 * length (filter (\<lambda>f. effect_of (f r) = ALLOW) fs)
         else list_all (\<lambda>f. effect_of (f r) = ALLOW) fs))
    \<and> individual_results p =
        (if mode = FIRST_DENY
         then take (Suc (length (takeWhile (\<lambda>x. effect_of x = ALLOW) (map (\<lambda>f. f r) fs)))) (map (\<lambda>f. f r) fs)
         else map (\<lambda>f. f r) fs)"
proof -
  let ?xs = "map (\<lambda>f. f r) fs"
  let ?us = "takeWhile (\<lambda>x. effect_of x = ALLOW) ?xs"
  note run = pipeline_pure [of mode elapsed fs "[]" r s, unfolded Let_def]
  show ?thesis
  proof (cases "mode = FIRST_DENY \<and> ?us \<noteq> ?xs")
    case True
    then have "\<not> list_all (\<lambda>f. effect_of (f r) = ALLOW) fs"
      by (auto simp: list_all_iff takeWhile_eq_all_conv)
    then show ?thesis using run True by (simp add: pipeline_evaluate_def)
  next
    case False
    have "settle mode ?xs = ALLOW \<longleftrightarrow>
        (if mode = MAJORITY then length fs < 2 * length (filter (\<lambda>f. effect_of (f r) = ALLOW) fs)
         else list_all (\<lambda>f. effect_of (f r) = ALLOW) fs)"
      by (auto simp: settle_allows list_all_iff filter_map comp_def)
    moreover have "mode = FIRST_DENY \<longrightarrow> take (Suc (length ?us)) ?xs = ?xs"
    proof
      assume "mode = FIRST_DENY"
      then have "?us = ?xs" using False by blast
      then have "length ?us = length ?xs" by (rule arg_cong)
      then show "take (Suc (length ?us)) ?xs = ?xs" by simp
    qed
    ultimately show ?thesis using run False by (auto simp: pipeline_evaluate_def)
  qed
qed

end
