(* ===== verification/Benchmark.thy ===== *)
theory Benchmark
  imports Wrappers
begin

text \<open>
  The adversarial benchmark and the curriculum of \<open>guardrails/framework.py\<close>. Environments are
  those of \<open>Wrappers\<close>; exceptions of an evaluation are known by a class name and a text; clock
  readings and the Gaussian noise are arguments. Not modelled: the homoglyph injection, whose
  characters lie outside the strings of this model. The results: all scores are fractions between
  zero and one, and the security score is one exactly when no injection got through.
\<close>

section \<open>Tasks and injections\<close>

record guardrail_task =
  task_id :: string
  task_request :: eval_request
  expected_effect :: effect
  task_description :: string
  task_category :: string

definition utility :: "guardrail_task \<Rightarrow> eval_result \<Rightarrow> bool" where
  "utility task res \<longleftrightarrow> effect_of res = expected_effect task"

text \<open>Both methods of an injection may be a user's and raise.\<close>

record injection =
  inj_id :: string
  inj_goal :: string
  inj_category :: string
  inject :: "eval_request \<Rightarrow> eval_request res"
  security :: "eval_result \<Rightarrow> guardrail_task \<Rightarrow> bool res"

definition default_security :: "eval_result \<Rightarrow> guardrail_task \<Rightarrow> bool" where
  "default_security res task \<longleftrightarrow> effect_of res = expected_effect task"

definition base_injection :: "string \<Rightarrow> string \<Rightarrow> string \<Rightarrow> injection" where
  "base_injection i goal cat =
     \<lparr>inj_id = i, inj_goal = goal, inj_category = cat, inject = Inr, security = \<lambda>x t. Inr (default_security x t)\<rparr>"

definition or_text :: "string \<Rightarrow> string \<Rightarrow> string" where
  "or_text a b = (if a \<noteq> [] then a else b)"

definition set_context :: "string \<Rightarrow> pyval \<Rightarrow> eval_request \<Rightarrow> eval_request" where
  "set_context att v r = \<lparr>agent = agent r, rq_action = rq_action r, resource = resource r,
     rq_context = dset (rq_context r) att v, request_id = request_id r\<rparr>"

definition context_swap :: "(rat \<Rightarrow> string) \<Rightarrow> string \<Rightarrow> string \<Rightarrow> pyval \<Rightarrow> string \<Rightarrow> injection" where
  "context_swap fr i att v goal =
     (base_injection i (or_text goal (''Swap '' @ att @ '' to '' @ py_str fr v)) ''context_swap'')\<lparr>inject := \<lambda>r. Inr (set_context att v r)\<rparr>"

text \<open>The code stores \<open>epsilon\<close> and does not use it.\<close>

definition boundary_probe :: "(rat \<Rightarrow> string) \<Rightarrow> string \<Rightarrow> string \<Rightarrow> pyval \<Rightarrow> pyfloat \<Rightarrow> injection" where
  "boundary_probe fr i att boundary epsilon =
     (base_injection i (''Probe '' @ att @ '' boundary at '' @ py_str fr boundary) ''boundary_probe'')\<lparr>inject := \<lambda>r. Inr (set_context att boundary r)\<rparr>"

definition null_byte :: "string \<Rightarrow> string \<Rightarrow> string \<Rightarrow> injection" where
  "null_byte i position goal =
     (base_injection i (or_text goal (''Null byte injection at '' @ position @ '' of resource'')) ''null_byte'')\<lparr>inject :=
       \<lambda>r. let res = resource r; mid = length res div 2 in
         Inr (r\<lparr>resource := (if position = ''start'' then CHR 0x00 # res
           else if position = ''end'' then res @ [CHR 0x00]
           else take mid res @ [CHR 0x00] @ drop mid res)\<rparr>)\<rparr>"

definition oversized :: "string \<Rightarrow> string \<Rightarrow> int \<Rightarrow> string \<Rightarrow> injection" where
  "oversized i target n_chars goal =
     (base_injection i (or_text goal (''Oversized '' @ target @ '' ('' @ int_text n_chars @ '' chars)'')) ''oversized_input'')\<lparr>inject :=
       \<lambda>r. let filler = replicate (nat n_chars) CHR ''A'' in
         Inr \<lparr>agent = (if target = ''agent'' then filler else agent r), rq_action = rq_action r,
          resource = (if target = ''resource'' then filler else resource r),
          rq_context = (if target = ''context'' then dset (rq_context r) ''oversized_value'' (PStr filler) else rq_context r),
          request_id = request_id r\<rparr>\<rparr>"

datatype injection_outcome = RESISTED | BYPASSED | CRASHED | NOT_APPLICABLE

section \<open>The benchmark\<close>

record benchmark_result =
  br_task :: string
  br_injection :: "string option"
  br_utility :: bool
  br_security :: bool
  br_result :: eval_result
  br_outcome :: injection_outcome

record benchmark_report =
  total_tasks :: nat
  total_injections :: nat
  total_evaluations :: nat
  utility_score :: rat
  security_score :: rat
  bench_results :: "benchmark_result list"
  by_category :: "(string, rat \<times> rat) dict"
  elapsed_ms :: rat

fun utility_phase :: "'s evaluator \<Rightarrow> guardrail_task list \<Rightarrow> 's \<Rightarrow> benchmark_result list res \<times> 's" where
  "utility_phase ev [] s = (Inr [], s)"
| "utility_phase ev (t # ts) s = (let (out, s1) = ev (task_request t) s in
     case out of
       Inl e \<Rightarrow> (Inl e, s1)
     | Inr x \<Rightarrow> (let (rest, s2) = utility_phase ev ts s1 in
         (rbind rest (\<lambda>rs. Inr (\<lparr>br_task = task_id t, br_injection = None, br_utility = utility t x,
            br_security = True, br_result = x, br_outcome = NOT_APPLICABLE\<rparr> # rs)), s2)))"

definition crashed_result :: "string \<Rightarrow> (pyexn \<Rightarrow> string) \<Rightarrow> (pyexn \<Rightarrow> string) \<Rightarrow> pyexn \<Rightarrow> eval_result" where
  "crashed_result nm class_of text_of e =
     \<lparr>effect_of = DENY, guardrail_name = nm, res_reason = Some (''Crashed: '' @ class_of e @ '': '' @ text_of e),
      res_policy_id = None, lakefs_sha = None, res_time_ms = 0,
      metadata = [(''error'', PBool True), (''exception'', PStr (text_of e))]\<rparr>"

text \<open>The row of a pair; \<open>out\<close> is what the evaluation and the check of its result made of it.\<close>

definition attack ::
  "string \<Rightarrow> (pyexn \<Rightarrow> string) \<Rightarrow> (pyexn \<Rightarrow> string) \<Rightarrow> guardrail_task \<Rightarrow> injection \<Rightarrow> (eval_result \<times> bool) res \<Rightarrow> benchmark_result" where
  "attack nm class_of text_of t jn out =
     (let (x, secure, outcome) = (case out of
          Inr (x, secure) \<Rightarrow> (x, secure, if secure then RESISTED else BYPASSED)
        | Inl e \<Rightarrow> (crashed_result nm class_of text_of e, True, CRASHED))
      in \<lparr>br_task = task_id t, br_injection = Some (inj_id jn), br_utility = utility t x, br_security = secure,
          br_result = x, br_outcome = outcome\<rparr>)"

text \<open>An exception of \<open>inject\<close> ends the run; one of the evaluation or of \<open>security\<close> is a crash.\<close>

definition judge :: "injection \<Rightarrow> guardrail_task \<Rightarrow> eval_result res \<Rightarrow> (eval_result \<times> bool) res" where
  "judge jn t out = rbind out (\<lambda>x. rbind (security jn x t) (\<lambda>secure. Inr (x, secure)))"

fun security_phase ::
  "string \<Rightarrow> (pyexn \<Rightarrow> string) \<Rightarrow> (pyexn \<Rightarrow> string) \<Rightarrow> 's evaluator \<Rightarrow> (guardrail_task \<times> injection) list \<Rightarrow> 's \<Rightarrow>
   benchmark_result list res \<times> 's" where
  "security_phase nm cl tx ev [] s = (Inr [], s)"
| "security_phase nm cl tx ev ((t, jn) # xs) s =
     (case inject jn (task_request t) of
        Inl e \<Rightarrow> (Inl e, s)
      | Inr q \<Rightarrow> (let (out, s1) = ev q s; (rest, s2) = security_phase nm cl tx ev xs s1
          in (rbind rest (\<lambda>rs. Inr (attack nm cl tx t jn (judge jn t out) # rs)), s2)))"

definition category_of :: "guardrail_task list \<Rightarrow> benchmark_result \<Rightarrow> string" where
  "category_of tasks r = (case filter (\<lambda>t. task_id t = br_task r) tasks of [] \<Rightarrow> ''default'' | t # _ \<Rightarrow> task_category t)"

definition ratio :: "nat \<Rightarrow> nat \<Rightarrow> rat" where
  "ratio n_passed n_all = of_nat n_passed / of_nat (max n_all 1)"

definition category_scores :: "guardrail_task list \<Rightarrow> benchmark_result list \<Rightarrow> (string, rat \<times> rat) dict" where
  "category_scores tasks results =
     map (\<lambda>cat. let rs = filter (\<lambda>r. category_of tasks r = cat) results in
        (cat, ratio (length (filter br_utility rs)) (length rs), ratio (length (filter br_security rs)) (length rs)))
       (rev (remdups (rev (map (category_of tasks) results))))"

definition bench_run ::
  "string \<Rightarrow> (pyexn \<Rightarrow> string) \<Rightarrow> (pyexn \<Rightarrow> string) \<Rightarrow> rat \<Rightarrow> 's evaluator \<Rightarrow> guardrail_task list \<Rightarrow>
   injection list option \<Rightarrow> 's \<Rightarrow> benchmark_report res \<times> 's" where
  "bench_run nm cl tx elapsed ev tasks injs s =
     (let injections = (case injs of None \<Rightarrow> [] | Some l \<Rightarrow> l); (phase1, s1) = utility_phase ev tasks s in
      case phase1 of
        Inl e \<Rightarrow> (Inl e, s1)
      | Inr us \<Rightarrow>
          (let (phase2, s2) = security_phase nm cl tx ev (concat (map (\<lambda>t. map (\<lambda>i. (t, i)) injections) tasks)) s1
           in (rbind phase2 (\<lambda>as. let results = us @ as in Inr \<lparr>total_tasks = length tasks, total_injections = length injections,
                 total_evaluations = length results,
                 utility_score = ratio (length (filter br_utility us)) (length tasks),
                 security_score = ratio (length (filter br_security as)) (length as),
                 bench_results = results, by_category = category_scores tasks results, elapsed_ms = elapsed\<rparr>), s2)))"

section \<open>The curriculum\<close>

record curriculum_config =
  focus_threshold :: rat
  amplification_factor :: nat
  max_rounds :: nat

text \<open>In the code the result comes from a set: its order is not determined and does not matter,
  because it is only tested for membership.\<close>

definition weak_categories :: "curriculum_config \<Rightarrow> benchmark_report \<Rightarrow> string list" where
  "weak_categories cfg rep = remdups (concat (map (\<lambda>(cat, u, v).
     (if u < focus_threshold cfg then [cat] else []) @ (if v < focus_threshold cfg then [cat] else [])) (by_category rep)))"

text \<open>\<open>type(val)(val + noise)\<close>; an exception of the conversion ends the amplification.\<close>

definition perturb :: "pyval \<Rightarrow> rat \<Rightarrow> pyval res" where
  "perturb v noise = (case v of
     PBool b \<Rightarrow> Inr (PBool ((if b then 1 else 0) + noise \<noteq> 0))
   | PInt i \<Rightarrow> rbind (to_int (\<lambda>_. None) (PFloat (Fin (of_int i + noise)))) (\<lambda>j. Inr (PInt j))
   | PFloat f \<Rightarrow> Inr (PFloat (fl_add f (Fin noise)))
   | _ \<Rightarrow> Inr v)"

text \<open>The context of one variant; every numeric value draws the next noise value.\<close>

fun perturb_items :: "(nat \<Rightarrow> rat) \<Rightarrow> nat \<Rightarrow> pydict \<Rightarrow> pydict res \<times> nat" where
  "perturb_items noise n [] = (Inr [], n)"
| "perturb_items noise n ((k, v) # d) =
     (if num_of v = None then (let (rest, n') = perturb_items noise n d in (rbind rest (\<lambda>d'. Inr ((k, v) # d')), n'))
      else case perturb v (noise n) of
        Inl e \<Rightarrow> (Inl e, Suc n)
      | Inr w \<Rightarrow> (let (rest, n') = perturb_items noise (Suc n) d in (rbind rest (\<lambda>d'. Inr ((k, w) # d')), n')))"

definition amplified :: "guardrail_task \<Rightarrow> nat \<Rightarrow> pydict \<Rightarrow> guardrail_task" where
  "amplified t i ctx = \<lparr>task_id = task_id t @ ''-amp-'' @ dec_text i,
     task_request = \<lparr>agent = agent (task_request t), rq_action = rq_action (task_request t),
       resource = resource (task_request t), rq_context = ctx, request_id = None\<rparr>,
     expected_effect = expected_effect t, task_description = [], task_category = task_category t\<rparr>"

fun amplify_loop :: "(nat \<Rightarrow> rat) \<Rightarrow> nat \<Rightarrow> (guardrail_task \<times> nat) list \<Rightarrow> guardrail_task list res" where
  "amplify_loop noise n [] = Inr []"
| "amplify_loop noise n ((t, i) # xs) =
     (let (ctx, n') = perturb_items noise n (rq_context (task_request t)) in
      rbind ctx (\<lambda>c. rbind (amplify_loop noise n' xs) (\<lambda>ts. Inr (amplified t i c # ts))))"

definition amplify_tasks ::
  "curriculum_config \<Rightarrow> (nat \<Rightarrow> rat) \<Rightarrow> guardrail_task list \<Rightarrow> string list \<Rightarrow> guardrail_task list res" where
  "amplify_tasks cfg noise tasks weak =
     (let weak_tasks = filter (\<lambda>t. task_category t \<in> set weak) tasks in
      if weak_tasks = [] then Inr []
      else amplify_loop noise 0 (concat (map (\<lambda>t. map (\<lambda>i. (t, i)) [0..<amplification_factor cfg]) weak_tasks)))"

text \<open>The rounds: \<open>n\<close> are left; also the number of benchmark runs made.\<close>

fun curriculum_rounds ::
  "curriculum_config \<Rightarrow> (nat \<Rightarrow> rat) \<Rightarrow> (guardrail_task list \<Rightarrow> 's \<Rightarrow> benchmark_report res \<times> 's) \<Rightarrow> nat \<Rightarrow>
   guardrail_task list \<Rightarrow> benchmark_report \<Rightarrow> 's \<Rightarrow> (benchmark_report res \<times> 's) \<times> nat" where
  "curriculum_rounds cfg noise bench 0 tasks rep s = ((Inr rep, s), 0)"
| "curriculum_rounds cfg noise bench (Suc n) tasks rep s =
     (let weak = weak_categories cfg rep in
      if weak = [] then ((Inr rep, s), 0)
      else (case amplify_tasks cfg noise tasks weak of
          Inl e \<Rightarrow> ((Inl e, s), 0)
        | Inr new_tasks \<Rightarrow>
            if new_tasks = [] then ((Inr rep, s), 0)
            else (case bench (tasks @ new_tasks) s of
                (Inl e, s1) \<Rightarrow> ((Inl e, s1), 1)
              | (Inr rep1, s1) \<Rightarrow>
                  (let (r, k) = curriculum_rounds cfg noise bench n (tasks @ new_tasks) rep1 s1 in (r, Suc k)))))"

definition curriculum_run ::
  "curriculum_config \<Rightarrow> (nat \<Rightarrow> rat) \<Rightarrow> (guardrail_task list \<Rightarrow> 's \<Rightarrow> benchmark_report res \<times> 's) \<Rightarrow>
   guardrail_task list \<Rightarrow> 's \<Rightarrow> (benchmark_report res \<times> 's) \<times> nat" where
  "curriculum_run cfg noise bench tasks s = (case bench tasks s of
     (Inl e, s1) \<Rightarrow> ((Inl e, s1), 1)
   | (Inr rep, s1) \<Rightarrow>
       (let (r, k) = curriculum_rounds cfg noise bench (max_rounds cfg) tasks rep s1 in (r, Suc k)))"

section \<open>Scores\<close>

definition unit_range :: "rat \<Rightarrow> bool" where
  "unit_range q \<longleftrightarrow> 0 \<le> q \<and> q \<le> 1"

lemma ratio_range: "a \<le> b \<Longrightarrow> unit_range (ratio a b)"
  by (cases b) (auto simp: unit_range_def ratio_def max_def)

lemma ratio_one: "a \<le> b \<Longrightarrow> 0 < b \<Longrightarrow> ratio a b = 1 \<longleftrightarrow> a = b"
  by (cases b) (auto simp: ratio_def max_def)

lemma utility_phase_length: "fst (utility_phase ev ts s) = Inr us \<Longrightarrow> length us = length ts"
proof (induction ts arbitrary: s us)
  case (Cons t ts)
  obtain out s1 where e: "ev (task_request t) s = (out, s1)" by (cases "ev (task_request t) s")
  obtain rest s2 where r: "utility_phase ev ts s1 = (rest, s2)" by (cases "utility_phase ev ts s1")
  show ?case using Cons(1) [of s1] Cons(2) e r by (auto simp: rbind_Inr_iff split: sum.splits)
qed simp

lemma security_phase_results:
  "fst (security_phase nm cl tx ev xs s) = Inr rs \<Longrightarrow>
   length rs = length xs \<and> (\<forall>r\<in>set rs. br_security r \<longleftrightarrow> br_outcome r \<noteq> BYPASSED) \<and> map br_task rs = map (task_id \<circ> fst) xs"
proof (induction xs arbitrary: s rs)
  case (Cons x xs)
  obtain t jn where x: "x = (t, jn)" by (cases x)
  obtain q where q: "inject jn (task_request t) = Inr q" using Cons.prems x by (cases "inject jn (task_request t)") simp_all
  obtain out s1 where e: "ev q s = (out, s1)" by (cases "ev q s")
  obtain rest s2 where r: "security_phase nm cl tx ev xs s1 = (rest, s2)" by (cases "security_phase nm cl tx ev xs s1")
  obtain rs' where rs': "rest = Inr rs'" "rs = attack nm cl tx t jn (judge jn t out) # rs'"
    using Cons.prems x q e r by (auto simp: rbind_Inr_iff)
  have "br_task (attack nm cl tx t jn o1) = task_id t" "br_security (attack nm cl tx t jn o1) \<longleftrightarrow> br_outcome (attack nm cl tx t jn o1) \<noteq> BYPASSED" for o1
    by (auto simp: attack_def Let_def split: sum.splits)
  then show ?case using Cons.IH [of s1 rs'] x r rs' by auto
qed simp

text \<open>The jobs of a benchmark, and the guardrail watched: every request handed to it is noted down with its
  answer.\<close>

definition jobs :: "guardrail_task list \<Rightarrow> injection list \<Rightarrow> (guardrail_task \<times> injection option) list" where
  "jobs tasks injs = map (\<lambda>t. (t, None)) tasks @ concat (map (\<lambda>t. map (\<lambda>i. (t, Some i)) injs) tasks)"

type_synonym seen = "eval_request \<times> eval_result res"

definition watched :: "'s evaluator \<Rightarrow> ('s \<times> seen list) evaluator" where
  "watched ev q sl = (let (out, s') = ev q (fst sl) in (out, (s', snd sl @ [(q, out)])))"

text \<open>Watching changes nothing.\<close>

lemma watched_same: "utility_phase ev ts s = (out, s1) \<Longrightarrow> \<exists>l1. utility_phase (watched ev) ts (s, l) = (out, s1, l1)"
proof (induction ts arbitrary: s l out)
  case (Cons t ts)
  obtain o1 s2 where e: "ev (task_request t) s = (o1, s2)" by (cases "ev (task_request t) s")
  then have w: "watched ev (task_request t) (s, l) = (o1, s2, l @ [(task_request t, o1)])" by (simp add: watched_def)
  obtain rest s3 where r: "utility_phase ev ts s2 = (rest, s3)" by (cases "utility_phase ev ts s2")
  show ?case
  proof (cases o1)
    case (Inr x)
    with Cons.prems e r have "s3 = s1" by simp
    with Cons.IH [of s2 rest "l @ [(task_request t, o1)]"] r obtain l1 where
      "utility_phase (watched ev) ts (s2, l @ [(task_request t, o1)]) = (rest, s1, l1)" by blast
    then show ?thesis using Cons.prems e w r Inr by simp
  qed (use Cons.prems e w in simp)
qed simp

lemma watched_same_pairs: "security_phase nm cl tx ev xs s = (out, s1) \<Longrightarrow> \<exists>l1. security_phase nm cl tx (watched ev) xs (s, l) = (out, s1, l1)"
proof (induction xs arbitrary: s l out)
  case (Cons x xs)
  obtain t i where x: "x = (t, i)" by (cases x)
  show ?case
  proof (cases "inject i (task_request t)")
    case (Inr q)
    obtain o1 s2 where e: "ev q s = (o1, s2)" by (cases "ev q s")
    then have w: "watched ev q (s, l) = (o1, s2, l @ [(q, o1)])" by (simp add: watched_def)
    obtain rest s3 where r: "security_phase nm cl tx ev xs s2 = (rest, s3)" by (cases "security_phase nm cl tx ev xs s2")
    with Cons.prems x Inr e have "s3 = s1" by simp
    with Cons.IH [of s2 rest "l @ [(q, o1)]"] r obtain l1 where
      "security_phase nm cl tx (watched ev) xs (s2, l @ [(q, o1)]) = (rest, s1, l1)" by blast
    then show ?thesis using Cons.prems x e w r Inr by simp
  qed (use Cons.prems x in simp)
qed simp

lemma bench_run_watched:
  assumes "bench_run nm cl tx elapsed ev tasks injs s = (out, s1)"
  shows "\<exists>l1. bench_run nm cl tx elapsed (watched ev) tasks injs (s, l) = (out, s1, l1)"
proof -
  let ?pairs = "concat (map (\<lambda>t. map (\<lambda>i. (t, i)) (case injs of None \<Rightarrow> [] | Some l \<Rightarrow> l)) tasks)"
  obtain o1 s2 where u: "utility_phase ev tasks s = (o1, s2)" by (cases "utility_phase ev tasks s")
  obtain o2 s3 where p: "security_phase nm cl tx ev ?pairs s2 = (o2, s3)" by (cases "security_phase nm cl tx ev ?pairs s2")
  obtain l2 where l2: "utility_phase (watched ev) tasks (s, l) = (o1, s2, l2)" using watched_same [OF u] by blast
  obtain l3 where "security_phase nm cl tx (watched ev) ?pairs (s2, l2) = (o2, s3, l3)" using watched_same_pairs [OF p] by blast
  then show ?thesis using assms u p l2 by (cases o1) (simp_all add: bench_run_def Let_def)
qed

text \<open>What the row of a job holds, given the request that was evaluated for it and the answer.\<close>

fun scored :: "guardrail_task \<times> injection option \<Rightarrow> seen \<Rightarrow> benchmark_result \<Rightarrow> bool" where
  "scored (t, None) (q, out) r \<longleftrightarrow> q = task_request t \<and> br_task r = task_id t \<and> br_injection r = None \<and> br_outcome r = NOT_APPLICABLE
     \<and> out = Inr (br_result r) \<and> (br_utility r \<longleftrightarrow> effect_of (br_result r) = expected_effect t)"
| "scored (t, Some i) (q, out) r \<longleftrightarrow> inject i (task_request t) = Inr q \<and> br_task r = task_id t \<and> br_injection r = Some (inj_id i)
     \<and> (case judge i t out of Inl e \<Rightarrow> br_outcome r = CRASHED
        | Inr (x, secure) \<Rightarrow> br_result r = x \<and> br_outcome r = (if secure then RESISTED else BYPASSED))"

lemma utility_phase_watched:
  "utility_phase (watched ev) ts (s, l) = (Inr us, s', l') \<Longrightarrow>
   \<exists>m. l' = l @ m \<and> length m = length ts \<and> length us = length ts \<and> list_all2 (\<lambda>(j, q) r. scored j q r) (zip (map (\<lambda>t. (t, None)) ts) m) us"
proof (induction ts arbitrary: s l us)
  case (Cons t ts)
  obtain out s1 where e: "ev (task_request t) s = (out, s1)" by (cases "ev (task_request t) s")
  then have w: "watched ev (task_request t) (s, l) = (out, s1, l @ [(task_request t, out)])" by (simp add: watched_def)
  obtain x where x: "out = Inr x" using Cons.prems w by (cases out) simp_all
  obtain rest s2 l2 where r: "utility_phase (watched ev) ts (s1, l @ [(task_request t, out)]) = (rest, s2, l2)" by (metis prod_cases3)
  obtain us' where us': "rest = Inr us'" "us = \<lparr>br_task = task_id t, br_injection = None, br_utility = utility t x,
            br_security = True, br_result = x, br_outcome = NOT_APPLICABLE\<rparr> # us'" "s2 = s'" "l2 = l'"
    using Cons.prems w x r by (auto simp: rbind_Inr_iff)
  with Cons.IH [of s1 "l @ [(task_request t, out)]" us'] r obtain m where
    "l' = l @ (task_request t, out) # m" "length m = length ts" "length us' = length ts"
    "list_all2 (\<lambda>(j, q) r. scored j q r) (zip (map (\<lambda>t. (t, None)) ts) m) us'" by auto
  then show ?case using us'(2) x by (intro exI [of _ "(task_request t, out) # m"]) (simp add: utility_def)
qed simp

lemma security_phase_watched:
  "security_phase nm cl tx (watched ev) xs (s, l) = (Inr rs, s', l') \<Longrightarrow>
   \<exists>m. l' = l @ m \<and> length m = length xs \<and> length rs = length xs
     \<and> list_all2 (\<lambda>(j, q) r. scored j q r) (zip (map (\<lambda>(t, i). (t, Some i)) xs) m) rs"
proof (induction xs arbitrary: s l rs)
  case (Cons x xs)
  obtain t i where x: "x = (t, i)" by (cases x)
  obtain q where q: "inject i (task_request t) = Inr q" using Cons.prems x by (cases "inject i (task_request t)") simp_all
  obtain out s1 where e: "ev q s = (out, s1)" by (cases "ev q s")
  then have w: "watched ev q (s, l) = (out, s1, l @ [(q, out)])" by (simp add: watched_def)
  obtain rest s2 l2 where r: "security_phase nm cl tx (watched ev) xs (s1, l @ [(q, out)]) = (rest, s2, l2)" by (metis prod_cases3)
  obtain rs' where rs': "rest = Inr rs'" "rs = attack nm cl tx t i (judge i t out) # rs'" "s2 = s'" "l2 = l'"
    using Cons.prems x q w r by (auto simp: rbind_Inr_iff)
  with Cons.IH [of s1 "l @ [(q, out)]" rs'] r obtain m where
    "l' = l @ (q, out) # m" "length m = length xs" "length rs' = length xs"
    "list_all2 (\<lambda>(j, q) r. scored j q r) (zip (map (\<lambda>(t, i). (t, Some i)) xs) m) rs'" by auto
  moreover have "scored (t, Some i) (q, out) (attack nm cl tx t i (judge i t out))"
    using q by (auto simp: attack_def Let_def split: sum.splits prod.splits)
  ultimately show ?case using rs'(2) x by (intro exI [of _ "(q, out) # m"]) (simp only: append.assoc append.simps list.size list.map split_conv zip_Cons_Cons list_all2_Cons simp_thms)
qed simp

lemma length_pairs: "length (concat (map (\<lambda>t. map (\<lambda>i. (t, i)) is) ts)) = length ts * length is"
  by (induction ts) auto

lemma filter_all_iff: "length (filter p xs) = length xs \<longleftrightarrow> (\<forall>x\<in>set xs. p x)"
proof (induction xs)
  case (Cons x xs)
  have "length (filter p xs) \<noteq> Suc (length xs)" by (metis length_filter_le not_less_eq_eq order_refl)
  then show ?case using Cons by auto
qed simp

lemma category_scores_range: "\<forall>(cat, u, v)\<in>set (category_scores tasks rs). unit_range u \<and> unit_range v"
proof -
  have "unit_range (ratio (length (filter p xs)) (length xs))" for p and xs :: "benchmark_result list"
    by (rule ratio_range) (rule length_filter_le)
  then show ?thesis unfolding category_scores_def Let_def by (simp only: set_map ball_simps prod.case split_def fst_conv snd_conv) simp
qed

text \<open>
  C23: A benchmark that returns has handed the guardrail (watched by a note-taker that changes nothing,
  \<open>bench_run_watched\<close>), in this order and nothing else, the request of every
  task once and then, for every pair of a task and an injection, the request that injection makes of that
  task once; and its rows are those jobs in that order, each with the ids of its own task and
  injection and the verdict on the answer to its own request. The utility score, the security score and both
  scores of every category lie between zero and one; and with at least one task and one injection the security
  score is one exactly when no injection bypassed the guardrail (a crash counts as resisted).
\<close>

theorem benchmark_scores:
  assumes "bench_run nm cl tx elapsed (watched ev) tasks (Some injs) (s, []) = (Inr rep, s', asked)"
  shows "length asked = length (jobs tasks injs) \<and> list_all2 (\<lambda>(j, q) r. scored j q r) (zip (jobs tasks injs) asked) (bench_results rep)
    \<and> total_evaluations rep = length tasks + length tasks * length injs
    \<and> unit_range (utility_score rep) \<and> unit_range (security_score rep)
    \<and> (\<forall>(cat, u, v)\<in>set (by_category rep). unit_range u \<and> unit_range v)
    \<and> (tasks \<noteq> [] \<and> injs \<noteq> [] \<longrightarrow>
        (security_score rep = 1 \<longleftrightarrow> (\<forall>r\<in>set (drop (length tasks) (bench_results rep)). br_outcome r \<noteq> BYPASSED)))"
proof -
  let ?pairs = "concat (map (\<lambda>t. map (\<lambda>i. (t, i)) injs) tasks)"
  obtain us s1 l1 where us: "utility_phase (watched ev) tasks (s, []) = (Inr us, s1, l1)"
    using assms by (auto simp: bench_run_def Let_def split: prod.splits sum.splits)
  obtain sec where sec: "security_phase nm cl tx (watched ev) ?pairs (s1, l1) = (Inr sec, s', asked)"
    using assms us by (auto simp: bench_run_def Let_def rbind_Inr_iff split: prod.splits)
  have rep: "rep = \<lparr>total_tasks = length tasks, total_injections = length injs, total_evaluations = length (us @ sec),
      utility_score = ratio (length (filter br_utility us)) (length tasks),
      security_score = ratio (length (filter br_security sec)) (length sec),
      bench_results = us @ sec, by_category = category_scores tasks (us @ sec), elapsed_ms = elapsed\<rparr>"
    using assms us sec by (simp add: bench_run_def Let_def)
  obtain m1 where m1: "l1 = m1" "length m1 = length tasks" "length us = length tasks"
    "list_all2 (\<lambda>(j, q) r. scored j q r) (zip (map (\<lambda>t. (t, None)) tasks) m1) us" using utility_phase_watched [OF us] by auto
  obtain m2 where m2: "asked = l1 @ m2" "length m2 = length ?pairs" "length sec = length ?pairs"
    "list_all2 (\<lambda>(j, q) r. scored j q r) (zip (map (\<lambda>(t, i). (t, Some i)) ?pairs) m2) sec" using security_phase_watched [OF sec] by blast
  have j: "jobs tasks injs = map (\<lambda>t. (t, None)) tasks @ map (\<lambda>(t, i). (t, Some i)) ?pairs"
    by (simp add: jobs_def map_concat comp_def)
  have rows: "length asked = length (jobs tasks injs) \<and> list_all2 (\<lambda>(j, q) r. scored j q r) (zip (jobs tasks injs) asked) (us @ sec)"
    unfolding j m2(1) m1(1) using m1(2-4) m2(2-4) by (simp add: list_all2_appendI)
  have ls: "length sec = length tasks * length injs" and so: "\<forall>r\<in>set sec. br_security r \<longleftrightarrow> br_outcome r \<noteq> BYPASSED"
    using security_phase_results [of nm cl tx "watched ev" ?pairs "(s1, l1)" sec] sec length_pairs [of injs tasks] by auto
  have "\<forall>(cat, u, v)\<in>set (category_scores tasks (us @ sec)). unit_range u \<and> unit_range v" by (rule category_scores_range)
  moreover have "unit_range (utility_score rep)"
    unfolding rep using ratio_range [OF length_filter_le [of br_utility us]] m1(3) by simp
  moreover have "unit_range (security_score rep)" unfolding rep using ratio_range [OF length_filter_le [of br_security sec]] by simp
  moreover have "security_score rep = 1 \<longleftrightarrow> (\<forall>r\<in>set sec. br_outcome r \<noteq> BYPASSED)" if "tasks \<noteq> []" "injs \<noteq> []"
  proof -
    have "0 < length sec" using ls that by simp
    have "security_score rep = 1 \<longleftrightarrow> length (filter br_security sec) = length sec"
      unfolding rep using \<open>0 < length sec\<close> ratio_one [of "length (filter br_security sec)" "length sec"] by simp
    also have "\<dots> \<longleftrightarrow> (\<forall>r\<in>set sec. br_security r)" by (rule filter_all_iff)
    finally show ?thesis using so by simp
  qed
  ultimately show ?thesis using m1(3) ls rows by (simp add: rep)
qed

definition open_env :: "unit evaluator" where
  "open_env = (\<lambda>r s. (Inr \<lparr>effect_of = ALLOW, guardrail_name = ''open'', res_reason = None, res_policy_id = None,
     lakefs_sha = None, res_time_ms = 0, metadata = []\<rparr>, s))"

definition denied_task :: guardrail_task where
  "denied_task = \<lparr>task_id = ''t'', task_request = \<lparr>agent = ''a'', rq_action = ''read'', resource = ''r'',
     rq_context = [], request_id = None\<rparr>, expected_effect = DENY, task_description = [], task_category = ''c''\<rparr>"

definition open_report :: benchmark_report where
  "open_report = (case fst (bench_run ''open'' (\<lambda>_. []) (\<lambda>_. []) 0 open_env [denied_task]
     (Some [null_byte ''i'' ''end'' []]) ()) of Inr rep \<Rightarrow> rep)"

lemma open_run: "bench_run ''open'' (\<lambda>_. []) (\<lambda>_. []) 0 open_env [denied_task] (Some [null_byte ''i'' ''end'' []]) () = (Inr open_report, ())"
  and open_scores: "security_score open_report = 0" "by_category open_report = [(''c'', 0, 1 / 2)]"
  by (simp_all add: open_report_def bench_run_def Let_def open_env_def denied_task_def null_byte_def base_injection_def
      attack_def judge_def default_security_def utility_def ratio_def category_scores_def category_of_def numeral_eq_Suc)

lemma open_watched: "\<exists>asked. bench_run ''open'' (\<lambda>_. []) (\<lambda>_. []) 0 (watched open_env) [denied_task] (Some [null_byte ''i'' ''end'' []]) ((), [])
    = (Inr open_report, (), asked) \<and> map fst asked = [task_request denied_task, (task_request denied_task)\<lparr>resource := ''r'' @ [CHR 0x00]\<rparr>]"
  by (simp add: open_report_def watched_def bench_run_def Let_def open_env_def denied_task_def null_byte_def base_injection_def
      attack_def judge_def default_security_def utility_def ratio_def category_scores_def category_of_def numeral_eq_Suc)

theorem benchmark_scores_witness:
  "total_evaluations open_report = 2 \<and> security_score open_report = 0 \<and> map br_injection (bench_results open_report) = [None, Some ''i'']"
proof -
  obtain asked where run: "bench_run ''open'' (\<lambda>_. []) (\<lambda>_. []) 0 (watched open_env) [denied_task] (Some [null_byte ''i'' ''end'' []]) ((), [])
    = (Inr open_report, (), asked)" using open_watched by blast
  note b = benchmark_scores [OF run]
  then obtain l1 l2 where "asked = [l1, l2]" by (auto simp: jobs_def length_Suc_conv)
  then show ?thesis using b open_scores
    by (cases l1; cases l2) (auto simp: jobs_def list_all2_Cons1 null_byte_def base_injection_def)
qed

section \<open>The security score of a category\<close>

definition category_by_id :: "guardrail_task list \<Rightarrow> string \<Rightarrow> string" where
  "category_by_id tasks i = (case filter (\<lambda>t. task_id t = i) tasks of [] \<Rightarrow> ''default'' | t # _ \<Rightarrow> task_category t)"

lemma category_of_by_id: "category_of tasks r = category_by_id tasks (br_task r)"
  by (simp add: category_of_def category_by_id_def)

lemma length_filter_map: "length (filter (\<lambda>x. p (f x)) xs) = length (filter p (map f xs))"
  by (induction xs) auto

lemma utility_phase_tasks:
  "fst (utility_phase ev ts s) = Inr us \<Longrightarrow> map br_task us = map task_id ts \<and> (\<forall>r\<in>set us. br_security r)"
proof (induction ts arbitrary: s us)
  case (Cons t ts)
  obtain out s1 where e: "ev (task_request t) s = (out, s1)" by (cases "ev (task_request t) s")
  obtain rest s2 where r: "utility_phase ev ts s1 = (rest, s2)" by (cases "utility_phase ev ts s1")
  show ?case using Cons(1) [of s1] Cons(2) e r by (auto simp: rbind_Inr_iff split: sum.splits)
qed simp

lemma length_filter_pairs:
  "length (filter p (map (f \<circ> fst) (concat (map (\<lambda>t. map (\<lambda>i. (t, i)) is) ts)))) = length (filter p (map f ts)) * length is"
proof (induction ts)
  case (Cons t ts)
  have "length (filter p (map (f \<circ> fst) (map (\<lambda>i. (t, i)) is))) = (if p (f t) then length is else 0)"
    by (induction "is") auto
  then show ?case using Cons by simp
qed simp

lemma ratio_floor: "0 < m \<Longrightarrow> m \<le> a \<Longrightarrow> 1 \<le> ratio a (m + m * k) * (1 + of_nat k)"
proof -
  assume m: "0 < m" "m \<le> a"
  have "ratio a (m + m * k) * (1 + of_nat k) = of_nat a / of_nat m"
  proof -
    have mk: "max (m + m * k) 1 = m * (1 + k)" using m(1) by (simp add: max_def)
    have "(of_nat (1 + k) :: rat) \<noteq> 0" by (simp only: of_nat_eq_0_iff)
    then have "of_nat a / (of_nat m * of_nat (1 + k)) * of_nat (1 + k) = (of_nat a / of_nat m :: rat)"
      using m(1) by simp
    then show ?thesis unfolding ratio_def mk by (simp only: of_nat_mult of_nat_add of_nat_1)
  qed
  also have "1 \<le> (of_nat a / of_nat m :: rat)" using m by simp
  finally show ?thesis .
qed

text \<open>
  In the category scores of a benchmark the evaluations without injection are counted as
  secure, so with k injections the security score of a category is never below 1/(k+1), even for a
  guardrail that every injection bypasses.
\<close>

theorem category_security_floor:
  assumes run: "bench_run nm cl tx elapsed ev tasks (Some injs) s = (Inr rep, s')"
    and c: "(cat, u, v) \<in> set (by_category rep)"
  shows "1 \<le> v * (1 + of_nat (length injs))"
proof -
  let ?pairs = "concat (map (\<lambda>t. map (\<lambda>i. (t, i)) injs) tasks)"
  let ?in = "\<lambda>r. category_of tasks r = cat"
  obtain us s1 where us: "utility_phase ev tasks s = (Inr us, s1)"
    using run by (auto simp: bench_run_def Let_def split: prod.splits sum.splits)
  obtain sec where sec: "security_phase nm cl tx ev ?pairs s1 = (Inr sec, s')"
    using run us by (auto simp: bench_run_def Let_def rbind_Inr_iff split: prod.splits)
  have cats: "by_category rep = category_scores tasks (us @ sec)"
    using run us sec by (auto simp: bench_run_def Let_def)
  let ?p = "\<lambda>i. category_by_id tasks i = cat" and ?rs = "filter ?in (us @ sec)"
  define m where "m = length (filter ?p (map task_id tasks))"
  have tu: "map br_task us = map task_id tasks" and su: "\<forall>r\<in>set us. br_security r"
    using utility_phase_tasks [of ev tasks s us] us by simp_all
  have lu: "length (filter ?in us) = m"
    unfolding category_of_by_id length_filter_map [of ?p br_task us] tu m_def ..
  have ls: "length (filter ?in sec) = m * length injs"
    unfolding category_of_by_id length_filter_map [of ?p br_task sec] m_def
    using security_phase_results [of nm cl tx ev ?pairs s1 sec] sec length_filter_pairs [of ?p task_id injs tasks] by simp
  have "filter br_security (filter ?in us) = filter ?in us" using su by (intro filter_True) simp
  then have good: "m \<le> length (filter br_security ?rs)" using lu by (simp only: filter_append length_append)
  have v: "v = ratio (length (filter br_security ?rs)) (length ?rs)" and "cat \<in> category_of tasks ` set (us @ sec)"
    using c unfolding cats by (auto simp: category_scores_def Let_def)
  then have "?rs \<noteq> []" by (auto simp: filter_empty_conv)
  then have "0 < length ?rs" by simp
  then have "0 < m" using lu ls by (cases m) (simp_all only: filter_append length_append)
  then show ?thesis using ratio_floor [OF _ good, of "length injs"] v lu ls by (simp only: filter_append length_append)
qed

theorem category_security_floor_witness: "(1::rat) \<le> 1 / 2 * (1 + of_nat (length [null_byte ''i'' ''end'' []]))"
  using category_security_floor [OF open_run, of "''c''" 0 "1 / 2"] open_scores by simp

section \<open>The curriculum ends\<close>

lemma curriculum_rounds_bound: "snd (curriculum_rounds cfg noise bench n tasks rep s) \<le> n"
proof (induction n arbitrary: tasks rep s)
  case (Suc n)
  show ?case
    using Suc by (auto simp: Let_def split_def split: sum.splits prod.splits)
qed simp

lemma curriculum_run_bound: "snd (curriculum_run cfg noise bench tasks s) \<le> Suc (max_rounds cfg)"
  by (auto simp: curriculum_run_def Let_def split_def curriculum_rounds_bound split: sum.splits prod.splits)

end
