(* ===== verification/Registry.thy ===== *)
theory Registry
  imports Wrappers IsoParse
begin

text \<open>
  The registry of \<open>guardrails/framework.py\<close>: \<open>EnvSpec\<close>, \<open>GuardrailRegistry\<close> and the module-level
  functions over the default registry, whose state is passed explicitly. Importing a module,
  looking up its attribute, calling the constructor and the \<open>isinstance\<close> test are arguments of
  \<open>make\<close>. The results: a registered specification stays under its id for good, and an id resolves
  only to itself, to the one namespaced guardrail of that name, or to its highest version.
\<close>

section \<open>Splitting and reading strings\<close>

definition starts_with :: "string \<Rightarrow> string \<Rightarrow> bool" where
  "starts_with p s \<longleftrightarrow> take (length p) s = p"

text \<open>\<open>s.split("/", 1)[1]\<close>, and \<open>s.rsplit(p, 1)\<close>: what follows the last occurrence of \<open>p\<close>.\<close>

definition after_slash :: "string \<Rightarrow> string option" where
  "after_slash s = (case dropWhile (\<lambda>c. c \<noteq> CHR ''/'') s of [] \<Rightarrow> None | _ # t \<Rightarrow> Some t)"

fun after_last :: "string \<Rightarrow> string \<Rightarrow> string option" where
  "after_last p [] = None"
| "after_last p (c # s) = (case after_last p s of
     Some t \<Rightarrow> Some t
   | None \<Rightarrow> if starts_with p (c # s) then Some (drop (length p) (c # s)) else None)"

text \<open>\<open>int(s)\<close>: surrounding blanks, a sign, digits with single underscores between them, at most
  4300 digits.\<close>

definition int_blank :: "bool \<Rightarrow> char \<Rightarrow> bool" where
  "int_blank ascii c \<longleftrightarrow> (9 \<le> code c \<and> code c \<le> 13) \<or> code c = 32
     \<or> (\<not> ascii \<and> (28 \<le> code c \<and> code c \<le> 31 \<or> code c = 133 \<or> code c = 160))"

fun read_digits :: "string \<Rightarrow> int \<Rightarrow> bool \<Rightarrow> int option" where
  "read_digits [] acc after_digit = (if after_digit then Some acc else None)"
| "read_digits (c # s) acc after_digit =
     (if is_digit c then read_digits s (acc * 10 + int (code c - 48)) True
      else if c = CHR ''_'' \<and> after_digit then read_digits s acc False
      else None)"

definition int_of_string :: "string \<Rightarrow> int option" where
  "int_of_string s =
     (let ascii = list_all (\<lambda>c. code c < 128) s;
          strip = dropWhile (int_blank ascii);
          body = rev (strip (rev (strip s)));
          (sign, digits) = (case body of
             CHR ''-'' # t \<Rightarrow> (- 1, t) | CHR ''+'' # t \<Rightarrow> (1, t) | t \<Rightarrow> (1, t))
      in if 4300 < length (filter is_digit digits) then None
         else map_option (\<lambda>n. sign * n) (read_digits digits 0 False))"

section \<open>Specifications and registration\<close>

record env_spec =
  spec_id :: string
  entry_point :: string
  spec_kwargs :: pydict
  version :: "int option"
  namespace :: "string option"
  spec_description :: string
  spec_tags :: "string list"
  max_eval_time_ms :: "rat option"

type_synonym registry_state = "(string, env_spec) dict"

text \<open>\<open>_NAMESPACE_RE.match\<close>: the \<open>$\<close> also matches before one final newline.\<close>

definition namespace_char :: "char \<Rightarrow> bool" where
  "namespace_char c \<longleftrightarrow> (65 \<le> code c \<and> code c \<le> 90) \<or> (97 \<le> code c \<and> code c \<le> 122) \<or> is_digit c
     \<or> c = CHR ''_'' \<or> c = CHR ''-''"

definition namespace_ok :: "string \<Rightarrow> bool" where
  "namespace_ok ns = (let body = (if ns \<noteq> [] \<and> last ns = CHR 0x0A then butlast ns else ns) in
     body \<noteq> [] \<and> list_all namespace_char body)"

definition version_of :: "string \<Rightarrow> int option" where
  "version_of i = (case after_last ''-v'' i of None \<Rightarrow> None | Some t \<Rightarrow> int_of_string t)"

definition effective_id :: "string option \<Rightarrow> string \<Rightarrow> string" where
  "effective_id ns i = (if str_truthy ns then the ns @ ''/'' @ i else i)"

definition register ::
  "registry_state \<Rightarrow> string \<Rightarrow> string \<Rightarrow> pydict option \<Rightarrow> string option \<Rightarrow> string \<Rightarrow> string list option \<Rightarrow>
   rat option \<Rightarrow> registry_state res" where
  "register R i ep kwargs ns desc tags mx =
     (if str_truthy ns \<and> \<not> namespace_ok (the ns) then Inl ValueError
      else if dget R (effective_id ns i) \<noteq> None then Inl ValueError
      else Inr (dset R (effective_id ns i)
        \<lparr>spec_id = effective_id ns i, entry_point = ep, spec_kwargs = (case kwargs of None \<Rightarrow> [] | Some d \<Rightarrow> d),
         version = version_of i, namespace = ns, spec_description = desc,
         spec_tags = (case tags of None \<Rightarrow> [] | Some l \<Rightarrow> l), max_eval_time_ms = mx\<rparr>))"

section \<open>Lookup\<close>

definition bare :: "string \<Rightarrow> string" where
  "bare key = (case after_slash key of None \<Rightarrow> key | Some t \<Rightarrow> t)"

definition short_matches :: "registry_state \<Rightarrow> string \<Rightarrow> string list" where
  "short_matches R i = filter (\<lambda>key. after_slash key = Some i) (dkeys R)"

definition versioned :: "registry_state \<Rightarrow> string \<Rightarrow> (int \<times> string) list" where
  "versioned R i = concat (map (\<lambda>(key, s). case version s of
     Some v \<Rightarrow> if starts_with (i @ ''-v'') (bare key) then [(v, key)] else []
   | None \<Rightarrow> []) R)"

definition resolve_id :: "registry_state \<Rightarrow> string \<Rightarrow> string" where
  "resolve_id R i =
     (if dget R i \<noteq> None then i
      else if CHR ''/'' \<in> set i then i
      else if length (short_matches R i) = 1 then hd (short_matches R i)
      else if after_last ''-v'' i = None then
        (case first_max fst (versioned R i) of Some (v, key) \<Rightarrow> key | None \<Rightarrow> i)
      else i)"

definition spec :: "registry_state \<Rightarrow> string \<Rightarrow> env_spec res" where
  "spec R i = (case dget R (resolve_id R i) of None \<Rightarrow> Inl KeyError | Some s \<Rightarrow> Inr s)"

definition resolve_entry_point :: "(string \<Rightarrow> string \<Rightarrow> 'c res) \<Rightarrow> string \<Rightarrow> 'c res" where
  "resolve_entry_point load ep = (case after_last '':'' ep of
     None \<Rightarrow> Inl ValueError
   | Some cls \<Rightarrow> load (take (length ep - length cls - 1) ep) cls)"

definition make ::
  "(string \<Rightarrow> string \<Rightarrow> 'c res) \<Rightarrow> ('c \<Rightarrow> pydict \<Rightarrow> 'e res) \<Rightarrow> ('e \<Rightarrow> bool) \<Rightarrow> registry_state \<Rightarrow> string \<Rightarrow> pydict \<Rightarrow> 'e res" where
  "make load build is_env R i kwargs =
     (case dget R (resolve_id R i) of
        None \<Rightarrow> Inl KeyError
      | Some s \<Rightarrow> rbind (resolve_entry_point load (entry_point s)) (\<lambda>cls.
          rbind (build cls (dmerge (spec_kwargs s) kwargs)) (\<lambda>env.
          if is_env env then Inr env else Inl TypeError)))"

definition list_specs :: "registry_state \<Rightarrow> string list option \<Rightarrow> string option \<Rightarrow> env_spec list" where
  "list_specs R tags ns =
     (let specs = map snd R;
          specs1 = (case tags of None \<Rightarrow> specs
            | Some l \<Rightarrow> if l = [] then specs else filter (\<lambda>s. set l \<subseteq> set (spec_tags s)) specs);
          specs2 = (case ns of None \<Rightarrow> specs1 | Some n \<Rightarrow> filter (\<lambda>s. namespace s = Some n) specs1)
      in sort_key spec_id specs2)"

text \<open>The module-level functions; \<open>rest\<close> are the keyword arguments that are no registry parameters.\<close>

definition module_register ::
  "registry_state \<Rightarrow> string \<Rightarrow> string \<Rightarrow> pydict option \<Rightarrow> string option \<Rightarrow> string option \<Rightarrow> string list option \<Rightarrow>
   rat option \<Rightarrow> pydict \<Rightarrow> registry_state res" where
  "module_register R i ep kwargs ns desc tags mx rest =
     (let ctor = dmerge (case kwargs of None \<Rightarrow> [] | Some d \<Rightarrow> d) rest in
      register R i ep (if ctor = [] then None else Some ctor) ns (case desc of None \<Rightarrow> [] | Some t \<Rightarrow> t) tags mx)"

definition list_registered :: "registry_state \<Rightarrow> string list option \<Rightarrow> env_spec list" where
  "list_registered R tags = list_specs R tags None"

section \<open>A registry that only grows\<close>

record registration =
  reg_id :: string
  reg_entry :: string
  reg_kwargs :: "pydict option"
  reg_namespace :: "string option"
  reg_description :: string
  reg_tags :: "string list option"
  reg_time :: "rat option"

definition apply_registration :: "registration \<Rightarrow> registry_state \<Rightarrow> registry_state" where
  "apply_registration q R = (case register R (reg_id q) (reg_entry q) (reg_kwargs q) (reg_namespace q)
     (reg_description q) (reg_tags q) (reg_time q) of Inl e \<Rightarrow> R | Inr R' \<Rightarrow> R')"

definition register_all :: "registration list \<Rightarrow> registry_state \<Rightarrow> registry_state" where
  "register_all qs R = fold apply_registration qs R"

definition registry_ok :: "registry_state \<Rightarrow> bool" where
  "registry_ok R \<longleftrightarrow> distinct (dkeys R) \<and> (\<forall>(k, s)\<in>set R. spec_id s = k)"

lemma register_keeps: "register R i ep kw ns d t m = Inr R' \<Longrightarrow> dget R k = Some s \<Longrightarrow> dget R' k = Some s"
  by (auto simp: register_def split: if_splits)

lemma register_ok: "register R i ep kw ns d t m = Inr R' \<Longrightarrow> registry_ok R \<Longrightarrow> registry_ok R'"
  by (auto simp: register_def registry_ok_def split: if_splits dest!: dset_items)

lemma register_found:
  "register R i ep kw ns d t m = Inr R' \<Longrightarrow>
   \<exists>s. dget R' (effective_id ns i) = Some s \<and> spec_id s = effective_id ns i \<and> entry_point s = ep \<and> version s = version_of i"
  by (auto simp: register_def split: if_splits)

lemma register_all_keeps: "dget R k = Some s \<Longrightarrow> dget (register_all qs R) k = Some s"
proof (induction qs arbitrary: R)
  case (Cons q qs)
  then have "dget (apply_registration q R) k = Some s"
    by (auto simp: apply_registration_def split: sum.splits intro: register_keeps)
  then show ?case using Cons.IH by (simp add: register_all_def)
qed (simp add: register_all_def)

lemma register_all_ok: "registry_ok R \<Longrightarrow> registry_ok (register_all qs R)"
proof (induction qs arbitrary: R)
  case (Cons q qs)
  then have "registry_ok (apply_registration q R)"
    by (auto simp: apply_registration_def split: sum.splits intro: register_ok)
  then show ?case using Cons.IH by (simp add: register_all_def)
qed (simp add: register_all_def)

section \<open>What an id resolves to\<close>

definition candidate_version :: "string \<Rightarrow> env_spec \<Rightarrow> bool" where
  "candidate_version i s \<longleftrightarrow> starts_with (i @ ''-v'') (bare (spec_id s)) \<and> version s \<noteq> None"

lemma set_versioned: "(v, key) \<in> set (versioned R i) \<longleftrightarrow>
   (\<exists>s. (key, s) \<in> set R \<and> version s = Some v \<and> starts_with (i @ ''-v'') (bare key))"
proof (induction R)
  case (Cons p R)
  obtain k s where p: "p = (k, s)" by (cases p)
  have "(v, key) \<in> set (versioned (p # R) i) \<longleftrightarrow>
      (key = k \<and> version s = Some v \<and> starts_with (i @ ''-v'') (bare k)) \<or> (v, key) \<in> set (versioned R i)"
    by (auto simp: p versioned_def split: option.splits)
  then show ?case using Cons.IH p by auto
qed (simp add: versioned_def)

lemma versioned_candidates:
  assumes "registry_ok R"
  shows "(v, key) \<in> set (versioned R i) \<longleftrightarrow> (\<exists>s. dget R key = Some s \<and> version s = Some v \<and> candidate_version i s)"
proof -
  have d: "distinct (dkeys R)" and k: "\<And>k s. (k, s) \<in> set R \<Longrightarrow> spec_id s = k"
    using assms by (auto simp: registry_ok_def)
  show ?thesis using k by (auto simp: set_versioned candidate_version_def map_of_eq_Some_iff [OF d])
qed

lemma first_max_Some: "first_max f xs = Some x \<Longrightarrow> x \<in> set xs \<and> (\<forall>y\<in>set xs. f y \<le> f x)"
  using max_by_in max_by_ge by (fastforce simp: first_max_def split: list.splits)

definition highest_version :: "registry_state \<Rightarrow> string \<Rightarrow> env_spec \<Rightarrow> bool" where
  "highest_version R i s \<longleftrightarrow> dget R (spec_id s) = Some s \<and> candidate_version i s
     \<and> (\<forall>k' s'. dget R k' = Some s' \<and> candidate_version i s' \<longrightarrow> the (version s') \<le> the (version s))"

lemma registry_ok_id: "registry_ok R \<Longrightarrow> dget R k = Some s \<Longrightarrow> spec_id s = k"
  by (auto simp: registry_ok_def dest: map_of_SomeD)

lemma first_max_version:
  assumes "registry_ok R" "first_max fst (versioned R i) = Some (v, key)"
  shows "\<exists>s. dget R key = Some s \<and> highest_version R i s"
proof -
  have "(v, key) \<in> set (versioned R i)" and top: "\<forall>(v', k')\<in>set (versioned R i). v' \<le> v"
    using first_max_Some [OF assms(2)] by auto
  then obtain s where s: "dget R key = Some s" "version s = Some v" "candidate_version i s"
    using versioned_candidates [OF assms(1)] by auto
  have "the (version s') \<le> v" if "dget R k' = Some s'" "candidate_version i s'" for k' s'
  proof -
    obtain v' where "version s' = Some v'" using \<open>candidate_version i s'\<close> by (auto simp: candidate_version_def)
    then show ?thesis using top versioned_candidates [OF assms(1), of v' k' i] that by auto
  qed
  then show ?thesis using s registry_ok_id [OF assms(1) s(1)] by (auto simp: highest_version_def)
qed

lemma short_matches_single: "length (short_matches R i) = 1 \<Longrightarrow>
  \<exists>k. short_matches R i = [k] \<and> after_slash k = Some i \<and> dget R k \<noteq> None"
proof -
  assume "length (short_matches R i) = 1"
  then obtain k where k: "short_matches R i = [k]" by (auto simp: length_Suc_conv)
  then have "k \<in> set (short_matches R i)" by simp
  then have "after_slash k = Some i" "k \<in> set (dkeys R)" unfolding short_matches_def by simp_all
  then show ?thesis using k by (auto simp: map_of_eq_None_iff)
qed

lemma resolve_id_cases:
  assumes "registry_ok R"
  shows "resolve_id R i = i
    \<or> dget R i = None \<and> CHR ''/'' \<notin> set i \<and> short_matches R i = [resolve_id R i] \<and> after_slash (resolve_id R i) = Some i
    \<or> dget R i = None \<and> CHR ''/'' \<notin> set i \<and> after_last ''-v'' i = None
      \<and> (\<exists>s. dget R (resolve_id R i) = Some s \<and> highest_version R i s)"
proof (cases "first_max fst (versioned R i)")
  case None
  then show ?thesis using short_matches_single [of R i] by (auto simp: resolve_id_def)
next
  case (Some vk)
  then show ?thesis using first_max_version [OF assms, of i "fst vk" "snd vk"] short_matches_single [of R i]
    by (cases vk) (auto simp: resolve_id_def)
qed

lemma resolve_id_fails:
  assumes "registry_ok R" "dget R (resolve_id R i) = None"
  shows "CHR ''/'' \<in> set i \<or> length (short_matches R i) \<noteq> 1 \<and>
        (after_last ''-v'' i \<noteq> None \<or> (\<forall>s. \<not> highest_version R i s))"
proof (cases "first_max fst (versioned R i)")
  case None
  then have "versioned R i = []" by (simp only: first_max_None)
  then have "\<not> highest_version R i s" for s
    using versioned_candidates [OF assms(1), of "the (version s)" "spec_id s" i]
    by (auto simp: highest_version_def candidate_version_def)
  then show ?thesis using assms(2) short_matches_single [of R i] by (auto simp: resolve_id_def split: if_splits)
next
  case (Some vk)
  then show ?thesis using assms(2) first_max_version [OF assms(1), of i "fst vk" "snd vk"] short_matches_single [of R i]
    by (cases vk) (auto simp: resolve_id_def split: if_splits)
qed

section \<open>The naming convention\<close>

text \<open>The ids that \<open>register\<close> documents, \<open>{domain}-{name}-v{version}\<close>: a name without a slash and without
  "-v", then "-v" and digits.\<close>

definition conventional :: "string \<Rightarrow> bool" where
  "conventional i \<longleftrightarrow> (\<exists>name d. i = name @ ''-v'' @ d \<and> d \<noteq> [] \<and> list_all is_digit d \<and> after_last ''-v'' name = None \<and> CHR ''/'' \<notin> set name)"

lemma starts_with_iff: "starts_with p s \<longleftrightarrow> (\<exists>u. s = p @ u)"
  unfolding starts_with_def by (metis append_eq_conv_conj append_take_drop_id)

lemma after_last_Some: "after_last p s = Some t \<Longrightarrow> \<exists>a. s = a @ p @ t"
proof (induction s)
  case (Cons c s)
  show ?case
  proof (cases "after_last p s")
    case None
    then have "starts_with p (c # s)" "t = drop (length p) (c # s)" using Cons.prems by (simp_all split: if_splits)
    then show ?thesis unfolding starts_with_def by (metis append_Nil append_take_drop_id)
  next
    case (Some u)
    then obtain a where "s = a @ p @ t" using Cons by auto
    then show ?thesis by (metis append_Cons)
  qed
qed simp

lemma after_last_None: "after_last p s = None \<Longrightarrow> p \<noteq> [] \<Longrightarrow> s \<noteq> a @ p @ t"
proof (induction s arbitrary: a)
  case (Cons c s)
  then have n: "after_last p s = None" "\<not> starts_with p (c # s)" by (auto split: option.splits if_splits)
  show ?case using n Cons by (cases a) (auto simp: starts_with_iff)
qed simp

lemma version_split:
  assumes "name @ ''-v'' @ d = i @ ''-v'' @ u" "list_all is_digit d" "after_last ''-v'' name = None"
  shows "i = name \<and> u = d"
proof -
  have no: "name \<noteq> i @ ''-v'' @ us" for us using after_last_None [OF assms(3)] by simp
  have "CHR ''-'' \<notin> set d" using assms(2) by (auto simp: list_all_iff is_digit_def)
  then have nd: "d \<noteq> us @ ''-v'' @ u" for us by auto
  from assms(1) consider us where "name = i @ us" "us @ ''-v'' @ d = ''-v'' @ u" | us where "i = name @ us" "''-v'' @ d = us @ ''-v'' @ u"
    by (auto simp: append_eq_append_conv2)
  then show ?thesis
  proof cases
    case (1 us)
    then show ?thesis using no by (cases us; cases "tl us") auto
  next
    case (2 us)
    then show ?thesis using nd by (cases us; cases "tl us") auto
  qed
qed

text \<open>Under the convention every key names a guardrail and the version its specification carries.\<close>

definition named :: "string \<Rightarrow> env_spec \<Rightarrow> string \<Rightarrow> string \<Rightarrow> bool" where
  "named key s name d \<longleftrightarrow> bare key = name @ ''-v'' @ d \<and> list_all is_digit d \<and> after_last ''-v'' name = None \<and> version s = int_of_string d"

lemma effective_bare:
  assumes "CHR ''/'' \<notin> set i" "\<not> (str_truthy ns \<and> \<not> namespace_ok (the ns))"
  shows "bare (effective_id ns i) = i"
proof (cases "str_truthy ns")
  case True
  then have ok: "namespace_ok (the ns)" using assms(2) by simp
  define body where "body = (if the ns \<noteq> [] \<and> last (the ns) = CHR 0x0A then butlast (the ns) else the ns)"
  have "list_all namespace_char body" using ok by (simp add: namespace_ok_def body_def Let_def)
  then have "CHR ''/'' \<notin> set body" by (auto simp: list_all_iff namespace_char_def is_digit_def code_def)
  moreover have "the ns = body \<or> the ns = body @ [CHR 0x0A]" by (auto simp: body_def) (metis append_butlast_last_id)
  ultimately have "CHR ''/'' \<notin> set (the ns)" by auto
  then have "dropWhile (\<lambda>c. c \<noteq> CHR ''/'') (the ns @ ''/'' @ i) = ''/'' @ i"
    by (subst dropWhile_append2) auto
  then show ?thesis using True by (simp add: effective_id_def bare_def after_slash_def)
next
  case False
  have d: "dropWhile (\<lambda>c. c \<noteq> CHR ''/'') i = []" using assms(1) by auto
  have "after_slash i = None" by (simp only: after_slash_def d list.case)
  then show ?thesis using False by (simp add: effective_id_def bare_def)
qed

lemma register_named:
  assumes "register R i ep kw ns d t m = Inr R'" "conventional i" "\<forall>(k, s)\<in>set R. \<exists>name d. named k s name d"
  shows "\<forall>(k, s)\<in>set R'. \<exists>name d. named k s name d"
proof -
  obtain name ds where i: "i = name @ ''-v'' @ ds" "ds \<noteq> []" "list_all is_digit ds" "after_last ''-v'' name = None" "CHR ''/'' \<notin> set name"
    using assms(2) by (auto simp: conventional_def)
  have "after_last ''-v'' i \<noteq> None"
  proof
    assume "after_last ''-v'' i = None"
    from after_last_None [OF this] have "i \<noteq> name @ ''-v'' @ ds" by simp
    then show False using i(1) by contradiction
  qed
  then obtain u where u: "after_last ''-v'' i = Some u" by auto
  then obtain a where "i = a @ ''-v'' @ u" using after_last_Some by blast
  then have "name @ ''-v'' @ ds = a @ ''-v'' @ u" by (rule trans [OF i(1) [symmetric]])
  then have "u = ds" using version_split [OF _ i(3,4)] by blast
  then have v: "version_of i = int_of_string ds" using u by (simp add: version_of_def)
  have "CHR ''/'' \<notin> set i" using i(3,5) by (auto simp: i(1) list_all_iff is_digit_def)
  then have b: "bare (effective_id ns i) = i" using assms(1) by (intro effective_bare) (auto simp: register_def split: if_splits)
  have new: "\<exists>name d. named (effective_id ns i) s name d" if "version s = version_of i" for s
    using i b v that by (auto simp: named_def)
  show ?thesis
  proof safe
    fix k s
    assume "(k, s) \<in> set R'"
    then consider "(k, s) \<in> set R" | "k = effective_id ns i" "version s = version_of i"
      using assms(1) by (auto simp: register_def split: if_splits dest!: dset_items)
    then show "\<exists>name d. named k s name d" using assms(3) new by cases auto
  qed
qed

lemma register_all_named:
  "\<forall>(k, s)\<in>set R. \<exists>name d. named k s name d \<Longrightarrow> \<forall>q\<in>set qs. conventional (reg_id q) \<Longrightarrow>
   \<forall>(k, s)\<in>set (register_all qs R). \<exists>name d. named k s name d"
proof (induction qs arbitrary: R)
  case (Cons q qs)
  have "\<forall>(k, s)\<in>set (apply_registration q R). \<exists>name d. named k s name d"
  proof (cases "register R (reg_id q) (reg_entry q) (reg_kwargs q) (reg_namespace q) (reg_description q) (reg_tags q) (reg_time q)")
    case (Inr R')
    from register_named [OF this _ Cons.prems(1)] Cons.prems(2) show ?thesis by (simp add: apply_registration_def Inr)
  qed (use Cons.prems(1) in \<open>simp add: apply_registration_def\<close>)
  then show ?case using Cons.IH Cons.prems(2) by (simp add: register_all_def)
qed (simp add: register_all_def)

text \<open>A registered \<open>{id}-v{N}\<close>, bare or namespaced, and the one with the highest \<open>N\<close>.\<close>

definition is_version :: "registry_state \<Rightarrow> string \<Rightarrow> env_spec \<Rightarrow> int \<Rightarrow> bool" where
  "is_version R i s n \<longleftrightarrow> dget R (spec_id s) = Some s \<and> (\<exists>d. bare (spec_id s) = i @ ''-v'' @ d \<and> int_of_string d = Some n)"

definition newest :: "registry_state \<Rightarrow> string \<Rightarrow> env_spec \<Rightarrow> bool" where
  "newest R i s \<longleftrightarrow> (\<exists>n. is_version R i s n \<and> (\<forall>s' m. is_version R i s' m \<longrightarrow> m \<le> n))"

lemma candidate_is_version:
  assumes "registry_ok R" "\<forall>(k, s)\<in>set R. \<exists>name d. named k s name d" "dget R k = Some s"
  shows "candidate_version i s \<and> version s = Some n \<longleftrightarrow> is_version R i s n"
proof -
  have k: "spec_id s = k" "(k, s) \<in> set R" using registry_ok_id [OF assms(1,3)] assms(3) by (auto dest: map_of_SomeD)
  then obtain name d where nd: "bare k = name @ ''-v'' @ d" "list_all is_digit d" "after_last ''-v'' name = None" "version s = int_of_string d"
    using assms(2) by (auto simp: named_def)
  have "bare k = i @ ''-v'' @ u \<longleftrightarrow> i = name \<and> u = d" for u using version_split [OF _ nd(2,3)] nd(1) by auto
  then show ?thesis using k assms(3) nd(4) by (auto simp: candidate_version_def is_version_def starts_with_iff)
qed

lemma highest_newest:
  assumes "registry_ok R" "\<forall>(k, s)\<in>set R. \<exists>name d. named k s name d"
  shows "highest_version R i s \<longleftrightarrow> newest R i s"
proof
  assume h: "highest_version R i s"
  then have s: "dget R (spec_id s) = Some s" "candidate_version i s" by (simp_all add: highest_version_def)
  then obtain n where n: "version s = Some n" by (auto simp: candidate_version_def)
  have "m \<le> n" if v: "is_version R i s' m" for s' m
  proof -
    have s': "dget R (spec_id s') = Some s'" using v by (simp add: is_version_def)
    then have "candidate_version i s'" "version s' = Some m" using candidate_is_version [OF assms s'] v by auto
    then show ?thesis using h s' n by (fastforce simp: highest_version_def)
  qed
  moreover have "is_version R i s n" using candidate_is_version [OF assms s(1)] s(2) n by blast
  ultimately show "newest R i s" unfolding newest_def by blast
next
  assume "newest R i s"
  then obtain n where n: "is_version R i s n" "\<And>s' m. is_version R i s' m \<Longrightarrow> m \<le> n" by (auto simp: newest_def)
  then have s: "dget R (spec_id s) = Some s" by (simp add: is_version_def)
  have sv: "candidate_version i s" "version s = Some n" using candidate_is_version [OF assms s] n(1) by auto
  have "the (version s') \<le> n" if "dget R k' = Some s'" "candidate_version i s'" for k' s'
    using candidate_is_version [OF assms that(1), of i "the (version s')"] that(2) n(2) by (auto simp: candidate_version_def)
  then show "highest_version R i s" using s sv by (auto simp: highest_version_def)
qed


text \<open>A registered name that continues after "-v" is outside the convention; the fallback takes it for a version.\<close>

definition validator :: registration where
  "validator = \<lparr>reg_id = ''pii-validator-v3'', reg_entry = ''pkg:Validator'', reg_kwargs = None, reg_namespace = None,
     reg_description = [], reg_tags = None, reg_time = None\<rparr>"

definition one_validator :: registry_state where
  "one_validator = register_all [validator] []"

definition validator_spec :: env_spec where
  "validator_spec = \<lparr>spec_id = ''pii-validator-v3'', entry_point = ''pkg:Validator'', spec_kwargs = [], version = Some 3,
     namespace = None, spec_description = [], spec_tags = [], max_eval_time_ms = None\<rparr>"

lemma version_3: "int_of_string ''3'' = Some 3"
  by (simp add: int_of_string_def Let_def int_blank_def is_digit_def code_def)

lemma one_validator_spec: "one_validator = [(''pii-validator-v3'', validator_spec)]"
  by (simp add: one_validator_def register_all_def apply_registration_def validator_def validator_spec_def register_def
      effective_id_def str_truthy_def version_of_def starts_with_def version_3)

lemma pii_finds_validator: "spec one_validator ''pii'' = Inr validator_spec"
  unfolding one_validator_spec
  by (simp add: spec_def resolve_id_def short_matches_def after_slash_def starts_with_def versioned_def bare_def
      validator_spec_def first_max_def)

lemma pii_short: "short_matches one_validator ''pii'' = []" "dget one_validator ''pii'' = None"
  by (simp_all add: one_validator_spec short_matches_def after_slash_def)

definition pii_check :: "string \<Rightarrow> registration" where
  "pii_check n = \<lparr>reg_id = ''pii-check-v'' @ n, reg_entry = ''pkg:Check'', reg_kwargs = None, reg_namespace = None,
     reg_description = [], reg_tags = None, reg_time = None\<rparr>"

lemma versions_read: "int_of_string ''2'' = Some 2" "int_of_string ''10'' = Some 10"
  by (simp_all add: int_of_string_def Let_def int_blank_def is_digit_def code_def)


end
