(* ===== verification/Validation.thy ===== *)
theory Validation
  imports PyVal
begin

text \<open>
  \<open>validation/errors.py\<close> and \<open>validation/engine.py\<close>. The extractor, the resolver, the semantic
  validator, the lakeFS client and the clock readings are arguments; references are of any type.
  The results: what the status of a report says in each mode, and that the telemetry changes nothing.
\<close>

section \<open>Errors and reports\<close>

datatype validation_error_code =
  REFERENCE_NOT_FOUND | REFERENCE_GONE | VERSION_MISMATCH | INVALID_SYNTAX | REFERENCE_AMBIGUOUS
  | LAKEFS_UNAVAILABLE | SCHEMA_INVALID

fun error_code_value :: "validation_error_code \<Rightarrow> int" where
  "error_code_value REFERENCE_NOT_FOUND = 404"
| "error_code_value REFERENCE_GONE = 410"
| "error_code_value VERSION_MISMATCH = 409"
| "error_code_value INVALID_SYNTAX = 400"
| "error_code_value REFERENCE_AMBIGUOUS = 300"
| "error_code_value LAKEFS_UNAVAILABLE = 503"
| "error_code_value SCHEMA_INVALID = 500"

record validation_error =
  ve_code :: validation_error_code
  ve_message :: string
  ve_reference :: string
  ve_severity :: string
  ve_layer :: string
  ve_remediation :: "string option"
  ve_metadata :: "pydict option"

definition error_to_dict :: "validation_error \<Rightarrow> pydict" where
  "error_to_dict e = [(''code'', PInt (error_code_value (ve_code e))), (''message'', PStr (ve_message e)),
     (''reference'', PStr (ve_reference e)), (''severity'', PStr (ve_severity e)), (''layer'', PStr (ve_layer e)),
     (''remediation'', of_opt_str (ve_remediation e)),
     (''metadata'', PDict (case ve_metadata e of None \<Rightarrow> [] | Some d \<Rightarrow> d))]"

record validation_report =
  vr_status :: string
  vr_errors :: "validation_error list"
  vr_warnings :: "validation_error list"
  references_checked :: nat
  validation_time_ms :: rat
  lakefs_commit :: string

definition has_errors :: "validation_report \<Rightarrow> bool" where
  "has_errors r \<longleftrightarrow> 0 < length (vr_errors r)"

definition has_warnings :: "validation_report \<Rightarrow> bool" where
  "has_warnings r \<longleftrightarrow> 0 < length (vr_warnings r)"

definition report_to_dict :: "validation_report \<Rightarrow> pydict" where
  "report_to_dict r = [(''status'', PStr (vr_status r)),
     (''errors'', PList (map (PDict \<circ> error_to_dict) (vr_errors r))),
     (''warnings'', PList (map (PDict \<circ> error_to_dict) (vr_warnings r))),
     (''references_checked'', PInt (int (references_checked r))),
     (''validation_time_ms'', PFloat (Fin (validation_time_ms r))), (''lakefs_commit'', PStr (lakefs_commit r))]"

section \<open>The engine\<close>

text \<open>\<open>get_commit\<close> is called with no argument, or with the repository and the branch.\<close>

record 'r validation_engine =
  run_extractor :: "string \<Rightarrow> 'r list res"
  resolve_all :: "'r list \<Rightarrow> validation_error list res"
  semantic :: "(string \<Rightarrow> 'r list \<Rightarrow> validation_error list res) option"
  get_commit :: "(string \<times> string) option \<Rightarrow> string res"
  ve_repository :: string
  ve_branch :: string
  ve_mode :: string

definition make_engine ::
  "(string \<Rightarrow> 'r list res) \<Rightarrow> ('r list \<Rightarrow> validation_error list res) \<Rightarrow> ((string \<times> string) option \<Rightarrow> string res) \<Rightarrow>
   string \<Rightarrow> string \<Rightarrow> string \<Rightarrow> (string \<Rightarrow> 'r list \<Rightarrow> validation_error list res) option \<Rightarrow> 'r validation_engine res" where
  "make_engine ex rs client repo br md sem =
     (if md \<notin> {''strict'', ''tolerant'', ''warn_only''} then Inl ValueError
      else Inr \<lparr>run_extractor = ex, resolve_all = rs, semantic = sem, get_commit = client, ve_repository = repo,
        ve_branch = br, ve_mode = md\<rparr>)"

definition commit_sha :: "'r validation_engine \<Rightarrow> string" where
  "commit_sha en = (case get_commit en None of
     Inr sha \<Rightarrow> sha
   | Inl TypeError \<Rightarrow> (case get_commit en (Some (ve_repository en, ve_branch en)) of Inr sha \<Rightarrow> sha | Inl _ \<Rightarrow> ''unknown'')
   | Inl _ \<Rightarrow> ''unknown'')"

definition determine_status :: "string \<Rightarrow> validation_error list \<Rightarrow> validation_error list \<Rightarrow> string" where
  "determine_status md errors warnings =
     (if md = ''strict'' then
        (if 0 < length errors then ''failed'' else if 0 < length warnings then ''warning'' else ''passed'')
      else if md = ''tolerant'' then (if 0 < length errors then ''failed'' else ''passed'')
      else ''passed'')"

definition split_severity :: "validation_error list \<Rightarrow> validation_error list \<times> validation_error list" where
  "split_severity es = foldl (\<lambda>(errs, warns) e.
     if ve_severity e = ''error'' then (errs @ [e], warns) else (errs, warns @ [e])) ([], []) es"

definition semantic_layer ::
  "'r validation_engine \<Rightarrow> string \<Rightarrow> 'r list \<Rightarrow> validation_error list \<Rightarrow> validation_error list res" where
  "semantic_layer en prompt refs errors = (case semantic en of
     Some f \<Rightarrow> if length errors = 0 then f prompt refs else Inr []
   | None \<Rightarrow> Inr [])"

definition validate_internal :: "rat \<Rightarrow> 'r validation_engine \<Rightarrow> string \<Rightarrow> validation_report res" where
  "validate_internal elapsed en prompt =
     rbind (run_extractor en prompt) (\<lambda>refs.
       if length refs = 0 then
         Inr \<lparr>vr_status = ''passed'', vr_errors = [], vr_warnings = [], references_checked = 0,
           validation_time_ms = elapsed * 1000, lakefs_commit = commit_sha en\<rparr>
       else rbind (resolve_all en refs) (\<lambda>resolved.
         let (errors, warnings) = split_severity resolved in
         rbind (semantic_layer en prompt refs errors) (\<lambda>sem.
           Inr \<lparr>vr_status = determine_status (ve_mode en) errors (warnings @ sem), vr_errors = errors,
             vr_warnings = warnings @ sem, references_checked = length refs,
             validation_time_ms = elapsed * 1000, lakefs_commit = commit_sha en\<rparr>)))"

text \<open>The span: its attributes in the order they are set, and its events.\<close>

record span_log =
  span_attributes :: pydict
  span_events :: "(string \<times> pydict) list"

definition report_span :: "string \<Rightarrow> validation_report \<Rightarrow> span_log" where
  "report_span md r = \<lparr>span_attributes = [(''validation.mode'', PStr md), (''validation.status'', PStr (vr_status r)),
       (''validation.error.count'', PInt (int (length (vr_errors r)))),
       (''validation.resolution.time_ms'', PFloat (Fin (validation_time_ms r)))],
     span_events = map (\<lambda>e. (''validation.error'', [(''validation.error.code'', PInt (error_code_value (ve_code e))),
       (''validation.error.message'', PStr (ve_message e)), (''validation.error.reference'', PStr (ve_reference e))]))
       (vr_errors r)\<rparr>"

definition validate_with_telemetry :: "rat \<Rightarrow> 'r validation_engine \<Rightarrow> string \<Rightarrow> validation_report res \<times> span_log" where
  "validate_with_telemetry elapsed en prompt = (case validate_internal elapsed en prompt of
     Inl e \<Rightarrow> (Inl e, \<lparr>span_attributes = [(''validation.mode'', PStr (ve_mode en))], span_events = []\<rparr>)
   | Inr r \<Rightarrow> (Inr r, report_span (ve_mode en) r))"

definition validate :: "bool \<Rightarrow> rat \<Rightarrow> 'r validation_engine \<Rightarrow> string \<Rightarrow> validation_report res" where
  "validate has_otel elapsed en prompt =
     (if has_otel then fst (validate_with_telemetry elapsed en prompt) else validate_internal elapsed en prompt)"

section \<open>What a report says\<close>

lemma telemetry_transparent: "validate has_otel elapsed en prompt = validate_internal elapsed en prompt"
  by (simp add: validate_def validate_with_telemetry_def split: sum.splits)

lemma split_severity_from:
  "foldl (\<lambda>(errs, warns) e. if ve_severity e = ''error'' then (errs @ [e], warns) else (errs, warns @ [e])) (a, b) es
   = (a @ filter (\<lambda>e. ve_severity e = ''error'') es, b @ filter (\<lambda>e. ve_severity e \<noteq> ''error'') es)"
  by (induction es arbitrary: a b) auto

lemma split_severity_filter:
  "split_severity es = (filter (\<lambda>e. ve_severity e = ''error'') es, filter (\<lambda>e. ve_severity e \<noteq> ''error'') es)"
  unfolding split_severity_def by (simp add: split_severity_from)

text \<open>A report fails exactly when, outside \<open>warn_only\<close>, some reference resolved to an error of severity
  "error"; the findings of the semantic layer, whatever their severity, are warnings.\<close>

lemma make_engine_fields:
  "make_engine ex rs client repo br md sem = Inr en \<Longrightarrow>
   run_extractor en = ex \<and> resolve_all en = rs \<and> ve_mode en = md \<and> md \<in> {''strict'', ''tolerant'', ''warn_only''}"
  by (auto simp: make_engine_def split: if_splits)

lemma validate_report:
  assumes "make_engine ex rs client repo br md sem = Inr en" "validate has_otel elapsed en prompt = Inr r"
    "ex prompt = Inr refs" "refs \<noteq> []" "rs refs = Inr found"
  obtains warnings where
    "r = \<lparr>vr_status = determine_status md (filter (\<lambda>e. ve_severity e = ''error'') found) warnings,
       vr_errors = filter (\<lambda>e. ve_severity e = ''error'') found, vr_warnings = warnings,
       references_checked = length refs, validation_time_ms = elapsed * 1000, lakefs_commit = commit_sha en\<rparr>"
    "set (filter (\<lambda>e. ve_severity e \<noteq> ''error'') found) \<subseteq> set warnings"
proof -
  note f = make_engine_fields [OF assms(1)]
  let ?errors = "filter (\<lambda>e. ve_severity e = ''error'') found"
  from assms(2) f assms(3-5) obtain found_later where "semantic_layer en prompt refs ?errors = Inr found_later"
    by (cases "semantic_layer en prompt refs ?errors")
      (auto simp: telemetry_transparent validate_internal_def split_severity_filter)
  then show thesis
    using assms(2) f assms(3-5)
    by (intro that [of "filter (\<lambda>e. ve_severity e \<noteq> ''error'') found @ found_later"])
      (simp_all add: telemetry_transparent validate_internal_def split_severity_filter)
qed

lemma validate_failed_iff:
  assumes "make_engine ex rs client repo br md sem = Inr en" "validate has_otel elapsed en prompt = Inr r"
    "ex prompt = Inr refs" "refs \<noteq> []" "rs refs = Inr found"
  shows "vr_status r = ''failed'' \<longleftrightarrow> md \<noteq> ''warn_only'' \<and> (\<exists>e\<in>set found. ve_severity e = ''error'')"
proof -
  have "\<exists>warnings. vr_status r = determine_status md (filter (\<lambda>e. ve_severity e = ''error'') found) warnings"
    by (rule validate_report [OF assms]) auto
  then show ?thesis
    using make_engine_fields [OF assms(1)] by (auto simp: determine_status_def filter_empty_conv split: if_splits)
qed

lemma validate_passed_strict:
  assumes "make_engine ex rs client repo br ''strict'' sem = Inr en" "validate has_otel elapsed en prompt = Inr r"
    "ex prompt = Inr refs" "refs \<noteq> []" "rs refs = Inr found"
  shows "vr_status r = ''passed'' \<Longrightarrow> found = [] \<and> vr_warnings r = []"
  by (rule validate_report [OF assms]) (auto simp: determine_status_def filter_empty_conv split: if_splits)

end
