(* ===== verification/Tracker.thy ===== *)
theory Tracker
  imports Events Bitemporal
begin

text \<open>
  \<open>external_data/tracker.py\<close>: the tracker of external data with its snapshot policies, drift reports,
  retention and corrections. The tracker is a state; SHA-256, the sanitizer, the answer of the lakeFS
  upload and the clock readings are arguments, and the uploads it attempts are recorded in the state.
  The OpenTelemetry spans have no influence on it and are not modelled. The results: what reaches the
  object store is confined to its prefix and redacted, the snapshots of a source stay in the order
  of time, and what retention keeps.
\<close>

section \<open>Names that are safe as path segments\<close>

text \<open>\<open>c.isalnum()\<close> on the characters of this model (Latin-1).\<close>

definition is_alnum :: "char \<Rightarrow> bool" where
  "is_alnum c \<longleftrightarrow> is_digit c \<or> (65 \<le> code c \<and> code c \<le> 90) \<or> (97 \<le> code c \<and> code c \<le> 122)
     \<or> code c \<in> {170, 178, 179, 181, 185, 186, 188, 189, 190}
     \<or> (192 \<le> code c \<and> code c \<noteq> 215 \<and> code c \<noteq> 247)"

text \<open>\<open>s.replace("..", "_")\<close>\<close>

fun replace_dots :: "string \<Rightarrow> string" where
  "replace_dots (c # d # s) = (if c = CHR ''.'' \<and> d = CHR ''.'' then CHR ''_'' # replace_dots s
     else c # replace_dots (d # s))"
| "replace_dots s = s"

definition safe_path_segment :: "string \<Rightarrow> string" where
  "safe_path_segment name =
     (let cleaned = map (\<lambda>c. if is_alnum c \<or> c \<in> {CHR ''.'', CHR ''_'', CHR ''-''} then c else CHR ''_'') name;
          plain = replace_dots cleaned
      in if plain \<noteq> [] then plain else ''_'')"

section \<open>Policies, snapshots, reports\<close>

datatype snapshot_frequency = EVERY_CALL | ON_CHANGE | HOURLY | DAILY | WEEKLY

record snapshot_policy =
  frequency :: snapshot_frequency
  retention_days :: int
  change_threshold :: pyfloat
  max_snapshots :: int
  compress :: bool

definition default_snapshot_policy :: snapshot_policy where
  "default_snapshot_policy = \<lparr>frequency = ON_CHANGE, retention_days = 90, change_threshold = Fin 0,
     max_snapshots = 0, compress = False\<rparr>"

record snapshot =
  snapshot_id :: string
  snap_source :: string
  snap_type :: string
  snap_hash :: string
  snap_time :: string
  snap_size :: int
  snap_count :: "int option"
  snap_meta :: pydict
  snap_path :: "string option"
  snap_parent :: "string option"
  snap_valid :: "string option"
  snap_trust :: "string option"

definition int_or_none_val :: "int option \<Rightarrow> pyval" where
  "int_or_none_val i = (case i of None \<Rightarrow> PNone | Some n \<Rightarrow> PInt n)"

definition snapshot_to_dict :: "snapshot \<Rightarrow> pydict" where
  "snapshot_to_dict s = filter (\<lambda>(k, v). v \<noteq> PNone)
     [(''snapshot_id'', PStr (snapshot_id s)), (''source_name'', PStr (snap_source s)), (''source_type'', PStr (snap_type s)),
      (''data_hash'', PStr (snap_hash s)), (''timestamp'', PStr (snap_time s)), (''size_bytes'', PInt (snap_size s)),
      (''record_count'', int_or_none_val (snap_count s)), (''metadata'', PDict (snap_meta s)),
      (''lakefs_path'', of_opt_str (snap_path s)), (''parent_snapshot_id'', of_opt_str (snap_parent s)),
      (''valid_time'', of_opt_str (snap_valid s)), (''source_trust_level'', of_opt_str (snap_trust s))]"

text \<open>A missing required field is a missing argument; a value of another type than the record
  admits is reported as \<open>TypeError\<close> too.\<close>

definition needed :: "pydict \<Rightarrow> string \<Rightarrow> pyval res" where
  "needed d k = (case dget d k of None \<Rightarrow> Inl TypeError | Some v \<Rightarrow> Inr v)"

definition as_int :: "pyval \<Rightarrow> int res" where
  "as_int v = (case v of PInt i \<Rightarrow> Inr i | _ \<Rightarrow> Inl TypeError)"

definition as_opt_int :: "pyval \<Rightarrow> int option res" where
  "as_opt_int v = (case v of PNone \<Rightarrow> Inr None | PInt i \<Rightarrow> Inr (Some i) | _ \<Rightarrow> Inl TypeError)"

definition snapshot_from_dict :: "pydict \<Rightarrow> snapshot res" where
  "snapshot_from_dict d =
    rbind (rbind (needed d ''snapshot_id'') as_string) (\<lambda>i.
    rbind (rbind (needed d ''source_name'') as_string) (\<lambda>src.
    rbind (rbind (needed d ''source_type'') as_string) (\<lambda>ty.
    rbind (rbind (needed d ''data_hash'') as_string) (\<lambda>h.
    rbind (rbind (needed d ''timestamp'') as_string) (\<lambda>t.
    rbind (rbind (needed d ''size_bytes'') as_int) (\<lambda>sz.
    rbind (as_opt_int (pget d ''record_count'')) (\<lambda>n.
    rbind (as_dict (pget d ''metadata'')) (\<lambda>m.
    rbind (as_opt_string (pget d ''lakefs_path'')) (\<lambda>p.
    rbind (as_opt_string (pget d ''parent_snapshot_id'')) (\<lambda>par.
    rbind (as_opt_string (pget d ''valid_time'')) (\<lambda>v.
    rbind (as_opt_string (pget d ''source_trust_level'')) (\<lambda>tr.
      Inr \<lparr>snapshot_id = i, snap_source = src, snap_type = ty, snap_hash = h, snap_time = t, snap_size = sz,
        snap_count = n, snap_meta = m, snap_path = p, snap_parent = par, snap_valid = v, snap_trust = tr\<rparr>))))))))))))"

record drift_report =
  dr_source :: string
  dr_baseline :: string
  dr_current :: string
  dr_baseline_hash :: string
  dr_current_hash :: string
  dr_changed :: bool
  dr_size_delta :: int
  dr_count_delta :: "int option"
  dr_score :: pyval

section \<open>The tracker\<close>

text \<open>Data is a JSON value, or the bytes of a file. A change detector is given no old data.\<close>

datatype tracked_data = Json pyval | Raw bytes

type_synonym change_detector = "tracked_data \<Rightarrow> pyval res"

text \<open>What does not change after construction.\<close>

record tracker_config =
  float_text :: "rat \<Rightarrow> string"
  sha256 :: "bytes \<Rightarrow> string"
  has_lakefs :: bool
  has_repository :: bool
  upload_ok :: "string \<Rightarrow> bytes \<Rightarrow> bool"
  sanitize :: "(string \<Rightarrow> string res) option"
  default_policy :: snapshot_policy

record tracker =
  policies :: "(string, snapshot_policy) dict"
  snapshots :: "(string, snapshot list) dict"
  last_times :: "(string, datetime) dict"
  detectors :: "(string, change_detector) dict"
  uploads :: "(string \<times> bytes) list"

definition new_tracker :: tracker where
  "new_tracker = \<lparr>policies = [], snapshots = [], last_times = [], detectors = [], uploads = []\<rparr>"

definition set_policy :: "string \<Rightarrow> snapshot_policy \<Rightarrow> tracker \<Rightarrow> tracker" where
  "set_policy src p T = T\<lparr>policies := dset (policies T) src p\<rparr>"

definition policy_for :: "tracker_config \<Rightarrow> tracker \<Rightarrow> string \<Rightarrow> snapshot_policy" where
  "policy_for cfg T src = dget_or (policies T) src (default_policy cfg)"

definition set_change_detector :: "string \<Rightarrow> change_detector \<Rightarrow> tracker \<Rightarrow> tracker" where
  "set_change_detector src f T = T\<lparr>detectors := dset (detectors T) src f\<rparr>"

definition snaps_of :: "tracker \<Rightarrow> string \<Rightarrow> snapshot list" where
  "snaps_of T src = dget_or (snapshots T) src []"

definition latest_snapshot :: "tracker \<Rightarrow> string \<Rightarrow> snapshot option" where
  "latest_snapshot T src = (if snaps_of T src = [] then None else Some (last (snaps_of T src)))"

definition all_sources :: "tracker \<Rightarrow> string list" where
  "all_sources T = dkeys (snapshots T)"

definition snapshot_count :: "tracker \<Rightarrow> string option \<Rightarrow> nat" where
  "snapshot_count T src = (if str_truthy src then length (snaps_of T (the src))
     else sum_list (map (length \<circ> snd) (snapshots T)))"

text \<open>\<open>xs[-n:]\<close> under \<open>if n\<close>.\<close>

definition last_n :: "int \<Rightarrow> 'a list \<Rightarrow> 'a list" where
  "last_n n xs = (if 0 < n then drop (length xs - nat n) xs else drop (nat (- n)) xs)"

definition get_snapshots ::
  "tracker \<Rightarrow> string \<Rightarrow> datetime option \<Rightarrow> datetime option \<Rightarrow> int option \<Rightarrow> snapshot list" where
  "get_snapshots T src since until limit =
     (let snaps = snaps_of T src;
          snaps1 = (case since of None \<Rightarrow> snaps | Some t \<Rightarrow> filter (\<lambda>s. isoformat t \<le> snap_time s) snaps);
          snaps2 = (case until of None \<Rightarrow> snaps1 | Some t \<Rightarrow> filter (\<lambda>s. snap_time s \<le> isoformat t) snaps1)
      in case limit of None \<Rightarrow> snaps2 | Some n \<Rightarrow> if n = 0 then snaps2 else last_n n snaps2)"

section \<open>When a snapshot is stored\<close>

definition interval :: "snapshot_frequency \<Rightarrow> int" where
  "interval f = (case f of DAILY \<Rightarrow> us_per_day | WEEKLY \<Rightarrow> 7 * us_per_day | _ \<Rightarrow> 3600000000)"

text \<open>A detector that raises, or whose answer cannot be compared, does not hold the snapshot back.\<close>

definition below_threshold :: "tracker \<Rightarrow> string \<Rightarrow> pyfloat \<Rightarrow> tracked_data \<Rightarrow> bool" where
  "below_threshold T src threshold data =
     (fl_lt (Fin 0) threshold \<and> (case dget (detectors T) src of
        None \<Rightarrow> False
      | Some f \<Rightarrow> rbind (f data) (\<lambda>score. py_lt score (PFloat threshold)) = Inr True))"

definition evaluate_snapshot_policy ::
  "tracker_config \<Rightarrow> tracker \<Rightarrow> string \<Rightarrow> string \<Rightarrow> tracked_data \<Rightarrow> datetime \<Rightarrow> bool \<times> bool" where
  "evaluate_snapshot_policy cfg T src h data now =
     (let policy = policy_for cfg T src in
      case latest_snapshot T src of
        None \<Rightarrow> (True, False)
      | Some last_snap \<Rightarrow>
          (let drift = (h \<noteq> snap_hash last_snap) in
           if frequency policy = EVERY_CALL then (True, drift)
           else if frequency policy = ON_CHANGE then
             (if \<not> drift then (False, False)
              else if below_threshold T src (change_threshold policy) data then (False, True)
              else (True, drift))
           else (case dget (last_times T) src of
               None \<Rightarrow> (True, drift)
             | Some last_time \<Rightarrow>
                 (interval (frequency policy) \<le> instant now - instant last_time, drift))))"

section \<open>Creating a snapshot\<close>

text \<open>\<open>strftime("%Y%m%d%H%M%S")\<close> from the year 1000 on.\<close>

definition compact_time :: "datetime \<Rightarrow> string" where
  "compact_time t = filter is_digit (seconds_text (dt_wall t))"

definition redact_for_storage :: "tracker_config \<Rightarrow> string option \<Rightarrow> string option \<times> bool" where
  "redact_for_storage cfg data = (case (data, sanitize cfg) of
     (Some text, Some f) \<Rightarrow> (case f text of Inr out \<Rightarrow> (Some out, True) | Inl e \<Rightarrow> (None, True))
   | _ \<Rightarrow> (data, False))"

record snapshot_args =
  a_source :: string
  a_type :: string
  a_hash :: string
  a_size :: int
  a_count :: "int option"
  a_meta :: pydict
  a_now :: datetime
  a_data :: "string option"
  a_valid :: "datetime option"
  a_trust :: "string option"
  a_parent :: "string option"

definition make_snapshot_id :: "snapshot_args \<Rightarrow> string" where
  "make_snapshot_id a = a_source a @ ''_'' @ take 12 (a_hash a) @ ''_'' @ compact_time (a_now a)"

definition store_path :: "snapshot_args \<Rightarrow> string" where
  "store_path a = ''snapshots/'' @ safe_path_segment (a_source a) @ ''/'' @ safe_path_segment (make_snapshot_id a) @ ''.json''"

text \<open>The metadata to record, the path if the upload went well, and the uploads attempted.\<close>

definition store_body :: "tracker_config \<Rightarrow> snapshot_args \<Rightarrow> pydict \<times> string option \<times> (string \<times> bytes) list" where
  "store_body cfg a =
     (if has_lakefs cfg \<and> has_repository cfg then
        (let (body, sanitized) = redact_for_storage cfg (a_data a);
             meta = (if sanitized then dset (a_meta a) ''sanitized'' (PBool True) else a_meta a);
             text = (case body of Some t \<Rightarrow> t | None \<Rightarrow> dumps (float_text cfg) False (PDict meta));
             path = store_path a
         in (meta, if upload_ok cfg path (utf8 text) then Some path else None, [(path, utf8 text)]))
      else (a_meta a, None, []))"

definition create_snapshot :: "tracker_config \<Rightarrow> snapshot_args \<Rightarrow> tracker \<Rightarrow> snapshot \<times> tracker" where
  "create_snapshot cfg a T =
     (let parent = (case a_parent a of Some p \<Rightarrow> Some p | None \<Rightarrow> map_option snapshot_id (latest_snapshot T (a_source a)));
          (meta, path, up) = store_body cfg a;
          s = \<lparr>snapshot_id = make_snapshot_id a, snap_source = a_source a, snap_type = a_type a, snap_hash = a_hash a,
            snap_time = isoformat (a_now a), snap_size = a_size a, snap_count = a_count a, snap_meta = meta,
            snap_path = path, snap_parent = parent,
            snap_valid = Some (isoformat (case a_valid a of Some v \<Rightarrow> v | None \<Rightarrow> a_now a)), snap_trust = a_trust a\<rparr>
      in (s, T\<lparr>snapshots := dset (snapshots T) (a_source a) (snaps_of T (a_source a) @ [s]),
               last_times := dset (last_times T) (a_source a) (a_now a),
               uploads := uploads T @ up\<rparr>))"

section \<open>Tracking\<close>

definition stored_result :: "(snapshot option \<times> bool) \<Rightarrow> pydict" where
  "stored_result r = (case r of (s, drift) \<Rightarrow>
     [(''snapshot_id'', of_opt_str (map_option snapshot_id s)), (''snapshot_stored'', PBool (s \<noteq> None)),
      (''drift_detected'', PBool drift)])"

text \<open>The policy decision and its consequence, shared by the three tracking methods.\<close>

definition maybe_snapshot ::
  "tracker_config \<Rightarrow> bool \<Rightarrow> tracked_data \<Rightarrow> snapshot_args \<Rightarrow> tracker \<Rightarrow> (snapshot option \<times> bool) \<times> tracker" where
  "maybe_snapshot cfg store data a T =
     (if \<not> store then ((None, False), T)
      else case evaluate_snapshot_policy cfg T (a_source a) (a_hash a) data (a_now a) of (should_store, drift) \<Rightarrow>
        if should_store then (case create_snapshot cfg a T of (s, T') \<Rightarrow> ((Some s, drift), T'))
        else ((None, drift), T))"

definition track_api_call ::
  "tracker_config \<Rightarrow> string \<Rightarrow> string \<Rightarrow> string \<Rightarrow> pyval \<Rightarrow> string option \<Rightarrow> int \<Rightarrow> int option \<Rightarrow> bool \<Rightarrow> datetime option \<Rightarrow>
   string option \<Rightarrow> datetime \<Rightarrow> tracker \<Rightarrow> pydict \<times> tracker" where
  "track_api_call cfg api_name endpoint call_method response version status_code n_rec store valid trust now T =
     (let response_str = dumps (float_text cfg) True response;
          data_hash = sha256 cfg (utf8 response_str);
          size_bytes = int (length (utf8 response_str));
          meta = [(''api_name'', PStr api_name), (''endpoint'', PStr endpoint), (''method'', PStr call_method),
             (''status_code'', PInt status_code)] @ (if str_truthy version then [(''api_version'', of_opt_str version)] else []);
          (r, T') = maybe_snapshot cfg store (Json response)
             \<lparr>a_source = api_name, a_type = ''api'', a_hash = data_hash, a_size = size_bytes, a_count = n_rec, a_meta = meta,
              a_now = now, a_data = (if has_lakefs cfg then Some response_str else None), a_valid = valid, a_trust = trust,
              a_parent = None\<rparr> T
      in ([(''data_hash'', PStr data_hash), (''timestamp'', PStr (isoformat now)), (''size_bytes'', PInt size_bytes)]
            @ stored_result r, T'))"

definition track_db_query ::
  "tracker_config \<Rightarrow> string \<Rightarrow> string \<Rightarrow> string \<Rightarrow> pyval \<Rightarrow> int \<Rightarrow> bool \<Rightarrow> datetime option \<Rightarrow> string option \<Rightarrow> datetime \<Rightarrow>
   tracker \<Rightarrow> pydict \<times> tracker" where
  "track_db_query cfg db_system db_name query result_data n_rec store valid trust now T =
     (let source_name = db_system @ ''.'' @ db_name;
          query_hash = take 16 (sha256 cfg (utf8 query));
          head = [(''query_hash'', PStr query_hash), (''result_count'', PInt n_rec), (''timestamp'', PStr (isoformat now))]
      in if result_data = PNone then (head @ [(''data_hash'', PNone)] @ stored_result (None, False), T)
         else (let data_str = dumps (float_text cfg) True result_data;
                   data_hash = sha256 cfg (utf8 data_str);
                   (r, T') = maybe_snapshot cfg store (Json result_data)
                     \<lparr>a_source = source_name, a_type = ''db'', a_hash = data_hash, a_size = int (length (utf8 data_str)),
                      a_count = Some n_rec,
                      a_meta = [(''db_system'', PStr db_system), (''db_name'', PStr db_name), (''query_hash'', PStr query_hash)],
                      a_now = now, a_data = (if has_lakefs cfg then Some data_str else None), a_valid = valid, a_trust = trust,
                      a_parent = None\<rparr> T
               in (head @ [(''data_hash'', PStr data_hash)] @ stored_result r, T')))"

definition track_file_fetch ::
  "tracker_config \<Rightarrow> string \<Rightarrow> bytes \<Rightarrow> string option \<Rightarrow> int option \<Rightarrow> bool \<Rightarrow> datetime option \<Rightarrow> string option \<Rightarrow> datetime \<Rightarrow>
   tracker \<Rightarrow> pydict \<times> tracker" where
  "track_file_fetch cfg source_name file_data file_path n_rec store valid trust now T =
     (let data_hash = sha256 cfg file_data;
          size_bytes = int (length file_data);
          meta = [(''source_name'', PStr source_name)] @ (if str_truthy file_path then [(''file_path'', of_opt_str file_path)] else []);
          (r, T') = maybe_snapshot cfg store (Raw file_data)
             \<lparr>a_source = source_name, a_type = ''file'', a_hash = data_hash, a_size = size_bytes, a_count = n_rec, a_meta = meta,
              a_now = now, a_data = None, a_valid = valid, a_trust = trust, a_parent = None\<rparr> T
      in ([(''data_hash'', PStr data_hash), (''size_bytes'', PInt size_bytes), (''timestamp'', PStr (isoformat now))]
            @ stored_result r, T'))"

section \<open>Drift\<close>

text \<open>\<open>Json PNone\<close> is no data.\<close>

definition given :: "tracked_data option \<Rightarrow> tracked_data option" where
  "given d = (if d = Some (Json PNone) then None else d)"

definition or_int :: "int option \<Rightarrow> int \<Rightarrow> int" where
  "or_int i n = (case i of None \<Rightarrow> n | Some k \<Rightarrow> if k = 0 then n else k)"

definition hash_data :: "tracker_config \<Rightarrow> tracked_data \<Rightarrow> string \<times> int" where
  "hash_data cfg d = (case d of
     Raw bs \<Rightarrow> (sha256 cfg bs, int (length bs))
   | Json v \<Rightarrow> (let t = utf8 (dumps (float_text cfg) True v) in (sha256 cfg t, int (length t))))"

definition minus_opt :: "int option \<Rightarrow> int option \<Rightarrow> int option" where
  "minus_opt a b = (case (a, b) of (Some x, Some y) \<Rightarrow> Some (x - y) | _ \<Rightarrow> None)"

definition drift_score :: "tracker \<Rightarrow> string \<Rightarrow> tracked_data option \<Rightarrow> bool \<Rightarrow> pyval" where
  "drift_score T src data changed =
     (if \<not> changed then PFloat (Fin 0)
      else case (dget (detectors T) src, data) of
        (Some f, Some d) \<Rightarrow> (case f d of Inr v \<Rightarrow> v | Inl e \<Rightarrow> PFloat (Fin 1))
      | _ \<Rightarrow> PFloat (Fin 1))"

definition detect_drift ::
  "tracker_config \<Rightarrow> tracker \<Rightarrow> string \<Rightarrow> tracked_data option \<Rightarrow> string option \<Rightarrow> int option \<Rightarrow> int option \<Rightarrow>
   drift_report option res" where
  "detect_drift cfg T src current_data current_hash current_size current_n_rec =
     (case latest_snapshot T src of
        None \<Rightarrow> Inr None
      | Some baseline \<Rightarrow>
          (let data = given current_data;
               (h, sz) = (case (current_hash, data) of
                  (None, Some d) \<Rightarrow> (Some (fst (hash_data cfg d)), Some (or_int current_size (snd (hash_data cfg d))))
                | _ \<Rightarrow> (current_hash, current_size))
           in case h of
                None \<Rightarrow> Inl ValueError
              | Some hash \<Rightarrow> Inr (Some \<lparr>dr_source = src, dr_baseline = snapshot_id baseline, dr_current = ''pending'',
                  dr_baseline_hash = snap_hash baseline, dr_current_hash = hash, dr_changed = (hash \<noteq> snap_hash baseline),
                  dr_size_delta = or_int sz 0 - snap_size baseline,
                  dr_count_delta = minus_opt current_n_rec (snap_count baseline),
                  dr_score = drift_score T src data (hash \<noteq> snap_hash baseline)\<rparr>)))"

definition find_snapshot :: "tracker \<Rightarrow> string \<Rightarrow> snapshot option" where
  "find_snapshot T i = (case filter (\<lambda>s. snapshot_id s = i) (concat (map snd (snapshots T))) of
     [] \<Rightarrow> None | s # _ \<Rightarrow> Some s)"

definition compare_snapshots :: "tracker \<Rightarrow> string \<Rightarrow> string \<Rightarrow> drift_report option" where
  "compare_snapshots T ia ib = (case (find_snapshot T ia, find_snapshot T ib) of
     (Some a, Some b) \<Rightarrow> Some \<lparr>dr_source = snap_source a, dr_baseline = snapshot_id a, dr_current = snapshot_id b,
        dr_baseline_hash = snap_hash a, dr_current_hash = snap_hash b, dr_changed = (snap_hash a \<noteq> snap_hash b),
        dr_size_delta = snap_size b - snap_size a, dr_count_delta = minus_opt (snap_count b) (snap_count a),
        dr_score = PFloat (Fin (if snap_hash a \<noteq> snap_hash b then 1 else 0))\<rparr>
   | _ \<Rightarrow> None)"

section \<open>Retention\<close>

text \<open>\<open>(now - timedelta(days=n)).isoformat()\<close>: before the year 1 it raises.\<close>

definition cutoff_text :: "datetime \<Rightarrow> int \<Rightarrow> string res" where
  "cutoff_text now days = (let w = dt_wall now - days * us_per_day in
     if w < 0 then Inl (RaisedBy ''OverflowError'') else Inr (isoformat (now\<lparr>dt_wall := w\<rparr>)))"

definition retained :: "snapshot_policy \<Rightarrow> datetime \<Rightarrow> snapshot list \<Rightarrow> snapshot list res" where
  "retained policy now snaps =
     rbind (if 0 < retention_days policy
            then rbind (cutoff_text now (retention_days policy)) (\<lambda>c. Inr (filter (\<lambda>s. c \<le> snap_time s) snaps))
            else Inr snaps)
       (\<lambda>kept. Inr (if 0 < max_snapshots policy \<and> max_snapshots policy < int (length kept)
                    then last_n (max_snapshots policy) kept else kept))"

text \<open>The sources in turn; \<open>clock\<close> is what the clock says at each of them.\<close>

fun retain_sources ::
  "tracker_config \<Rightarrow> (string \<Rightarrow> datetime) \<Rightarrow> string list \<Rightarrow> nat \<Rightarrow> tracker \<Rightarrow> nat res \<times> tracker" where
  "retain_sources cfg clock [] removed T = (Inr removed, T)"
| "retain_sources cfg clock (src # srcs) removed T =
     (if snaps_of T src = [] then retain_sources cfg clock srcs removed T
      else case retained (policy_for cfg T src) (clock src) (snaps_of T src) of
        Inl e \<Rightarrow> (Inl e, T)
      | Inr kept \<Rightarrow> retain_sources cfg clock srcs (removed + (length (snaps_of T src) - length kept))
          (T\<lparr>snapshots := dset (snapshots T) src kept\<rparr>))"

definition enforce_retention ::
  "tracker_config \<Rightarrow> (string \<Rightarrow> datetime) \<Rightarrow> string option \<Rightarrow> tracker \<Rightarrow> nat res \<times> tracker" where
  "enforce_retention cfg clock src T =
     retain_sources cfg clock (if str_truthy src then [the src] else all_sources T) 0 T"

section \<open>Corrections\<close>

definition parent_valid_time :: "snapshot \<Rightarrow> datetime res" where
  "parent_valid_time p = fromisoformat (if str_truthy (snap_valid p) then the (snap_valid p) else snap_time p)"

definition correct_snapshot ::
  "tracker_config \<Rightarrow> string \<Rightarrow> pyval \<Rightarrow> int option \<Rightarrow> datetime \<Rightarrow> tracker \<Rightarrow> snapshot res \<times> tracker" where
  "correct_snapshot cfg parent_id corrected n_rec now T =
     (case find_snapshot T parent_id of
        None \<Rightarrow> (Inl LookupError, T)
      | Some p \<Rightarrow>
          (let data_str = dumps (float_text cfg) True corrected in
           case parent_valid_time p of
             Inl e \<Rightarrow> (Inl e, T)
           | Inr valid \<Rightarrow>
               (case create_snapshot cfg
                  \<lparr>a_source = snap_source p, a_type = snap_type p, a_hash = sha256 cfg (utf8 data_str),
                   a_size = int (length (utf8 data_str)),
                   a_count = (case n_rec of None \<Rightarrow> snap_count p | Some n \<Rightarrow> Some n),
                   a_meta = dset (snap_meta p) ''correction_of'' (PStr (snapshot_id p)), a_now = now,
                   a_data = (if has_lakefs cfg then Some data_str else None), a_valid = Some valid,
                   a_trust = snap_trust p, a_parent = Some (snapshot_id p)\<rparr> T of
                (s, T') \<Rightarrow> (Inr s, T'))))"

section \<open>Path segments\<close>

definition safe_segment :: "string \<Rightarrow> bool" where
  "safe_segment s \<longleftrightarrow> s \<noteq> [] \<and> CHR ''/'' \<notin> set s \<and> \<not> is_substr ''..'' s"

lemma replace_dots_chars: "set (replace_dots s) \<subseteq> insert (CHR ''_'') (set s)"
  by (induction s rule: replace_dots.induct) auto

lemma replace_dots_head: "c \<noteq> CHR ''.'' \<Longrightarrow> \<exists>t. replace_dots (c # s) = c # t"
  by (cases s) auto

lemma replace_dots_none: "\<not> is_substr ''..'' (replace_dots s)"
proof (induction s rule: replace_dots.induct)
  case (1 c d s)
  show ?case
  proof (cases "c = CHR ''.'' \<and> d = CHR ''.''")
    case True
    then show ?thesis using 1(1) by (simp add: take_Cons')
  next
    case False
    then show ?thesis
      using 1(2) [OF False] replace_dots_head [of d s] by (cases "d = CHR ''.''") (auto simp: take_Cons')
  qed
qed auto

lemma safe_path_segment_safe: "safe_segment (safe_path_segment name)"
proof -
  let ?f = "\<lambda>c. if is_alnum c \<or> c \<in> {CHR ''.'', CHR ''_'', CHR ''-''} then c else CHR ''_''"
  have "CHR ''/'' \<notin> set (map ?f name)" by (auto simp: is_alnum_def is_digit_def code_def split: if_splits)
  then have "CHR ''/'' \<notin> set (replace_dots (map ?f name))" using replace_dots_chars [of "map ?f name"] by auto
  then show ?thesis
    using replace_dots_none [of "map ?f name"] by (simp add: safe_segment_def safe_path_segment_def Let_def)
qed

section \<open>What a step does\<close>

text \<open>Every tracking method leaves the tracker alone or creates one snapshot.\<close>

lemma maybe_snapshot_state: "snd (maybe_snapshot cfg store data a T) \<in> {T, snd (create_snapshot cfg a T)}"
  by (auto simp: maybe_snapshot_def split: prod.splits)

lemma create_snapshot_lists:
  "snaps_of (snd (create_snapshot cfg a T)) src =
   snaps_of T src @ (if src = a_source a then [fst (create_snapshot cfg a T)] else [])"
  by (simp add: create_snapshot_def Let_def snaps_of_def split: prod.splits)

lemma create_snapshot_uploads: "uploads (snd (create_snapshot cfg a T)) = uploads T @ snd (snd (store_body cfg a))"
  by (simp add: create_snapshot_def Let_def split: prod.splits)

lemma create_snapshot_fields:
  "snap_source (fst (create_snapshot cfg a T)) = a_source a" "snap_hash (fst (create_snapshot cfg a T)) = a_hash a"
  "snap_time (fst (create_snapshot cfg a T)) = isoformat (a_now a)"
  "snap_meta (fst (create_snapshot cfg a T)) = fst (store_body cfg a)"
  "snap_valid (fst (create_snapshot cfg a T)) = Some (isoformat (case a_valid a of Some v \<Rightarrow> v | None \<Rightarrow> a_now a))"
  "a_parent a = Some p \<Longrightarrow> snap_parent (fst (create_snapshot cfg a T)) = Some p"
  by (simp_all add: create_snapshot_def Let_def split: prod.splits)

lemma create_snapshot_keys: "dkeys (snapshots (snd (create_snapshot cfg a T))) = dkeys (dset (snapshots T) (a_source a) [])"
  by (simp add: create_snapshot_def Let_def dkeys_dset split: prod.splits)

section \<open>Runs of the tracker\<close>

definition utc_time :: "datetime \<Rightarrow> bool" where
  "utc_time t \<longleftrightarrow> dt_off t = Some 0 \<and> in_range t"

text \<open>The operations a client calls, at a reading of the clock.\<close>

inductive tracker_step :: "tracker_config \<Rightarrow> datetime \<Rightarrow> tracker \<Rightarrow> tracker \<Rightarrow> bool" for cfg now T where
  step_policy: "tracker_step cfg now T (set_policy src p T)"
| step_detector: "tracker_step cfg now T (set_change_detector src f T)"
| step_api: "(case valid of None \<Rightarrow> True | Some v \<Rightarrow> wf_datetime v) \<Longrightarrow>
    tracker_step cfg now T (snd (track_api_call cfg nm ep md response ver st n store valid trust now T))"
| step_db: "(case valid of None \<Rightarrow> True | Some v \<Rightarrow> wf_datetime v) \<Longrightarrow>
    tracker_step cfg now T (snd (track_db_query cfg sys nm q data m store valid trust now T))"
| step_file: "(case valid of None \<Rightarrow> True | Some v \<Rightarrow> wf_datetime v) \<Longrightarrow>
    tracker_step cfg now T (snd (track_file_fetch cfg nm bs path n store valid trust now T))"
| step_retention: "tracker_step cfg now T (snd (enforce_retention cfg clock src_opt T))"
| step_correction: "tracker_step cfg now T (snd (correct_snapshot cfg i v n now T))"

text \<open>The trackers a client can come to, on a clock whose readings never go back.\<close>

inductive tracker_reach :: "tracker_config \<Rightarrow> datetime \<Rightarrow> tracker \<Rightarrow> bool" for cfg where
  reach_new: "utc_time t \<Longrightarrow> tracker_reach cfg t new_tracker"
| reach_step: "tracker_reach cfg t T \<Longrightarrow> utc_time now \<Longrightarrow> instant t \<le> instant now \<Longrightarrow> tracker_step cfg now T T' \<Longrightarrow>
    tracker_reach cfg now T'"

definition META_KEYS :: "string list" where
  "META_KEYS = [''api_name'', ''endpoint'', ''method'', ''status_code'', ''api_version'', ''db_system'', ''db_name'',
     ''query_hash'', ''source_name'', ''file_path'', ''correction_of'', ''sanitized'']"

definition snap_ok :: "datetime \<Rightarrow> string \<Rightarrow> snapshot \<Rightarrow> bool" where
  "snap_ok now src s \<longleftrightarrow> snap_source s = src \<and> (\<exists>t. utc_time t \<and> instant t \<le> instant now \<and> snap_time s = isoformat t)
     \<and> (\<exists>v. wf_datetime v \<and> snap_valid s = Some (isoformat v)) \<and> set (dkeys (snap_meta s)) \<subseteq> set META_KEYS"

definition upload_ok_for :: "tracker_config \<Rightarrow> string \<times> bytes \<Rightarrow> bool" where
  "upload_ok_for cfg pb \<longleftrightarrow>
     (\<exists>a b. fst pb = ''snapshots/'' @ a @ ''/'' @ b @ ''.json'' \<and> safe_segment a \<and> safe_segment b)
     \<and> (case sanitize cfg of None \<Rightarrow> True | Some f \<Rightarrow>
          (\<exists>raw clean. f raw = Inr clean \<and> snd pb = utf8 clean)
          \<or> (\<exists>meta. set (dkeys meta) \<subseteq> set META_KEYS \<and> snd pb = utf8 (dumps (float_text cfg) False (PDict meta))))"

definition tracker_ok :: "tracker_config \<Rightarrow> datetime \<Rightarrow> tracker \<Rightarrow> bool" where
  "tracker_ok cfg now T \<longleftrightarrow> distinct (dkeys (snapshots T))
     \<and> (\<forall>src. (\<forall>s\<in>set (snaps_of T src). snap_ok now src s) \<and> sorted (map snap_time (snaps_of T src)))
     \<and> (\<forall>pb\<in>set (uploads T). upload_ok_for cfg pb)"

lemma utc_isoformat_le:
  assumes "utc_time a" "utc_time b"
  shows "isoformat a \<le> isoformat b \<longleftrightarrow> instant a \<le> instant b"
proof -
  have "isoformat a = sqlite_iso a" "isoformat b = sqlite_iso b"
    using assms by (auto simp: utc_time_def sqlite_iso_def to_utc_def instant_def isoformat_def)
  then show ?thesis using sqlite_iso_le [of a b] assms by (simp add: utc_time_def)
qed

lemma snap_ok_later: "snap_ok t src s \<Longrightarrow> instant t \<le> instant now \<Longrightarrow> snap_ok now src s"
  unfolding snap_ok_def by fastforce

lemma tracker_ok_later: "tracker_ok cfg t T \<Longrightarrow> instant t \<le> instant now \<Longrightarrow> tracker_ok cfg now T"
  unfolding tracker_ok_def using snap_ok_later by blast

definition args_ok :: "datetime \<Rightarrow> snapshot_args \<Rightarrow> bool" where
  "args_ok now a \<longleftrightarrow> a_now a = now \<and> (case a_valid a of None \<Rightarrow> True | Some v \<Rightarrow> wf_datetime v)
     \<and> set (dkeys (a_meta a)) \<subseteq> set META_KEYS"

lemma sanitized_key: "''sanitized'' \<in> set META_KEYS" and correction_key: "''correction_of'' \<in> set META_KEYS"
  by (simp_all add: META_KEYS_def)

lemma utc_wf: "utc_time t \<Longrightarrow> wf_datetime t"
  by (auto simp: utc_time_def wf_datetime_def in_range_def instant_def us_per_day_def)

lemma store_body_meta: "set (dkeys (a_meta a)) \<subseteq> set META_KEYS \<Longrightarrow> set (dkeys (fst (store_body cfg a))) \<subseteq> set META_KEYS"
  using sanitized_key by (auto simp: store_body_def Let_def split: prod.splits)

lemma store_path_safe: "\<exists>x y. store_path a = ''snapshots/'' @ x @ ''/'' @ y @ ''.json'' \<and> safe_segment x \<and> safe_segment y"
  unfolding store_path_def using safe_path_segment_safe by blast

lemma store_body_upload_ok:
  assumes meta: "set (dkeys (a_meta a)) \<subseteq> set META_KEYS" and pb: "pb \<in> set (snd (snd (store_body cfg a)))"
  shows "upload_ok_for cfg pb"
proof -
  obtain body b where r: "redact_for_storage cfg (a_data a) = (body, b)" by (cases "redact_for_storage cfg (a_data a)")
  let ?m = "if b then dset (a_meta a) ''sanitized'' (PBool True) else a_meta a"
  have m: "set (dkeys ?m) \<subseteq> set META_KEYS" using meta sanitized_key by simp
  have fst_pb: "fst pb = store_path a"
    and snd_pb: "snd pb = utf8 (case body of Some t \<Rightarrow> t | None \<Rightarrow> dumps (float_text cfg) False (PDict ?m))"
    using pb r by (auto simp: store_body_def Let_def split: if_splits)
  have "case sanitize cfg of None \<Rightarrow> True | Some f \<Rightarrow> body = None \<or> (\<exists>raw clean. f raw = Inr clean \<and> body = Some clean)"
    using r by (auto simp: redact_for_storage_def split: option.splits sum.splits)
  note red = this
  have "case sanitize cfg of None \<Rightarrow> True | Some f \<Rightarrow> (\<exists>raw clean. f raw = Inr clean \<and> snd pb = utf8 clean)
      \<or> (\<exists>meta. set (dkeys meta) \<subseteq> set META_KEYS \<and> snd pb = utf8 (dumps (float_text cfg) False (PDict meta)))"
  proof (cases body)
    case None
    then have "snd pb = utf8 (dumps (float_text cfg) False (PDict ?m))" using snd_pb by simp
    then show ?thesis using m by (auto simp only: split: option.split)
  next
    case (Some t)
    then show ?thesis using snd_pb red by (auto split: option.splits)
  qed
  then show ?thesis unfolding upload_ok_for_def fst_pb using store_path_safe [of a] by simp
qed

lemma create_snapshot_ok:
  assumes T: "tracker_ok cfg now T" and a: "args_ok now a" and now: "utc_time now"
  shows "tracker_ok cfg now (snd (create_snapshot cfg a T))"
proof -
  let ?s = "fst (create_snapshot cfg a T)"
  have ok: "snap_ok now (a_source a) ?s"
    using a now utc_wf [OF now] store_body_meta [of a cfg]
    by (auto simp: snap_ok_def create_snapshot_fields args_ok_def split: option.splits)
  have sorted: "sorted (map snap_time (snaps_of T (a_source a) @ [?s]))"
  proof -
    have "snap_time s \<le> isoformat now" if "s \<in> set (snaps_of T (a_source a))" for s
    proof -
      have "snap_ok now (a_source a) s" using T that by (simp add: tracker_ok_def)
      then obtain t where "utc_time t" "instant t \<le> instant now" "snap_time s = isoformat t" by (auto simp: snap_ok_def)
      then show ?thesis using utc_isoformat_le [OF _ now] by simp
    qed
    moreover have "sorted (map snap_time (snaps_of T (a_source a)))" using T by (simp add: tracker_ok_def)
    ultimately show ?thesis using a by (simp add: sorted_append create_snapshot_fields args_ok_def)
  qed
  show ?thesis
    unfolding tracker_ok_def
  proof (intro conjI allI)
    show "distinct (dkeys (snapshots (snd (create_snapshot cfg a T))))"
      using T unfolding create_snapshot_keys tracker_ok_def by simp
    show "\<forall>pb\<in>set (uploads (snd (create_snapshot cfg a T))). upload_ok_for cfg pb"
      using T a store_body_upload_ok [of a] by (auto simp: create_snapshot_uploads tracker_ok_def args_ok_def)
    fix src
    show "\<forall>s\<in>set (snaps_of (snd (create_snapshot cfg a T)) src). snap_ok now src s"
      using T ok by (auto simp: create_snapshot_lists tracker_ok_def)
    show "sorted (map snap_time (snaps_of (snd (create_snapshot cfg a T)) src))"
      using T sorted by (auto simp: create_snapshot_lists tracker_ok_def)
  qed
qed

lemma maybe_snapshot_ok:
  assumes "tracker_ok cfg now T" "args_ok now a" "utc_time now"
  shows "tracker_ok cfg now (snd (maybe_snapshot cfg store data a T))"
  using maybe_snapshot_state [of cfg store data a T] create_snapshot_ok [OF assms] assms(1) by auto

lemmas track_defs = track_api_call_def track_db_query_def track_file_fetch_def

lemma tracking_ok:
  assumes T: "tracker_ok cfg now T" and now: "utc_time now" and v: "case valid of None \<Rightarrow> True | Some v \<Rightarrow> wf_datetime v"
  shows "tracker_ok cfg now (snd (track_api_call cfg nm ep md response ver st n store valid trust now T))"
    and "tracker_ok cfg now (snd (track_db_query cfg sys nm q data m store valid trust now T))"
    and "tracker_ok cfg now (snd (track_file_fetch cfg nm bs path n store valid trust now T))"
  unfolding track_defs Let_def
  using v by (auto simp: split_def T args_ok_def META_KEYS_def intro!: maybe_snapshot_ok [OF T _ now])

section \<open>Retention keeps the most recent\<close>

definition snap_instant :: "snapshot \<Rightarrow> int" where
  "snap_instant s = (case fromisoformat (snap_time s) of Inr t \<Rightarrow> instant t | Inl e \<Rightarrow> 0)"

definition recent :: "snapshot_policy \<Rightarrow> datetime \<Rightarrow> snapshot \<Rightarrow> bool" where
  "recent p now s \<longleftrightarrow> (0 < retention_days p \<longrightarrow> instant now - retention_days p * us_per_day \<le> snap_instant s)"

lemma sorted_filter_ge_suffix:
  fixes f :: "'a \<Rightarrow> 'b::linorder"
  shows "sorted (map f xs) \<Longrightarrow> xs = filter (\<lambda>x. \<not> c \<le> f x) xs @ filter (\<lambda>x. c \<le> f x) xs"
proof (induction xs)
  case (Cons x xs)
  show ?case
  proof (cases "c \<le> f x")
    case True
    then have "\<forall>y\<in>set xs. c \<le> f y" using Cons.prems by fastforce
    then have "filter (\<lambda>x. c \<le> f x) xs = xs" "filter (\<lambda>x. \<not> c \<le> f x) xs = []" by (simp_all add: filter_empty_conv)
    then show ?thesis using True by simp
  qed (use Cons in simp)
qed simp

lemma last_n_suffix: "0 < n \<Longrightarrow> n < int (length xs) \<Longrightarrow> \<exists>old. xs = old @ last_n n xs \<and> int (length (last_n n xs)) = n"
  unfolding last_n_def by (rule exI [of _ "take (length xs - nat n) xs"]) auto

lemma retained_suffix:
  assumes r: "retained p now snaps = Inr kept" and now: "utc_time now"
    and ok: "\<forall>s\<in>set snaps. \<exists>t. utc_time t \<and> snap_time s = isoformat t" and srt: "sorted (map snap_time snaps)"
  shows "\<exists>old. snaps = old @ kept \<and> (\<forall>s\<in>set kept. recent p now s)
    \<and> (0 < max_snapshots p \<longrightarrow> int (length kept) \<le> max_snapshots p)
    \<and> (\<forall>s\<in>set old. \<not> recent p now s \<or> 0 < max_snapshots p \<and> int (length kept) = max_snapshots p)"
proof -
  obtain young where y: "(if 0 < retention_days p
      then rbind (cutoff_text now (retention_days p)) (\<lambda>c. Inr (filter (\<lambda>s. c \<le> snap_time s) snaps)) else Inr snaps) = Inr young"
    and kept: "kept = (if 0 < max_snapshots p \<and> max_snapshots p < int (length young) then last_n (max_snapshots p) young else young)"
    using r by (auto simp: retained_def rbind_Inr_iff)
  have "\<exists>old. snaps = old @ young \<and> (\<forall>s\<in>set young. recent p now s) \<and> (\<forall>s\<in>set old. \<not> recent p now s)"
  proof (cases "0 < retention_days p")
    case True
    let ?w = "dt_wall now - retention_days p * us_per_day"
    let ?c = "now\<lparr>dt_wall := ?w\<rparr>"
    have w: "0 \<le> ?w" and young: "young = filter (\<lambda>s. isoformat ?c \<le> snap_time s) snaps"
      using y True by (auto simp: rbind_Inr_iff cutoff_text_def Let_def split: if_splits)
    have "?w \<le> dt_wall now" using True by (simp add: us_per_day_def)
    then have c: "utc_time ?c" using now w by (auto simp: utc_time_def in_range_def instant_def)
    have "isoformat ?c \<le> snap_time s \<longleftrightarrow> recent p now s" if s: "s \<in> set snaps" for s
    proof -
      obtain t where t: "utc_time t" "snap_time s = isoformat t" using ok s by blast
      then show ?thesis using utc_isoformat_le [OF c t(1)] True now fromisoformat_isoformat [OF utc_wf [OF t(1)]]
        by (simp add: recent_def snap_instant_def utc_time_def instant_def)
    qed
    then show ?thesis
      using sorted_filter_ge_suffix [OF srt, of "isoformat ?c"] unfolding young
      by (intro exI [of _ "filter (\<lambda>s. \<not> isoformat ?c \<le> snap_time s) snaps"]) auto
  qed (use y in \<open>auto simp: recent_def\<close>)
  then obtain old where old: "snaps = old @ young" "\<forall>s\<in>set young. recent p now s" "\<forall>s\<in>set old. \<not> recent p now s" by blast
  show ?thesis
  proof (cases "0 < max_snapshots p \<and> max_snapshots p < int (length young)")
    case True
    then obtain more where m: "young = more @ kept" "int (length kept) = max_snapshots p"
      using last_n_suffix [of "max_snapshots p" young] kept by auto
    then show ?thesis using old True by (intro exI [of _ "old @ more"]) auto
  qed (use old kept in auto)
qed

lemma retained_sub:
  assumes "retained p now snaps = Inr kept"
  shows "set kept \<subseteq> set snaps" and "sorted (map snap_time snaps) \<Longrightarrow> sorted (map snap_time kept)"
proof -
  obtain young where y: "(if 0 < retention_days p
      then rbind (cutoff_text now (retention_days p)) (\<lambda>c. Inr (filter (\<lambda>s. c \<le> snap_time s) snaps)) else Inr snaps) = Inr young"
    and kept: "kept = (if 0 < max_snapshots p \<and> max_snapshots p < int (length young) then last_n (max_snapshots p) young else young)"
    using assms by (auto simp: retained_def rbind_Inr_iff)
  have "\<exists>P. young = filter P snaps" using y by (cases "0 < retention_days p") (auto simp: rbind_Inr_iff intro: exI [of _ "\<lambda>_. True"])
  then obtain P where young: "young = filter P snaps" by blast
  have "\<exists>k. kept = drop k young" unfolding kept last_n_def by (auto intro: exI [of _ 0])
  then obtain k where k: "kept = drop k young" by blast
  show "set kept \<subseteq> set snaps" unfolding k young using set_drop_subset [of k "filter P snaps"] by auto
  show "sorted (map snap_time kept)" if "sorted (map snap_time snaps)"
    unfolding k young drop_map [symmetric] using that by (intro sorted_wrt_drop sorted_filter)
qed

lemma snaps_of_dset: "snaps_of (T\<lparr>snapshots := dset (snapshots T) src xs\<rparr>) src' = (if src' = src then xs else snaps_of T src')"
  by (simp add: snaps_of_def)

lemma retain_sources_ok: "tracker_ok cfg now T \<Longrightarrow> tracker_ok cfg now (snd (retain_sources cfg clock srcs n T))"
proof (induction srcs arbitrary: n T)
  case (Cons src srcs)
  show ?case
  proof (cases "snaps_of T src = []")
    case False
    show ?thesis
    proof (cases "retained (policy_for cfg T src) (clock src) (snaps_of T src)")
      case (Inr kept)
      have "tracker_ok cfg now (T\<lparr>snapshots := dset (snapshots T) src kept\<rparr>)"
        using Cons.prems retained_sub [OF Inr] by (auto simp: tracker_ok_def snaps_of_dset)
      then show ?thesis using Cons.IH False Inr by simp
    qed (use False Cons.prems in simp)
  qed (use Cons in simp)
qed simp

lemma sum_dset: "dget d k = Some x \<Longrightarrow> distinct (dkeys d) \<Longrightarrow>
  sum_list (map (length \<circ> snd) (dset d k y)) + length x = sum_list (map (length \<circ> snd) d) + length y"
proof (induction d k y rule: dset.induct)
  case (2 k' v' d k v)
  then show ?case by (cases "k' = k") auto
qed simp

definition kept_ok :: "snapshot_policy \<Rightarrow> datetime \<Rightarrow> snapshot list \<Rightarrow> snapshot list \<Rightarrow> bool" where
  "kept_ok p now snaps kept \<longleftrightarrow> (\<exists>gone. snaps = gone @ kept
     \<and> (\<forall>s\<in>set gone. \<not> recent p now s \<or> 0 < max_snapshots p \<and> int (length kept) = max_snapshots p))
     \<and> (\<forall>s\<in>set kept. recent p now s) \<and> (0 < max_snapshots p \<longrightarrow> int (length kept) \<le> max_snapshots p)"

lemma kept_ok_Nil [simp]: "kept_ok p now [] []"
  by (simp add: kept_ok_def)

lemma policy_for_snapshots [simp]: "policy_for cfg (T\<lparr>snapshots := d\<rparr>) src = policy_for cfg T src"
  by (simp add: policy_for_def)

lemma snaps_of_Nil: "snaps_of T src \<noteq> [] \<Longrightarrow> dget (snapshots T) src = Some (snaps_of T src)"
  by (auto simp: snaps_of_def dget_or_def split: option.splits)

lemma retain_sources_keeps:
  assumes "tracker_ok cfg t T" "\<forall>src. utc_time (clock src)" "distinct srcs"
    "retain_sources cfg clock srcs removed T = (Inr n, T')"
  shows "(\<forall>src. if src \<in> set srcs then kept_ok (policy_for cfg T src) (clock src) (snaps_of T src) (snaps_of T' src)
      else snaps_of T' src = snaps_of T src)
    \<and> n + snapshot_count T' None = removed + snapshot_count T None"
  using assms
proof (induction srcs arbitrary: removed T)
  case (Cons src srcs)
  have ok: "\<forall>s\<in>set (snaps_of T src). \<exists>t. utc_time t \<and> snap_time s = isoformat t" and srt: "sorted (map snap_time (snaps_of T src))"
    and dist: "distinct (dkeys (snapshots T))"
    using Cons.prems(1) unfolding tracker_ok_def snap_ok_def by blast+
  show ?case
  proof (cases "snaps_of T src = []")
    case True
    have IH: "(\<forall>x. if x \<in> set srcs then kept_ok (policy_for cfg T x) (clock x) (snaps_of T x) (snaps_of T' x)
        else snaps_of T' x = snaps_of T x) \<and> n + snapshot_count T' None = removed + snapshot_count T None"
      using Cons.IH [OF Cons.prems(1,2)] Cons.prems(3,4) True by simp
    moreover have "src \<notin> set srcs" using Cons.prems(3) by simp
    ultimately show ?thesis using True by auto
  next
    case False
    then obtain kept where r: "retained (policy_for cfg T src) (clock src) (snaps_of T src) = Inr kept"
      and rest: "retain_sources cfg clock srcs (removed + (length (snaps_of T src) - length kept))
        (T\<lparr>snapshots := dset (snapshots T) src kept\<rparr>) = (Inr n, T')"
      using Cons.prems(4) by (auto split: sum.splits)
    let ?T = "T\<lparr>snapshots := dset (snapshots T) src kept\<rparr>"
    have T: "tracker_ok cfg t ?T"
      using Cons.prems(1) retained_sub [OF r] by (auto simp: tracker_ok_def snaps_of_dset)
    have k: "kept_ok (policy_for cfg T src) (clock src) (snaps_of T src) kept"
      using retained_suffix [OF r _ ok srt] Cons.prems(2) unfolding kept_ok_def by blast
    then have len: "length kept \<le> length (snaps_of T src)" by (auto simp: kept_ok_def)
    have "sum_list (map (length \<circ> snd) (dset (snapshots T) src kept)) + length (snaps_of T src)
        = sum_list (map (length \<circ> snd) (snapshots T)) + length kept"
      by (rule sum_dset [OF snaps_of_Nil [OF False] dist])
    then have count: "snapshot_count ?T None + length (snaps_of T src) = snapshot_count T None + length kept"
      by (simp add: snapshot_count_def str_truthy_def)
    have IH: "(\<forall>x. if x \<in> set srcs then kept_ok (policy_for cfg T x) (clock x) (snaps_of ?T x) (snaps_of T' x)
        else snaps_of T' x = snaps_of ?T x)
      \<and> n + snapshot_count T' None = removed + (length (snaps_of T src) - length kept) + snapshot_count ?T None"
      using Cons.IH [OF T Cons.prems(2) _ rest, unfolded policy_for_snapshots] Cons.prems(3) by simp
    have "src \<notin> set srcs" using Cons.prems(3) by simp
    then have "if x \<in> set (src # srcs) then kept_ok (policy_for cfg T x) (clock x) (snaps_of T x) (snaps_of T' x)
        else snaps_of T' x = snaps_of T x" for x
      using conjunct1 [OF IH, rule_format, of x] k unfolding snaps_of_dset by (auto split: if_splits)
    then show ?thesis using IH count len by simp
  qed
qed simp

section \<open>Corrections of a reachable tracker\<close>

lemma find_snapshot_Some:
  assumes "find_snapshot T i = Some s" "distinct (dkeys (snapshots T))"
  shows "snapshot_id s = i \<and> (\<exists>src. s \<in> set (snaps_of T src))"
proof -
  have "filter (\<lambda>s. snapshot_id s = i) (concat (map snd (snapshots T))) \<noteq> []
      \<and> s = hd (filter (\<lambda>s. snapshot_id s = i) (concat (map snd (snapshots T))))"
    using assms(1) by (auto simp: find_snapshot_def split: list.splits)
  then have "s \<in> set (filter (\<lambda>s. snapshot_id s = i) (concat (map snd (snapshots T))))" by (metis hd_in_set)
  then obtain src ss where "snapshot_id s = i" "(src, ss) \<in> set (snapshots T)" "s \<in> set ss" by auto
  then show ?thesis using assms(2) by (metis snaps_of_def dget_or_def map_of_is_SomeI option.case(2))
qed

lemma parent_valid_time_ok:
  assumes "snap_ok now src s"
  shows "\<exists>v. wf_datetime v \<and> snap_valid s = Some (isoformat v) \<and> parent_valid_time s = Inr v"
proof -
  obtain v where v: "wf_datetime v" "snap_valid s = Some (isoformat v)" using assms by (auto simp: snap_ok_def)
  have "seconds_text (dt_wall v) \<noteq> []" by (metis length_seconds_text list.size(3) zero_neq_numeral)
  then have "isoformat v \<noteq> []" by (simp add: isoformat_def)
  then show ?thesis using v fromisoformat_isoformat [OF v(1)] by (simp add: parent_valid_time_def str_truthy_def)
qed

text \<open>The arguments under which a correction creates its snapshot.\<close>

definition correction_args :: "tracker_config \<Rightarrow> snapshot \<Rightarrow> pyval \<Rightarrow> int option \<Rightarrow> datetime \<Rightarrow> datetime \<Rightarrow> snapshot_args" where
  "correction_args cfg p corrected n_rec v now = (let data_str = dumps (float_text cfg) True corrected in
     \<lparr>a_source = snap_source p, a_type = snap_type p, a_hash = sha256 cfg (utf8 data_str),
      a_size = int (length (utf8 data_str)), a_count = (case n_rec of None \<Rightarrow> snap_count p | Some n \<Rightarrow> Some n),
      a_meta = dset (snap_meta p) ''correction_of'' (PStr (snapshot_id p)), a_now = now,
      a_data = (if has_lakefs cfg then Some data_str else None), a_valid = Some v,
      a_trust = snap_trust p, a_parent = Some (snapshot_id p)\<rparr>)"

lemma correct_snapshot_cases:
  assumes T: "tracker_ok cfg now T"
  shows "find_snapshot T i = None \<and> correct_snapshot cfg i w n now T = (Inl LookupError, T)
    \<or> (\<exists>p v. find_snapshot T i = Some p \<and> p \<in> set (snaps_of T (snap_source p)) \<and> snapshot_id p = i
      \<and> wf_datetime v \<and> snap_valid p = Some (isoformat v) \<and> set (dkeys (snap_meta p)) \<subseteq> set META_KEYS
      \<and> correct_snapshot cfg i w n now T =
        (Inr (fst (create_snapshot cfg (correction_args cfg p w n v now) T)),
         snd (create_snapshot cfg (correction_args cfg p w n v now) T)))"
proof (cases "find_snapshot T i")
  case (Some p)
  have "distinct (dkeys (snapshots T))" using T by (simp add: tracker_ok_def)
  then obtain src where p: "snapshot_id p = i" "p \<in> set (snaps_of T src)" using find_snapshot_Some [OF Some] by blast
  then have ok: "snap_ok now src p" using T by (simp add: tracker_ok_def)
  obtain v where v: "wf_datetime v" "snap_valid p = Some (isoformat v)" "parent_valid_time p = Inr v"
    using parent_valid_time_ok [OF ok] by blast
  have src: "src = snap_source p" "set (dkeys (snap_meta p)) \<subseteq> set META_KEYS" using ok by (simp_all add: snap_ok_def)
  show ?thesis
    using Some p v(1,2) src v(3)
    by (intro disjI2 exI [of _ p] exI [of _ v]) (simp add: correct_snapshot_def correction_args_def Let_def split: prod.splits)
qed (simp add: correct_snapshot_def)

lemma correction_ok:
  assumes T: "tracker_ok cfg now T" and now: "utc_time now"
  shows "tracker_ok cfg now (snd (correct_snapshot cfg i w n now T))"
  using correct_snapshot_cases [OF T, of i w n]
proof (elim disjE exE conjE)
  fix p v
  assume p: "wf_datetime v" "set (dkeys (snap_meta p)) \<subseteq> set META_KEYS"
    and c: "correct_snapshot cfg i w n now T =
      (Inr (fst (create_snapshot cfg (correction_args cfg p w n v now) T)), snd (create_snapshot cfg (correction_args cfg p w n v now) T))"
  have "args_ok now (correction_args cfg p w n v now)"
    using p correction_key by (simp add: args_ok_def correction_args_def Let_def)
  then show ?thesis using create_snapshot_ok [OF T _ now] c by simp
qed (use T in simp)

lemma tracker_reach_ok:
  assumes "tracker_reach cfg now T"
  shows "tracker_ok cfg now T"
proof -
  have "utc_time now \<and> tracker_ok cfg now T"
    using assms
  proof (induction rule: tracker_reach.induct)
    case (reach_new t)
    then show ?case by (simp add: tracker_ok_def new_tracker_def snaps_of_def dget_or_def)
  next
    case (reach_step t T now T')
    then have T: "tracker_ok cfg now T" using tracker_ok_later by blast
    from reach_step(4) show ?case
    proof cases
      case (step_correction i v n)
      then show ?thesis using correction_ok [OF T reach_step(2)] reach_step(2) by simp
    qed (use T reach_step(2) tracking_ok [OF T reach_step(2)] retain_sources_ok [OF T] in
      \<open>simp_all add: tracker_ok_def set_policy_def set_change_detector_def snaps_of_def enforce_retention_def\<close>)
  qed
  then show ?thesis by simp
qed

text \<open>
  C25: Whatever a client does with a tracker, on a clock that does not go back: the snapshots of every source are snapshots of that
  source in the order of their transaction times, none later than the clock, with a valid time
  that parses; and everything uploaded to the object store went to a path below \<open>snapshots/\<close>
  with segments free of separators and of "..", and, where a sanitizer is configured, holds what
  the sanitizer returned or the tracker's own metadata fields, never a raw body.
\<close>

theorem tracker_invariant:
  assumes "tracker_reach cfg now T"
  shows "(\<forall>src. (\<forall>s\<in>set (snaps_of T src). snap_ok now src s) \<and> sorted (map snap_time (snaps_of T src)))
    \<and> (\<forall>pb\<in>set (uploads T). upload_ok_for cfg pb)"
  using tracker_reach_ok [OF assms] by (simp add: tracker_ok_def)

definition redacting :: tracker_config where
  "redacting = \<lparr>float_text = (\<lambda>_. []), sha256 = (\<lambda>b. ''0123456789abcdef''), has_lakefs = True, has_repository = True,
     upload_ok = (\<lambda>_ _. True), sanitize = Some (\<lambda>_. Inr ''[redacted]''), default_policy = default_snapshot_policy\<rparr>"

definition noon_utc :: datetime where
  "noon_utc = \<lparr>dt_wall = 63000000000000000, dt_off = Some 0\<rparr>"

lemma noon_utc_time [simp]: "utc_time noon_utc"
  by (simp add: utc_time_def noon_utc_def in_range_def instant_def us_per_day_def)

definition crafted_fetch :: tracker where
  "crafted_fetch = snd (track_api_call redacting ''../ofac'' ''url'' ''GET'' (PStr ''secret'') None 200 None True None None noon_utc new_tracker)"

lemma crafted_reach: "tracker_reach redacting noon_utc crafted_fetch"
  unfolding crafted_fetch_def by (rule reach_step [OF reach_new]) (auto intro!: tracker_step.intros)

theorem tracker_invariant_witness: "list_all (upload_ok_for redacting) (uploads crafted_fetch)"
  using tracker_invariant [OF crafted_reach] by (simp add: list_all_iff)

text \<open>
  C26: Retention, for all sources or for one, of a tracker whose clock did not go back: the snapshots kept of a source are its most recent ones,
  all within the retention period and at most the maximum; a snapshot is removed only because it
  is older than the period or because the maximum of newer ones is kept; other sources are
  untouched and the count returned is the number of snapshots removed.
\<close>

theorem retention_keeps_most_recent:
  assumes reach: "tracker_reach cfg t T" and clock: "\<forall>src. utc_time (clock src)"
    and run: "enforce_retention cfg clock which T = (Inr n, T')"
  shows "(\<forall>src. if str_truthy which \<and> which \<noteq> Some src then snaps_of T' src = snaps_of T src
      else kept_ok (policy_for cfg T src) (clock src) (snaps_of T src) (snaps_of T' src))
    \<and> n + snapshot_count T' None = snapshot_count T None"
proof -
  have T: "tracker_ok cfg t T" by (rule tracker_reach_ok [OF reach])
  let ?srcs = "if str_truthy which then [the which] else all_sources T"
  have d: "distinct ?srcs" using T by (simp add: tracker_ok_def all_sources_def)
  have r: "retain_sources cfg clock ?srcs 0 T = (Inr n, T')" using run by (simp add: enforce_retention_def)
  have all: "if src \<in> set ?srcs then kept_ok (policy_for cfg T src) (clock src) (snaps_of T src) (snaps_of T' src)
      else snaps_of T' src = snaps_of T src" for src
    using retain_sources_keeps [OF T clock d r] by blast
  have "src \<notin> set (all_sources T) \<Longrightarrow> snaps_of T src = []" for src
    by (simp add: all_sources_def snaps_of_def dget_or_absent)
  then have "if str_truthy which \<and> which \<noteq> Some src then snaps_of T' src = snaps_of T src
      else kept_ok (policy_for cfg T src) (clock src) (snaps_of T src) (snaps_of T' src)" for src
    using all [of src] by (cases "which") (auto simp: str_truthy_def split: if_splits)
  then show ?thesis using retain_sources_keeps [OF T clock d r] by simp
qed

lemma crafted_shape:
  "\<exists>s. snap_time s = isoformat noon_utc \<and> snapshot_id s = make_snapshot_id \<lparr>a_source = ''../ofac'', a_type = ''api'',
       a_hash = ''0123456789abcdef'', a_size = 0, a_count = None, a_meta = [], a_now = noon_utc, a_data = None, a_valid = None,
       a_trust = None, a_parent = None\<rparr>
     \<and> policies crafted_fetch = [] \<and> snapshots crafted_fetch = [(''../ofac'', [s])]"
  unfolding crafted_fetch_def
  by (simp add: track_api_call_def Let_def split_def maybe_snapshot_def evaluate_snapshot_policy_def latest_snapshot_def
      snaps_of_def dget_or_def new_tracker_def create_snapshot_def make_snapshot_id_def redacting_def)

definition quarter_later :: datetime where
  "quarter_later = noon_utc\<lparr>dt_wall := 63000000000000000 + 91 * us_per_day\<rparr>"

lemma quarter_later_time [simp]: "utc_time quarter_later"
  by (simp add: utc_time_def quarter_later_def noon_utc_def in_range_def instant_def us_per_day_def)

lemma crafted_expires: "\<exists>T'. enforce_retention redacting (\<lambda>_. quarter_later) None crafted_fetch = (Inr 1, T')"
proof -
  obtain s where s: "snap_time s = isoformat noon_utc" "policies crafted_fetch = []" "snapshots crafted_fetch = [(''../ofac'', [s])]"
    using crafted_shape by blast
  let ?c = "noon_utc\<lparr>dt_wall := 63000000000000000 + us_per_day\<rparr>"
  have c: "cutoff_text quarter_later 90 = Inr (isoformat ?c)"
    by (simp add: cutoff_text_def quarter_later_def noon_utc_def us_per_day_def)
  have "utc_time ?c" by (simp add: utc_time_def noon_utc_def in_range_def instant_def us_per_day_def)
  from utc_isoformat_le [OF this noon_utc_time] have "\<not> isoformat ?c \<le> isoformat noon_utc"
    by (simp add: noon_utc_def instant_def us_per_day_def)
  then have "retained default_snapshot_policy quarter_later [s] = Inr []"
    by (simp add: retained_def default_snapshot_policy_def c s(1))
  then show ?thesis
    using s by (simp add: enforce_retention_def str_truthy_def all_sources_def snaps_of_def dget_or_def policy_for_def redacting_def)
qed

theorem retention_keeps_most_recent_witness:
  "\<exists>T'. enforce_retention redacting (\<lambda>_. quarter_later) None crafted_fetch = (Inr 1, T')
     \<and> 1 + snapshot_count T' None = snapshot_count crafted_fetch None"
proof -
  obtain T' where T': "enforce_retention redacting (\<lambda>_. quarter_later) None crafted_fetch = (Inr 1, T')"
    using crafted_expires by blast
  have "\<forall>src :: string. utc_time quarter_later" by simp
  from retention_keeps_most_recent [OF crafted_reach this T'] T' show ?thesis by blast
qed

section \<open>Corrections become the baseline\<close>

lemma drift_against_latest:
  "latest_snapshot T src = Some b \<Longrightarrow> snd (evaluate_snapshot_policy cfg T src h data now) = (h \<noteq> snap_hash b)"
  by (auto simp: evaluate_snapshot_policy_def Let_def split: option.splits)

text \<open>
  A correction of an unknown snapshot raises and changes nothing. A correction of a known one appends
  one snapshot to the source of its parent, with the parent's valid time and the time of the
  clock, linked to the parent, and leaves every other snapshot as it was; it becomes what the
  next fetch of the source is compared with, so a fetch is reported as drift exactly when its
  hash differs from that of the corrected data, even when an older snapshot was corrected and the
  source itself did not change.
\<close>

theorem correction_appends:
  assumes reach: "tracker_reach cfg t T" and now: "utc_time now" "instant t \<le> instant now"
  shows "(find_snapshot T i = None \<longrightarrow> correct_snapshot cfg i w n now T = (Inl LookupError, T))
    \<and> (\<forall>p. find_snapshot T i = Some p \<longrightarrow> (\<exists>c T'. correct_snapshot cfg i w n now T = (Inr c, T')
        \<and> snap_source c = snap_source p \<and> snap_parent c = Some i \<and> snap_valid c = snap_valid p \<and> snap_time c = isoformat now
        \<and> (\<forall>src. snaps_of T' src = snaps_of T src @ (if src = snap_source p then [c] else []))
        \<and> (\<forall>h data later. snd (evaluate_snapshot_policy cfg T' (snap_source p) h data later) \<longleftrightarrow> h \<noteq> snap_hash c)))"
proof (cases "find_snapshot T i")
  case None
  then show ?thesis by (simp add: correct_snapshot_def)
next
  case (Some p)
  have T: "tracker_ok cfg now T" by (rule tracker_ok_later [OF tracker_reach_ok [OF reach] now(2)])
  from correct_snapshot_cases [OF T, of i w n] Some obtain v where pi: "snapshot_id p = i"
    and v: "snap_valid p = Some (isoformat v)"
    and c: "correct_snapshot cfg i w n now T =
      (Inr (fst (create_snapshot cfg (correction_args cfg p w n v now) T)), snd (create_snapshot cfg (correction_args cfg p w n v now) T))"
    by auto
  let ?a = "correction_args cfg p w n v now"
  have a: "a_source ?a = snap_source p" "a_now ?a = now" "a_valid ?a = Some v" "a_parent ?a = Some i"
    using pi by (simp_all add: correction_args_def Let_def)
  have lists: "snaps_of (snd (create_snapshot cfg ?a T)) src
      = snaps_of T src @ (if src = snap_source p then [fst (create_snapshot cfg ?a T)] else [])" for src
    unfolding create_snapshot_lists a(1) ..
  then have "latest_snapshot (snd (create_snapshot cfg ?a T)) (snap_source p) = Some (fst (create_snapshot cfg ?a T))"
    by (simp add: latest_snapshot_def)
  then show ?thesis
    using Some c lists drift_against_latest a v
    by (intro conjI allI impI exI [of _ "fst (create_snapshot cfg ?a T)"] exI [of _ "snd (create_snapshot cfg ?a T)"])
      (auto simp: create_snapshot_fields)
qed

theorem correction_appends_witness:
  "\<exists>p c T'. correct_snapshot redacting (snapshot_id p) (PStr ''fixed'') None quarter_later crafted_fetch = (Inr c, T')
     \<and> snaps_of T' ''../ofac'' = [p, c] \<and> snap_valid c = snap_valid p"
proof -
  obtain p where p: "snapshots crafted_fetch = [(''../ofac'', [p])]" using crafted_shape by blast
  have f: "find_snapshot crafted_fetch (snapshot_id p) = Some p" by (simp add: find_snapshot_def p)
  have "tracker_ok redacting noon_utc crafted_fetch" by (rule tracker_reach_ok [OF crafted_reach])
  then have src: "snap_source p = ''../ofac''" by (auto simp: tracker_ok_def snap_ok_def snaps_of_def dget_or_def p split: if_splits)
  have "instant noon_utc \<le> instant quarter_later" by (simp add: noon_utc_def quarter_later_def instant_def us_per_day_def)
  from correction_appends [OF crafted_reach quarter_later_time this, of "snapshot_id p" "PStr ''fixed''" None] f
  obtain c T' where c: "correct_snapshot redacting (snapshot_id p) (PStr ''fixed'') None quarter_later crafted_fetch = (Inr c, T')"
    "snap_valid c = snap_valid p" "snaps_of T' (snap_source p) = snaps_of crafted_fetch (snap_source p) @ [c]" by fastforce
  then show ?thesis using src by (intro exI [of _ p] exI [of _ c] exI [of _ T']) (simp add: snaps_of_def dget_or_def p)
qed

section \<open>Serialization\<close>

lemma int_or_none_None: "int_or_none_val i = PNone \<longleftrightarrow> i = None"
  by (cases i) (simp_all add: int_or_none_val_def)

lemma of_opt_str_None: "of_opt_str i = PNone \<longleftrightarrow> i = None"
  by (cases i) simp_all

lemma snapshot_roundtrip: "snapshot_from_dict (snapshot_to_dict s) = Inr s"
  by (cases "snap_count s"; cases "snap_path s"; cases "snap_parent s"; cases "snap_valid s"; cases "snap_trust s")
    (simp_all add: snapshot_from_dict_def snapshot_to_dict_def needed_def as_int_def as_opt_int_def pget_def dget_or_def
      int_or_none_val_def as_opt_string_def)

end
