(* ===== verification/Lakefs.thy ===== *)
theory Lakefs
  imports Tracker Quota
begin

text \<open>
  \<open>integrations/lakefs/branches.py\<close>: the branch manager of the agent-isolation workflow. What the
  lakeFS SDK and the \<open>lakectl\<close> command do is a record of operations on a state of the server; the
  clock and the text of an exception are arguments. Span events are returned where a span records.
  The result: cleaning up deletes no branch that is young or whose age cannot be read.
\<close>

section \<open>The server\<close>

text \<open>A commit object: what its \<open>id\<close> says, and its \<open>creation_date\<close>, \<open>created_at\<close> and \<open>timestamp\<close>.\<close>

datatype stamp = NoStamp | Millis rat | Stamp datetime | StampText string

record lake_commit =
  lake_sha :: string
  commit_stamps :: "stamp list"

record merge_answer =
  ma_commit :: string
  ma_summary :: pyval

record diff_item =
  di_path :: string
  di_type :: string
  di_size :: "int option"

record 'w lake =
  sdk_create :: "string \<Rightarrow> string \<Rightarrow> 'w \<Rightarrow> unit res \<times> 'w"
  sdk_head :: "string \<Rightarrow> 'w \<Rightarrow> lake_commit res"
  sdk_delete :: "string \<Rightarrow> 'w \<Rightarrow> unit res \<times> 'w"
  sdk_merge :: "string \<Rightarrow> string \<Rightarrow> string option \<Rightarrow> string option \<Rightarrow> 'w \<Rightarrow> merge_answer res \<times> 'w"
  sdk_diff :: "string \<Rightarrow> string \<Rightarrow> 'w \<Rightarrow> diff_item list res"
  sdk_branches :: "string \<Rightarrow> 'w \<Rightarrow> string list res"
  lakectl :: "string list \<Rightarrow> 'w \<Rightarrow> (string + string) \<times> 'w"
  error_text :: "pyexn \<Rightarrow> string"

section \<open>Data\<close>

datatype merge_strategy = MERGE_DEFAULT | SOURCE_WINS | DEST_WINS

definition strategy_value :: "merge_strategy \<Rightarrow> string" where
  "strategy_value m = (case m of MERGE_DEFAULT \<Rightarrow> ''default'' | SOURCE_WINS \<Rightarrow> ''source-wins'' | DEST_WINS \<Rightarrow> ''dest-wins'')"

record branch_info =
  bi_name :: string
  bi_commit :: string
  bi_created :: string

record diff_entry =
  de_path :: string
  de_type :: string
  de_size :: "int option"

record merge_result =
  mr_commit :: string
  mr_summary :: pydict

record branch_manager =
  bm_live :: bool
  bm_source :: string
  bm_strategy :: merge_strategy
  bm_emits :: bool

type_synonym span_event = "string \<times> pydict"

definition record_event :: "branch_manager \<Rightarrow> string \<Rightarrow> pydict \<Rightarrow> span_event list" where
  "record_event bm name attributes = (if bm_emits bm then [(name, attributes)] else [])"

definition runtime_error :: pyexn where
  "runtime_error = RaisedBy ''RuntimeError''"

section \<open>Operations\<close>

text \<open>The first of the three attributes that is present; \<open>now\<close> is the clock.\<close>

fun commit_timestamp :: "datetime \<Rightarrow> stamp list \<Rightarrow> string res" where
  "commit_timestamp now [] = Inr (isoformat now)"
| "commit_timestamp now (NoStamp # ss) = commit_timestamp now ss"
| "commit_timestamp now (Millis ms # ss) = rbind (fromtimestamp (Fin (ms / 1000))) (\<lambda>d. Inr (isoformat d))"
| "commit_timestamp now (Stamp d # ss) = Inr (isoformat (if aware d then d else to_utc d))"
| "commit_timestamp now (StampText t # ss) = Inr t"

definition mock_branch_commit :: "string \<Rightarrow> string" where
  "mock_branch_commit name = ''mock-'' @ map (\<lambda>c. if c = CHR ''/'' then CHR ''-'' else c) (take 8 name) @ ''-commit''"

definition created_event :: "branch_manager \<Rightarrow> string \<Rightarrow> string \<Rightarrow> string \<Rightarrow> span_event list" where
  "created_event bm name source created = record_event bm ''lakefs.branch_created''
     [(''agent.branch.name'', PStr name), (''agent.branch.source'', PStr source), (''agent.branch.created_at'', PStr created)]"

definition create_branch ::
  "'w lake \<Rightarrow> branch_manager \<Rightarrow> datetime \<Rightarrow> string \<Rightarrow> string option \<Rightarrow> 'w \<Rightarrow> branch_info res \<times> span_event list \<times> 'w" where
  "create_branch lk bm now name source_opt w =
     (let source = (if str_truthy source_opt then the source_opt else bm_source bm) in
      if \<not> bm_live bm then
        (Inr \<lparr>bi_name = name, bi_commit = mock_branch_commit name, bi_created = isoformat now\<rparr>,
         created_event bm name source (isoformat now), w)
      else (case sdk_create lk name source w of
          (Inl e, w1) \<Rightarrow> (Inl runtime_error, [], w1)
        | (Inr _, w1) \<Rightarrow>
            (case rbind (sdk_head lk name w1) (\<lambda>c. rbind (commit_timestamp now (commit_stamps c)) (\<lambda>t. Inr (lake_sha c, t))) of
               Inl e \<Rightarrow> (Inl runtime_error, [], w1)
             | Inr (sha, created) \<Rightarrow>
                 (Inr \<lparr>bi_name = name, bi_commit = sha, bi_created = created\<rparr>, created_event bm name source created, w1))))"

definition delete_branch :: "'w lake \<Rightarrow> branch_manager \<Rightarrow> string \<Rightarrow> 'w \<Rightarrow> unit res \<times> 'w" where
  "delete_branch lk bm name w =
     (if \<not> bm_live bm then (Inr (), w)
      else (case sdk_delete lk name w of (Inl e, w1) \<Rightarrow> (Inl runtime_error, w1) | (Inr _, w1) \<Rightarrow> (Inr (), w1)))"

definition merged_event :: "branch_manager \<Rightarrow> string \<Rightarrow> string \<Rightarrow> string option \<Rightarrow> merge_strategy \<Rightarrow> bool \<Rightarrow> span_event list" where
  "merged_event bm source destination commit strategy conflict = record_event bm ''lakefs.branch_merged''
     ([(''agent.merge.source'', PStr source), (''agent.merge.destination'', PStr destination)]
      @ (case commit of Some c \<Rightarrow> [(''agent.merge.commit_id'', PStr c)] | None \<Rightarrow> [])
      @ [(''agent.merge.strategy'', PStr (strategy_value strategy)), (''agent.merge.conflict'', PBool conflict)])"

definition merge_branch ::
  "'w lake \<Rightarrow> branch_manager \<Rightarrow> string \<Rightarrow> string \<Rightarrow> string option \<Rightarrow> merge_strategy option \<Rightarrow> 'w \<Rightarrow>
   merge_result res \<times> span_event list \<times> 'w" where
  "merge_branch lk bm source destination message strategy_opt w =
     (let strategy = (case strategy_opt of Some s \<Rightarrow> s | None \<Rightarrow> bm_strategy bm) in
      if \<not> bm_live bm then
        (let c = ''mock-merge-'' @ take 6 source @ ''-into-'' @ take 6 destination in
         (Inr \<lparr>mr_commit = c, mr_summary = [(''added'', PInt 0), (''removed'', PInt 0), (''changed'', PInt 0)]\<rparr>,
          merged_event bm source destination (Some c) strategy False, w))
      else (case sdk_merge lk source destination (if str_truthy message then message else None)
          (if strategy \<noteq> MERGE_DEFAULT then Some (strategy_value strategy) else None) w of
          (Inl e, w1) \<Rightarrow>
            (Inl runtime_error,
             merged_event bm source destination None strategy (is_substr ''conflict'' (lower (error_text lk e))), w1)
        | (Inr a, w1) \<Rightarrow>
            (Inr \<lparr>mr_commit = ma_commit a, mr_summary = (case ma_summary a of PDict d \<Rightarrow> d | _ \<Rightarrow> [])\<rparr>,
             merged_event bm source destination (Some (ma_commit a)) strategy False, w1)))"

definition change_type :: "string \<Rightarrow> string" where
  "change_type raw =
     (let t = map (\<lambda>c. if c = CHR ''_'' then CHR '' '' else c) (lower raw) in
      if is_substr ''add'' t then ''added''
      else if is_substr ''remov'' t \<or> is_substr ''delet'' t then ''removed'' else ''changed'')"

definition count_type :: "string \<Rightarrow> diff_entry list \<Rightarrow> int" where
  "count_type t es = int (length (filter (\<lambda>e. de_type e = t) es))"

definition diff_event :: "branch_manager \<Rightarrow> string \<Rightarrow> string \<Rightarrow> diff_entry list \<Rightarrow> span_event list" where
  "diff_event bm left right es = record_event bm ''lakefs.diff_computed''
     [(''agent.diff.left_ref'', PStr left), (''agent.diff.right_ref'', PStr right),
      (''agent.diff.added'', PInt (count_type ''added'' es)), (''agent.diff.removed'', PInt (count_type ''removed'' es)),
      (''agent.diff.changed'', PInt (count_type ''changed'' es))]"

definition diff_refs :: "'w lake \<Rightarrow> branch_manager \<Rightarrow> string \<Rightarrow> string \<Rightarrow> 'w \<Rightarrow> diff_entry list \<times> span_event list" where
  "diff_refs lk bm left right w =
     (if \<not> bm_live bm then ([], diff_event bm left right [])
      else (case sdk_diff lk left right w of
          Inl e \<Rightarrow> ([], [])
        | Inr items \<Rightarrow>
            (let es = map (\<lambda>i. \<lparr>de_path = di_path i, de_type = change_type (di_type i), de_size = di_size i\<rparr>) items
             in (es, diff_event bm left right es))))"

definition branch_exists :: "'w lake \<Rightarrow> branch_manager \<Rightarrow> string \<Rightarrow> 'w \<Rightarrow> bool" where
  "branch_exists lk bm name w = (if \<not> bm_live bm then False else case sdk_head lk name w of Inl e \<Rightarrow> False | Inr c \<Rightarrow> True)"

definition info_of :: "'w lake \<Rightarrow> datetime \<Rightarrow> 'w \<Rightarrow> string \<Rightarrow> branch_info" where
  "info_of lk now w name =
     (case rbind (sdk_head lk name w) (\<lambda>c. rbind (commit_timestamp now (commit_stamps c)) (\<lambda>t. Inr (lake_sha c, t))) of
        Inl e \<Rightarrow> \<lparr>bi_name = name, bi_commit = ''unknown'', bi_created = isoformat now\<rparr>
      | Inr (sha, created) \<Rightarrow> \<lparr>bi_name = name, bi_commit = sha, bi_created = created\<rparr>)"

definition list_branches :: "'w lake \<Rightarrow> branch_manager \<Rightarrow> datetime \<Rightarrow> string \<Rightarrow> 'w \<Rightarrow> branch_info list" where
  "list_branches lk bm now prefix w =
     (if \<not> bm_live bm then []
      else case sdk_branches lk prefix w of Inl e \<Rightarrow> [] | Inr names \<Rightarrow> map (info_of lk now w) names)"

text \<open>The age test; a text that is no date is not stale.\<close>

definition is_stale :: "datetime \<Rightarrow> branch_info \<Rightarrow> bool" where
  "is_stale cutoff info = (case fromisoformat (bi_created info) of
     Inl e \<Rightarrow> False
   | Inr d \<Rightarrow> instant (if aware d then d else to_utc d) < instant cutoff)"

fun cleanup_loop :: "'w lake \<Rightarrow> branch_manager \<Rightarrow> datetime \<Rightarrow> branch_info list \<Rightarrow> 'w \<Rightarrow> string list \<times> 'w" where
  "cleanup_loop lk bm cutoff [] w = ([], w)"
| "cleanup_loop lk bm cutoff (info # infos) w =
     (if is_stale cutoff info then
        (case delete_branch lk bm (bi_name info) w of
           (Inl e, w1) \<Rightarrow> cleanup_loop lk bm cutoff infos w1
         | (Inr _, w1) \<Rightarrow> (let (ds, w2) = cleanup_loop lk bm cutoff infos w1 in (bi_name info # ds, w2)))
      else cleanup_loop lk bm cutoff infos w)"

definition cleanup_stale_branches ::
  "'w lake \<Rightarrow> branch_manager \<Rightarrow> datetime \<Rightarrow> int \<Rightarrow> 'w \<Rightarrow> string list res \<times> 'w" where
  "cleanup_stale_branches lk bm now max_age_hours w =
     (let cut = dt_wall now - max_age_hours * 3600000000 in
      if cut < 0 \<or> 3652059 * us_per_day \<le> cut then (Inl (RaisedBy ''OverflowError''), w)
      else (let (ds, w1) = cleanup_loop lk bm (now\<lparr>dt_wall := cut\<rparr>) (list_branches lk bm now ''briefcase-staging/'' w) w
            in (Inr ds, w1)))"

section \<open>Cleaning up\<close>

lemma cleanup_loop_sub:
  "fst (cleanup_loop lk bm cutoff infos w) = ds \<Longrightarrow> d \<in> set ds \<Longrightarrow> \<exists>info\<in>set infos. bi_name info = d \<and> is_stale cutoff info"
proof (induction infos arbitrary: w ds)
  case (Cons info infos)
  obtain r w1 where r: "delete_branch lk bm (bi_name info) w = (r, w1)" by (cases "delete_branch lk bm (bi_name info) w")
  obtain ds1 w2 where l: "cleanup_loop lk bm cutoff infos w1 = (ds1, w2)" by (cases "cleanup_loop lk bm cutoff infos w1")
  show ?case
    using Cons.prems Cons.IH [of w ds] Cons.IH [of w1 ds1] r l by (auto split: if_splits sum.splits)
qed simp

lemma info_of_stale:
  assumes "is_stale cutoff (info_of lk now w name)" "utc_time now" "instant cutoff \<le> instant now"
  shows "\<exists>c t d. sdk_head lk name w = Inr c \<and> commit_timestamp now (commit_stamps c) = Inr t \<and> fromisoformat t = Inr d
    \<and> instant d < instant cutoff"
proof (cases "rbind (sdk_head lk name w) (\<lambda>c. rbind (commit_timestamp now (commit_stamps c)) (\<lambda>t. Inr (lake_sha c, t)))")
  case (Inl e)
  have "fromisoformat (isoformat now) = Inr now" using utc_wf [OF assms(2)] by (rule fromisoformat_isoformat)
  moreover have "aware now" using assms(2) by (simp add: utc_time_def aware_def)
  ultimately show ?thesis using assms(1,3) Inl by (simp add: info_of_def is_stale_def)
next
  case (Inr st)
  then obtain c t where "sdk_head lk name w = Inr c" "commit_timestamp now (commit_stamps c) = Inr t" "st = (lake_sha c, t)"
    by (auto simp: rbind_Inr_iff)
  then show ?thesis using assms(1) Inr by (auto simp: info_of_def is_stale_def split: sum.splits if_splits)
qed

text \<open>
  Cleaning up spares what it does not know. With a non-negative age, a branch is deleted only
  when the server listed it under the staging prefix, its head commit was read, and the time of
  that commit parses and lies before the age limit; in mock mode nothing is deleted.
\<close>

theorem cleanup_spares_unknown:
  assumes now: "utc_time now" and h: "0 \<le> h" and run: "cleanup_stale_branches lk bm now h w = (Inr ds, w1)" and d: "d \<in> set ds"
  shows "bm_live bm \<and> (\<exists>names c t created. sdk_branches lk ''briefcase-staging/'' w = Inr names \<and> d \<in> set names
    \<and> sdk_head lk d w = Inr c \<and> commit_timestamp now (commit_stamps c) = Inr t \<and> fromisoformat t = Inr created
    \<and> instant created < instant now - h * 3600000000)"
proof -
  let ?cutoff = "now\<lparr>dt_wall := dt_wall now - h * 3600000000\<rparr>"
  have "fst (cleanup_loop lk bm ?cutoff (list_branches lk bm now ''briefcase-staging/'' w) w) = ds"
    using run by (auto simp: cleanup_stale_branches_def Let_def split: if_splits prod.splits)
  from cleanup_loop_sub [OF this d] obtain info where info: "info \<in> set (list_branches lk bm now ''briefcase-staging/'' w)"
    "bi_name info = d" "is_stale ?cutoff info" by blast
  have cut: "instant ?cutoff = instant now - h * 3600000000" by (simp add: instant_def)
  from info(1) obtain names where names: "bm_live bm" "sdk_branches lk ''briefcase-staging/'' w = Inr names"
    and "info \<in> info_of lk now w ` set names"
    by (cases "sdk_branches lk ''briefcase-staging/'' w") (auto simp: list_branches_def split: if_splits)
  moreover have "bi_name (info_of lk now w n) = n" for n by (auto simp: info_of_def split: sum.splits)
  ultimately have "info = info_of lk now w d" "d \<in> set names" using info(2) by auto
  then show ?thesis using info_of_stale [of ?cutoff lk now w d] info(3) now h names cut by auto
qed

text \<open>A server with an old staging branch, one of unknown age and one whose commit cannot be read.\<close>

definition sample_repo :: "string list lake" where
  "sample_repo = \<lparr>sdk_create = (\<lambda>n src w. (Inr (), w)),
     sdk_head = (\<lambda>n w. if n = ''old'' then Inr \<lparr>lake_sha = ''c1'', commit_stamps = [StampText ''2024-01-01T00:00:00+00:00'']\<rparr>
        else if n = ''odd'' then Inr \<lparr>lake_sha = ''c2'', commit_stamps = [StampText ''yesterday'']\<rparr> else Inl ValueError),
     sdk_delete = (\<lambda>n w. (Inr (), removeAll n w)),
     sdk_merge = (\<lambda>src dst msg strat w. (Inl ValueError, w)),
     sdk_diff = (\<lambda>l r w. Inr []),
     sdk_branches = (\<lambda>p w. Inr w),
     lakectl = (\<lambda>cmd w. (Inl [], w)),
     error_text = (\<lambda>e. [])\<rparr>"

abbreviation sample_now :: datetime where
  "sample_now \<equiv> \<lparr>dt_wall = 3652058 * us_per_day, dt_off = Some 0\<rparr>"

abbreviation sample_bm :: branch_manager where
  "sample_bm \<equiv> \<lparr>bm_live = True, bm_source = ''main'', bm_strategy = MERGE_DEFAULT, bm_emits = False\<rparr>"

lemma sample_cleanup:
  "cleanup_stale_branches sample_repo sample_bm sample_now 24 [''new'', ''old'', ''odd''] = (Inr [''old''], [''new'', ''odd''])"
  by code_simp

theorem cleanup_spares_unknown_witness:
  "\<exists>created. fromisoformat ''2024-01-01T00:00:00+00:00'' = Inr created \<and> instant created < instant sample_now - 24 * 3600000000"
proof -
  have now: "utc_time sample_now" by code_simp
  show ?thesis using cleanup_spares_unknown [OF now _ sample_cleanup, of "''old''"]
    by (auto simp: sample_repo_def)
qed

end
