(* ===== verification/Lineage.thy ===== *)
theory Lineage
  imports Lakefs
begin

text \<open>
  \<open>integrations/lakefs/lineage.py\<close>: committing files through \<open>lakectl\<close>, live or simulated in a local
  state file. Local files are given by their bytes; what the command prints, whether it is on the
  path and the clock are arguments. In live mode the command is assumed to be installed; the two
  clock readings of one call are one.
\<close>

section \<open>Configuration and commands\<close>

record lineage_config =
  lc_repository :: string
  lc_branch :: string
  lc_mode :: string
  lc_namespace :: "string option"
  lc_base_uri :: "string option"
  lc_config_path :: "string option"

record commit_info =
  ci_commit :: string
  ci_repository :: string
  ci_branch :: string
  ci_mode :: string
  ci_message :: string
  ci_files :: "(string \<times> string) list"
  ci_metadata :: "(string \<times> string) list"
  ci_time :: string

definition lineage_error :: pyexn where
  "lineage_error = RaisedBy ''ArtifactLineageError''"

definition make_lineage :: "lineage_config \<Rightarrow> lineage_config res" where
  "make_lineage cfg = (let m = strip (lower (lc_mode cfg)) in
     if m \<notin> {''auto'', ''live'', ''simulate''} then Inl ValueError else Inr (cfg\<lparr>lc_mode := m\<rparr>))"

definition lakectl_cmd :: "lineage_config \<Rightarrow> string list \<Rightarrow> string list" where
  "lakectl_cmd cfg args = [''lakectl''] @ (if str_truthy (lc_base_uri cfg) then [''--base-uri'', the (lc_base_uri cfg)] else [])
     @ (if str_truthy (lc_config_path cfg) then [''--config'', the (lc_config_path cfg)] else []) @ args"

definition run_checked :: "'w lake \<Rightarrow> string list \<Rightarrow> string list \<Rightarrow> 'w \<Rightarrow> string res \<times> 'w" where
  "run_checked lk cmd ignored w = (case lakectl lk cmd w of
     (Inr out, w1) \<Rightarrow> (Inr out, w1)
   | (Inl text, w1) \<Rightarrow>
       (if list_ex (\<lambda>t. is_substr t (lower text)) ignored then Inr text else Inl lineage_error, w1))"

definition object_uri :: "lineage_config \<Rightarrow> string \<Rightarrow> string option \<Rightarrow> string" where
  "object_uri cfg path ref = ''lakefs://'' @ lc_repository cfg @ ''/''
     @ (if str_truthy ref then the ref else lc_branch cfg) @ ''/'' @ dropWhile (\<lambda>c. c = CHR ''/'') path"

section \<open>Commit ids in the output\<close>

text \<open>The parts between separators, the empty ones included.\<close>

fun split_on :: "char \<Rightarrow> string \<Rightarrow> string list" where
  "split_on c [] = [[]]"
| "split_on c (x # xs) = (case split_on c xs of
     [] \<Rightarrow> [[x]] | p # ps \<Rightarrow> if x = c then [] # p # ps else (x # p) # ps)"

definition token_candidates :: "string \<Rightarrow> string list" where
  "token_candidates text = filter (\<lambda>p. p \<noteq> [])
     (map strip (foldl (\<lambda>parts c. concat (map (split_on c) parts)) [text]
       [CHR 0x0A, CHR 0x09, CHR '' '', CHR '','', CHR '';'', CHR '':'', CHR ''['', CHR '']'', CHR ''('', CHR '')'']))"

definition is_sha :: "string \<Rightarrow> bool" where
  "is_sha t \<longleftrightarrow> length t = 64 \<and> list_all (\<lambda>c. is_digit c \<or> (97 \<le> code c \<and> code c \<le> 102)) t"

definition extract_commit_id :: "string \<Rightarrow> string option" where
  "extract_commit_id text = (case filter is_sha (token_candidates text) of [] \<Rightarrow> None | t # _ \<Rightarrow> Some t)"

section \<open>Live commits\<close>

definition can_use_live :: "'w lake \<Rightarrow> lineage_config \<Rightarrow> bool \<Rightarrow> 'w \<Rightarrow> bool \<times> 'w" where
  \<comment> \<open>\<open>installed\<close>: whether the command is on the path\<close>
  "can_use_live lk cfg installed w =
     (if \<not> installed then (False, w)
      else case run_checked lk (lakectl_cmd cfg [''repo'', ''list'', ''--amount'', ''1'']) [] w of
        (Inr _, w1) \<Rightarrow> (True, w1) | (Inl _, w1) \<Rightarrow> (False, w1))"

definition effective_mode :: "'w lake \<Rightarrow> lineage_config \<Rightarrow> bool \<Rightarrow> 'w \<Rightarrow> string \<times> 'w" where
  "effective_mode lk cfg installed w =
     (if lc_mode cfg = ''simulate'' then (''simulated'', w)
      else if lc_mode cfg = ''live'' then (''live'', w)
      else (case can_use_live lk cfg installed w of (b, w1) \<Rightarrow> (if b then ''live'' else ''simulated'', w1)))"

text \<open>Commands in turn until one fails.\<close>

fun run_all_checked :: "'w lake \<Rightarrow> (string list \<times> string list) list \<Rightarrow> 'w \<Rightarrow> unit res \<times> 'w" where
  "run_all_checked lk [] w = (Inr (), w)"
| "run_all_checked lk ((cmd, ignored) # cs) w = (case run_checked lk cmd ignored w of
     (Inl e, w1) \<Rightarrow> (Inl e, w1) | (Inr _, w1) \<Rightarrow> run_all_checked lk cs w1)"

definition ensure_commands :: "lineage_config \<Rightarrow> (string list \<times> string list) list" where
  "ensure_commands cfg = (let repo = ''lakefs://'' @ lc_repository cfg in
     (if str_truthy (lc_namespace cfg)
      then [(lakectl_cmd cfg [''repo'', ''create'', repo, the (lc_namespace cfg), ''--default-branch'', ''main''], [''already exists''])]
      else [])
     @ (if lc_branch cfg \<noteq> ''main''
        then [(lakectl_cmd cfg [''branch'', ''create'', repo @ ''/'' @ lc_branch cfg, ''-s'', repo @ ''/main''], [''already exists''])]
        else []))"

text \<open>Uploading in the order of the object paths; a local file that is missing ends it.\<close>

fun upload_files ::
  "'w lake \<Rightarrow> lineage_config \<Rightarrow> (string \<Rightarrow> bytes option) \<Rightarrow> (string \<times> string) list \<Rightarrow> 'w \<Rightarrow> unit res \<times> 'w" where
  "upload_files lk cfg disk [] w = (Inr (), w)"
| "upload_files lk cfg disk ((object_path, local_path) # fs) w =
     (if disk local_path = None then (Inl lineage_error, w)
      else case run_checked lk (lakectl_cmd cfg [''fs'', ''upload'', object_uri cfg object_path None, ''--source'', local_path,
          ''--no-progress'']) [] w of
        (Inl e, w1) \<Rightarrow> (Inl e, w1) | (Inr _, w1) \<Rightarrow> upload_files lk cfg disk fs w1)"

definition branch_uri :: "lineage_config \<Rightarrow> string" where
  "branch_uri cfg = ''lakefs://'' @ lc_repository cfg @ ''/'' @ lc_branch cfg"

definition commit_cmd :: "lineage_config \<Rightarrow> string \<Rightarrow> (string \<times> string) list \<Rightarrow> string list" where
  "commit_cmd cfg message metadata = lakectl_cmd cfg [''commit'', branch_uri cfg, ''-m'', message]
     @ concat (map (\<lambda>(k, v). [''--meta'', k @ ''='' @ v]) metadata)"

definition head_commit_live :: "'w lake \<Rightarrow> lineage_config \<Rightarrow> 'w \<Rightarrow> string option res \<times> 'w" where
  "head_commit_live lk cfg w =
     (case run_checked lk (lakectl_cmd cfg [''log'', branch_uri cfg, ''--amount'', ''1'', ''--limit'']) [] w of
        (Inl e, w1) \<Rightarrow> (Inl e, w1) | (Inr out, w1) \<Rightarrow> (Inr (extract_commit_id out), w1))"

definition sorted_files :: "(string \<times> string) list \<Rightarrow> (string \<times> string) list" where
  "sorted_files files = sort_key fst files"

definition version_files_live ::
  "'w lake \<Rightarrow> lineage_config \<Rightarrow> (string \<Rightarrow> bytes option) \<Rightarrow> datetime \<Rightarrow> (string \<times> string) list \<Rightarrow> string \<Rightarrow>
   (string \<times> string) list \<Rightarrow> 'w \<Rightarrow> commit_info res \<times> 'w" where
  "version_files_live lk cfg disk now files message metadata w =
     (case run_all_checked lk (ensure_commands cfg) w of
        (Inl e, w1) \<Rightarrow> (Inl e, w1)
      | (Inr _, w1) \<Rightarrow> (case upload_files lk cfg disk (sorted_files files) w1 of
          (Inl e, w2) \<Rightarrow> (Inl e, w2)
        | (Inr _, w2) \<Rightarrow> (case run_checked lk (commit_cmd cfg message metadata) [] w2 of
            (Inl e, w3) \<Rightarrow> (Inl e, w3)
          | (Inr out, w3) \<Rightarrow>
              (case (case extract_commit_id out of Some c \<Rightarrow> (Inr (Some c), w3) | None \<Rightarrow> head_commit_live lk cfg w3) of
                 (Inl e, w4) \<Rightarrow> (Inl e, w4)
               | (Inr None, w4) \<Rightarrow> (Inl lineage_error, w4)
               | (Inr (Some c), w4) \<Rightarrow>
                   (Inr \<lparr>ci_commit = c, ci_repository = lc_repository cfg, ci_branch = lc_branch cfg, ci_mode = ''live'',
                      ci_message = message, ci_files = sorted_files files, ci_metadata = metadata,
                      ci_time = isoformat now\<rparr>, w4)))))"

section \<open>Simulated commits\<close>

text \<open>The local state file of the branch: its head and its commits.\<close>

record sim_state =
  sim_head :: string
  sim_commits :: "commit_info list"

fun hash_files :: "(bytes \<Rightarrow> string) \<Rightarrow> (string \<Rightarrow> bytes option) \<Rightarrow> (string \<times> string) list \<Rightarrow> string list res" where
  "hash_files sha disk [] = Inr []"
| "hash_files sha disk ((object_path, local_path) # fs) = (case disk local_path of
     None \<Rightarrow> Inl lineage_error
   | Some bs \<Rightarrow> rbind (hash_files sha disk fs) (\<lambda>ps. Inr (object_path # sha bs # ps)))"

fun join_bar :: "string list \<Rightarrow> string" where
  "join_bar [] = []"
| "join_bar [p] = p"
| "join_bar (p # ps) = p @ ''|'' @ join_bar ps"

definition version_files_simulated ::
  "(bytes \<Rightarrow> string) \<Rightarrow> lineage_config \<Rightarrow> (string \<Rightarrow> bytes option) \<Rightarrow> datetime \<Rightarrow> (string \<times> string) list \<Rightarrow> string \<Rightarrow>
   (string \<times> string) list \<Rightarrow> sim_state \<Rightarrow> commit_info res \<times> sim_state" where
  "version_files_simulated sha cfg disk now files message metadata st =
     (case hash_files sha disk (sorted_files files) of
        Inl e \<Rightarrow> (Inl e, st)
      | Inr parts \<Rightarrow>
          (let meta_json = dumps (\<lambda>_. []) True (PDict (map (\<lambda>(k, v). (k, PStr v)) metadata));
               cid = sha (utf8 (join_bar ([sim_head st, message, meta_json] @ parts @ [isoformat now])));
               info = \<lparr>ci_commit = cid, ci_repository = lc_repository cfg, ci_branch = lc_branch cfg, ci_mode = ''simulated'',
                 ci_message = message, ci_files = sorted_files files, ci_metadata = metadata, ci_time = isoformat now\<rparr>
           in (Inr info, \<lparr>sim_head = cid, sim_commits = sim_commits st @ [info]\<rparr>)))"

text \<open>The state file of one branch is beside the server in the state.\<close>

definition version_files ::
  "'w lake \<Rightarrow> (bytes \<Rightarrow> string) \<Rightarrow> lineage_config \<Rightarrow> (string \<Rightarrow> bytes option) \<Rightarrow> bool \<Rightarrow> datetime \<Rightarrow> (string \<times> string) list \<Rightarrow>
   string \<Rightarrow> (string \<times> string) list \<Rightarrow> 'w \<Rightarrow> sim_state \<Rightarrow> commit_info res \<times> 'w \<times> sim_state" where
  "version_files lk sha cfg disk installed now files message metadata w st =
     (case effective_mode lk cfg installed w of
        (m, w1) \<Rightarrow>
          (let simulate = (\<lambda>w'. case version_files_simulated sha cfg disk now files message metadata st of
                 (r, st') \<Rightarrow> (r, w', st'))
           in if m = ''live'' then
                (case version_files_live lk cfg disk now files message metadata w1 of
                   (Inr info, w2) \<Rightarrow> (Inr info, w2, st)
                 | (Inl e, w2) \<Rightarrow>
                     if e = lineage_error \<and> lc_mode cfg \<noteq> ''live'' then simulate w2 else (Inl e, w2, st))
              else simulate w1))"

end
