(* ===== verification/Staged.thy ===== *)
theory Staged
  imports Lineage "HOL-Library.Sublist"
begin

text \<open>
  \<open>integrations/lakefs/staged.py\<close>: stage files on an ephemeral branch, validate it, merge it. A
  validator is what it answers on a state of the server; the cloud probe and the clock are arguments.
  The results: the target branch changes only by a merge after every validator passed, and in
  automatic mode that merge also happens when the files could not be uploaded.
\<close>

section \<open>Data\<close>

record validation_result =
  vr_passed :: bool
  vr_name :: string
  vr_message :: string
  vr_details :: pydict

text \<open>What a validator does: return a result, return another value of this truth, or raise.\<close>

datatype validator_answer = Answered validation_result | Truth bool | Threw pyexn

record 'w stage_validator =
  vd_name :: string
  vd_run :: "string \<Rightarrow> 'w \<Rightarrow> validator_answer \<times> 'w"

record staged_result =
  sr_commit :: string
  sr_staging :: string
  sr_target :: string
  sr_validation :: "validation_result list"
  sr_diff :: "diff_entry list"
  sr_mode :: string
  sr_merged :: bool

datatype staged_error = ValidationFailed "validation_result list" string | Failed_with pyexn

record 'w staged_client =
  sc_config :: lineage_config
  sc_validators :: "'w stage_validator list"
  sc_strategy :: merge_strategy
  sc_cleanup_success :: bool
  sc_cleanup_failure :: bool
  sc_cloud :: bool
  sc_otel :: bool

definition register_validator :: "'w stage_validator \<Rightarrow> 'w staged_client \<Rightarrow> 'w staged_client" where
  "register_validator v sc = sc\<lparr>sc_validators := sc_validators sc @ [v]\<rparr>"

section \<open>The workflow\<close>

definition staging_name :: "datetime \<Rightarrow> string option \<Rightarrow> string" where
  "staging_name now given_name = (case given_name of Some n \<Rightarrow> n | None \<Rightarrow> ''briefcase-staging/'' @ compact_time now)"

definition judged :: "(pyexn \<Rightarrow> string) \<Rightarrow> string \<Rightarrow> validator_answer \<Rightarrow> validation_result" where
  "judged text_of name ans = (case ans of
     Answered r \<Rightarrow> r
   | Truth b \<Rightarrow> \<lparr>vr_passed = b, vr_name = name, vr_message = [], vr_details = []\<rparr>
   | Threw e \<Rightarrow> \<lparr>vr_passed = False, vr_name = name, vr_message = text_of e, vr_details = []\<rparr>)"

fun run_validators ::
  "(pyexn \<Rightarrow> string) \<Rightarrow> string \<Rightarrow> 'w stage_validator list \<Rightarrow> 'w \<Rightarrow> validation_result list \<times> 'w" where
  "run_validators text_of branch [] w = ([], w)"
| "run_validators text_of branch (v # vs) w =
     (let (ans, w1) = vd_run v branch w; (rs, w2) = run_validators text_of branch vs w1
      in (judged text_of (vd_name v) ans # rs, w2))"

definition try_delete :: "'w lake \<Rightarrow> branch_manager \<Rightarrow> bool \<Rightarrow> string \<Rightarrow> 'w \<Rightarrow> 'w" where
  "try_delete lk bm wanted name w = (if wanted then snd (delete_branch lk bm name w) else w)"

definition mode_text :: "branch_manager \<Rightarrow> 'w staged_client \<Rightarrow> string" where
  "mode_text bm sc = (if bm_live bm \<and> sc_cloud sc then ''cloud'' else ''oss'')"

definition staged_event :: "branch_manager \<Rightarrow> 'w staged_client \<Rightarrow> string \<Rightarrow> string \<Rightarrow> validation_result list \<Rightarrow> span_event list" where
  "staged_event bm sc branch target rs =
     (let n_passed = int (length (filter vr_passed rs)) in
      if sc_otel sc then [(''lakefs.staged_validation'',
        [(''agent.staged.branch'', PStr branch), (''agent.staged.target'', PStr target),
         (''agent.staged.validators.run'', PInt (int (length rs))), (''agent.staged.validators.passed'', PInt n_passed),
         (''agent.staged.validators.failed'', PInt (int (length rs) - n_passed)), (''agent.staged.mode'', PStr (mode_text bm sc))])]
      else [])"

text \<open>From the upload on: diff, validators, merge.\<close>

definition validate_and_merge ::
  "'w lake \<Rightarrow> branch_manager \<Rightarrow> 'w staged_client \<Rightarrow> string \<Rightarrow> string \<Rightarrow> 'w \<Rightarrow>
   (staged_error + staged_result) \<times> span_event list \<times> 'w" where
  "validate_and_merge lk bm sc branch message w =
     (let target = lc_branch (sc_config sc);
          (entries, ev1) = diff_refs lk bm target branch w;
          (rs, w1) = run_validators (error_text lk) branch (sc_validators sc) w;
          ev2 = staged_event bm sc branch target rs
      in if \<not> list_all vr_passed rs then
           (Inl (ValidationFailed rs branch), ev1 @ ev2, try_delete lk bm (sc_cleanup_failure sc) branch w1)
         else (case merge_branch lk bm branch target (Some (''merge: '' @ message)) (Some (sc_strategy sc)) w1 of
             (Inl e, ev3, w2) \<Rightarrow> (Inl (Failed_with e), ev1 @ ev2 @ ev3, w2)
           | (Inr m, ev3, w2) \<Rightarrow>
               (Inr \<lparr>sr_commit = mr_commit m, sr_staging = branch, sr_target = target, sr_validation = rs,
                  sr_diff = entries, sr_mode = mode_text bm sc, sr_merged = True\<rparr>,
                ev1 @ ev2 @ ev3, try_delete lk bm (sc_cleanup_success sc) branch w2)))"

definition stage_and_validate ::
  "'w lake \<Rightarrow> (bytes \<Rightarrow> string) \<Rightarrow> (string \<Rightarrow> bytes option) \<Rightarrow> bool \<Rightarrow> branch_manager \<Rightarrow> 'w staged_client \<Rightarrow> datetime \<Rightarrow>
   (string \<times> string) list \<Rightarrow> string \<Rightarrow> (string \<times> string) list \<Rightarrow> string option \<Rightarrow> 'w \<Rightarrow> sim_state \<Rightarrow>
   (staged_error + staged_result) \<times> span_event list \<times> 'w \<times> sim_state" where
  "stage_and_validate lk sha disk installed bm sc now files message metadata given_name w st =
     (let target = lc_branch (sc_config sc); branch = staging_name now given_name in
      case create_branch lk bm now branch (Some target) w of
        (Inl e, ev, w1) \<Rightarrow> (Inl (Failed_with e), ev, w1, st)
      | (Inr _, ev, w1) \<Rightarrow>
          (case make_lineage ((sc_config sc)\<lparr>lc_branch := branch\<rparr>) of
             Inl e \<Rightarrow> (Inl (Failed_with e), ev, w1, st)
           | Inr cfg \<Rightarrow>
               (case version_files lk sha cfg disk installed now files message metadata w1 st of
                  (Inl e, w2, st2) \<Rightarrow>
                    (Inl (Failed_with e), ev, try_delete lk bm (sc_cleanup_failure sc) branch w2, st2)
                | (Inr _, w2, st2) \<Rightarrow>
                    (case validate_and_merge lk bm sc branch message w2 of (r, ev', w3) \<Rightarrow> (r, ev @ ev', w3, st2)))))"

section \<open>What the server is expected to do\<close>

text \<open>The commands a lineage client of a branch runs.\<close>

inductive client_cmd :: "lineage_config \<Rightarrow> string list \<Rightarrow> bool" for cfg where
  cmd_list: "client_cmd cfg (lakectl_cmd cfg [''repo'', ''list'', ''--amount'', ''1''])"
| cmd_ensure: "(cmd, ignored) \<in> set (ensure_commands cfg) \<Longrightarrow> client_cmd cfg cmd"
| cmd_upload: "client_cmd cfg (lakectl_cmd cfg [''fs'', ''upload'', object_uri cfg p None, ''--source'', l, ''--no-progress''])"
| cmd_commit: "client_cmd cfg (commit_cmd cfg message metadata)"
| cmd_log: "client_cmd cfg (lakectl_cmd cfg [''log'', branch_uri cfg, ''--amount'', ''1'', ''--limit''])"

text \<open>Which branch a command line of \<open>lakectl\<close> writes to, by its documentation: after the global flags, \<open>fs upload\<close>
  writes the object its URI names, \<open>commit\<close> and \<open>branch create\<close> the branch their URI names; what lists or logs, or
  creates another repository, writes no branch. A URI belongs to the branch that stands between the
  repository and the next slash.\<close>

fun skip_flags :: "string list \<Rightarrow> string list" where
  "skip_flags (f # x # ws) = (if f = ''--base-uri'' \<or> f = ''--config'' then skip_flags ws else f # x # ws)"
| "skip_flags ws = ws"

definition written_uri :: "string list \<Rightarrow> string option" where
  "written_uri cmd = (let ws = skip_flags (tl cmd) in
     if take 2 ws = [''fs'', ''upload''] \<and> 2 < length ws then Some (ws ! 2)
     else if take 2 ws = [''branch'', ''create''] \<and> 2 < length ws then Some (ws ! 2)
     else if take 1 ws = [''commit''] \<and> 1 < length ws then Some (ws ! 1)
     else None)"

definition uri_on :: "string \<Rightarrow> string \<Rightarrow> string \<Rightarrow> bool" where
  "uri_on repo t uri \<longleftrightarrow> (let base = ''lakefs://'' @ repo @ ''/'' @ t in uri = base \<or> prefix (base @ ''/'') uri)"

definition writes_branch :: "string \<Rightarrow> string \<Rightarrow> string list \<Rightarrow> bool" where
  "writes_branch repo t cmd \<longleftrightarrow> (case written_uri cmd of None \<Rightarrow> False | Some uri \<Rightarrow> uri_on repo t uri)"

text \<open>The server keeps branches apart: what is on the branch \<open>t\<close> (\<open>content\<close>) is changed by no command that does not
  write to \<open>t\<close>, not by creating or deleting another branch, and not by a merge that fails or goes elsewhere.\<close>

definition server_local :: "'w lake \<Rightarrow> string \<Rightarrow> ('w \<Rightarrow> 'c) \<Rightarrow> string \<Rightarrow> bool" where
  "server_local lk repo content t \<longleftrightarrow>
     (\<forall>cmd w. \<not> writes_branch repo t cmd \<longrightarrow> content (snd (lakectl lk cmd w)) = content w)
     \<and> (\<forall>n src w. n \<noteq> t \<longrightarrow> content (snd (sdk_create lk n src w)) = content w)
     \<and> (\<forall>n w. n \<noteq> t \<longrightarrow> content (snd (sdk_delete lk n w)) = content w)
     \<and> (\<forall>src dst msg strat w. dst \<noteq> t \<or> (\<exists>e. fst (sdk_merge lk src dst msg strat w) = Inl e)
          \<longrightarrow> content (snd (sdk_merge lk src dst msg strat w)) = content w)"

text \<open>The validators of a user read the branch they are given.\<close>

definition validators_read :: "'w stage_validator list \<Rightarrow> string \<Rightarrow> ('w \<Rightarrow> 'c) \<Rightarrow> bool" where
  "validators_read vs n content \<longleftrightarrow> (\<forall>v\<in>set vs. \<forall>w. content (snd (vd_run v n w)) = content w)"

text \<open>What follows from both for a client of the branch \<open>n\<close>.\<close>

definition target_stable ::
  "'w lake \<Rightarrow> ('w \<Rightarrow> 'c) \<Rightarrow> lineage_config \<Rightarrow> 'w stage_validator list \<Rightarrow> string \<Rightarrow> string \<Rightarrow> bool" where
  "target_stable lk content cfg vs n t \<longleftrightarrow>
     (\<forall>src w. content (snd (sdk_create lk n src w)) = content w)
     \<and> (\<forall>w. content (snd (sdk_delete lk n w)) = content w)
     \<and> (\<forall>cmd w. client_cmd cfg cmd \<longrightarrow> content (snd (lakectl lk cmd w)) = content w)
     \<and> (\<forall>v\<in>set vs. \<forall>w. content (snd (vd_run v n w)) = content w)
     \<and> (\<forall>msg strat w e. fst (sdk_merge lk n t msg strat w) = Inl e \<longrightarrow> content (snd (sdk_merge lk n t msg strat w)) = content w)"

section \<open>The commands of a staging client do not write to the target\<close>

lemma uri_elsewhere:
  assumes "CHR ''/'' \<notin> set t" "takeWhile (\<lambda>c. c \<noteq> CHR ''/'') n \<noteq> t" "rest = [] \<or> hd rest = CHR ''/''"
  shows "\<not> uri_on repo t (''lakefs://'' @ repo @ ''/'' @ n @ rest)"
proof
  assume "uri_on repo t (''lakefs://'' @ repo @ ''/'' @ n @ rest)"
  then have "n @ rest = t \<or> (\<exists>u. n @ rest = t @ ''/'' @ u)" by (auto simp: uri_on_def prefix_def)
  moreover have "takeWhile (\<lambda>c. c \<noteq> CHR ''/'') (n @ rest) = takeWhile (\<lambda>c. c \<noteq> CHR ''/'') n"
    using assms(3) by (induction n) (cases rest, simp_all)
  moreover have "takeWhile (\<lambda>c. c \<noteq> CHR ''/'') t = t" using assms(1) by (auto simp: takeWhile_eq_all_conv)
  moreover have "takeWhile (\<lambda>c. c \<noteq> CHR ''/'') (t @ ''/'' @ u) = t" for u using assms(1) by (auto simp: takeWhile_append)
  ultimately show False using assms(2) by metis
qed

lemma skip_lakectl: "f \<noteq> ''--base-uri'' \<Longrightarrow> f \<noteq> ''--config'' \<Longrightarrow> skip_flags (tl (lakectl_cmd cfg (f # args))) = f # args"
  by (cases args) (simp_all add: lakectl_cmd_def)

lemma client_cmd_elsewhere:
  assumes "client_cmd cfg cmd" "CHR ''/'' \<notin> set t" "takeWhile (\<lambda>c. c \<noteq> CHR ''/'') (lc_branch cfg) \<noteq> t"
  shows "\<not> writes_branch (lc_repository cfg) t cmd"
  using assms(1)
proof cases
  case cmd_list
  then show ?thesis by (simp add: writes_branch_def written_uri_def skip_lakectl)
next
  case (cmd_ensure ignored)
  then show ?thesis using uri_elsewhere [OF assms(2,3), of "[]"]
    by (auto simp: ensure_commands_def Let_def writes_branch_def written_uri_def skip_lakectl split: if_splits)
next
  case (cmd_upload p l)
  then show ?thesis using uri_elsewhere [OF assms(2,3), of "CHR ''/'' # dropWhile (\<lambda>c. c = CHR ''/'') p"]
    by (simp add: writes_branch_def written_uri_def skip_lakectl object_uri_def str_truthy_def)
next
  case (cmd_commit message metadata)
  then show ?thesis using uri_elsewhere [OF assms(2,3), of "[]"]
    by (simp add: commit_cmd_def lakectl_cmd_def) (simp add: writes_branch_def written_uri_def branch_uri_def)
next
  case cmd_log
  then show ?thesis by (simp add: writes_branch_def written_uri_def skip_lakectl)
qed

lemma server_target_stable:
  assumes "server_local lk (lc_repository cfg) content t" "validators_read vs n content"
    and "CHR ''/'' \<notin> set t" "takeWhile (\<lambda>c. c \<noteq> CHR ''/'') n \<noteq> t" "lc_branch cfg = n"
  shows "target_stable lk content cfg vs n t"
proof -
  have "n \<noteq> t" using assms(3,4) by (auto simp: takeWhile_eq_all_conv)
  have "content (snd (lakectl lk cmd w)) = content w" if "client_cmd cfg cmd" for cmd w
    using assms(1) client_cmd_elsewhere [OF that assms(3)] assms(4,5) by (simp add: server_local_def)
  moreover have "content (snd (sdk_create lk n src w)) = content w" "content (snd (sdk_delete lk n w)) = content w" for src w
    using assms(1) \<open>n \<noteq> t\<close> by (simp_all add: server_local_def)
  moreover have "content (snd (sdk_merge lk n t msg strat w)) = content w" if "fst (sdk_merge lk n t msg strat w) = Inl e" for msg strat w e
    using assms(1) that unfolding server_local_def by blast
  ultimately show ?thesis using assms(2) by (simp add: target_stable_def validators_read_def)
qed

section \<open>Lineage clients leave the target alone\<close>

lemma command_mode [simp]:
  "lakectl_cmd (cfg\<lparr>lc_mode := m\<rparr>) = lakectl_cmd cfg"
  "object_uri (cfg\<lparr>lc_mode := m\<rparr>) = object_uri cfg"
  "branch_uri (cfg\<lparr>lc_mode := m\<rparr>) = branch_uri cfg"
  by (auto simp: fun_eq_iff lakectl_cmd_def object_uri_def branch_uri_def)

lemma commands_mode [simp]:
  "commit_cmd (cfg\<lparr>lc_mode := m\<rparr>) = commit_cmd cfg"
  "ensure_commands (cfg\<lparr>lc_mode := m\<rparr>) = ensure_commands cfg"
  by (auto simp: commit_cmd_def ensure_commands_def fun_eq_iff Let_def)

lemma client_cmd_mode: "client_cmd (cfg\<lparr>lc_mode := m\<rparr>) = client_cmd cfg"
  by (intro ext) (simp add: client_cmd.simps)

lemma target_stable_mode [simp]:
  "target_stable lk content (cfg\<lparr>lc_mode := m\<rparr>) vs n t = target_stable lk content cfg vs n t"
  by (simp add: target_stable_def client_cmd_mode)

lemma stable_run_checked:
  "target_stable lk content cfg vs n t \<Longrightarrow> client_cmd cfg cmd \<Longrightarrow> run_checked lk cmd ig w = (r, w') \<Longrightarrow> content w' = content w"
  unfolding target_stable_def run_checked_def by (auto split: prod.splits sum.splits) (metis snd_conv)+

lemma stable_run_all:
  assumes st: "target_stable lk content cfg vs n t"
  shows "(\<And>c ig. (c, ig) \<in> set cs \<Longrightarrow> client_cmd cfg c) \<Longrightarrow> run_all_checked lk cs w = (r, w') \<Longrightarrow> content w' = content w"
proof (induction cs arbitrary: w)
  case (Cons p cs)
  obtain c ig where p: "p = (c, ig)" by (cases p)
  obtain r1 w1 where r1: "run_checked lk c ig w = (r1, w1)" by (cases "run_checked lk c ig w")
  have "content w1 = content w" using stable_run_checked [OF st _ r1] Cons.prems(1) p by auto
  then show ?case using Cons.prems Cons.IH [of w1] p r1 by (auto split: sum.splits)
qed simp

lemma stable_upload:
  assumes st: "target_stable lk content cfg vs n t"
  shows "upload_files lk cfg disk fs w = (r, w') \<Longrightarrow> content w' = content w"
proof (induction fs arbitrary: w)
  case (Cons p fs)
  obtain path l where p: "p = (path, l)" by (cases p)
  let ?cmd = "lakectl_cmd cfg [''fs'', ''upload'', object_uri cfg path None, ''--source'', l, ''--no-progress'']"
  obtain r1 w1 where r1: "run_checked lk ?cmd [] w = (r1, w1)" by (cases "run_checked lk ?cmd [] w")
  have "content w1 = content w" using stable_run_checked [OF st cmd_upload r1] .
  then show ?case using Cons.prems Cons.IH [of w1] p r1 by (auto split: sum.splits if_splits)
qed simp

lemma stable_head:
  assumes "target_stable lk content cfg vs n t" "head_commit_live lk cfg w = (r, w')"
  shows "content w' = content w"
  using assms(2) stable_run_checked [OF assms(1) cmd_log]
  by (auto simp: head_commit_live_def split: prod.splits sum.splits)

lemma stable_live:
  assumes st: "target_stable lk content cfg vs n t"
    and run: "version_files_live lk cfg disk now files message metadata w = (r, w')"
  shows "content w' = content w"
proof -
  obtain r1 w1 where 1: "run_all_checked lk (ensure_commands cfg) w = (r1, w1)" by (cases "run_all_checked lk (ensure_commands cfg) w")
  obtain r2 w2 where 2: "upload_files lk cfg disk (sorted_files files) w1 = (r2, w2)"
    by (cases "upload_files lk cfg disk (sorted_files files) w1")
  obtain r3 w3 where 3: "run_checked lk (commit_cmd cfg message metadata) [] w2 = (r3, w3)"
    by (cases "run_checked lk (commit_cmd cfg message metadata) [] w2")
  obtain r4 w4 where 4: "head_commit_live lk cfg w3 = (r4, w4)" by (cases "head_commit_live lk cfg w3")
  have "content w1 = content w" using stable_run_all [OF st _ 1] cmd_ensure by blast
  moreover have "content w2 = content w1" by (rule stable_upload [OF st 2])
  moreover have "content w3 = content w2" by (rule stable_run_checked [OF st cmd_commit 3])
  moreover have "content w4 = content w3" by (rule stable_head [OF st 4])
  ultimately show ?thesis using run 1 2 3 4
    by (auto simp: version_files_live_def split: sum.splits option.splits)
qed

lemma stable_version:
  assumes st: "target_stable lk content cfg vs n t"
    and run: "version_files lk sha cfg disk installed now files message metadata w ss = (r, w', ss')"
  shows "content w' = content w"
proof -
  obtain m w1 where m: "effective_mode lk cfg installed w = (m, w1)" by (cases "effective_mode lk cfg installed w")
  obtain r2 w2 where l: "version_files_live lk cfg disk now files message metadata w1 = (r2, w2)"
    by (cases "version_files_live lk cfg disk now files message metadata w1")
  have "content w1 = content w"
    using m stable_run_checked [OF st cmd_list]
    by (auto simp: effective_mode_def can_use_live_def split: if_splits prod.splits sum.splits)
  moreover have "content w2 = content w1" by (rule stable_live [OF st l])
  ultimately show ?thesis using run m l
    by (auto simp: version_files_def Let_def split: if_splits prod.splits sum.splits)
qed

lemma stable_validators:
  "\<forall>v\<in>set vs. \<forall>w. content (snd (vd_run v n w)) = content w \<Longrightarrow> content (snd (run_validators tx n vs w)) = content w"
proof (induction vs arbitrary: w)
  case (Cons v vs)
  obtain ans w1 where v: "vd_run v n w = (ans, w1)" by (cases "vd_run v n w")
  then have "content w1 = content w" using Cons.prems by (metis list.set_intros(1) snd_conv)
  then show ?case using Cons.IH [of w1] Cons.prems v by (auto split: prod.splits)
qed simp

lemma run_validators_length: "length (fst (run_validators tx n vs w)) = length vs"
proof (induction vs arbitrary: w)
  case (Cons v vs)
  show ?case using Cons.IH [of "snd (vd_run v n w)"] by (auto split: prod.splits)
qed simp

lemma stable_delete:
  "target_stable lk content cfg vs n t \<Longrightarrow> content (try_delete lk bm wanted n w) = content w"
  by (auto simp: target_stable_def try_delete_def delete_branch_def split: prod.splits sum.splits) (metis snd_conv)+

lemma stable_create:
  "target_stable lk content cfg vs n t \<Longrightarrow> create_branch lk bm now n src w = (r, ev, w') \<Longrightarrow> content w' = content w"
  by (auto simp: target_stable_def create_branch_def Let_def split: prod.splits sum.splits if_splits) (metis snd_conv)+

section \<open>The workflow as a whole\<close>

text \<open>What a merge that answers says: its commit, and what became of the target.\<close>

definition merged_as ::
  "'w lake \<Rightarrow> branch_manager \<Rightarrow> ('w \<Rightarrow> 'c) \<Rightarrow> 'w staged_client \<Rightarrow> string \<Rightarrow> string \<Rightarrow> 'w \<Rightarrow> 'w \<Rightarrow> string \<Rightarrow> bool" where
  "merged_as lk bm content sc n message w w' commit \<longleftrightarrow>
     (if bm_live bm then \<exists>a w1. sdk_merge lk n (lc_branch (sc_config sc)) (Some (''merge: '' @ message))
          (if sc_strategy sc \<noteq> MERGE_DEFAULT then Some (strategy_value (sc_strategy sc)) else None) w = (Inr a, w1)
        \<and> commit = ma_commit a \<and> content w' = content w1
      else content w' = content w)"

lemma merge_branch_stable:
  assumes st: "target_stable lk content cfg vs n (lc_branch (sc_config sc))"
    and m: "merge_branch lk bm n (lc_branch (sc_config sc)) (Some (''merge: '' @ message)) (Some (sc_strategy sc)) w = (r, ev, w')"
  shows "case r of Inl e \<Rightarrow> content w' = content w | Inr res \<Rightarrow> merged_as lk bm content sc n message w w' (mr_commit res)"
proof -
  let ?t = "lc_branch (sc_config sc)" and ?strat = "if sc_strategy sc \<noteq> MERGE_DEFAULT then Some (strategy_value (sc_strategy sc)) else None"
  obtain a w1 where a: "sdk_merge lk n ?t (Some (''merge: '' @ message)) ?strat w = (a, w1)"
    by (cases "sdk_merge lk n ?t (Some (''merge: '' @ message)) ?strat w")
  have "content w1 = content w" if "a = Inl e" for e using st a that unfolding target_stable_def by (metis fst_conv snd_conv)
  then show ?thesis using m a by (auto simp: merge_branch_def merged_as_def Let_def str_truthy_def split: sum.splits if_splits)
qed

lemma validate_and_merge_guarded:
  assumes st: "target_stable lk content cfg (sc_validators sc) n (lc_branch (sc_config sc))"
    and run: "validate_and_merge lk bm sc n message w = (r, ev, w')"
  shows "case r of Inl e \<Rightarrow> content w' = content w
    | Inr res \<Rightarrow> \<exists>rs w1 w2. run_validators (error_text lk) n (sc_validators sc) w = (rs, w1) \<and> list_all vr_passed rs
        \<and> sr_validation res = rs \<and> sr_merged res \<and> content w1 = content w
        \<and> merged_as lk bm content sc n message w1 w' (sr_commit res)"
proof -
  let ?t = "lc_branch (sc_config sc)"
  obtain rs w1 where v: "run_validators (error_text lk) n (sc_validators sc) w = (rs, w1)"
    by (cases "run_validators (error_text lk) n (sc_validators sc) w")
  have w1: "content w1 = content w"
    using stable_validators [of "sc_validators sc" content n "error_text lk" w] st v by (auto simp: target_stable_def)
  obtain m ev3 w2 where m: "merge_branch lk bm n ?t (Some (''merge: '' @ message)) (Some (sc_strategy sc)) w1 = (m, ev3, w2)"
    by (cases "merge_branch lk bm n ?t (Some (''merge: '' @ message)) (Some (sc_strategy sc)) w1") auto
  have del: "content (try_delete lk bm b n x) = content x" for b x by (rule stable_delete [OF st])
  show ?thesis using run v w1 m merge_branch_stable [OF st m]
    by (auto simp: validate_and_merge_def Let_def del merged_as_def split: prod.splits sum.splits if_splits)
qed


text \<open>A server on which the uploads may be denied, in its state the merges that answered and the commands run; what is
  on the branch main is made of both.\<close>

definition sample_lake :: "bool \<Rightarrow> (nat \<times> string list list) lake" where
  "sample_lake deny = \<lparr>sdk_create = (\<lambda>n src w. (Inr (), w)),
     sdk_head = (\<lambda>n w. Inr \<lparr>lake_sha = ''c0'', commit_stamps = [StampText ''2024''] \<rparr>),
     sdk_delete = (\<lambda>n w. (Inr (), w)),
     sdk_merge = (\<lambda>src dst msg strat w. (Inr \<lparr>ma_commit = ''m1'', ma_summary = PNone\<rparr>, (if dst = ''main'' then (Suc (fst w), snd w) else w))),
     sdk_diff = (\<lambda>l r w. Inr []),
     sdk_branches = (\<lambda>p w. Inr []),
     lakectl = (\<lambda>cmd w. if deny \<and> ''upload'' \<in> set cmd then (Inl ''denied'', w)
        else (Inr (replicate 64 (CHR ''0'')), (fst w, snd w @ [cmd]))),
     error_text = (\<lambda>e. [])\<rparr>"

definition on_main :: "nat \<times> string list list \<Rightarrow> nat \<times> string list list" where
  "on_main w = (fst w, filter (writes_branch ''r'' ''main'') (snd w))"

definition sample_staged :: "string \<Rightarrow> (nat \<times> string list list) staged_client" where
  "sample_staged mode = \<lparr>sc_config = \<lparr>lc_repository = ''r'', lc_branch = ''main'', lc_mode = mode, lc_namespace = None,
       lc_base_uri = None, lc_config_path = None\<rparr>,
     sc_validators = [\<lparr>vd_name = ''v'', vd_run = (\<lambda>b w. (Truth True, w))\<rparr>], sc_strategy = MERGE_DEFAULT,
     sc_cleanup_success = True, sc_cleanup_failure = False, sc_cloud = False, sc_otel = False\<rparr>"

abbreviation sample_manager :: branch_manager where
  "sample_manager \<equiv> \<lparr>bm_live = True, bm_source = ''main'', bm_strategy = MERGE_DEFAULT, bm_emits = False\<rparr>"

abbreviation sample_stage :: "bool \<Rightarrow> string \<Rightarrow> (staged_error + staged_result) \<times> span_event list \<times> (nat \<times> string list list) \<times> sim_state" where
  "sample_stage deny mode \<equiv> stage_and_validate (sample_lake deny) (\<lambda>_. ''h'') (\<lambda>p. Some []) True sample_manager (sample_staged mode)
     \<lparr>dt_wall = 0, dt_off = Some 0\<rparr> [(''a.txt'', ''/a'')] ''msg'' [] (Some ''s'') (0, []) \<lparr>sim_head = [], sim_commits = []\<rparr>"

lemma sample_local: "server_local (sample_lake b) ''r'' on_main ''main''"
  unfolding server_local_def by (auto simp: sample_lake_def on_main_def)

lemma sample_reads: "validators_read (sc_validators (sample_staged m)) n on_main"
  by (simp add: validators_read_def sample_staged_def)


section \<open>When the upload fails in automatic mode\<close>

lemma hash_files_total: "list_all (\<lambda>p. disk (snd p) \<noteq> None) fs \<Longrightarrow> \<exists>ps. hash_files sha disk fs = Inr ps"
  by (induction fs) (auto split: option.splits)

lemma simulated_total:
  assumes "list_all (\<lambda>p. disk (snd p) \<noteq> None) files"
  shows "\<exists>info st'. version_files_simulated sha cfg disk now files message metadata st = (Inr info, st') \<and> ci_mode info = ''simulated''"
proof -
  have "list_all (\<lambda>p. disk (snd p) \<noteq> None) (sorted_files files)" using assms by (simp add: sorted_files_def list_all_iff)
  then obtain ps where "hash_files sha disk (sorted_files files) = Inr ps" using hash_files_total by blast
  then show ?thesis by (simp add: version_files_simulated_def Let_def)
qed

text \<open>
  In automatic mode the workflow reports success for files it never uploaded. When the server
  answers the probe and \<open>lakectl\<close> then fails to upload or commit, the commit is simulated locally;
  if the validators pass and the merge answers, the result is that of a completed run (\<open>sr_merged\<close>),
  with the commit of a merge of a branch that does not hold the files.
\<close>

theorem auto_fallback_merges:
  assumes auto: "strip (lower (lc_mode (sc_config sc))) = ''auto''"
    and create: "create_branch lk bm now n (Some (lc_branch (sc_config sc))) w = (Inr b, ev1, w1)"
    and live: "can_use_live lk ((sc_config sc)\<lparr>lc_branch := n, lc_mode := ''auto''\<rparr>) True w1 = (True, w2)"
    and fails: "version_files_live lk ((sc_config sc)\<lparr>lc_branch := n, lc_mode := ''auto''\<rparr>) disk now files message metadata w2
      = (Inl lineage_error, w3)"
    and present: "list_all (\<lambda>p. disk (snd p) \<noteq> None) files"
    and validators: "run_validators (error_text lk) n (sc_validators sc) w3 = (rs, w4)" "list_all vr_passed rs"
    and merge: "merge_branch lk bm n (lc_branch (sc_config sc)) (Some (''merge: '' @ message)) (Some (sc_strategy sc)) w4 = (Inr m, ev3, w5)"
  shows "\<exists>res ev ss'. stage_and_validate lk sha disk True bm sc now files message metadata (Some n) w ss
      = (Inr res, ev, try_delete lk bm (sc_cleanup_success sc) n w5, ss')
    \<and> sr_merged res \<and> sr_commit res = mr_commit m \<and> sr_validation res = rs"
proof -
  let ?cfg = "(sc_config sc)\<lparr>lc_branch := n, lc_mode := ''auto''\<rparr>"
  have cfg: "make_lineage ((sc_config sc)\<lparr>lc_branch := n\<rparr>) = Inr ?cfg" using auto by (simp add: make_lineage_def)
  obtain info ss1 where sim: "version_files_simulated sha ?cfg disk now files message metadata ss = (Inr info, ss1)"
    using simulated_total [OF present] by blast
  have "effective_mode lk ?cfg True w1 = (''live'', w2)" using live by (simp add: effective_mode_def)
  then have v: "version_files lk sha ?cfg disk True now files message metadata w1 ss = (Inr info, w3, ss1)"
    using fails sim by (simp add: version_files_def)
  obtain d ev2 where d: "diff_refs lk bm (lc_branch (sc_config sc)) n w3 = (d, ev2)"
    by (cases "diff_refs lk bm (lc_branch (sc_config sc)) n w3")
  show ?thesis using create cfg v d validators merge
    by (simp add: stage_and_validate_def validate_and_merge_def staging_name_def Let_def)
qed

abbreviation sample_log :: "string list list" where
  "sample_log \<equiv> [[''lakectl'', ''repo'', ''list'', ''--amount'', ''1''],
     [''lakectl'', ''branch'', ''create'', ''lakefs://r/s'', ''-s'', ''lakefs://r/main'']]"

lemma sample_create:
  "create_branch (sample_lake True) sample_manager \<lparr>dt_wall = 0, dt_off = Some 0\<rparr> ''s'' (Some (lc_branch (sc_config (sample_staged m)))) (0, [])
     = (Inr \<lparr>bi_name = ''s'', bi_commit = ''c0'', bi_created = ''2024''\<rparr>, [], 0, [])"
  by (simp add: sample_staged_def) code_simp

lemma sample_probe:
  "can_use_live (sample_lake True) ((sc_config (sample_staged m))\<lparr>lc_branch := ''s'', lc_mode := ''auto''\<rparr>) True (0, []) = (True, 0, [hd sample_log])"
  by (simp add: sample_staged_def) code_simp

lemma sample_denied:
  "version_files_live (sample_lake True) ((sc_config (sample_staged m))\<lparr>lc_branch := ''s'', lc_mode := ''auto''\<rparr>) (\<lambda>p. Some [])
     \<lparr>dt_wall = 0, dt_off = Some 0\<rparr> [(''a.txt'', ''/a'')] ''msg'' [] (0, [hd sample_log]) = (Inl lineage_error, 0, sample_log)"
  by (simp add: sample_staged_def) code_simp

lemma sample_validated:
  "run_validators (error_text (sample_lake True)) ''s'' (sc_validators (sample_staged m)) (0, sample_log)
     = ([\<lparr>vr_passed = True, vr_name = ''v'', vr_message = [], vr_details = []\<rparr>], 0, sample_log)"
  by (simp add: sample_staged_def judged_def)

lemma sample_merge:
  "merge_branch (sample_lake True) sample_manager ''s'' (lc_branch (sc_config (sample_staged m))) (Some (''merge: '' @ ''msg''))
     (Some (sc_strategy (sample_staged m))) (0, sample_log) = (Inr \<lparr>mr_commit = ''m1'', mr_summary = []\<rparr>, [], 1, sample_log)"
  by (simp add: sample_staged_def) code_simp

theorem auto_fallback_merges_witness:
  "\<exists>res ev ss'. sample_stage True ''auto'' = (Inr res, ev, (1, sample_log), ss') \<and> sr_merged res \<and> sr_commit res = ''m1''"
proof -
  have auto: "strip (lower (lc_mode (sc_config (sample_staged ''auto'')))) = ''auto''" by code_simp
  have deleted: "try_delete (sample_lake True) sample_manager (sc_cleanup_success (sample_staged ''auto'')) ''s'' (1, sample_log) = (1, sample_log)"
    by code_simp
  show ?thesis
    using auto_fallback_merges [OF auto sample_create sample_probe sample_denied _ sample_validated _ sample_merge, of "\<lambda>_. ''h''"
        "\<lparr>sim_head = [], sim_commits = []\<rparr>", unfolded deleted]
    by auto
qed

end
