(* ===== verification/PrettyJson.thy ===== *)
theory PrettyJson
  imports Events
begin

text \<open>
  \<open>json.dumps\<close> with \<open>indent=2\<close>, as the embedding manifests and the console exporter call it, and
  what a line of JSON text cannot contain.
\<close>

section \<open>Indented JSON\<close>

text \<open>The items of a container on lines of their own; \<open>srt\<close> is \<open>sort_keys=True\<close>, \<open>dflt\<close> is \<open>default=str\<close>.\<close>

definition line_break :: "nat \<Rightarrow> string" where
  "line_break n = CHR 0x0A # replicate (2 * n) (CHR '' '')"

fun join_lines :: "nat \<Rightarrow> string list \<Rightarrow> string" where
  "join_lines n [] = []"
| "join_lines n [t] = t"
| "join_lines n (t # ts) = t @ CHR '','' # line_break n @ join_lines n ts"

fun pretty :: "(rat \<Rightarrow> string) \<Rightarrow> bool \<Rightarrow> bool \<Rightarrow> nat \<Rightarrow> pyval \<Rightarrow> string res"
  and pretty_items :: "(rat \<Rightarrow> string) \<Rightarrow> bool \<Rightarrow> bool \<Rightarrow> nat \<Rightarrow> pyval list \<Rightarrow> string list res"
  and pretty_pairs :: "(rat \<Rightarrow> string) \<Rightarrow> bool \<Rightarrow> bool \<Rightarrow> nat \<Rightarrow> (string \<times> pyval) list \<Rightarrow> (string \<times> string res) list" where
  "pretty fr srt dflt n (PList xs) = (if xs = [] then Inr ''[]'' else
     rbind (pretty_items fr srt dflt (Suc n) xs) (\<lambda>ts. Inr (CHR ''['' # line_break (Suc n) @ join_lines (Suc n) ts @ line_break n @ '']'')))"
| "pretty fr srt dflt n (PDict d) = (if d = [] then Inr ''{}'' else
     (let kts = pretty_pairs fr srt dflt (Suc n) d in
      rbind (rseq (if srt then sort_key fst kts else kts)) (\<lambda>kts. Inr (CHR ''{'' # line_break (Suc n)
       @ join_lines (Suc n) (map (\<lambda>(k, t). json_str True k @ '': '' @ t) kts) @ line_break n @ ''}''))))"
| "pretty fr srt dflt n (PObj s) = (if dflt then Inr (json_str True s) else Inl TypeError)"
| "pretty fr srt dflt n v = Inr (dumps fr srt v)"
| "pretty_items fr srt dflt n [] = Inr []"
| "pretty_items fr srt dflt n (x # xs) = rbind (pretty fr srt dflt n x) (\<lambda>t. rbind (pretty_items fr srt dflt n xs) (\<lambda>ts. Inr (t # ts)))"
| "pretty_pairs fr srt dflt n [] = []"
| "pretty_pairs fr srt dflt n ((k, x) # d) = (k, pretty fr srt dflt n x) # pretty_pairs fr srt dflt n d"

section \<open>One line of JSON\<close>

text \<open>\<open>json.dumps\<close> without indentation writes no line break, as long as the texts of floats have none.\<close>

abbreviation one_line :: "string \<Rightarrow> bool" where
  "one_line t \<equiv> CHR 0x0A \<notin> set t"

lemma one_line_esc: "one_line (esc True c)"
proof -
  have hex: "hex_digit n \<noteq> CHR 0x0A" if "n < 16" for n
  proof
    assume "hex_digit n = CHR 0x0A"
    then have "of_char (hex_digit n) = (10 :: nat)" by simp
    then show False using that by (auto simp: hex_digit_def split: if_splits)
  qed
  have "code c div 16 < 16" "code c mod 16 < 16" using code_less [of c] by simp_all
  then show ?thesis using hex [of "code c div 16"] hex [of "code c mod 16"]
    by (auto simp: esc_def esc_tail_def plain_char_def code_def)
qed

lemma one_line_json_str [simp]: "one_line (json_str True s)"
  using one_line_esc by (auto simp: json_str_def)

lemma one_line_comma_join: "list_all one_line ts \<Longrightarrow> one_line (comma_join ts)"
  by (induction ts rule: comma_join.induct) auto

lemma one_line_dumps_all:
  "(\<forall>q. one_line (fr q)) \<longrightarrow> one_line (dumps fr srt v)"
  "(\<forall>q. one_line (fr q)) \<longrightarrow> list_all one_line (dumps_items fr srt vs)"
  "(\<forall>q. one_line (fr q)) \<longrightarrow> list_all (\<lambda>kt. one_line (snd kt)) (dumps_pairs fr srt d)"
proof (induction fr srt v and fr srt vs and fr srt d rule: dumps_dumps_items_dumps_pairs.induct)
  case (3 fr srt i)
  have "c \<noteq> CHR 0x0A" if "c \<in> set (int_text i)" for c
    using int_text_number [OF that] by (auto simp: number_char_def code_def)
  then show ?case by auto
next
  case (8 fr srt d)
  let ?kts = "if srt then sort_key fst (dumps_pairs fr srt d) else dumps_pairs fr srt d"
  show ?case
  proof
    assume fr: "\<forall>q. one_line (fr q)"
    have "list_all one_line (map (\<lambda>(k, t). json_str True k @ '': '' @ t) ?kts)"
      using 8 fr by (fastforce simp: list_all_iff)
    from one_line_comma_join [OF this] show "one_line (dumps fr srt (PDict d))" by (auto simp: Let_def)
  qed
qed (auto simp: list_all_iff intro!: one_line_comma_join split: pyfloat.splits)

lemma one_line_dumps: "\<forall>q. one_line (fr q) \<Longrightarrow> one_line (dumps fr srt v)"
  using one_line_dumps_all(1) by blast

end
