(* ===== verification/Embedding.thy ===== *)
theory Embedding
  imports Lakefs PrettyJson
begin

text \<open>
  \<open>rag/embedding_pipeline.py\<close>: embedding batches, the manifests that record which documents an index
  was built from, and the check that tells whether an index is stale. The model, the lakeFS client
  and the clock are arguments; what the model's \<open>embed\<close> returns is a list of vectors, or it raises.
  The results: a report lists exactly the documents that differ from the manifest, the check writes
  nothing but the status of the latest manifest, and an index that was just rebuilt is current.
\<close>

section \<open>Data\<close>

record document =
  doc_id :: string
  doc_content :: string
  doc_meta :: pydict
  doc_path :: string

definition document_hash :: "(bytes \<Rightarrow> string) \<Rightarrow> document \<Rightarrow> string" where
  "document_hash sha d = sha (utf8 (doc_content d))"

type_synonym vector = "pyfloat list"

record embedding_record =
  er_document :: string
  er_hash :: string
  er_vector :: vector
  er_model :: string
  er_version :: string
  er_created :: string

record embedding_batch =
  eb_id :: string
  eb_model :: string
  eb_version :: string
  eb_dims :: nat
  eb_vectors :: "vector list"
  eb_docs :: "string list"
  eb_hashes :: "string list"
  eb_created :: datetime
  eb_commit :: string

definition strs :: "string list \<Rightarrow> pyval" where
  "strs xs = PList (map PStr xs)"

definition batch_to_dict :: "embedding_batch \<Rightarrow> pydict" where
  "batch_to_dict b =
     [(''batch_id'', PStr (eb_id b)), (''model'', PStr (eb_model b)), (''model_version'', PStr (eb_version b)),
      (''dimensions'', PInt (int (eb_dims b))), (''document_ids'', strs (eb_docs b)), (''document_hashes'', strs (eb_hashes b)),
      (''created_at'', PStr (isoformat (eb_created b))), (''source_commit'', PStr (eb_commit b))]"

datatype manifest_status = CURRENT | STALE_DOCUMENTS | STALE_MODEL | STALE_BOTH | REBUILDING

definition status_value :: "manifest_status \<Rightarrow> string" where
  "status_value s = (case s of CURRENT \<Rightarrow> ''current'' | STALE_DOCUMENTS \<Rightarrow> ''stale_documents''
     | STALE_MODEL \<Rightarrow> ''stale_model'' | STALE_BOTH \<Rightarrow> ''stale_both'' | REBUILDING \<Rightarrow> ''rebuilding'')"

record manifest =
  mf_id :: string
  mf_index :: string
  mf_model :: string
  mf_version :: string
  mf_dims :: int
  mf_commit :: string
  mf_count :: int
  mf_hashes :: "(string, string) dict"
  mf_batches :: "string list"
  mf_created :: string
  mf_status :: string
  mf_parent :: "string option"
  mf_meta :: pydict

definition str_dict :: "(string, string) dict \<Rightarrow> pyval" where
  "str_dict d = PDict (map (map_prod id PStr) d)"

definition manifest_to_dict :: "manifest \<Rightarrow> pydict" where
  "manifest_to_dict m =
     [(''manifest_id'', PStr (mf_id m)), (''index_name'', PStr (mf_index m)), (''model'', PStr (mf_model m)),
      (''model_version'', PStr (mf_version m)), (''dimensions'', PInt (mf_dims m)), (''source_commit'', PStr (mf_commit m)),
      (''document_count'', PInt (mf_count m)), (''document_hashes'', str_dict (mf_hashes m)), (''batch_ids'', strs (mf_batches m)),
      (''created_at'', PStr (mf_created m)), (''status'', PStr (mf_status m)), (''parent_manifest_id'', of_opt_str (mf_parent m)),
      (''metadata'', PDict (mf_meta m))]"

text \<open>A value of another type than the field has is reported as \<open>TypeError\<close> here.\<close>

fun as_strs :: "pyval list \<Rightarrow> string list res" where
  "as_strs [] = Inr []"
| "as_strs (v # vs) = rbind (as_string v) (\<lambda>s. rbind (as_strs vs) (\<lambda>ss. Inr (s # ss)))"

fun as_str_items :: "pydict \<Rightarrow> (string, string) dict res" where
  "as_str_items [] = Inr []"
| "as_str_items ((k, v) # d) = rbind (as_string v) (\<lambda>s. rbind (as_str_items d) (\<lambda>ss. Inr ((k, s) # ss)))"

definition manifest_from_dict :: "pydict \<Rightarrow> manifest res" where
  "manifest_from_dict d =
    rbind (rbind (needed d ''manifest_id'') as_string) (\<lambda>i.
    rbind (rbind (needed d ''index_name'') as_string) (\<lambda>n.
    rbind (rbind (needed d ''model'') as_string) (\<lambda>mo.
    rbind (rbind (needed d ''model_version'') as_string) (\<lambda>v.
    rbind (rbind (needed d ''dimensions'') as_int) (\<lambda>dims.
    rbind (rbind (needed d ''source_commit'') as_string) (\<lambda>c.
    rbind (rbind (needed d ''document_count'') as_int) (\<lambda>dc.
    rbind (rbind (needed d ''document_hashes'') (\<lambda>x. case x of PDict h \<Rightarrow> as_str_items h | _ \<Rightarrow> Inl TypeError)) (\<lambda>h.
    rbind (rbind (needed d ''batch_ids'') (\<lambda>x. case x of PList bs \<Rightarrow> as_strs bs | _ \<Rightarrow> Inl TypeError)) (\<lambda>bs.
    rbind (rbind (needed d ''created_at'') as_string) (\<lambda>t.
    rbind (as_string (dget_or d ''status'' (PStr (status_value CURRENT)))) (\<lambda>st.
    rbind (as_opt_string (pget d ''parent_manifest_id'')) (\<lambda>p.
    rbind (case dget_or d ''metadata'' (PDict []) of PDict x \<Rightarrow> Inr x | _ \<Rightarrow> Inl TypeError) (\<lambda>me.
      Inr \<lparr>mf_id = i, mf_index = n, mf_model = mo, mf_version = v, mf_dims = dims, mf_commit = c, mf_count = dc, mf_hashes = h,
        mf_batches = bs, mf_created = t, mf_status = st, mf_parent = p, mf_meta = me\<rparr>)))))))))))))"

definition manifest_hash :: "(bytes \<Rightarrow> string) \<Rightarrow> manifest \<Rightarrow> string" where
  "manifest_hash sha m = sha (utf8 (dumps (\<lambda>_. []) True (PDict
     [(''index_name'', PStr (mf_index m)), (''model'', PStr (mf_model m)), (''model_version'', PStr (mf_version m)),
      (''source_commit'', PStr (mf_commit m)), (''document_hashes'', str_dict (mf_hashes m))])))"

lemma as_strs_map [simp]: "as_strs (map PStr xs) = Inr xs"
  by (induction xs) simp_all

lemma as_str_items_map [simp]: "as_str_items (map (map_prod id PStr) d) = Inr d"
  by (induction d) auto

lemma manifest_roundtrip: "manifest_from_dict (manifest_to_dict m) = Inr m"
  by (simp add: manifest_from_dict_def manifest_to_dict_def needed_def as_int_def pget_def dget_or_def strs_def str_dict_def)

definition manifest_to_json :: "(rat \<Rightarrow> string) \<Rightarrow> manifest \<Rightarrow> string res" where
  "manifest_to_json fr m = pretty fr True False 0 (PDict (manifest_to_dict m))"

record invalidation_report =
  ir_manifest :: string
  ir_index :: string
  ir_valid :: bool
  ir_status :: string
  ir_added :: "string list"
  ir_removed :: "string list"
  ir_changed :: "string list"
  ir_model_changed :: bool
  ir_old_model :: "string option"
  ir_new_model :: "string option"
  ir_old_version :: "string option"
  ir_new_version :: "string option"
  ir_time :: string
  ir_diff :: "diff_entry list option"
  ir_source_ref :: "string option"
  ir_target_ref :: "string option"

definition entry_val :: "diff_entry \<Rightarrow> pyval" where
  "entry_val e = PDict [(''path'', PStr (de_path e)), (''type'', PStr (de_type e)), (''size_bytes'', int_or_none_val (de_size e))]"

definition invalidation_to_dict :: "invalidation_report \<Rightarrow> pydict" where
  "invalidation_to_dict r = filter (\<lambda>(k, v). v \<noteq> PNone)
     [(''manifest_id'', PStr (ir_manifest r)), (''index_name'', PStr (ir_index r)), (''is_valid'', PBool (ir_valid r)),
      (''status'', PStr (ir_status r)), (''added_documents'', strs (ir_added r)), (''removed_documents'', strs (ir_removed r)),
      (''changed_documents'', strs (ir_changed r)), (''model_changed'', PBool (ir_model_changed r)),
      (''old_model'', of_opt_str (ir_old_model r)), (''new_model'', of_opt_str (ir_new_model r)),
      (''old_model_version'', of_opt_str (ir_old_version r)), (''new_model_version'', of_opt_str (ir_new_version r)),
      (''timestamp'', PStr (ir_time r)),
      (''diff_entries'', case ir_diff r of None \<Rightarrow> PNone | Some es \<Rightarrow> PList (map entry_val es)),
      (''source_ref'', of_opt_str (ir_source_ref r)), (''target_ref'', of_opt_str (ir_target_ref r))]"

section \<open>The pipeline\<close>

text \<open>A model may lack its \<open>name\<close>, \<open>version\<close> or \<open>embed\<close>; \<open>embed\<close> answers \<open>None\<close> where it raises.\<close>

record embedding_model =
  em_name :: "string option"
  em_version :: "string option"
  em_embed :: "(string list \<Rightarrow> vector list option) option"

text \<open>\<open>pc_commit\<close>: \<open>None\<close> without a client that has \<open>get_commit\<close>, \<open>Some None\<close> when it raises.\<close>

record pipeline_config =
  pc_model :: "embedding_model option"
  pc_commit :: "string option option"
  pc_uploads :: bool
  pc_sha :: "bytes \<Rightarrow> string"
  pc_float :: "rat \<Rightarrow> string"

record pipeline =
  pl_manifests :: "(string, manifest list) dict"
  pl_batches :: "(string, embedding_batch) dict"

definition new_pipeline :: pipeline where
  "new_pipeline = \<lparr>pl_manifests = [], pl_batches = []\<rparr>"

definition second_stamp :: "datetime \<Rightarrow> string" where
  \<comment> \<open>\<open>strftime('%Y%m%d_%H%M%S')\<close>\<close>
  "second_stamp t = take 8 (compact_time t) @ ''_'' @ drop 8 (compact_time t)"

definition mock_embeddings :: "nat \<Rightarrow> vector list" where
  "mock_embeddings n = replicate n (replicate 128 (Fin 0))"

definition attr_or :: "pipeline_config \<Rightarrow> (embedding_model \<Rightarrow> string option) \<Rightarrow> string \<Rightarrow> string" where
  "attr_or cfg a other = (case pc_model cfg of None \<Rightarrow> other | Some m \<Rightarrow> (case a m of None \<Rightarrow> other | Some s \<Rightarrow> s))"

definition create_embedding_batch ::
  "pipeline_config \<Rightarrow> datetime \<Rightarrow> datetime \<Rightarrow> document list \<Rightarrow> string option \<Rightarrow> string option \<Rightarrow> pipeline \<Rightarrow> embedding_batch \<times> pipeline" where
  "create_embedding_batch cfg t1 t2 docs batch_id source_commit P =
     (let bid = (case batch_id of Some b \<Rightarrow> b | None \<Rightarrow> ''batch_'' @ second_stamp t1);
          commit = (case source_commit of Some c \<Rightarrow> c
            | None \<Rightarrow> (case pc_commit cfg of Some (Some c) \<Rightarrow> c | _ \<Rightarrow> ''unknown''));
          mocks = mock_embeddings (length docs);
          vectors = (case pc_model cfg of None \<Rightarrow> mocks
            | Some m \<Rightarrow> (case em_embed m of None \<Rightarrow> mocks
              | Some f \<Rightarrow> (case f (map doc_content docs) of None \<Rightarrow> mocks | Some vs \<Rightarrow> vs)));
          b = \<lparr>eb_id = bid, eb_model = attr_or cfg em_name ''mock-model'', eb_version = attr_or cfg em_version ''1.0'',
            eb_dims = (case vectors of [] \<Rightarrow> 0 | v # _ \<Rightarrow> length v), eb_vectors = vectors, eb_docs = map doc_id docs,
            eb_hashes = map (document_hash (pc_sha cfg)) docs, eb_created = t2, eb_commit = commit\<rparr>
      in (b, P\<lparr>pl_batches := dset (pl_batches P) bid b\<rparr>))"

definition manifests_of :: "pipeline \<Rightarrow> string \<Rightarrow> manifest list" where
  "manifests_of P index = dget_or (pl_manifests P) index []"

definition get_latest_manifest :: "pipeline \<Rightarrow> string \<Rightarrow> manifest option" where
  "get_latest_manifest P index = (let ms = manifests_of P index in if ms = [] then None else Some (last ms))"

definition get_manifests :: "pipeline \<Rightarrow> string \<Rightarrow> int option \<Rightarrow> manifest list" where
  "get_manifests P index limit = (case limit of None \<Rightarrow> manifests_of P index
     | Some n \<Rightarrow> if n = 0 then manifests_of P index else last_n n (manifests_of P index))"

definition get_all_index_names :: "pipeline \<Rightarrow> string list" where
  "get_all_index_names P = dkeys (pl_manifests P)"

definition add_hashes :: "(string, string) dict \<Rightarrow> (string \<times> string) list \<Rightarrow> (string, string) dict" where
  "add_hashes d ps = foldl (\<lambda>acc p. dset acc (fst p) (snd p)) d ps"

definition create_manifest ::
  "pipeline_config \<Rightarrow> datetime \<Rightarrow> datetime \<Rightarrow> string \<Rightarrow> embedding_batch list \<Rightarrow> pydict \<Rightarrow> pipeline \<Rightarrow>
   (manifest \<times> (string \<times> bytes) list) res \<times> pipeline" where
  \<comment> \<open>the manifest, and the upload attempted\<close>
  "create_manifest cfg t1 t2 index batches metadata P = (case batches of
     [] \<Rightarrow> (Inl ValueError, P)
   | b # _ \<Rightarrow>
       (let hashes = foldl (\<lambda>d x. add_hashes d (zip (eb_docs x) (eb_hashes x))) [] batches;
            mid = index @ ''_'' @ second_stamp t1 @ ''_'' @ take 8 (eb_commit b);
            m = \<lparr>mf_id = mid, mf_index = index, mf_model = eb_model b, mf_version = eb_version b, mf_dims = int (eb_dims b),
              mf_commit = eb_commit b, mf_count = int (length hashes), mf_hashes = hashes, mf_batches = map eb_id batches,
              mf_created = isoformat t2, mf_status = status_value CURRENT,
              mf_parent = map_option mf_id (get_latest_manifest P index), mf_meta = metadata\<rparr>;
            upload = (if pc_uploads cfg then (case manifest_to_json (pc_float cfg) m of Inl e \<Rightarrow> []
              | Inr text \<Rightarrow> [(''manifests/'' @ index @ ''/'' @ mid @ ''.json'', utf8 text)]) else [])
        in (Inr (m, upload), P\<lparr>pl_manifests := dset (pl_manifests P) index (manifests_of P index @ [m])\<rparr>)))"

definition hash_map :: "(bytes \<Rightarrow> string) \<Rightarrow> document list \<Rightarrow> (string, string) dict" where
  "hash_map sha docs = add_hashes [] (map (\<lambda>d. (doc_id d, document_hash sha d)) docs)"

definition effective_value :: "pipeline_config \<Rightarrow> (embedding_model \<Rightarrow> string option) \<Rightarrow> string option \<Rightarrow> string option" where
  "effective_value cfg a override = (if str_truthy override then override
     else case pc_model cfg of None \<Rightarrow> None | Some m \<Rightarrow> a m)"

definition differs :: "string option \<Rightarrow> string \<Rightarrow> bool" where
  "differs now_is was \<longleftrightarrow> str_truthy now_is \<and> now_is \<noteq> Some was"

definition staleness :: "bool \<Rightarrow> bool \<Rightarrow> manifest_status" where
  "staleness docs_changed model_changed =
     (if docs_changed \<and> model_changed then STALE_BOTH else if docs_changed then STALE_DOCUMENTS
      else if model_changed then STALE_MODEL else CURRENT)"

definition set_status :: "string \<Rightarrow> manifest_status \<Rightarrow> pipeline \<Rightarrow> pipeline" where
  \<comment> \<open>on the latest manifest of the index\<close>
  "set_status index st P = (let ms = manifests_of P index in
     P\<lparr>pl_manifests := dset (pl_manifests P) index (butlast ms @ [(last ms)\<lparr>mf_status := status_value st\<rparr>])\<rparr>)"

definition doc_changes :: "(string, string) dict \<Rightarrow> (string, string) dict \<Rightarrow> string list \<times> string list \<times> string list" where
  \<comment> \<open>added, removed and changed\<close>
  "doc_changes old cur =
     (sort (filter (\<lambda>k. k \<notin> set (dkeys old)) (dkeys cur)), sort (filter (\<lambda>k. k \<notin> set (dkeys cur)) (dkeys old)),
      sort (filter (\<lambda>k. k \<in> set (dkeys old) \<and> dget cur k \<noteq> dget old k) (dkeys cur)))"

definition lake_changes ::
  "('w lake \<times> branch_manager \<times> 'w) option \<Rightarrow> string option \<Rightarrow> string \<Rightarrow> diff_entry list option \<times> span_event list" where
  "lake_changes manager source_commit target = (case (manager, source_commit) of
     (Some (lk, bm, w), Some c) \<Rightarrow> (case diff_refs lk bm c target w of (es, ev) \<Rightarrow> (Some es, ev))
   | _ \<Rightarrow> (None, []))"

definition check_invalidation ::
  "pipeline_config \<Rightarrow> datetime \<Rightarrow> string \<Rightarrow> document list \<Rightarrow> string option \<Rightarrow> string option \<Rightarrow>
   ('w lake \<times> branch_manager \<times> 'w) option \<Rightarrow> string option \<Rightarrow> pipeline \<Rightarrow>
   invalidation_report \<times> span_event list \<times> pipeline" where
  "check_invalidation cfg now index docs model version manager source_commit P =
     (case get_latest_manifest P index of
        None \<Rightarrow>
          (\<lparr>ir_manifest = ''none'', ir_index = index, ir_valid = False, ir_status = status_value STALE_DOCUMENTS,
            ir_added = map doc_id docs, ir_removed = [], ir_changed = [], ir_model_changed = False, ir_old_model = None,
            ir_new_model = None, ir_old_version = None, ir_new_version = None, ir_time = isoformat now, ir_diff = None,
            ir_source_ref = None, ir_target_ref = None\<rparr>, [], P)
      | Some m \<Rightarrow>
          (let (added, removed, changed) = doc_changes (mf_hashes m) (hash_map (pc_sha cfg) docs);
               docs_changed = (added \<noteq> [] \<or> removed \<noteq> [] \<or> changed \<noteq> []);
               new_model = effective_value cfg em_name model; new_version = effective_value cfg em_version version;
               model_changed = (differs new_model (mf_model m) \<or> differs new_version (mf_version m));
               st = staleness docs_changed model_changed;
               (diff, events) = lake_changes manager source_commit (mf_commit m)
           in (\<lparr>ir_manifest = mf_id m, ir_index = index, ir_valid = (st = CURRENT), ir_status = status_value st,
                ir_added = added, ir_removed = removed, ir_changed = changed, ir_model_changed = model_changed,
                ir_old_model = (if model_changed then Some (mf_model m) else None),
                ir_new_model = (if model_changed then new_model else None),
                ir_old_version = (if model_changed then Some (mf_version m) else None),
                ir_new_version = (if model_changed then new_version else None), ir_time = isoformat now,
                ir_diff = diff, ir_source_ref = (if diff = None then None else source_commit),
                ir_target_ref = (if diff = None then None else Some (mf_commit m))\<rparr>,
               events, if st = CURRENT then P else set_status index st P)))"

definition rebuild_index ::
  "pipeline_config \<Rightarrow> (nat \<Rightarrow> datetime) \<Rightarrow> string \<Rightarrow> document list \<Rightarrow> string option \<Rightarrow> string option \<Rightarrow> pipeline \<Rightarrow>
   (manifest \<times> (string \<times> bytes) list) res \<times> pipeline" where
  \<comment> \<open>the four readings of the clock, in the order they are taken\<close>
  "rebuild_index cfg clock index docs source_commit batch_id P =
     (let (b, P1) = create_embedding_batch cfg (clock 0) (clock 1) docs batch_id source_commit P
      in create_manifest cfg (clock 2) (clock 3) index [b] [] P1)"

section \<open>What the check reports\<close>

lemma distinct_add_hashes [simp]: "distinct (dkeys d) \<Longrightarrow> distinct (dkeys (add_hashes d ps))"
  by (induction ps arbitrary: d) (auto simp: add_hashes_def)

lemma distinct_hash_map [simp]: "distinct (dkeys (hash_map sha docs))"
  by (simp add: hash_map_def)

lemma add_hashes_Cons: "add_hashes d (p # ps) = add_hashes (dset d (fst p) (snd p)) ps"
  by (simp add: add_hashes_def)

lemma dget_add_hashes:
  "dget (add_hashes d ps) k = (case map_of (rev ps) k of Some v \<Rightarrow> Some v | None \<Rightarrow> dget d k)"
proof (induction ps arbitrary: d)
  case (Cons p ps)
  show ?case by (cases p) (auto simp: add_hashes_Cons Cons.IH map_add_def split: option.splits)
qed (simp add: add_hashes_def)

text \<open>The content hash a collection gives a document: that of the last one with this id.\<close>

lemma dget_hash_map: "dget (hash_map sha docs) k = map_of (rev (map (\<lambda>d. (doc_id d, document_hash sha d)) docs)) k"
  by (simp add: hash_map_def dget_add_hashes split: option.splits)

lemma dget_None_iff: "dget d k = None \<longleftrightarrow> k \<notin> set (dkeys d)"
  by (simp add: map_of_eq_None_iff)

lemma map_eq_dkeys: "(\<forall>k. dget d k = dget e k) \<Longrightarrow> fst ` set d = fst ` set e"
  by (metis dom_map_of_conv_image_fst domIff subsetI subset_antisym)

lemma staleness_current: "staleness d m = CURRENT \<longleftrightarrow> \<not> d \<and> \<not> m"
  by (simp add: staleness_def)

lemma set_status_manifests:
  "manifests_of (set_status index st P) i =
     (if i = index then butlast (manifests_of P index) @ [(last (manifests_of P index))\<lparr>mf_status := status_value st\<rparr>] else manifests_of P i)"
  by (auto simp: manifests_of_def set_status_def Let_def)

lemma set_status_batches [simp]: "pl_batches (set_status index st P) = pl_batches P"
  by (simp add: set_status_def Let_def)

lemma sort_empty_iff [simp]: "sort xs = [] \<longleftrightarrow> xs = ([] :: 'a::linorder list)"
  by (metis length_0_conv length_sort)

lemma filters_empty:
  "filter (\<lambda>k. k \<notin> fst ` set old) (dkeys cur) = [] \<and> filter (\<lambda>k. k \<notin> fst ` set cur) (dkeys old) = []
     \<and> filter (\<lambda>k. k \<in> fst ` set old \<and> dget cur k \<noteq> dget old k) (dkeys cur) = []
   \<longleftrightarrow> (\<forall>k. dget cur k = dget old k)"
proof -
  have "dget cur k = dget old k" if "\<forall>k\<in>fst ` set cur. k \<in> fst ` set old" "\<forall>k\<in>fst ` set old. k \<in> fst ` set cur"
    "\<forall>k\<in>fst ` set cur. k \<in> fst ` set old \<longrightarrow> dget cur k = dget old k" for k
    using that by (cases "k \<in> fst ` set cur") (metis map_of_eq_None_iff)+
  moreover have "fst ` set cur = fst ` set old" if "\<forall>k. dget cur k = dget old k" using map_eq_dkeys [OF that] .
  ultimately show ?thesis by (auto simp: filter_empty_conv)
qed

definition model_differs :: "pipeline_config \<Rightarrow> string option \<Rightarrow> string option \<Rightarrow> manifest \<Rightarrow> bool" where
  "model_differs cfg model version m \<longleftrightarrow>
     differs (effective_value cfg em_name model) (mf_model m) \<or> differs (effective_value cfg em_version version) (mf_version m)"

text \<open>What a report says of the model: the old and the new name and version, if one of them differs.\<close>

definition model_reported ::
  "pipeline_config \<Rightarrow> string option \<Rightarrow> string option \<Rightarrow> manifest \<Rightarrow> invalidation_report \<Rightarrow> bool" where
  "model_reported cfg model version m r \<longleftrightarrow> ir_model_changed r = model_differs cfg model version m
     \<and> (if model_differs cfg model version m
        then ir_old_model r = Some (mf_model m) \<and> ir_new_model r = effective_value cfg em_name model
          \<and> ir_old_version r = Some (mf_version m) \<and> ir_new_version r = effective_value cfg em_version version
        else ir_old_model r = None \<and> ir_new_model r = None \<and> ir_old_version r = None \<and> ir_new_version r = None)"

lemma check_result:
  fixes P :: pipeline
  assumes m: "get_latest_manifest P index = Some m"
    and run: "check_invalidation cfg now index docs model version manager commit P = (r, ev, P')"
  obtains st where "doc_changes (mf_hashes m) (hash_map (pc_sha cfg) docs) = (ir_added r, ir_removed r, ir_changed r)"
    "st = staleness (ir_added r \<noteq> [] \<or> ir_removed r \<noteq> [] \<or> ir_changed r \<noteq> [])
       (model_differs cfg model version m)"
    "ir_valid r \<longleftrightarrow> st = CURRENT" "ir_status r = status_value st" "P' = (if st = CURRENT then P else set_status index st P)"
    "model_reported cfg model version m r" "ir_manifest r = mf_id m" "ir_index r = index"
proof -
  let ?cur = "hash_map (pc_sha cfg) docs" and ?old = "mf_hashes m"
  obtain ad rm ch where dc: "doc_changes ?old ?cur = (ad, rm, ch)" by (cases "doc_changes ?old ?cur") auto
  obtain df e2 where lc: "lake_changes manager commit (mf_commit m) = (df, e2)" by (cases "lake_changes manager commit (mf_commit m)")
  let ?st = "staleness (ad \<noteq> [] \<or> rm \<noteq> [] \<or> ch \<noteq> [])
    (model_differs cfg model version m)"
  note run' = run [symmetric, unfolded check_invalidation_def m option.case dc lc Let_def prod.case model_differs_def [symmetric]]
  have r: "ir_added r = ad" "ir_removed r = rm" "ir_changed r = ch" "ir_valid r \<longleftrightarrow> ?st = CURRENT" "ir_status r = status_value ?st"
    and w: "P' = (if ?st = CURRENT then P else set_status index ?st P)"
    and f: "ir_manifest r = mf_id m" "ir_index r = index"
    and g: "ir_model_changed r = model_differs cfg model version m"
      "ir_old_model r = (if model_differs cfg model version m then Some (mf_model m) else None)"
      "ir_new_model r = (if model_differs cfg model version m then effective_value cfg em_name model else None)"
      "ir_old_version r = (if model_differs cfg model version m then Some (mf_version m) else None)"
      "ir_new_version r = (if model_differs cfg model version m then effective_value cfg em_version version else None)"
    using run' by (simp_all only: prod.inject invalidation_report.simps)
  show thesis by (rule that [of ?st]) (simp_all only: r w f dc, simp add: model_reported_def g)
qed

definition stale_status :: "bool \<Rightarrow> bool \<Rightarrow> string" where
  "stale_status docs model = (case (docs, model) of (True, True) \<Rightarrow> ''stale_both'' | (True, False) \<Rightarrow> ''stale_documents''
     | (False, True) \<Rightarrow> ''stale_model'' | (False, False) \<Rightarrow> ''current'')"

lemma check_report:
  fixes P :: pipeline
  assumes m: "get_latest_manifest P index = Some m" and d: "distinct (dkeys (mf_hashes m))"
    and run: "check_invalidation cfg now index docs model version manager commit P = (r, ev, P')"
    and cur: "cur = map_of (rev (map (\<lambda>x. (doc_id x, document_hash (pc_sha cfg) x)) docs))"
  shows "set (ir_added r) = {k. cur k \<noteq> None \<and> dget (mf_hashes m) k = None}"
    "set (ir_removed r) = {k. cur k = None \<and> dget (mf_hashes m) k \<noteq> None}"
    "set (ir_changed r) = {k. cur k \<noteq> None \<and> dget (mf_hashes m) k \<noteq> None \<and> cur k \<noteq> dget (mf_hashes m) k}"
    "sorted_wrt (<) (ir_added r) \<and> sorted_wrt (<) (ir_removed r) \<and> sorted_wrt (<) (ir_changed r)"
    "ir_status r = stale_status (cur \<noteq> dget (mf_hashes m)) (model_differs cfg model version m)"
    "ir_valid r \<longleftrightarrow> cur = dget (mf_hashes m) \<and> \<not> model_differs cfg model version m"
    "model_reported cfg model version m r \<and> ir_manifest r = mf_id m \<and> ir_index r = index"
    "\<exists>s. manifests_of P' index = butlast (manifests_of P index) @ [m\<lparr>mf_status := s\<rparr>] \<and> (\<not> ir_valid r \<longrightarrow> s = ir_status r)"
    "pl_batches P' = pl_batches P \<and> (\<forall>i. i = index \<or> manifests_of P' i = manifests_of P i)"
proof -
  let ?cur = "hash_map (pc_sha cfg) docs" and ?old = "mf_hashes m"
  have curd: "cur = dget ?cur" by (simp add: cur dget_hash_map fun_eq_iff)
  have ms: "manifests_of P index \<noteq> []" "last (manifests_of P index) = m"
    using m by (auto simp: get_latest_manifest_def Let_def split: if_splits)
  obtain st where dc: "doc_changes ?old ?cur = (ir_added r, ir_removed r, ir_changed r)"
    and r: "st = staleness (ir_added r \<noteq> [] \<or> ir_removed r \<noteq> [] \<or> ir_changed r \<noteq> [])
       (model_differs cfg model version m)"
      "ir_valid r \<longleftrightarrow> st = CURRENT" "ir_status r = status_value st" and w: "P' = (if st = CURRENT then P else set_status index st P)"
      and f: "model_reported cfg model version m r" "ir_manifest r = mf_id m" "ir_index r = index"
    by (rule check_result [OF m run])
  have a: "ir_added r = sort (filter (\<lambda>k. k \<notin> set (dkeys ?old)) (dkeys ?cur))"
    and b: "ir_removed r = sort (filter (\<lambda>k. k \<notin> set (dkeys ?cur)) (dkeys ?old))"
    and c: "ir_changed r = sort (filter (\<lambda>k. k \<in> set (dkeys ?old) \<and> dget ?cur k \<noteq> dget ?old k) (dkeys ?cur))"
    using dc by (simp_all add: doc_changes_def)
  have v: "ir_valid r \<longleftrightarrow> ir_added r = [] \<and> ir_removed r = [] \<and> ir_changed r = []
      \<and> \<not> model_differs cfg model version m"
    by (auto simp: r staleness_current)
  have dc: "distinct (dkeys ?cur)" by simp
  show "set (ir_added r) = {k. cur k \<noteq> None \<and> dget ?old k = None}" by (auto simp: a curd map_of_eq_None_iff)
  show "set (ir_removed r) = {k. cur k = None \<and> dget ?old k \<noteq> None}" by (auto simp: b curd map_of_eq_None_iff)
  show "set (ir_changed r) = {k. cur k \<noteq> None \<and> dget ?old k \<noteq> None \<and> cur k \<noteq> dget ?old k}"
    by (auto simp: c curd map_of_eq_None_iff)
  show "sorted_wrt (<) (ir_added r) \<and> sorted_wrt (<) (ir_removed r) \<and> sorted_wrt (<) (ir_changed r)"
    unfolding a b c by (simp only: strict_sorted_iff sorted_sort distinct_sort distinct_filter [OF dc] distinct_filter [OF d] simp_thms)
  have docs: "(ir_added r \<noteq> [] \<or> ir_removed r \<noteq> [] \<or> ir_changed r \<noteq> []) \<longleftrightarrow> cur \<noteq> dget ?old"
    using filters_empty [of ?old ?cur] by (simp add: a b c curd fun_eq_iff) blast
  show "ir_status r = stale_status (cur \<noteq> dget ?old) (model_differs cfg model version m)"
    unfolding r(3) r(1) docs by (simp add: staleness_def stale_status_def status_value_def)
  show "ir_valid r \<longleftrightarrow> cur = dget ?old \<and> \<not> model_differs cfg model version m" unfolding v using docs by blast
  show "model_reported cfg model version m r \<and> ir_manifest r = mf_id m \<and> ir_index r = index" using f by simp
  show "\<exists>s. manifests_of P' index = butlast (manifests_of P index) @ [m\<lparr>mf_status := s\<rparr>] \<and> (\<not> ir_valid r \<longrightarrow> s = ir_status r)"
    using ms append_butlast_last_id [OF ms(1)]
    by (intro exI [of _ "if ir_valid r then mf_status m else ir_status r"]) (simp add: w r set_status_manifests)
  show "pl_batches P' = pl_batches P \<and> (\<forall>i. i = index \<or> manifests_of P' i = manifests_of P i)"
    by (auto simp: w set_status_manifests)
qed

text \<open>
  C28: What \<open>check_invalidation\<close> reports against the latest manifest, and what it writes. Added,
  removed and changed are, sorted and without repetition, exactly the documents that only the
  collection has, that only the manifest has, and that both have with different hashes (the last
  document of an id counts). The status is \<open>stale_both\<close>, \<open>stale_documents\<close>, \<open>stale_model\<close> or \<open>current\<close> as the
  documents and the model or version in effect differ, the index is valid exactly when neither does, and the
  report names the manifest, the index, and the old and new model and version exactly when they differ. Nothing is written
  but the status of the latest manifest of the index, and a stale status that is reported is also written.
\<close>

theorem check_invalidation_exact:
  fixes P :: pipeline
  assumes m: "get_latest_manifest P index = Some m" and d: "distinct (dkeys (mf_hashes m))"
    and run: "check_invalidation cfg now index docs model version manager commit P = (r, ev, P')"
    and cur: "cur = map_of (rev (map (\<lambda>x. (doc_id x, document_hash (pc_sha cfg) x)) docs))"
  shows "set (ir_added r) = {k. cur k \<noteq> None \<and> dget (mf_hashes m) k = None}
    \<and> set (ir_removed r) = {k. cur k = None \<and> dget (mf_hashes m) k \<noteq> None}
    \<and> set (ir_changed r) = {k. cur k \<noteq> None \<and> dget (mf_hashes m) k \<noteq> None \<and> cur k \<noteq> dget (mf_hashes m) k}
    \<and> (sorted_wrt (<) (ir_added r) \<and> sorted_wrt (<) (ir_removed r) \<and> sorted_wrt (<) (ir_changed r))
    \<and> ir_status r = stale_status (cur \<noteq> dget (mf_hashes m)) (model_differs cfg model version m)
    \<and> (ir_valid r \<longleftrightarrow> cur = dget (mf_hashes m) \<and> \<not> model_differs cfg model version m)
    \<and> (model_reported cfg model version m r \<and> ir_manifest r = mf_id m \<and> ir_index r = index)
    \<and> (\<exists>s. manifests_of P' index = butlast (manifests_of P index) @ [m\<lparr>mf_status := s\<rparr>] \<and> (\<not> ir_valid r \<longrightarrow> s = ir_status r))
    \<and> (pl_batches P' = pl_batches P \<and> (\<forall>i. i = index \<or> manifests_of P' i = manifests_of P i))"
  using check_report [OF assms] by (intro conjI) simp_all

section \<open>Rebuilding\<close>

lemma zip_hash_map: "add_hashes [] (zip (map doc_id docs) (map (document_hash sha) docs)) = hash_map sha docs"
  by (simp add: hash_map_def zip_map_map zip_same_conv_map o_def)

lemma create_batch_fields:
  assumes "create_embedding_batch cfg t1 t2 docs bid c P = (b, P1)"
  shows "eb_docs b = map doc_id docs" "eb_hashes b = map (document_hash (pc_sha cfg)) docs"
    "eb_model b = attr_or cfg em_name ''mock-model''" "eb_version b = attr_or cfg em_version ''1.0''"
    "pl_manifests P1 = pl_manifests P"
  using assms by (auto simp: create_embedding_batch_def Let_def)

lemma create_manifest_one:
  "\<exists>m up P'. create_manifest cfg t1 t2 index [b] meta P = (Inr (m, up), P')
     \<and> manifests_of P' index = manifests_of P index @ [m] \<and> mf_hashes m = add_hashes [] (zip (eb_docs b) (eb_hashes b))
     \<and> mf_model m = eb_model b \<and> mf_version m = eb_version b \<and> mf_parent m = map_option mf_id (get_latest_manifest P index)
     \<and> mf_status m = ''current'' \<and> pl_batches P' = pl_batches P"
  by (auto simp: create_manifest_def Let_def manifests_of_def status_value_def)

lemma not_differs_attr: "\<not> differs (effective_value cfg a None) (attr_or cfg a other)"
  by (auto simp: differs_def effective_value_def attr_or_def str_truthy_def split: option.splits)

text \<open>
  C29: An index that was just rebuilt is current. Whatever the documents (repeated ids included), the
  model and what its \<open>embed\<close> does, \<open>rebuild_index\<close> returns a manifest, and a check against the same
  documents without an override reports no difference and writes nothing.
\<close>

theorem rebuild_then_current:
  "\<exists>m up P'. rebuild_index cfg clock index docs commit batch_id P = (Inr (m, up), P') \<and> get_latest_manifest P' index = Some m
     \<and> mf_status m = ''current'' \<and> (case check_invalidation cfg now index docs None None manager c P' of
       (r, ev, P'') \<Rightarrow> ir_valid r \<and> ir_added r = [] \<and> ir_removed r = [] \<and> ir_changed r = [] \<and> P'' = P')"
proof -
  obtain b P1 where b: "create_embedding_batch cfg (clock 0) (clock 1) docs batch_id commit P = (b, P1)"
    by (cases "create_embedding_batch cfg (clock 0) (clock 1) docs batch_id commit P")
  obtain m up P' where m: "create_manifest cfg (clock 2) (clock 3) index [b] [] P1 = (Inr (m, up), P')"
    "manifests_of P' index = manifests_of P1 index @ [m]" "mf_hashes m = add_hashes [] (zip (eb_docs b) (eb_hashes b))"
    "mf_model m = eb_model b" "mf_version m = eb_version b" "mf_status m = ''current''"
    using create_manifest_one [of cfg "clock 2" "clock 3" index b "[]" P1] by blast
  have latest: "get_latest_manifest P' index = Some m" using m(2) by (simp add: get_latest_manifest_def Let_def)
  have hashes: "mf_hashes m = hash_map (pc_sha cfg) docs"
    by (simp add: m(3) create_batch_fields [OF b] zip_hash_map)
  obtain r ev P'' where run: "check_invalidation cfg now index docs None None manager c P' = (r, ev, P'')"
    by (cases "check_invalidation cfg now index docs None None manager c P'") auto
  have model: "\<not> differs (effective_value cfg em_name None) (mf_model m)" "\<not> differs (effective_value cfg em_version None) (mf_version m)"
    by (simp_all add: m(4,5) create_batch_fields [OF b] not_differs_attr)
  have "ir_valid r \<and> ir_added r = [] \<and> ir_removed r = [] \<and> ir_changed r = [] \<and> P'' = P'"
    using run latest hashes model by (simp add: check_invalidation_def Let_def staleness_def doc_changes_def prod.case_eq_if) auto
  then show ?thesis using b m(1,6) latest run by (simp add: rebuild_index_def)
qed

section \<open>The history of an index\<close>

inductive pipeline_run ::
  "pipeline_config \<Rightarrow> ('w lake \<times> branch_manager \<times> 'w) option \<Rightarrow> pipeline \<Rightarrow> pipeline \<Rightarrow> bool" for cfg mgr P where
  run_none: "pipeline_run cfg mgr P P"
| run_batch: "pipeline_run cfg mgr P Q \<Longrightarrow> create_embedding_batch cfg t1 t2 docs bid c Q = (b, Q') \<Longrightarrow> pipeline_run cfg mgr P Q'"
| run_manifest: "pipeline_run cfg mgr P Q \<Longrightarrow> create_manifest cfg t1 t2 index bs meta Q = (r, Q') \<Longrightarrow> pipeline_run cfg mgr P Q'"
| run_check: "pipeline_run cfg mgr P Q \<Longrightarrow> check_invalidation cfg now index docs m v mgr c Q = (r, ev, Q') \<Longrightarrow> pipeline_run cfg mgr P Q'"

text \<open>Every manifest names its predecessor as its parent.\<close>

fun parent_linked :: "string option \<Rightarrow> manifest list \<Rightarrow> bool" where
  "parent_linked p [] = True"
| "parent_linked p (m # ms) \<longleftrightarrow> mf_parent m = p \<and> parent_linked (Some (mf_id m)) ms"

definition sound_manifest :: "string \<Rightarrow> manifest \<Rightarrow> bool" where
  "sound_manifest index m \<longleftrightarrow> mf_index m = index \<and> distinct (dkeys (mf_hashes m)) \<and> mf_count m = int (length (mf_hashes m))
     \<and> mf_batches m \<noteq> []"

definition index_ok :: "pipeline \<Rightarrow> string \<Rightarrow> bool" where
  "index_ok P index \<longleftrightarrow> parent_linked None (manifests_of P index) \<and> list_all (sound_manifest index) (manifests_of P index)"

definition frozen :: "manifest \<Rightarrow> manifest" where
  "frozen m = m\<lparr>mf_status := []\<rparr>"

lemma parent_linked_append:
  "parent_linked p (ms @ [m]) \<longleftrightarrow> parent_linked p ms \<and> mf_parent m = (if ms = [] then p else Some (mf_id (last ms)))"
  by (induction ms arbitrary: p) auto

lemma parent_linked_frozen: "map frozen ms = map frozen ms' \<Longrightarrow> parent_linked p ms = parent_linked p ms'"
proof (induction ms arbitrary: p ms')
  case (Cons m ms)
  then obtain m' ns where n: "ms' = m' # ns" "frozen m = frozen m'" "map frozen ms = map frozen ns" by auto
  then have "mf_id m = mf_id m'" "mf_parent m = mf_parent m'" by (auto simp: frozen_def dest: arg_cong [of _ _ mf_id] arg_cong [of _ _ mf_parent])
  then show ?case using Cons.IH [OF n(3)] n(1) by simp
qed simp

lemma sound_status [simp]: "sound_manifest i (m\<lparr>mf_status := s\<rparr>) = sound_manifest i m"
  by (simp add: sound_manifest_def)

lemma set_status_frozen: "manifests_of P index \<noteq> [] \<Longrightarrow> map frozen (manifests_of (set_status index st P) i) = map frozen (manifests_of P i)"
  by (cases "manifests_of P index" rule: rev_cases) (auto simp: set_status_manifests frozen_def)

lemma check_state:
  assumes "check_invalidation cfg now index docs m v mgr c P = (r, ev, P')"
  shows "P' = P \<or> (manifests_of P index \<noteq> [] \<and> (\<exists>st. P' = set_status index st P))"
proof (cases "get_latest_manifest P index")
  case None
  then show ?thesis using assms by (simp add: check_invalidation_def)
next
  case (Some x)
  then have "manifests_of P index \<noteq> []" by (auto simp: get_latest_manifest_def)
  then show ?thesis using check_result [OF Some assms] by (metis (full_types))
qed

lemma distinct_batches: "distinct (dkeys d) \<Longrightarrow> distinct (dkeys (foldl (\<lambda>d x. add_hashes d (zip (eb_docs x) (eb_hashes x))) d bs))"
  by (induction bs arbitrary: d) simp_all

lemma create_manifest_state:
  assumes "create_manifest cfg t1 t2 index bs meta P = (r, P')"
  shows "P' = P \<or> (\<exists>m. sound_manifest index m \<and> mf_parent m = map_option mf_id (get_latest_manifest P index)
    \<and> (\<forall>i. manifests_of P' i = (if i = index then manifests_of P index @ [m] else manifests_of P i)))"
proof (cases bs)
  case Nil
  then show ?thesis using assms by (simp add: create_manifest_def)
next
  case (Cons b rest)
  then show ?thesis using assms distinct_batches [of "[]" bs]
    by (auto simp: create_manifest_def Let_def manifests_of_def sound_manifest_def)
qed

lemma run_frozen: "pipeline_run cfg mgr P Q \<Longrightarrow> \<exists>ms. map frozen (manifests_of Q i) = map frozen (manifests_of P i) @ ms"
proof (induction rule: pipeline_run.induct)
  case (run_batch Q t1 t2 docs bid c b Q')
  then show ?case by (simp add: manifests_of_def create_batch_fields(5))
next
  case (run_manifest Q t1 t2 index bs meta r Q')
  from create_manifest_state [OF run_manifest(2)] run_manifest(3) show ?case by (cases "i = index") auto
next
  case (run_check Q now index docs m v c r ev Q')
  from check_state [OF run_check(2)] run_check(3) show ?case by (auto simp: set_status_frozen)
qed simp

lemma run_index_ok: "pipeline_run cfg mgr P Q \<Longrightarrow> \<forall>i. index_ok P i \<Longrightarrow> index_ok Q i"
proof (induction rule: pipeline_run.induct)
  case (run_batch Q t1 t2 docs bid c b Q')
  then show ?case by (simp add: index_ok_def manifests_of_def create_batch_fields(5))
next
  case (run_manifest Q t1 t2 index bs meta r Q')
  from create_manifest_state [OF run_manifest(2)] run_manifest(3) [OF run_manifest(4)] show ?case
    by (cases "i = index") (auto simp: index_ok_def parent_linked_append get_latest_manifest_def Let_def split: if_splits)
next
  case (run_check Q now index docs m v c r ev Q')
  have q: "index_ok Q i" by (rule run_check(3) [OF run_check(4)])
  from check_state [OF run_check(2)] show ?case
  proof (elim disjE conjE exE)
    fix st assume ne: "manifests_of Q index \<noteq> []" and Q': "Q' = set_status index st Q"
    have "parent_linked None (manifests_of Q' i) = parent_linked None (manifests_of Q i)"
      by (rule parent_linked_frozen) (simp add: Q' set_status_frozen [OF ne])
    moreover have "list_all (sound_manifest i) (manifests_of Q' i)"
      using q ne by (cases "manifests_of Q index" rule: rev_cases) (auto simp: Q' set_status_manifests index_ok_def)
    ultimately show ?thesis using q by (simp add: index_ok_def)
  qed (use q in simp)
qed simp

text \<open>
  The history of an index. Whatever batches, manifests and checks follow, the manifests of an
  index are only ever appended to, and of those that are there nothing changes but the status; from
  an empty pipeline on, every manifest names its predecessor as parent, counts its documents and
  records each of them once.
\<close>

theorem manifest_history:
  assumes "pipeline_run cfg mgr new_pipeline P" "pipeline_run cfg mgr P P'"
  shows "index_ok P' i \<and> (\<exists>ms. map frozen (manifests_of P' i) = map frozen (manifests_of P i) @ ms)"
proof -
  have "\<forall>i. index_ok new_pipeline i" by (simp add: index_ok_def manifests_of_def new_pipeline_def dget_or_def)
  then have "\<forall>i. index_ok P i" using run_index_ok [OF assms(1)] by blast
  then show ?thesis using run_index_ok [OF assms(2)] run_frozen [OF assms(2)] by blast
qed

section \<open>At work\<close>

abbreviation sample_pipeline :: pipeline_config where
  "sample_pipeline \<equiv> \<lparr>pc_model = Some \<lparr>em_name = Some ''m'', em_version = None, em_embed = None\<rparr>, pc_commit = None, pc_uploads = False,
     pc_sha = map (\<lambda>x. char_of (unat x)), pc_float = (\<lambda>_. [])\<rparr>"

abbreviation doc :: "string \<Rightarrow> string \<Rightarrow> document" where
  "doc i c \<equiv> \<lparr>doc_id = i, doc_content = c, doc_meta = [], doc_path = []\<rparr>"

abbreviation sample_docs :: "document list" where
  "sample_docs \<equiv> [doc ''a'' ''x'', doc ''b'' ''y'']"

definition built :: pipeline where
  "built = snd (rebuild_index sample_pipeline (\<lambda>_. \<lparr>dt_wall = 0, dt_off = None\<rparr>) ''i'' sample_docs None None new_pipeline)"

lemma built_manifest:
  "manifests_of built ''i'' = [\<lparr>mf_id = ''i_00010101_000000_unknown'', mf_index = ''i'', mf_model = ''m'', mf_version = ''1.0'', mf_dims = 128,
     mf_commit = ''unknown'', mf_count = 2, mf_hashes = [(''a'', ''x''), (''b'', ''y'')], mf_batches = [''batch_00010101_000000''],
     mf_created = ''0001-01-01T00:00:00'', mf_status = ''current'', mf_parent = None, mf_meta = []\<rparr>]"
  by code_simp

definition staled :: "invalidation_report \<times> span_event list \<times> pipeline" where
  "staled = check_invalidation sample_pipeline \<lparr>dt_wall = 0, dt_off = None\<rparr> ''i'' [doc ''b'' ''z'', doc ''c'' ''w''] None None
     (None :: (unit lake \<times> branch_manager \<times> unit) option) None built"

theorem check_invalidation_exact_witness:
  "ir_added (fst staled) = [''c''] \<and> ir_removed (fst staled) = [''a''] \<and> ir_changed (fst staled) = [''b'']
     \<and> ir_status (fst staled) = ''stale_documents'' \<and> \<not> ir_valid (fst staled) \<and> ir_old_model (fst staled) = None
     \<and> map mf_status (manifests_of (snd (snd staled)) ''i'') = [''stale_documents'']"
proof -
  let ?docs = "[doc ''b'' ''z'', doc ''c'' ''w'']"
  let ?cur = "map_of (rev (map (\<lambda>x. (doc_id x, document_hash (pc_sha sample_pipeline) x)) ?docs))"
  obtain m where m: "manifests_of built ''i'' = [m]" "mf_hashes m = [(''a'', ''x''), (''b'', ''y'')]"
    "mf_model m = ''m''" "mf_version m = ''1.0''" using built_manifest by auto
  obtain r ev P' where run: "check_invalidation sample_pipeline \<lparr>dt_wall = 0, dt_off = None\<rparr> ''i'' ?docs None None
     (None :: (unit lake \<times> branch_manager \<times> unit) option) None built = (r, ev, P')" by (cases staled) (auto simp: staled_def)
  have latest: "get_latest_manifest built ''i'' = Some m" "distinct (dkeys (mf_hashes m))" by (simp_all add: m get_latest_manifest_def)
  note r = check_invalidation_exact [OF latest run refl]
  have "map (document_hash (pc_sha sample_pipeline)) ?docs = [''z'', ''w'']" by code_simp
  then have cur: "?cur = map_of [(''c'', ''w''), (''b'', ''z'')]" by simp
  have same: "\<not> model_differs sample_pipeline None None m" unfolding model_differs_def m by code_simp
  have sets: "set (ir_added r) = {''c''}" "set (ir_removed r) = {''a''}" "set (ir_changed r) = {''b''}"
    using r unfolding cur m(2) by (auto split: if_splits)
  have one: "xs = [x]" if "set xs = {x}" "sorted_wrt (<) xs" for xs and x :: string
    by (rule sorted_distinct_set_unique) (use that in \<open>auto simp: strict_sorted_iff\<close>)
  have st: "staled = (r, ev, P')" by (simp only: staled_def run)
  have "?cur ''c'' \<noteq> dget (mf_hashes m) ''c''" unfolding cur m(2) by simp
  then have differ: "?cur \<noteq> dget (mf_hashes m)" by metis
  have status: "ir_status r = ''stale_documents''" "\<not> ir_valid r" "ir_old_model r = None"
    using r differ same by (simp_all add: stale_status_def model_reported_def)
  obtain s where "manifests_of P' ''i'' = butlast (manifests_of built ''i'') @ [m\<lparr>mf_status := s\<rparr>]" "s = ir_status r"
    using conjunct1 [OF conjunct2 [OF conjunct2 [OF conjunct2 [OF conjunct2 [OF conjunct2 [OF conjunct2 [OF conjunct2 [OF r]]]]]]]] status(2) by blast
  then have "map mf_status (manifests_of P' ''i'') = [''stale_documents'']" by (simp add: m status)
  moreover have "sorted_wrt (<) (ir_added r) \<and> sorted_wrt (<) (ir_removed r) \<and> sorted_wrt (<) (ir_changed r)" using r by blast
  ultimately show ?thesis using one [OF sets(1)] one [OF sets(2)] one [OF sets(3)] status
    by (simp only: st fst_conv snd_conv) blast
qed

lemma built_run: "pipeline_run sample_pipeline mgr new_pipeline built"
proof -
  let ?t = "\<lparr>dt_wall = 0, dt_off = None\<rparr> :: datetime"
  obtain b Q where b: "create_embedding_batch sample_pipeline ?t ?t sample_docs None None new_pipeline = (b, Q)"
    by (cases "create_embedding_batch sample_pipeline ?t ?t sample_docs None None new_pipeline")
  obtain r where r: "create_manifest sample_pipeline ?t ?t ''i'' [b] [] Q = (r, built)"
    using b by (simp add: built_def rebuild_index_def prod_eq_iff)
  show ?thesis by (rule run_manifest [OF run_batch [OF run_none b] r])
qed

theorem manifest_history_witness:
  "parent_linked None (manifests_of (snd (snd staled)) ''i'') \<and> map (mf_hashes) (manifests_of (snd (snd staled)) ''i'') = [[(''a'', ''x''), (''b'', ''y'')]]"
proof -
  obtain r ev P' where run: "staled = (r, ev, P')" by (cases staled) auto
  have step: "pipeline_run sample_pipeline (None :: (unit lake \<times> branch_manager \<times> unit) option) built P'" by (rule run_check [OF run_none run [unfolded staled_def]])
  obtain ms where ms: "index_ok P' ''i''" "map frozen (manifests_of P' ''i'') = map frozen (manifests_of built ''i'') @ ms"
    using manifest_history [OF built_run step, of "''i''"] by blast
  have "length (manifests_of (snd (snd staled)) ''i'') = 1" by code_simp
  then have "ms = []" using arg_cong [OF ms(2), of length] unfolding run by (simp add: built_manifest)
  then have "map (mf_hashes \<circ> frozen) (manifests_of P' ''i'') = map (mf_hashes \<circ> frozen) (manifests_of built ''i'')"
    using ms(2) by (metis append_Nil2 list.map_comp)
  then show ?thesis using ms(1) unfolding run snd_conv by (simp add: o_def frozen_def built_manifest index_ok_def)
qed

end
