(* ===== verification/Capture.thy ===== *)
theory Capture
  imports Events
begin

text \<open>
  \<open>decorators.py\<close>, \<open>_export_mixin.py\<close>, \<open>config.py\<close> and \<open>_observe.py\<close>: the \<open>capture\<close> decorator, which
  records what a function is called with and what comes of it, and the way a record takes to an
  exporter. The function is a computation on a state, values are known by their reprs, which the
  arguments supply, and exceptions by their class and text. The results: capture changes nothing
  about the call, what a record may reveal in each mode, and what the background worker hands on.
\<close>

section \<open>Values, exceptions, redaction\<close>

text \<open>An exception: its class, whether it is an \<open>Exception\<close> and not only a \<open>BaseException\<close>, and its
  text, unless its \<open>__str__\<close> returns no string.\<close>

datatype raised = Raised (raised_class: string) (is_exception: bool) (raised_text: "string option")

definition type_error :: raised where
  "type_error = Raised ''TypeError'' True (Some [])"

datatype 'v shown = Positional "'v list" | Keywords "(string \<times> 'v) list" | Result 'v

text \<open>\<open>repr\<close> and the bounded \<open>reprlib\<close> repr; \<open>None\<close> where they raise.\<close>

record 'v renderer =
  full_repr :: "'v shown \<Rightarrow> string option"
  short_repr :: "int \<Rightarrow> 'v shown \<Rightarrow> string option"
  type_name :: "'v \<Rightarrow> string"

definition safe_repr :: "'v renderer \<Rightarrow> 'v shown \<Rightarrow> string" where
  "safe_repr R x = (case full_repr R x of Some t \<Rightarrow> t | None \<Rightarrow> ''<unreprable>'')"

definition bounded_repr :: "'v renderer \<Rightarrow> int \<Rightarrow> 'v shown \<Rightarrow> string" where
  "bounded_repr R limit x = (case short_repr R limit x of Some t \<Rightarrow> t | None \<Rightarrow> ''<unreprable>'')"

text \<open>What a redactor does: answer a text, answer something that cannot be sliced, or raise.\<close>

datatype redacted = Text string | NoText | RedactRaises

text \<open>\<open>xs[:n]\<close>\<close>

definition slice_to :: "int \<Rightarrow> 'a list \<Rightarrow> 'a list" where
  "slice_to n xs = (if 0 \<le> n then take (nat n) xs else take (length xs - nat (- n)) xs)"

definition full_text :: "(string \<Rightarrow> redacted) option \<Rightarrow> int \<Rightarrow> string \<Rightarrow> raised + string" where
  "full_text redact limit text = (case redact of
     None \<Rightarrow> Inr (slice_to limit text)
   | Some f \<Rightarrow> (case f text of
       Text t \<Rightarrow> Inr (slice_to limit t)
     | NoText \<Rightarrow> Inl type_error
     | RedactRaises \<Rightarrow> Inr (slice_to limit ''<redaction-failed>'')))"

section \<open>The record\<close>

datatype content_mode = Full | Hashed | Shape

definition content_mode_of :: "string \<Rightarrow> content_mode res" where
  "content_mode_of s = (if s = ''full'' then Inr Full else if s = ''hash'' then Inr Hashed
     else if s = ''none'' then Inr Shape else Inl ValueError)"

record capture_options =
  cap_type :: string
  cap_version :: "string option"
  cap_in :: int
  cap_out :: int
  cap_mode :: content_mode
  cap_redact :: "(string \<Rightarrow> redacted) option"
  cap_name :: string

text \<open>The arguments of the decorator on a function of this name and qualified name.\<close>

definition make_wrapper ::
  "string \<Rightarrow> string \<Rightarrow> string option \<Rightarrow> string option \<Rightarrow> int \<Rightarrow> int \<Rightarrow> string \<Rightarrow> (string \<Rightarrow> redacted) option \<Rightarrow> capture_options res" where
  "make_wrapper name qualname decision_type context_version max_in max_out capture_content redact =
     rbind (content_mode_of capture_content) (\<lambda>m. Inr \<lparr>cap_type = (if str_truthy decision_type then the decision_type else qualname),
       cap_version = context_version, cap_in = max_in, cap_out = max_out, cap_mode = m, cap_redact = redact, cap_name = name\<rparr>)"

definition sha_text :: "(bytes \<Rightarrow> string) \<Rightarrow> string \<Rightarrow> string" where
  "sha_text sha t = sha (utf8 t)"

fun rcat :: "(raised + 'a list) \<Rightarrow> (raised + 'a list) \<Rightarrow> raised + 'a list" where
  "rcat (Inl e) r = Inl e"
| "rcat (Inr xs) (Inl e) = Inl e"
| "rcat (Inr xs) (Inr ys) = Inr (xs @ ys)"

text \<open>The entries for the positional or the keyword arguments, under \<open>key\<close>.\<close>

definition input_items ::
  "capture_options \<Rightarrow> (bytes \<Rightarrow> string) \<Rightarrow> 'v renderer \<Rightarrow> string \<Rightarrow> nat \<Rightarrow> 'v shown \<Rightarrow> raised + pydict" where
  "input_items opts sha R key n x =
     (if n = 0 then Inr []
      else case cap_mode opts of
        Full \<Rightarrow> (case full_text (cap_redact opts) (cap_in opts) (bounded_repr R (cap_in opts) x) of
            Inl e \<Rightarrow> Inl e | Inr t \<Rightarrow> Inr [(key, PStr t)])
      | Hashed \<Rightarrow> (let t = safe_repr R x in
            Inr [(key @ ''_sha256'', PStr (sha_text sha t)), (key @ ''_chars'', PInt (int (length t)))])
      | Shape \<Rightarrow> Inr [(key @ ''_count'', PInt (int n))])"

definition build_record ::
  "capture_options \<Rightarrow> (bytes \<Rightarrow> string) \<Rightarrow> 'v renderer \<Rightarrow> string \<Rightarrow> datetime \<Rightarrow> 'v list \<Rightarrow> (string \<times> 'v) list \<Rightarrow> raised + pydict" where
  "build_record opts sha R uid now args kwargs =
     (case rcat (input_items opts sha R ''args'' (length args) (Positional args))
                (input_items opts sha R ''kwargs'' (length kwargs) (Keywords kwargs)) of
        Inl e \<Rightarrow> Inl e
      | Inr inputs \<Rightarrow> Inr ([(''decision_id'', PStr uid), (''decision_type'', PStr (cap_type opts)), (''function_name'', PStr (cap_name opts)),
          (''inputs'', PDict inputs), (''outputs'', PDict []), (''started_at'', PStr (isoformat now))]
          @ (case cap_version opts of None \<Rightarrow> [] | Some v \<Rightarrow> [(''context_version'', PStr v)])))"

text \<open>What is written of a result or an error; it may raise.\<close>

definition error_value :: "capture_options \<Rightarrow> (bytes \<Rightarrow> string) \<Rightarrow> raised \<Rightarrow> raised + string" where
  "error_value opts sha e = (case cap_mode opts of
     Full \<Rightarrow> (case raised_text e of None \<Rightarrow> Inl type_error | Some t \<Rightarrow> full_text (cap_redact opts) (cap_out opts) t)
   | Hashed \<Rightarrow> (case raised_text e of None \<Rightarrow> Inl type_error
       | Some t \<Rightarrow> Inr (raised_class e @ '':sha256:'' @ sha_text sha t))
   | Shape \<Rightarrow> Inr (raised_class e))"

definition output_items :: "capture_options \<Rightarrow> (bytes \<Rightarrow> string) \<Rightarrow> 'v renderer \<Rightarrow> 'v \<Rightarrow> raised + pydict" where
  "output_items opts sha R v = (case cap_mode opts of
     Full \<Rightarrow> (case full_text (cap_redact opts) (cap_out opts) (bounded_repr R (cap_out opts) (Result v)) of
         Inl e \<Rightarrow> Inl e | Inr t \<Rightarrow> Inr [(''result'', PStr t)])
   | Hashed \<Rightarrow> (let t = safe_repr R (Result v) in
         Inr [(''result_sha256'', PStr (sha_text sha t)), (''result_chars'', PInt (int (length t))), (''result_type'', PStr (type_name R v))])
   | Shape \<Rightarrow> Inr [(''result_type'', PStr (type_name R v))])"

definition with_timing :: "datetime \<Rightarrow> datetime \<Rightarrow> pydict \<Rightarrow> pydict" where
  "with_timing started ended rec = dset (dset rec ''ended_at'' (PStr (isoformat ended)))
     ''execution_time_ms'' (PFloat (Fin (of_int (instant ended - instant started) / 1000)))"

text \<open>The record is changed in place, so it is returned with the exception raised, if any.\<close>

definition finalize_result ::
  "capture_options \<Rightarrow> (bytes \<Rightarrow> string) \<Rightarrow> 'v renderer \<Rightarrow> datetime \<Rightarrow> datetime \<Rightarrow> 'v \<Rightarrow> pydict \<Rightarrow> pydict \<times> raised option" where
  "finalize_result opts sha R started ended v rec = (case output_items opts sha R v of
     Inl e \<Rightarrow> (with_timing started ended rec, Some e)
   | Inr outs \<Rightarrow> (dset (with_timing started ended rec) ''outputs'' (PDict outs), None))"

definition finalize_error ::
  "capture_options \<Rightarrow> (bytes \<Rightarrow> string) \<Rightarrow> datetime \<Rightarrow> datetime \<Rightarrow> raised \<Rightarrow> pydict \<Rightarrow> pydict \<times> raised option" where
  "finalize_error opts sha started ended e rec = (case error_value opts sha e of
     Inl e' \<Rightarrow> (with_timing started ended rec, Some e')
   | Inr t \<Rightarrow> (dset (with_timing started ended rec) ''error'' (PStr t), None))"

section \<open>The wrapper\<close>

text \<open>What the wrapped function returns or raises, the records handed to the exporter, the state.\<close>

definition on_call_error ::
  "capture_options \<Rightarrow> (bytes \<Rightarrow> string) \<Rightarrow> datetime \<Rightarrow> datetime \<Rightarrow> raised \<Rightarrow> pydict \<Rightarrow> 'w \<Rightarrow> (raised + 'v) \<times> pydict list \<times> 'w" where
  "on_call_error opts sha started ended e rec w = (case finalize_error opts sha started ended e rec of
     (rec', None) \<Rightarrow> (Inl e, [rec'], w) | (rec', Some e') \<Rightarrow> (Inl e', [], w))"

definition captured_call ::
  "capture_options \<Rightarrow> (bytes \<Rightarrow> string) \<Rightarrow> 'v renderer \<Rightarrow> bool \<Rightarrow> string \<Rightarrow> (nat \<Rightarrow> datetime) \<Rightarrow> 'v list \<Rightarrow> (string \<times> 'v) list \<Rightarrow>
   ('w \<Rightarrow> (raised + 'v) \<times> 'w) \<Rightarrow> 'w \<Rightarrow> (raised + 'v) \<times> pydict list \<times> 'w" where
  \<comment> \<open>the flag: an exporter was found; the clock is read up to four times\<close>
  "captured_call opts sha R found uid clock args kwargs f w =
     (if \<not> found then (case f w of (r, w1) \<Rightarrow> (r, [], w1))
      else case build_record opts sha R uid (clock 0) args kwargs of
        Inl e \<Rightarrow> (Inl e, [], w)
      | Inr rec \<Rightarrow> (case f w of
          (Inl e, w1) \<Rightarrow> if is_exception e then on_call_error opts sha (clock 1) (clock 2) e rec w1 else (Inl e, [], w1)
        | (Inr v, w1) \<Rightarrow> (case finalize_result opts sha R (clock 1) (clock 2) v rec of
            (rec1, None) \<Rightarrow> (Inr v, [rec1], w1)
          | (rec1, Some e) \<Rightarrow> on_call_error opts sha (clock 1) (clock 3) e rec1 w1)))"

section \<open>Configuration\<close>

record ('x, 'r, 'b, 's) briefcase_config =
  c_exporter :: "'x option"
  c_router :: "'r option"
  c_webhook_url :: "string option"
  c_webhook_secret :: "string option"
  c_events :: "string list option"
  c_event_bus :: "'b option"
  c_storage :: "'s option"

definition new_briefcase_config :: "('x, 'r, 'b, 's) briefcase_config" where
  "new_briefcase_config = \<lparr>c_exporter = None, c_router = None, c_webhook_url = None, c_webhook_secret = None, c_events = None,
     c_event_bus = None, c_storage = None\<rparr>"

definition or_else :: "'a option \<Rightarrow> 'a option \<Rightarrow> 'a option" where
  "or_else new old = (case new of None \<Rightarrow> old | Some x \<Rightarrow> Some x)"

text \<open>The arguments are given as another configuration.\<close>

definition setup_config ::
  "('x, 'r, 'b, 's) briefcase_config \<Rightarrow> string list \<Rightarrow> ('x, 'r, 'b, 's) briefcase_config \<Rightarrow>
   unit res \<times> ('x, 'r, 'b, 's) briefcase_config" where
  "setup_config a packs c = (if packs \<noteq> [] then Inl ValueError else Inr (),
     \<lparr>c_exporter = or_else (c_exporter a) (c_exporter c), c_router = or_else (c_router a) (c_router c),
      c_webhook_url = or_else (c_webhook_url a) (c_webhook_url c), c_webhook_secret = or_else (c_webhook_secret a) (c_webhook_secret c),
      c_events = or_else (c_events a) (c_events c), c_event_bus = or_else (c_event_bus a) (c_event_bus c),
      c_storage = or_else (c_storage a) (c_storage c)\<rparr>)"

text \<open>\<open>_resolve_exporter\<close> of the mixin: the own exporter first, then that of the configuration.\<close>

definition resolve_exporter :: "'x option \<Rightarrow> ('x, 'r, 'b, 's) briefcase_config \<Rightarrow> 'x option" where
  "resolve_exporter own c = or_else own (c_exporter c)"

datatype 'x observe_arg = Instance 'x | NoArgument | Shorthand string
datatype 'x chosen_exporter = Given 'x | NewConsole | NewMemory | NewJsonl string

definition resolve_shorthand :: "'x observe_arg \<Rightarrow> 'x chosen_exporter res" where
  "resolve_shorthand a = (case a of
     Instance x \<Rightarrow> Inr (Given x)
   | NoArgument \<Rightarrow> Inr NewConsole
   | Shorthand s \<Rightarrow> if s = ''console'' then Inr NewConsole else if s = ''memory'' then Inr NewMemory
       else if drop (length s - 6) s = ''.jsonl'' then Inr (NewJsonl s) else Inl ValueError)"

definition observe ::
  "('x chosen_exporter \<Rightarrow> 'x) \<Rightarrow> 'x observe_arg \<Rightarrow> ('x, 'r, 'b, 's) briefcase_config \<Rightarrow> 'x res \<times> ('x, 'r, 'b, 's) briefcase_config" where
  \<comment> \<open>the constructors of the exporters are an argument\<close>
  "observe build a c = (case resolve_shorthand a of
     Inl e \<Rightarrow> (Inl e, c)
   | Inr k \<Rightarrow> (Inr (build k), snd (setup_config (new_briefcase_config\<lparr>c_exporter := Some (build k)\<rparr>) [] c)))"

section \<open>The background worker\<close>

datatype ('x, 'r) job = Job 'x 'r | Marker nat

datatype export_end = Completed | Failed | Killed
  \<comment> \<open>\<open>Killed\<close>: a \<open>BaseException\<close> ends the thread\<close>

record ('x, 'r) export_worker =
  ew_alive :: bool
  ew_queue :: "('x, 'r) job list"
  ew_handed :: "('x \<times> 'r) list"
  ew_done :: "nat list"

definition new_worker :: "('x, 'r) export_worker" where
  "new_worker = \<lparr>ew_alive = False, ew_queue = [], ew_handed = [], ew_done = []\<rparr>"

definition enqueue_export :: "'x \<Rightarrow> 'r \<Rightarrow> ('x, 'r) export_worker \<Rightarrow> ('x, 'r) export_worker" where
  "enqueue_export x r s =
     (if ew_alive s then s\<lparr>ew_queue := ew_queue s @ [Job x r]\<rparr> else s\<lparr>ew_alive := True, ew_queue := [Job x r]\<rparr>)"

text \<open>\<open>wait_for_pending_exports\<close>: \<open>n\<close> is in \<open>ew_done\<close> when it would return \<open>True\<close>.\<close>

definition begin_wait :: "nat \<Rightarrow> ('x, 'r) export_worker \<Rightarrow> ('x, 'r) export_worker" where
  "begin_wait n s = (if ew_alive s then s\<lparr>ew_queue := ew_queue s @ [Marker n]\<rparr> else s\<lparr>ew_done := ew_done s @ [n]\<rparr>)"

definition worker_step :: "export_end \<Rightarrow> ('x, 'r) export_worker \<Rightarrow> ('x, 'r) export_worker" where
  "worker_step ending s =
     (if \<not> ew_alive s then s
      else case ew_queue s of
        [] \<Rightarrow> s
      | Job x r # q \<Rightarrow> s\<lparr>ew_queue := q, ew_handed := ew_handed s @ [(x, r)], ew_alive := (ending \<noteq> Killed)\<rparr>
      | Marker n # q \<Rightarrow> s\<lparr>ew_queue := q, ew_done := ew_done s @ [n]\<rparr>)"

datatype ('x, 'r) export_event = Enqueue 'x 'r | WaitFor nat | Work export_end

fun worker_event :: "('x, 'r) export_event \<Rightarrow> ('x, 'r) export_worker \<Rightarrow> ('x, 'r) export_worker" where
  "worker_event (Enqueue x r) s = enqueue_export x r s"
| "worker_event (WaitFor n) s = begin_wait n s"
| "worker_event (Work ending) s = worker_step ending s"

definition worker_run :: "('x, 'r) export_event list \<Rightarrow> ('x, 'r) export_worker" where
  "worker_run es = foldl (\<lambda>s e. worker_event e s) new_worker es"

text \<open>\<open>_trigger_export\<close>: enqueue, or export at once; what is raised is dropped.\<close>

definition trigger_export ::
  "bool \<Rightarrow> ('x \<Rightarrow> 'r \<Rightarrow> 's \<Rightarrow> (raised + bool) \<times> 's) \<Rightarrow> 'x option \<Rightarrow> 'r \<Rightarrow> ('x, 'r) export_worker \<times> 's \<Rightarrow> ('x, 'r) export_worker \<times> 's" where
  "trigger_export async_capture export x r st = (case (x, st) of
     (None, _) \<Rightarrow> st
   | (Some x', (q, s)) \<Rightarrow> if async_capture then (enqueue_export x' r q, s) else (q, snd (export x' r s)))"

section \<open>Capture changes nothing about the call\<close>

text \<open>A redactor that answers a text or raises, and an exception that has a text.\<close>

definition redacts :: "(string \<Rightarrow> redacted) option \<Rightarrow> bool" where
  "redacts r \<longleftrightarrow> (case r of None \<Rightarrow> True | Some f \<Rightarrow> \<forall>t. f t \<noteq> NoText)"

lemma full_text_total: "redacts r \<Longrightarrow> \<exists>t. full_text r n x = Inr t"
  by (auto simp: redacts_def full_text_def split: option.splits redacted.splits)

lemma input_items_total: "redacts (cap_redact opts) \<Longrightarrow> \<exists>d. input_items opts sha R key n x = Inr d"
  using full_text_total [of "cap_redact opts" "cap_in opts" "bounded_repr R (cap_in opts) x"]
  by (auto simp: input_items_def Let_def split: content_mode.splits)

lemma build_record_total:
  assumes "redacts (cap_redact opts)" shows "\<exists>rec. build_record opts sha R uid now args kwargs = Inr rec"
proof -
  obtain a b where "input_items opts sha R ''args'' (length args) (Positional args) = Inr a"
    "input_items opts sha R ''kwargs'' (length kwargs) (Keywords kwargs) = Inr b"
    using input_items_total [OF assms] by metis
  then show ?thesis by (simp add: build_record_def)
qed

lemma finalize_result_total:
  "redacts (cap_redact opts) \<Longrightarrow> \<exists>rec'. finalize_result opts sha R t1 t2 v rec = (rec', None)"
  using full_text_total [of "cap_redact opts" "cap_out opts" "bounded_repr R (cap_out opts) (Result v)"]
  by (auto simp: finalize_result_def output_items_def Let_def split: content_mode.splits)

lemma finalize_error_total:
  "redacts (cap_redact opts) \<Longrightarrow> raised_text e \<noteq> None \<Longrightarrow> \<exists>rec'. finalize_error opts sha t1 t2 e rec = (rec', None)"
  using full_text_total [of "cap_redact opts" "cap_out opts" "the (raised_text e)"]
  by (auto simp: finalize_error_def error_value_def split: content_mode.splits)

text \<open>
  C30: Capture changes nothing about the call. When the redactor answers a text or raises and an
  exception of the function has a text, the wrapper returns or raises exactly what the function
  does and leaves its state as the function does, in every mode, whatever the reprs do; one record
  is handed to the exporter unless there is none or the function ends by a \<open>BaseException\<close>.
\<close>

theorem capture_transparent:
  assumes r: "redacts (cap_redact opts)" and f: "f w = (out, w')"
    and has_text: "\<And>e. out = Inl e \<Longrightarrow> is_exception e \<Longrightarrow> raised_text e \<noteq> None"
  shows "\<exists>recs. captured_call opts sha R found uid clock args kwargs f w = (out, recs, w')
    \<and> length recs = (if found \<and> (case out of Inl e \<Rightarrow> is_exception e | Inr _ \<Rightarrow> True) then 1 else 0)"
proof (cases found)
  case False
  then show ?thesis using f by (simp add: captured_call_def)
next
  case True
  obtain rec where rec: "build_record opts sha R uid (clock 0) args kwargs = Inr rec" using build_record_total [OF r] by blast
  show ?thesis
  proof (cases out)
    case (Inl e)
    show ?thesis
    proof (cases "is_exception e")
      case exc: True
      obtain rec' where "finalize_error opts sha (clock 1) (clock 2) e rec = (rec', None)"
        using finalize_error_total [OF r has_text [OF Inl exc]] by blast
      then show ?thesis using True exc Inl f rec by (simp add: captured_call_def on_call_error_def)
    qed (use True Inl f rec in \<open>simp add: captured_call_def\<close>)
  next
    case (Inr v)
    obtain rec' where "finalize_result opts sha R (clock 1) (clock 2) v rec = (rec', None)"
      using finalize_result_total [OF r, of sha R "clock 1" "clock 2" v rec] by auto
    then show ?thesis using True Inr f rec by (simp add: captured_call_def)
  qed
qed

section \<open>What a record reveals\<close>

text \<open>What the mode \<open>none\<close> may depend on, and what the mode \<open>hash\<close> may.\<close>

fun same_class :: "(raised + 'v) \<Rightarrow> (raised + 'v) \<Rightarrow> ('v \<Rightarrow> string) \<Rightarrow> bool" where
  "same_class (Inl e) (Inl e') ty \<longleftrightarrow> raised_class e = raised_class e' \<and> is_exception e = is_exception e'"
| "same_class (Inr v) (Inr v') ty \<longleftrightarrow> ty v = ty v'"
| "same_class _ _ ty \<longleftrightarrow> False"

definition digest :: "(bytes \<Rightarrow> string) \<Rightarrow> string \<Rightarrow> string \<times> nat" where
  "digest sha t = (sha_text sha t, length t)"

definition same_digests :: "(bytes \<Rightarrow> string) \<Rightarrow> 'v renderer \<Rightarrow> 'v list \<Rightarrow> 'v list \<Rightarrow> (string \<times> 'v) list \<Rightarrow> (string \<times> 'v) list \<Rightarrow> (raised + 'v) \<Rightarrow> (raised + 'v) \<Rightarrow> bool" where
  "same_digests sha R args args' kw kw' out out' \<longleftrightarrow>
     digest sha (safe_repr R (Positional args)) = digest sha (safe_repr R (Positional args'))
     \<and> digest sha (safe_repr R (Keywords kw)) = digest sha (safe_repr R (Keywords kw'))
     \<and> (case (out, out') of
          (Inl e, Inl e') \<Rightarrow> map_option (sha_text sha) (raised_text e) = map_option (sha_text sha) (raised_text e')
        | (Inr v, Inr v') \<Rightarrow> digest sha (safe_repr R (Result v)) = digest sha (safe_repr R (Result v'))
        | _ \<Rightarrow> False)"

text \<open>
  C31: What a record reveals. In the mode \<open>none\<close>, two calls with as many arguments and a result of the
  same type, or an exception of the same class, leave the same records, whatever the content of the
  arguments and results; in the mode \<open>hash\<close> they do when the digests and lengths of the texts agree
  as well. Neither mode runs the redactor.
\<close>

theorem record_noninterference:
  assumes mode: "cap_mode opts \<noteq> Full"
    and shape: "length args = length args'" "length kwargs = length kwargs'" "same_class out out' (type_name R)"
    and hashed: "cap_mode opts = Hashed \<Longrightarrow> same_digests sha R args args' kwargs kwargs' out out'"
    and run: "captured_call opts sha R found uid clock args kwargs (\<lambda>w. (out, w)) w = (r, recs, w1)"
    and run': "captured_call (opts\<lparr>cap_redact := f\<rparr>) sha R found uid clock args' kwargs' (\<lambda>w. (out', w)) w' = (r', recs', w1')"
  shows "recs = recs'"
proof -
  have i: "input_items opts sha R ''args'' (length args) (Positional args)
      = input_items (opts\<lparr>cap_redact := f\<rparr>) sha R ''args'' (length args') (Positional args')"
    "input_items opts sha R ''kwargs'' (length kwargs) (Keywords kwargs)
      = input_items (opts\<lparr>cap_redact := f\<rparr>) sha R ''kwargs'' (length kwargs') (Keywords kwargs')"
    using mode shape(1,2) hashed
    by (auto simp: input_items_def Let_def same_digests_def digest_def split: content_mode.splits)
  have b: "build_record opts sha R uid (clock 0) args kwargs = build_record (opts\<lparr>cap_redact := f\<rparr>) sha R uid (clock 0) args' kwargs'"
    unfolding build_record_def i by (auto split: sum.splits)
  show ?thesis
    using run run' b shape(3) mode hashed
    by (cases out; cases out'; cases "cap_mode opts")
      (auto simp: captured_call_def on_call_error_def finalize_error_def finalize_result_def error_value_def output_items_def
        Let_def same_digests_def digest_def split: sum.splits option.splits if_splits)
qed

text \<open>With a redactor, the mode \<open>full\<close> writes only what the redactor answered, cut, or the placeholder.\<close>

definition redacted_text :: "(string \<Rightarrow> redacted) \<Rightarrow> string \<Rightarrow> bool" where
  "redacted_text f t \<longleftrightarrow> (\<exists>n x. (\<exists>y. f x = Text y \<and> t = slice_to n y) \<or> (f x = RedactRaises \<and> t = slice_to n ''<redaction-failed>''))"

lemma full_text_redacted: "full_text (Some f) n x = Inr t \<Longrightarrow> redacted_text f t"
  unfolding redacted_text_def full_text_def by (auto split: redacted.splits)

lemma full_mode_redacted:
  assumes "cap_mode opts = Full" "cap_redact opts = Some f"
  shows "input_items opts sha R key n x = Inr d \<Longrightarrow> (k, v) \<in> set d \<Longrightarrow> \<exists>t. v = PStr t \<and> redacted_text f t"
    and "output_items opts sha R v' = Inr d \<Longrightarrow> (k, v) \<in> set d \<Longrightarrow> \<exists>t. v = PStr t \<and> redacted_text f t"
    and "error_value opts sha e = Inr t \<Longrightarrow> redacted_text f t"
  using assms
  by (auto simp: input_items_def output_items_def error_value_def split: if_splits sum.splits option.splits dest: full_text_redacted)

section \<open>What the worker hands on\<close>

definition jobs :: "('x, 'r) job list \<Rightarrow> ('x \<times> 'r) list" where
  "jobs q = concat (map (\<lambda>j. case j of Job x r \<Rightarrow> [(x, r)] | Marker n \<Rightarrow> []) q)"

definition enqueued :: "('x, 'r) export_event list \<Rightarrow> ('x \<times> 'r) list" where
  "enqueued es = concat (map (\<lambda>e. case e of Enqueue x r \<Rightarrow> [(x, r)] | _ \<Rightarrow> []) es)"

definition waits :: "('x, 'r) export_event list \<Rightarrow> nat list" where
  "waits es = concat (map (\<lambda>e. case e of WaitFor n \<Rightarrow> [n] | _ \<Rightarrow> []) es)"

lemma jobs_simps [simp]:
  "jobs [] = []" "jobs (Job x r # q) = (x, r) # jobs q" "jobs (Marker n # q) = jobs q" "jobs (p @ q) = jobs p @ jobs q"
  by (simp_all add: jobs_def)

lemma enqueued_simps [simp]:
  "enqueued [] = []" "enqueued (es @ es') = enqueued es @ enqueued es'" "enqueued [Enqueue x r] = [(x, r)]"
  "enqueued [WaitFor n] = []" "enqueued [Work e] = []"
  by (simp_all add: enqueued_def)

lemma waits_simps [simp]:
  "waits [] = []" "waits (es @ es') = waits es @ waits es'" "waits [Enqueue x r] = []" "waits [WaitFor n] = [n]" "waits [Work e] = []"
  by (simp_all add: waits_def)

lemma worker_run_snoc [simp]: "worker_run (es @ [e]) = worker_event e (worker_run es)"
  by (simp add: worker_run_def)

text \<open>What was enqueued before the wait \<open>n\<close> began.\<close>

definition before_wait :: "nat \<Rightarrow> ('x, 'r) export_event list \<Rightarrow> ('x \<times> 'r) list" where
  "before_wait n es = enqueued (takeWhile (\<lambda>e. e \<noteq> WaitFor n) es)"

text \<open>A marker stands behind \<open>k\<close> and the jobs in front of it.\<close>

fun marks_ok :: "('x, 'r) export_event list \<Rightarrow> nat \<Rightarrow> ('x, 'r) job list \<Rightarrow> bool" where
  "marks_ok es k [] = True"
| "marks_ok es k (Job x r # q) = marks_ok es (Suc k) q"
| "marks_ok es k (Marker n # q) \<longleftrightarrow> WaitFor n \<in> set es \<and> length (before_wait n es) \<le> k \<and> marks_ok es k q"

definition fifo_ok :: "('x, 'r) export_event list \<Rightarrow> ('x, 'r) export_worker \<Rightarrow> bool" where
  "fifo_ok es s \<longleftrightarrow> ew_handed s @ jobs (ew_queue s) = enqueued es \<and> (ew_alive s \<or> ew_queue s = [])
     \<and> marks_ok es (length (ew_handed s)) (ew_queue s)
     \<and> (\<forall>n\<in>set (ew_done s). WaitFor n \<in> set es \<and> length (before_wait n es) \<le> length (ew_handed s))"

lemma before_old [simp]: "WaitFor n \<in> set es \<Longrightarrow> before_wait n (es @ [e]) = before_wait n es"
  by (simp add: before_wait_def)

lemma before_new: "WaitFor n \<notin> set es \<Longrightarrow> before_wait n (es @ [WaitFor n]) = enqueued es"
  unfolding before_wait_def by (subst takeWhile_append2) auto

lemma before_le: "length (before_wait n es) \<le> length (enqueued es)"
proof -
  have "enqueued es = before_wait n es @ enqueued (dropWhile (\<lambda>e. e \<noteq> WaitFor n) es)"
    by (metis before_wait_def enqueued_simps(2) takeWhile_dropWhile_id)
  then show ?thesis by simp
qed

lemma marks_ok_event: "marks_ok es k q \<Longrightarrow> marks_ok (es @ [e]) k q"
  by (induction es k q rule: marks_ok.induct) auto

lemma marks_ok_append: "marks_ok es k (q @ [j]) \<longleftrightarrow> marks_ok es k q \<and> marks_ok es (k + length (jobs q)) [j]"
  by (induction es k q rule: marks_ok.induct) auto

lemma fifo_event:
  assumes s: "fifo_ok es s" and live: "e \<noteq> Work Killed"
  shows "fifo_ok (es @ [e]) (worker_event e s)"
proof (cases e)
  case (Enqueue x r)
  then show ?thesis using s
    by (auto simp: fifo_ok_def enqueue_export_def marks_ok_append intro: marks_ok_event)
next
  case (WaitFor n)
  have "length (before_wait n (es @ [WaitFor n])) \<le> length (ew_handed s) + length (jobs (ew_queue s))"
  proof (cases "WaitFor n \<in> set es")
    case True
    have "length (ew_handed s @ jobs (ew_queue s)) = length (enqueued es)" using s unfolding fifo_ok_def by metis
    then show ?thesis using True before_le [of n es] by simp
  next
    case False
    have "length (ew_handed s @ jobs (ew_queue s)) = length (enqueued es)" using s unfolding fifo_ok_def by metis
    then show ?thesis by (simp add: before_new [OF False])
  qed
  then show ?thesis using s WaitFor
    by (auto simp: fifo_ok_def begin_wait_def marks_ok_append intro: marks_ok_event)
next
  case (Work ending)
  then show ?thesis using s live
    by (auto simp: fifo_ok_def worker_step_def intro: marks_ok_event split: list.splits job.splits)
qed

lemma fifo_run: "Work Killed \<notin> set es \<Longrightarrow> fifo_ok es (worker_run es)"
proof (induction es rule: rev_induct)
  case Nil
  show ?case by (simp add: fifo_ok_def worker_run_def new_worker_def)
next
  case (snoc e es)
  then show ?case using fifo_event [of es "worker_run es" e] by auto
qed

lemma append_prefix: "a @ b = c @ d \<Longrightarrow> length c \<le> length a \<Longrightarrow> \<exists>rest. a = c @ rest"
  by (auto simp: append_eq_append_conv2)

text \<open>
  C32: What the background worker hands on. However records are enqueued, exports fail and waits
  begin, as long as no export ends the thread: what was handed to the exporters and what is pending
  is, in this order, what was enqueued, each record once; and when \<open>wait_for_pending_exports\<close> returns
  \<open>True\<close>, everything enqueued before it began has been handed to its exporter.
\<close>

theorem exports_drained:
  assumes "Work Killed \<notin> set es"
  shows "ew_handed (worker_run es) @ jobs (ew_queue (worker_run es)) = enqueued es
    \<and> (n \<in> set (ew_done (worker_run es)) \<longrightarrow> (\<exists>rest. ew_handed (worker_run es) = before_wait n es @ rest))"
proof -
  let ?s = "worker_run es"
  have s: "fifo_ok es ?s" by (rule fifo_run [OF assms])
  have "enqueued es = before_wait n es @ enqueued (dropWhile (\<lambda>e. e \<noteq> WaitFor n) es)"
    by (metis before_wait_def enqueued_simps(2) takeWhile_dropWhile_id)
  then have "ew_handed ?s @ jobs (ew_queue ?s) = before_wait n es @ enqueued (dropWhile (\<lambda>e. e \<noteq> WaitFor n) es)"
    using s by (simp add: fifo_ok_def)
  from append_prefix [OF this] show ?thesis using s by (auto simp: fifo_ok_def)
qed

section \<open>At work\<close>

definition text_renderer :: "string renderer" where
  "text_renderer = \<lparr>full_repr = (\<lambda>x. case x of Result t \<Rightarrow> Some t | Positional ts \<Rightarrow> Some (concat ts) | Keywords d \<Rightarrow> None),
     short_repr = (\<lambda>n x. case x of Result t \<Rightarrow> Some t | Positional ts \<Rightarrow> Some (concat ts) | Keywords d \<Rightarrow> None), type_name = (\<lambda>_. ''str'')\<rparr>"

definition secret_options :: "content_mode \<Rightarrow> capture_options" where
  "secret_options m = \<lparr>cap_type = ''t'', cap_version = None, cap_in = 10, cap_out = 10, cap_mode = m,
     cap_redact = Some (\<lambda>t. if t = ''secret'' then Text ''***'' else RedactRaises), cap_name = ''f''\<rparr>"

abbreviation midnight :: "nat \<Rightarrow> datetime" where
  "midnight \<equiv> \<lambda>i. \<lparr>dt_wall = 0, dt_off = Some 0\<rparr>"

abbreviation secret_call :: "content_mode \<Rightarrow> (raised + string) \<Rightarrow> string \<Rightarrow> (raised + string) \<times> pydict list \<times> nat" where
  "secret_call m out a \<equiv> captured_call (secret_options m) (map (\<lambda>x. char_of (unat x))) text_renderer True ''id'' midnight [a] [] (\<lambda>w. (out, w + 1)) (5::nat)"

lemma secret_redacts [simp]: "redacts (cap_redact (secret_options m))"
  by (simp add: redacts_def secret_options_def)

theorem capture_transparent_witness:
  "(\<exists>recs. secret_call Full (Inr ''secret'') ''secret'' = (Inr ''secret'', recs, 6) \<and> length recs = 1)
   \<and> (\<exists>recs. secret_call Full (Inl (Raised ''KeyboardInterrupt'' False None)) ''x'' = (Inl (Raised ''KeyboardInterrupt'' False None), recs, 6)
        \<and> length recs = 0)"
  using capture_transparent [where opts = "secret_options Full" and f = "\<lambda>w :: nat. (Inr ''secret'' :: raised + string, w + 1)" and w = 5
      and out = "Inr ''secret''" and w' = 6 and sha = "map (\<lambda>x. char_of (unat x))" and R = text_renderer and found = True and uid = "''id''"
      and clock = midnight and args = "[''secret'']" and kwargs = "[]"]
    capture_transparent [where opts = "secret_options Full" and f = "\<lambda>w :: nat. (Inl (Raised ''KeyboardInterrupt'' False None) :: raised + string, w + 1)"
      and w = 5 and out = "Inl (Raised ''KeyboardInterrupt'' False None)" and w' = 6 and sha = "map (\<lambda>x. char_of (unat x))" and R = text_renderer
      and found = True and uid = "''id''" and clock = midnight and args = "[''x'']" and kwargs = "[]"]
  by simp

lemma secret_full: "fst (snd (secret_call Full (Inr ''secret'') ''secret''))
   = [[(''decision_id'', PStr ''id''), (''decision_type'', PStr ''t''), (''function_name'', PStr ''f''),
       (''inputs'', PDict [(''args'', PStr ''***'')]), (''outputs'', PDict [(''result'', PStr ''***'')]),
       (''started_at'', PStr ''0001-01-01T00:00:00+00:00''), (''ended_at'', PStr ''0001-01-01T00:00:00+00:00''),
       (''execution_time_ms'', PFloat (Fin 0))]]"
  by code_simp

abbreviation shape_call :: "(raised + string) \<Rightarrow> string \<Rightarrow> (string \<Rightarrow> redacted) option \<Rightarrow> pydict list" where
  "shape_call out a f \<equiv> fst (snd (captured_call ((secret_options Shape)\<lparr>cap_redact := f\<rparr>) (map (\<lambda>x. char_of (unat x))) text_renderer True ''id'' midnight [a] []
     (\<lambda>w. (out, w)) ()))"

theorem record_noninterference_witness:
  "shape_call (Inr ''secret'') ''public'' (cap_redact (secret_options Shape)) = shape_call (Inr ''other'') ''hidden'' None"
proof -
  obtain r recs w1 where run: "captured_call (secret_options Shape) (map (\<lambda>x. char_of (unat x))) text_renderer True ''id'' midnight [''public''] []
     (\<lambda>w. (Inr ''secret'', w)) () = (r, recs, w1)" by (metis surj_pair)
  obtain r' recs' w1' where run': "captured_call ((secret_options Shape)\<lparr>cap_redact := None\<rparr>) (map (\<lambda>x. char_of (unat x))) text_renderer True ''id'' midnight
     [''hidden''] [] (\<lambda>w. (Inr ''other'', w)) () = (r', recs', w1')" by (metis surj_pair)
  have "recs = recs'"
    by (rule record_noninterference [OF _ _ _ _ _ run run']) (simp_all add: secret_options_def text_renderer_def)
  then show ?thesis using run run' by simp
qed

abbreviation small_run :: "(string, nat) export_event list" where
  "small_run \<equiv> [Enqueue ''a'' 1, Enqueue ''b'' 2, WaitFor 0, Enqueue ''a'' 3, Work Completed, Work Failed, Work Completed]"

theorem exports_drained_witness:
  "ew_handed (worker_run small_run) @ jobs (ew_queue (worker_run small_run)) = [(''a'', 1), (''b'', 2), (''a'', 3)]
     \<and> ew_done (worker_run small_run) = [0] \<and> (\<exists>rest. ew_handed (worker_run small_run) = [(''a'', 1), (''b'', 2)] @ rest)"
proof -
  have live: "Work Killed \<notin> set small_run" by simp
  have "ew_done (worker_run small_run) = [0]" "before_wait 0 small_run = [(''a'', 1), (''b'', 2)]"
    "enqueued small_run = [(''a'', 1), (''b'', 2), (''a'', 3)]" by code_simp+
  then show ?thesis using exports_drained [OF live, of 0] by (simp only: list.set insert_iff simp_thms)
qed

text \<open>A thread that is ended by an export: the records behind it are lost, and waiting says done.\<close>

lemma killed_worker_loses:
  "worker_run [Enqueue ''a'' (1::nat), Enqueue ''a'' 2, Work Killed, WaitFor 0, Enqueue ''a'' 3, Work Completed]
     = \<lparr>ew_alive = True, ew_queue = [], ew_handed = [(''a'', 1), (''a'', 3)], ew_done = [0]\<rparr>"
  by code_simp

end
