(* ===== verification/Exporters.thy ===== *)
theory Exporters
  imports Capture PrettyJson "HOL-Library.Sublist"
begin

text \<open>
  \<open>exporters/memory.py\<close>, \<open>console.py\<close>, \<open>file.py\<close>, \<open>gcp_logging.py\<close> and \<open>otel.py\<close>: where decision records
  go. A stream and a file are their text, the Cloud Logging client an operation on a state, spans a
  list. What the way to an exporter relies on is the locale \<open>decision_sink\<close>. The results: the JSONL file
  gains one line per record, the Cloud Logging exporter sends every record at most once and loses
  none unless a call fails, and a record that is a dictionary leaves a span without its attributes.
\<close>

section \<open>The interface\<close>

text \<open>An exporter whose \<open>export\<close> always succeeds and adds what it shows of the record to what it holds.\<close>

locale decision_sink =
  fixes export :: "'r \<Rightarrow> 's \<Rightarrow> (raised + bool) \<times> 's"
    and held :: "'s \<Rightarrow> 'x list"
    and shown :: "'r \<Rightarrow> 'x list"
    and ready :: "'s \<Rightarrow> bool"
  assumes export_answers: "ready s \<Longrightarrow> fst (export r s) = Inr True"
    and export_holds: "ready s \<Longrightarrow> held (snd (export r s)) = held s @ shown r"
    and export_ready: "ready s \<Longrightarrow> ready (snd (export r s))"
begin

lemma exports_hold:
  assumes "ready s"
  shows "held (foldl (\<lambda>s r. snd (export r s)) s rs) = held s @ concat (map shown rs)"
    "ready (foldl (\<lambda>s r. snd (export r s)) s rs)"
  using assms by (induction rs arbitrary: s) (simp_all add: export_holds export_ready)

text \<open>Through \<open>_trigger_export\<close> with \<open>async_capture=False\<close>.\<close>

lemma triggers_hold:
  assumes "ready s"
  shows "held (snd (foldl (\<lambda>st r. trigger_export False (\<lambda>x. export) (Some x) r st) (q, s) rs)) = held s @ concat (map shown rs)"
proof -
  have "snd (foldl (\<lambda>st r. trigger_export False (\<lambda>x. export) (Some x) r st) (q, s) rs) = foldl (\<lambda>s r. snd (export r s)) s rs"
    by (induction rs arbitrary: s) (simp_all add: trigger_export_def)
  then show ?thesis using exports_hold(1) [OF assms] by simp
qed

end

section \<open>Memory, stream and file\<close>

record 'r memory_exporter =
  mem_records :: "'r list"

definition memory_export :: "'r \<Rightarrow> 'r memory_exporter \<Rightarrow> (raised + bool) \<times> 'r memory_exporter" where
  "memory_export r s = (Inr True, s\<lparr>mem_records := mem_records s @ [r]\<rparr>)"

definition memory_clear :: "'r memory_exporter \<Rightarrow> 'r memory_exporter" where
  "memory_clear s = s\<lparr>mem_records := []\<rparr>"

record console_exporter =
  con_pretty :: bool
  con_stream :: string

definition console_export :: "(rat \<Rightarrow> string) \<Rightarrow> pyval \<Rightarrow> console_exporter \<Rightarrow> (raised + bool) \<times> console_exporter" where
  "console_export fr r s = (case if con_pretty s then pretty fr False True 0 r else Inr (dumps fr False r) of
     Inl e \<Rightarrow> (Inl type_error, s)
   | Inr t \<Rightarrow> (Inr True, s\<lparr>con_stream := con_stream s @ t @ [CHR 0x0A]\<rparr>))"

text \<open>The text of the file; \<open>jf_open\<close>: a handle is kept.\<close>

record jsonl_file =
  jf_open :: bool
  jf_text :: string

definition jsonl_line :: "(rat \<Rightarrow> string) \<Rightarrow> pyval \<Rightarrow> string" where
  "jsonl_line fr r = dumps fr False r @ [CHR 0x0A]"

definition jsonl_export :: "(rat \<Rightarrow> string) \<Rightarrow> pyval \<Rightarrow> jsonl_file \<Rightarrow> (raised + bool) \<times> jsonl_file" where
  "jsonl_export fr r s = (Inr True, s\<lparr>jf_open := True, jf_text := jf_text s @ jsonl_line fr r\<rparr>)"

definition jsonl_close :: "jsonl_file \<Rightarrow> jsonl_file" where
  "jsonl_close s = s\<lparr>jf_open := False\<rparr>"

section \<open>Cloud Logging\<close>

text \<open>A decision is a dictionary, an instance of a dataclass, or another object with or without \<open>__dict__\<close>.\<close>

datatype exported = Entries pydict | Dataclass pydict | Attributes pydict | Opaque string

definition exported_dict :: "exported \<Rightarrow> pydict" where
  "exported_dict d = (case d of Entries x \<Rightarrow> x | Dataclass x \<Rightarrow> x | Attributes x \<Rightarrow> x | Opaque t \<Rightarrow> [(''repr'', PStr t)])"

record 'l gcp_exporter =
  g_batch :: int
  g_buffer :: "pydict list"
  g_logger :: 'l

definition new_gcp :: "int \<Rightarrow> 'l \<Rightarrow> 'l gcp_exporter" where
  "new_gcp batch_size l = \<lparr>g_batch = max 1 batch_size, g_buffer = [], g_logger = l\<rparr>"

fun gcp_send :: "(pydict \<Rightarrow> 'l \<Rightarrow> raised option \<times> 'l) \<Rightarrow> pydict list \<Rightarrow> 'l \<Rightarrow> raised option \<times> 'l" where
  "gcp_send log_struct [] l = (None, l)"
| "gcp_send log_struct (r # rs) l = (case log_struct r l of
     (Some e, l1) \<Rightarrow> (Some e, l1) | (None, l1) \<Rightarrow> gcp_send log_struct rs l1)"

definition gcp_flush :: "(pydict \<Rightarrow> 'l \<Rightarrow> raised option \<times> 'l) \<Rightarrow> 'l gcp_exporter \<Rightarrow> raised option \<times> 'l gcp_exporter" where
  "gcp_flush log_struct s =
     (if g_buffer s = [] then (None, s)
      else case gcp_send log_struct (g_buffer s) (g_logger s) of (e, l) \<Rightarrow> (e, s\<lparr>g_buffer := [], g_logger := l\<rparr>))"

definition gcp_export ::
  "(pydict \<Rightarrow> 'l \<Rightarrow> raised option \<times> 'l) \<Rightarrow> exported \<Rightarrow> 'l gcp_exporter \<Rightarrow> (raised + bool) \<times> 'l gcp_exporter" where
  "gcp_export log_struct d s =
     (let s1 = s\<lparr>g_buffer := g_buffer s @ [exported_dict d]\<rparr> in
      if int (length (g_buffer s1)) < g_batch s then (Inr True, s1)
      else (case gcp_flush log_struct s1 of
          (None, s2) \<Rightarrow> (Inr True, s2)
        | (Some e, s2) \<Rightarrow> (if is_exception e then Inr False else Inl e, s2)))"

definition gcp_close :: "(pydict \<Rightarrow> 'l \<Rightarrow> raised option \<times> 'l) \<Rightarrow> 'l gcp_exporter \<Rightarrow> raised option \<times> 'l gcp_exporter" where
  "gcp_close log_struct s = gcp_flush log_struct s"

section \<open>Spans\<close>

text \<open>A decision of any kind: a plain value, an instance with its class and attributes, a list of objects.\<close>

datatype pyobj = Val pyval | Inst string "(string \<times> pyobj) list" | Objs "pyobj list"

definition get_attr :: "pyobj \<Rightarrow> string \<Rightarrow> pyobj option" where
  "get_attr x n = (case x of
     Inst c as \<Rightarrow> (case map_of as n of None \<Rightarrow> None | Some (Val PNone) \<Rightarrow> None | Some y \<Rightarrow> Some y) | _ \<Rightarrow> None)"
  \<comment> \<open>\<open>getattr(x, n, None)\<close>; plain values and lists have none of the attributes asked for\<close>

text \<open>\<open>getattr(x, n)\<close> where \<open>hasattr(x, n)\<close>.\<close>

definition attr_of :: "pyobj \<Rightarrow> string \<Rightarrow> pyobj option" where
  "attr_of x n = (case x of Inst c as \<Rightarrow> map_of as n | _ \<Rightarrow> None)"

definition obj_truthy :: "pyobj \<Rightarrow> bool" where
  "obj_truthy x = (case x of Val v \<Rightarrow> py_truthy v | Inst c as \<Rightarrow> True | Objs xs \<Rightarrow> xs \<noteq> [])"

definition class_name :: "pyobj \<Rightarrow> string" where
  "class_name x = (case x of Inst c as \<Rightarrow> c | Objs xs \<Rightarrow> ''list'' | Val v \<Rightarrow> (case v of PDict d \<Rightarrow> ''dict'' | PList xs \<Rightarrow> ''list''
     | PStr s \<Rightarrow> ''str'' | PInt i \<Rightarrow> ''int'' | PBool b \<Rightarrow> ''bool'' | PFloat f \<Rightarrow> ''float'' | PNone \<Rightarrow> ''NoneType'' | PObj s \<Rightarrow> ''object''))"

text \<open>What the conversions need: the text of a value and of an object, and the value of a float text.\<close>

record conversions =
  cv_text :: "rat \<Rightarrow> string"
  cv_obj :: "pyobj \<Rightarrow> string"
  cv_float :: "string \<Rightarrow> pyfloat option"

definition obj_str :: "conversions \<Rightarrow> pyobj \<Rightarrow> string" where
  "obj_str cv x = (case x of Val v \<Rightarrow> py_str (cv_text cv) v | _ \<Rightarrow> cv_obj cv x)"

definition obj_float :: "conversions \<Rightarrow> pyobj \<Rightarrow> pyfloat res" where
  "obj_float cv x = (case x of Val v \<Rightarrow> to_float (cv_float cv) v | _ \<Rightarrow> Inl TypeError)"

text \<open>\<open>str(x or "")\<close>\<close>

definition text_or_empty :: "conversions \<Rightarrow> pyobj option \<Rightarrow> string" where
  "text_or_empty cv x = (case x of None \<Rightarrow> [] | Some y \<Rightarrow> if obj_truthy y then obj_str cv y else [])"

definition span_decision_id :: "conversions \<Rightarrow> pyobj \<Rightarrow> string" where
  "span_decision_id cv d =
     (let a = text_or_empty cv (get_attr d ''decision_id'') in
      if (case get_attr d ''decision_id'' of Some y \<Rightarrow> obj_truthy y | None \<Rightarrow> False) then a else text_or_empty cv (get_attr d ''id''))"

definition span_context_version :: "conversions \<Rightarrow> pyobj \<Rightarrow> string" where
  "span_context_version cv d =
     (let v = (case get_attr d ''context'' of None \<Rightarrow> [] | Some c \<Rightarrow> text_or_empty cv (get_attr c ''version''))
      in if v \<noteq> [] then v else text_or_empty cv (get_attr d ''context_version''))"

fun first_confidence_of :: "conversions \<Rightarrow> pyobj list \<Rightarrow> pyfloat res" where
  "first_confidence_of cv [] = Inr (Fin 0)"
| "first_confidence_of cv (x # xs) = (case get_attr x ''confidence'' of
     Some c \<Rightarrow> obj_float cv c | None \<Rightarrow> first_confidence_of cv xs)"

definition span_confidence :: "conversions \<Rightarrow> pyobj \<Rightarrow> pyfloat res" where
  "span_confidence cv d =
     rbind (case get_attr d ''outputs'' of
         None \<Rightarrow> Inr (Fin 0)
       | Some outs \<Rightarrow> (case outs of
           Objs xs \<Rightarrow> first_confidence_of cv xs
         | Val (PDict e) \<Rightarrow> if e = [] then Inr (Fin 0) else to_float (cv_float cv) (dget_or e ''confidence'' (PFloat (Fin 0)))
         | _ \<Rightarrow> Inr (Fin 0)))
       (\<lambda>c. case get_attr d ''confidence'' of None \<Rightarrow> Inr c | Some x \<Rightarrow> obj_float cv x)"

definition span_routing :: "conversions \<Rightarrow> pyobj \<Rightarrow> string" where
  "span_routing cv d = (case get_attr d ''routing_decision'' of
     None \<Rightarrow> ''unrouted''
   | Some (Inst c as) \<Rightarrow> (case map_of as ''action'' of None \<Rightarrow> ''unrouted'' | Some a \<Rightarrow> obj_str cv a)
   | Some _ \<Rightarrow> ''unrouted'')"

definition span_model :: "conversions \<Rightarrow> pyobj \<Rightarrow> string \<Rightarrow> string" where
  "span_model cv d n = (case get_attr d ''model_parameters'' of
     None \<Rightarrow> []
   | Some (Val (PDict e)) \<Rightarrow> (let v = dget_or e n (PStr []) in if py_truthy v then py_str (cv_text cv) v else [])
   | Some m \<Rightarrow> text_or_empty cv (get_attr m n))"

definition span_time :: "conversions \<Rightarrow> pyobj \<Rightarrow> pyfloat res" where
  "span_time cv d = (case get_attr d ''execution_time_ms'' of None \<Rightarrow> Inr (Fin 0) | Some x \<Rightarrow> obj_float cv x)"

definition span_type :: "conversions \<Rightarrow> pyobj \<Rightarrow> string" where
  "span_type cv d = (case get_attr d ''snapshot_type'' of
     Some x \<Rightarrow> obj_str cv x
   | None \<Rightarrow> (let c = lower (class_name d) in
       if is_substr ''batch'' c then ''batch'' else if is_substr ''session'' c then ''session'' else ''decision''))"

definition extract_attrs :: "conversions \<Rightarrow> pyobj \<Rightarrow> pydict res" where
  "extract_attrs cv d =
     rbind (span_confidence cv d) (\<lambda>conf. rbind (span_time cv d) (\<lambda>ms. Inr
       [(''briefcase.decision.id'', PStr (span_decision_id cv d)), (''briefcase.context.version'', PStr (span_context_version cv d)),
        (''briefcase.confidence'', PFloat conf), (''briefcase.routing.action'', PStr (span_routing cv d)),
        (''briefcase.model.name'', PStr (span_model cv d ''model_name'')), (''briefcase.model.provider'', PStr (span_model cv d ''provider'')),
        (''briefcase.execution.time_ms'', PFloat ms), (''briefcase.snapshot.type'', PStr (span_type cv d))]))"

text \<open>The spans ended so far.\<close>

definition otel_export :: "conversions \<Rightarrow> pyobj \<Rightarrow> pydict list \<Rightarrow> (raised + bool) \<times> pydict list" where
  "otel_export cv d spans = (case extract_attrs cv d of Inl e \<Rightarrow> (Inr False, spans) | Inr a \<Rightarrow> (Inr True, spans @ [a]))"

section \<open>Exporters as sinks\<close>

interpretation mem_sink: decision_sink memory_export mem_records "\<lambda>r. [r]" "\<lambda>s. True"
  by unfold_locales (simp_all add: memory_export_def)

interpretation jsonl_sink: decision_sink "jsonl_export fr" jf_text "jsonl_line fr" "\<lambda>s. True"
  by unfold_locales (simp_all add: jsonl_export_def)

text \<open>The lines of a text: the parts that a line break ends.\<close>

fun lines_of :: "string \<Rightarrow> string list" where
  "lines_of [] = []"
| "lines_of (c # t) = (if c = CHR 0x0A then [] # lines_of t
     else case lines_of t of [] \<Rightarrow> [] | l # ls \<Rightarrow> (c # l) # ls)"

lemma lines_of_line: "one_line l \<Longrightarrow> lines_of (l @ CHR 0x0A # t) = l # lines_of t"
  by (induction l) auto

lemma lines_of_lines: "list_all one_line ls \<Longrightarrow> lines_of (concat (map (\<lambda>l. l @ [CHR 0x0A]) ls)) = ls"
  by (induction ls) (simp_all add: lines_of_line)

text \<open>
  The JSONL file gains exactly one line per record. Records exported one after the other through
  \<open>_trigger_export\<close> leave in the file the texts of the records, in order, one per line; no record can
  break a line, whatever its strings contain.
\<close>

theorem jsonl_one_line_each:
  assumes fr: "\<forall>q. one_line (fr q)"
  shows "let s = snd (foldl (\<lambda>st r. trigger_export False (\<lambda>x. jsonl_export fr) (Some x) r st) (q, \<lparr>jf_open = False, jf_text = []\<rparr>) rs)
    in lines_of (jf_text s) = map (dumps fr False) rs \<and> length (lines_of (jf_text s)) = length rs"
proof -
  have "list_all one_line (map (dumps fr False) rs)" using one_line_dumps [OF fr] by (simp add: list_all_iff)
  then have "lines_of (concat (map (jsonl_line fr) rs)) = map (dumps fr False) rs"
    using lines_of_lines [of "map (dumps fr False) rs"] by (simp add: jsonl_line_def [abs_def] o_def)
  then show ?thesis by (simp add: Let_def jsonl_sink.triggers_hold)
qed

theorem jsonl_one_line_each_witness:
  "lines_of (jf_text (snd (foldl (\<lambda>st r. trigger_export False (\<lambda>x. jsonl_export (\<lambda>_. ''0.5'')) (Some ()) r st)
       (new_worker, \<lparr>jf_open = False, jf_text = []\<rparr>) [PStr [CHR 0x0A], PFloat (Fin (1/2))])))
     = [[CHR 0x22, CHR 0x5C, CHR ''n'', CHR 0x22], ''0.5'']"
proof -
  have fr: "\<forall>q :: rat. one_line ''0.5''" by simp
  have "dumps (\<lambda>_. ''0.5'') False (PStr [CHR 0x0A]) = [CHR 0x22, CHR 0x5C, CHR ''n'', CHR 0x22]" by code_simp
  then show ?thesis using jsonl_one_line_each [OF fr, of "()" new_worker "[PStr [CHR 0x0A], PFloat (Fin (1/2))]"] by (simp add: Let_def)
qed

section \<open>Batches sent to Cloud Logging\<close>

text \<open>A client that keeps what it accepted and fails on the records of \<open>bad\<close>.\<close>

definition log_unless :: "(pydict \<Rightarrow> bool) \<Rightarrow> pydict \<Rightarrow> pydict list \<Rightarrow> raised option \<times> pydict list" where
  "log_unless bad r l = (if bad r then (Some (Raised ''GoogleAPIError'' True (Some [])), l) else (None, l @ [r]))"

datatype gcp_event = Export exported | Flush | Close

fun gcp_call :: "(pydict \<Rightarrow> bool) \<Rightarrow> pydict list gcp_exporter \<Rightarrow> gcp_event \<Rightarrow> pydict list gcp_exporter" where
  "gcp_call bad s (Export d) = snd (gcp_export (log_unless bad) d s)"
| "gcp_call bad s Flush = snd (gcp_flush (log_unless bad) s)"
| "gcp_call bad s Close = snd (gcp_close (log_unless bad) s)"

definition gcp_exports :: "gcp_event list \<Rightarrow> pydict list" where
  "gcp_exports cs = concat (map (\<lambda>c. case c of Export d \<Rightarrow> [exported_dict d] | _ \<Rightarrow> []) cs)"

lemma gcp_send_unless:
  "gcp_send (log_unless bad) rs l = (e, l') \<Longrightarrow> l' = l @ takeWhile (\<lambda>r. \<not> bad r) rs"
  by (induction rs arbitrary: l) (fastforce simp: log_unless_def split: if_splits)+

lemma gcp_flush_unless:
  "g_logger (snd (gcp_flush (log_unless bad) s)) = g_logger s @ takeWhile (\<lambda>r. \<not> bad r) (g_buffer s)"
  "g_buffer (snd (gcp_flush (log_unless bad) s)) = []" "g_batch (snd (gcp_flush (log_unless bad) s)) = g_batch s"
  using gcp_send_unless by (auto simp: gcp_flush_def split: prod.splits)

definition gcp_ok :: "(pydict \<Rightarrow> bool) \<Rightarrow> pydict list \<Rightarrow> pydict list gcp_exporter \<Rightarrow> bool" where
  "gcp_ok bad rs s \<longleftrightarrow> subseq (g_logger s @ g_buffer s) rs \<and> (list_all (\<lambda>r. \<not> bad r) rs \<longrightarrow> g_logger s @ g_buffer s = rs)
     \<and> int (length (g_buffer s)) < g_batch s"

lemma gcp_ok_flush:
  assumes "subseq (g_logger s @ g_buffer s) rs" "list_all (\<lambda>r. \<not> bad r) rs \<longrightarrow> g_logger s @ g_buffer s = rs" "0 < g_batch s"
  shows "gcp_ok bad rs (snd (gcp_flush (log_unless bad) s))"
proof -
  let ?sent = "takeWhile (\<lambda>r. \<not> bad r) (g_buffer s)"
  have "prefix ?sent (g_buffer s)" by (simp add: takeWhile_is_prefix)
  then have "subseq (g_logger s @ ?sent) (g_logger s @ g_buffer s)" by (simp add: subseq_append prefix_imp_subseq)
  then have "subseq (g_logger s @ ?sent) rs" using assms(1) by (rule subseq_order.order_trans)
  moreover have "?sent = g_buffer s" if "list_all (\<lambda>r. \<not> bad r) rs"
    using assms(2) that unfolding takeWhile_eq_all_conv list_all_iff by auto
  then have "list_all (\<lambda>r. \<not> bad r) rs \<longrightarrow> g_logger s @ ?sent = rs" using assms(2) by metis
  ultimately show ?thesis using assms(3) unfolding gcp_ok_def gcp_flush_unless by simp
qed

lemma gcp_ok_call:
  assumes "gcp_ok bad rs s"
  shows "gcp_ok bad (rs @ gcp_exports [c]) (gcp_call bad s c)"
proof (cases c)
  case (Export d)
  let ?r = "exported_dict d" and ?s1 = "s\<lparr>g_buffer := g_buffer s @ [exported_dict d]\<rparr>"
  have s1: "subseq (g_logger ?s1 @ g_buffer ?s1) (rs @ [?r])" "list_all (\<lambda>r. \<not> bad r) (rs @ [?r]) \<longrightarrow> g_logger ?s1 @ g_buffer ?s1 = rs @ [?r]"
    "0 < g_batch ?s1" using assms by (auto simp: gcp_ok_def simp flip: append_assoc)
  show ?thesis
  proof (cases "int (length (g_buffer s)) + 1 < g_batch s")
    case True
    then show ?thesis using s1 Export by (simp add: gcp_exports_def gcp_export_def gcp_ok_def)
  next
    case False
    have "snd (gcp_export (log_unless bad) d s) = snd (gcp_flush (log_unless bad) ?s1)"
      using False by (auto simp: gcp_export_def split: prod.splits option.splits)
    then show ?thesis using gcp_ok_flush [OF s1] Export by (simp add: gcp_exports_def)
  qed
qed (use assms gcp_ok_flush [of s rs bad] in \<open>auto simp: gcp_exports_def gcp_close_def gcp_ok_def\<close>)

lemma gcp_send_good: "gcp_send (log_unless (\<lambda>r. False)) rs l = (None, l @ rs)"
  by (induction rs arbitrary: l) (simp_all add: log_unless_def)

interpretation gcp_sink: decision_sink "gcp_export (log_unless (\<lambda>r. False))" "\<lambda>s. g_logger s @ g_buffer s"
    "\<lambda>d. [exported_dict d]" "\<lambda>s. True"
  by unfold_locales (simp_all add: gcp_export_def gcp_flush_def gcp_send_good Let_def)

text \<open>
  What the Cloud Logging exporter delivers. Whatever is exported, flushed and closed in whatever
  order and however the calls of the client fail, the records written and those still buffered are,
  in order, among the exported ones, each at most once; fewer than a batch are buffered; and if no
  write fails nothing is lost, and after \<open>close\<close> everything is written.
\<close>

theorem gcp_delivery:
  "let s = foldl (gcp_call bad) (new_gcp n []) cs; closed = gcp_call bad s Close in
     subseq (g_logger s @ g_buffer s) (gcp_exports cs) \<and> int (length (g_buffer s)) < max 1 n
     \<and> (list_all (\<lambda>r. \<not> bad r) (gcp_exports cs) \<longrightarrow> g_logger s @ g_buffer s = gcp_exports cs \<and> g_logger closed = gcp_exports cs)"
proof -
  have batch: "g_batch (foldl (gcp_call bad) (new_gcp n []) cs) = max 1 n" for cs
  proof (induction cs rule: rev_induct)
    case (snoc c cs)
    then show ?case
      by (cases c) (auto simp: gcp_close_def gcp_flush_unless gcp_export_def Let_def split: prod.splits option.splits
          dest: arg_cong [of "gcp_flush _ _" _ "\<lambda>x. g_batch (snd x)"])
  qed (simp add: new_gcp_def)
  have ok: "gcp_ok bad (gcp_exports cs) (foldl (gcp_call bad) (new_gcp n []) cs)" for cs
  proof (induction cs rule: rev_induct)
    case Nil
    show ?case by (simp add: gcp_ok_def gcp_exports_def new_gcp_def)
  next
    case (snoc c cs)
    have "gcp_exports (cs @ [c]) = gcp_exports cs @ gcp_exports [c]" by (simp add: gcp_exports_def)
    then show ?case using gcp_ok_call [OF snoc, of c] by simp
  qed
  have "gcp_exports (cs @ [Close]) = gcp_exports cs" by (simp add: gcp_exports_def)
  then have "gcp_ok bad (gcp_exports cs) (gcp_call bad (foldl (gcp_call bad) (new_gcp n []) cs) Close)" using ok [of "cs @ [Close]"] by simp
  moreover have "g_buffer (gcp_call bad s Close) = []" for s by (simp add: gcp_close_def gcp_flush_unless)
  ultimately show ?thesis using ok [of cs] batch [of cs] by (auto simp: gcp_ok_def Let_def)
qed

theorem gcp_delivery_witness:
  "let s = foldl (gcp_call (\<lambda>r. False)) (new_gcp 2 []) [Export (Entries [(''n'', PInt 1)]), Export (Entries [(''n'', PInt 2)]), Export (Entries [(''n'', PInt 3)])] in
     g_logger s = [[(''n'', PInt 1)], [(''n'', PInt 2)]] \<and> g_buffer s = [[(''n'', PInt 3)]]
     \<and> g_logger (gcp_call (\<lambda>r. False) s Close) = [[(''n'', PInt 1)], [(''n'', PInt 2)], [(''n'', PInt 3)]]"
proof -
  let ?cs = "[Export (Entries [(''n'', PInt 1)]), Export (Entries [(''n'', PInt 2)]), Export (Entries [(''n'', PInt 3)])]"
  have ex: "gcp_exports ?cs = [[(''n'', PInt 1)], [(''n'', PInt 2)], [(''n'', PInt 3)]]" by code_simp
  have "g_buffer (foldl (gcp_call (\<lambda>r. False)) (new_gcp 2 []) ?cs) = [[(''n'', PInt 3)]]" by code_simp
  then show ?thesis using gcp_delivery [of "\<lambda>r. False" 2 ?cs] unfolding ex Let_def by simp
qed

text \<open>A failing write drops the rest of its batch.\<close>

lemma gcp_failure_drops:
  "foldl (gcp_call (\<lambda>r. r = [(''n'', PInt 2)])) (new_gcp 3 []) [Export (Entries [(''n'', PInt i)]). i \<leftarrow> [1, 2, 3]]
     = \<lparr>g_batch = 3, g_buffer = [], g_logger = [[(''n'', PInt 1)]]\<rparr>"
  by code_simp

section \<open>Spans of dictionaries\<close>

text \<open>A record that is a plain value, as the dictionaries of \<open>capture\<close> are, leaves a blank span.\<close>

lemma plain_record_blank:
  "otel_export cv (Val v) spans = (Inr True, spans @ [[(''briefcase.decision.id'', PStr []), (''briefcase.context.version'', PStr []),
     (''briefcase.confidence'', PFloat (Fin 0)), (''briefcase.routing.action'', PStr ''unrouted''), (''briefcase.model.name'', PStr []),
     (''briefcase.model.provider'', PStr []), (''briefcase.execution.time_ms'', PFloat (Fin 0)), (''briefcase.snapshot.type'', PStr ''decision'')]])"
proof -
  have "list_all (\<lambda>c. (let c' = lower c in if is_substr ''batch'' c' then ''batch'' else if is_substr ''session'' c' then ''session'' else ''decision'')
      = ''decision'') [''dict'', ''list'', ''str'', ''int'', ''bool'', ''float'', ''NoneType'', ''object'']" by code_simp
  then have "span_type cv (Val v) = ''decision''"
    by (cases v) (simp_all add: span_type_def get_attr_def class_name_def)
  then show ?thesis
    by (simp add: otel_export_def extract_attrs_def span_decision_id_def span_context_version_def span_confidence_def span_routing_def
        span_model_def span_time_def get_attr_def text_or_empty_def)
qed

end
