(* ===== verification/Recorder.thy ===== *)
theory Recorder
  imports Exporters
begin

text \<open>
  What the callback handlers of \<open>integrations/frameworks/\<close> share: captured decisions
  (\<open>CapturedDecision\<close> of \<open>langchain_handler.py\<close>), the handler's two collections, and beginning and
  ending a run. A callback either changes neither collection, or puts a run in flight, or takes one out;
  the locale \<open>run_recorder\<close> says so of the callbacks of a framework, and what then holds in every run
  of callbacks is proved in it once.
\<close>

section \<open>Decisions\<close>

record captured_decision =
  cd_id :: string
  cd_type :: string
  cd_name :: pyval
  cd_inputs :: pydict
  cd_outputs :: pydict
  cd_params :: pydict
  cd_error :: "string option"
  cd_started :: "datetime option"
  cd_ended :: "datetime option"
  cd_ms :: "rat option"
  cd_parent :: "string option"
  cd_tags :: pydict
  cd_tokens :: "pydict option"
  cd_version :: "string option"

definition decision_dict :: "captured_decision \<Rightarrow> pydict" where
  "decision_dict d =
     [(''decision_id'', PStr (cd_id d)), (''decision_type'', PStr (cd_type d)), (''function_name'', cd_name d),
      (''inputs'', PDict (cd_inputs d)), (''outputs'', PDict (cd_outputs d))]
     @ (case cd_started d of None \<Rightarrow> [] | Some t \<Rightarrow> [(''started_at'', PStr (isoformat t))])
     @ (case cd_ended d of None \<Rightarrow> [] | Some t \<Rightarrow> [(''ended_at'', PStr (isoformat t))])
     @ (case cd_ms d of None \<Rightarrow> [] | Some q \<Rightarrow> [(''execution_time_ms'', PFloat (Fin q))])
     @ (if str_truthy (cd_error d) then [(''error'', PStr (the (cd_error d)))] else [])
     @ (case cd_version d of None \<Rightarrow> [] | Some v \<Rightarrow> [(''context_version'', PStr v)])
     @ (if cd_params d \<noteq> [] then [(''model_parameters'', PDict (cd_params d))] else [])
     @ (if cd_tags d \<noteq> [] then [(''tags'', PDict (cd_tags d))] else [])
     @ (if str_truthy (cd_parent d) then [(''parent_run_id'', PStr (the (cd_parent d)))] else [])
     @ (case cd_tokens d of None \<Rightarrow> [] | Some u \<Rightarrow> if u = [] then [] else [(''token_usage'', PDict u)])"

text \<open>The records handed to \<open>_trigger_export\<close> are kept in order.\<close>

record handler =
  h_decisions :: "captured_decision list"
  h_inflight :: "(string, captured_decision) dict"
  h_exports :: "pydict list"

definition new_handler :: handler where
  "new_handler = \<lparr>h_decisions = [], h_inflight = [], h_exports = []\<rparr>"

definition get_decisions :: "'a handler_scheme \<Rightarrow> captured_decision list" where
  "get_decisions h = h_decisions h"

definition get_decisions_as_dicts :: "'a handler_scheme \<Rightarrow> pydict list" where
  "get_decisions_as_dicts h = map decision_dict (h_decisions h)"

definition clear_handler :: "'a handler_scheme \<Rightarrow> 'a handler_scheme" where
  "clear_handler h = h\<lparr>h_decisions := [], h_inflight := []\<rparr>"

definition decision_count :: "'a handler_scheme \<Rightarrow> nat" where
  "decision_count h = length (h_decisions h)"

text \<open>Putting a run in flight; \<open>guarded\<close> callbacks swallow what is raised on the way.\<close>

definition start_run :: "bool \<Rightarrow> captured_decision res \<Rightarrow> 'a handler_scheme \<Rightarrow> unit res \<times> 'a handler_scheme" where
  "start_run guarded r h = (case r of
     Inl e \<Rightarrow> (if guarded then Inr () else Inl e, h)
   | Inr d \<Rightarrow> (Inr (), h\<lparr>h_inflight := dset (h_inflight h) (cd_id d) d\<rparr>))"

text \<open>Taking a run out of flight. What \<open>f\<close> raises leaves the decision out of both collections.\<close>

definition timed :: "datetime \<Rightarrow> captured_decision \<Rightarrow> captured_decision" where
  "timed now d = d\<lparr>cd_ended := Some now,
     cd_ms := (case cd_started d of None \<Rightarrow> cd_ms d | Some t \<Rightarrow> Some (of_int (instant now - instant t) / 1000))\<rparr>"

definition finish_run ::
  "string \<Rightarrow> datetime \<Rightarrow> (captured_decision \<Rightarrow> captured_decision res) \<Rightarrow> 'a handler_scheme \<Rightarrow> captured_decision option res \<times> 'a handler_scheme" where
  "finish_run key now f h = (case dget (h_inflight h) key of
     None \<Rightarrow> (Inr None, h)
   | Some d \<Rightarrow> (let h1 = h\<lparr>h_inflight := ddel (h_inflight h) key\<rparr> in
       case f (timed now d) of
         Inl e \<Rightarrow> (Inl e, h1)
       | Inr d' \<Rightarrow> (Inr (Some d'), h1\<lparr>h_decisions := h_decisions h1 @ [d']\<rparr>)))"

definition end_run ::
  "string option \<Rightarrow> datetime \<Rightarrow> (captured_decision \<Rightarrow> captured_decision res) \<Rightarrow> 'a handler_scheme \<Rightarrow> captured_decision option res \<times> 'a handler_scheme" where
  "end_run run now f h = (if \<not> str_truthy run then (Inr None, h) else finish_run (the run) now f h)"

text \<open>The same for model, chain, tool and retriever.\<close>

definition on_run_error :: "string option \<Rightarrow> datetime \<Rightarrow> string \<Rightarrow> 'a handler_scheme \<Rightarrow> captured_decision option res \<times> 'a handler_scheme" where
  "on_run_error run now error h = end_run run now (\<lambda>d. Inr (d\<lparr>cd_error := Some error\<rparr>)) h"

section \<open>What a callback may do\<close>

definition in_flight :: "captured_decision \<Rightarrow> bool" where
  "in_flight d \<longleftrightarrow> cd_started d \<noteq> None \<and> cd_ended d = None \<and> cd_ms d = None \<and> cd_error d = None \<and> cd_outputs d = [] \<and> cd_tokens d = None"

definition completed :: "captured_decision \<Rightarrow> bool" where
  "completed d \<longleftrightarrow> cd_started d \<noteq> None \<and> cd_ended d \<noteq> None \<and> cd_ms d \<noteq> None \<and> (cd_error d = None \<or> cd_outputs d = [])"

text \<open>What an end of a run does to its decision.\<close>

definition closes :: "(captured_decision \<Rightarrow> captured_decision res) \<Rightarrow> bool" where
  "closes f \<longleftrightarrow> (\<forall>d d'. f d = Inr d' \<longrightarrow> cd_id d' = cd_id d \<and> cd_parent d' = cd_parent d \<and> cd_started d' = cd_started d
     \<and> cd_ended d' = cd_ended d \<and> cd_ms d' = cd_ms d \<and> (cd_error d = None \<and> cd_outputs d = [] \<longrightarrow> cd_error d' = None \<or> cd_outputs d' = []))"

lemma start_step:
  assumes "start_run guarded r h = (u, h')" "\<And>d. r = Inr d \<Longrightarrow> in_flight d \<and> cd_id d = k"
  shows "h' = h \<or> (\<exists>d. in_flight d \<and> cd_id d = k \<and> h' = h\<lparr>h_inflight := dset (h_inflight h) k d\<rparr>)"
  using assms by (cases r) (auto simp: start_run_def)

lemma closes_intros:
  "closes (\<lambda>d. Inr (d\<lparr>cd_outputs := outs\<rparr>))" "closes (\<lambda>d. Inr (d\<lparr>cd_error := Some e\<rparr>))"
  by (auto simp: closes_def)

definition ended_by :: "'a handler_scheme \<Rightarrow> captured_decision \<Rightarrow> 'a handler_scheme \<Rightarrow> bool" where
  \<comment> \<open>the run of \<open>d\<close>, in flight in \<open>h\<close>, is out of flight in \<open>h'\<close>, and in the decisions unless it is lost\<close>
  "ended_by h d h' \<longleftrightarrow> dget (h_inflight h) (cd_id d) \<noteq> None \<and> h_inflight h' = ddel (h_inflight h) (cd_id d)
     \<and> (h_decisions h' = h_decisions h \<or> h_decisions h' = h_decisions h @ [d])"

lemma completed_timed: "in_flight d \<Longrightarrow> completed (timed now d)"
  by (cases "cd_started d") (auto simp: completed_def timed_def in_flight_def simp del: not_None_eq)

lemma closes_completed:
  assumes "closes f" "in_flight d" "f (timed now d) = Inr d'"
  shows "completed d'"
proof -
  have "completed (timed now d)" "cd_error (timed now d) = None" "cd_outputs (timed now d) = []"
    using assms(2) completed_timed by (simp_all add: timed_def in_flight_def)
  moreover have "cd_started d' = cd_started (timed now d)" "cd_ended d' = cd_ended (timed now d)" "cd_ms d' = cd_ms (timed now d)"
    "cd_error (timed now d) = None \<and> cd_outputs (timed now d) = [] \<longrightarrow> cd_error d' = None \<or> cd_outputs d' = []"
    using assms(1,3) unfolding closes_def by blast+
  ultimately show ?thesis by (simp add: completed_def)
qed

lemma finish_step:
  assumes "finish_run key now f h = (q, h')" "closes f"
    "\<And>k d. dget (h_inflight h) k = Some d \<Longrightarrow> in_flight d \<and> cd_id d = k"
  shows "(h' = h \<and> q = Inr None) \<or> (\<exists>d. completed d \<and> ended_by h d h' \<and> h_exports h' = h_exports h
    \<and> (\<forall>d'. q = Inr (Some d') \<longrightarrow> d' = d \<and> key = cd_id d \<and> h_decisions h' = h_decisions h @ [d]
        \<and> (\<exists>d0. in_flight d0 \<and> f (timed now d0) = Inr d)))"
proof (cases "dget (h_inflight h) key")
  case None
  then show ?thesis using assms(1) by (auto simp: finish_run_def)
next
  case (Some d)
  then have f: "in_flight d" "cd_id d = key" using assms(3) by blast+
  show ?thesis
  proof (cases "f (timed now d)")
    case (Inl e)
    have "completed (timed now d)" "cd_id (timed now d) = key" using f completed_timed by (simp_all add: timed_def)
    then show ?thesis using assms(1) Some Inl by (intro disjI2 exI [of _ "timed now d"]) (auto simp: finish_run_def ended_by_def Let_def)
  next
    case (Inr d')
    have "cd_id d' = key" using Inr f assms(2) by (auto simp: closes_def timed_def)
    moreover have "completed d'" by (rule closes_completed [OF assms(2) f(1) Inr])
    ultimately show ?thesis using assms(1) Some Inr f(1) by (intro disjI2 exI [of _ d']) (auto simp: finish_run_def ended_by_def Let_def)
  qed
qed

lemma end_step:
  assumes "end_run run now f h = (q, h')" "closes f"
    "\<And>k d. dget (h_inflight h) k = Some d \<Longrightarrow> in_flight d \<and> cd_id d = k"
  shows "(h' = h \<and> q = Inr None) \<or> (\<exists>d. completed d \<and> ended_by h d h' \<and> h_exports h' = h_exports h
    \<and> (\<forall>d'. q = Inr (Some d') \<longrightarrow> d' = d \<and> run = Some (cd_id d) \<and> h_decisions h' = h_decisions h @ [d]))"
proof (cases "str_truthy run")
  case True
  have f: "finish_run (the run) now f h = (q, h')" using assms(1) True by (simp add: end_run_def)
  have "run = Some (the run)" using True by (cases run) (auto simp: str_truthy_def)
  with finish_step [OF f assms(2,3)] show ?thesis by metis
qed (use assms(1) in \<open>auto simp: end_run_def\<close>)

definition handler_ok :: "string list \<Rightarrow> 'a handler_scheme \<Rightarrow> bool" where
  "handler_ok ks h \<longleftrightarrow> distinct (dkeys (h_inflight h)) \<and> (\<forall>k d. dget (h_inflight h) k = Some d \<longrightarrow> in_flight d \<and> cd_id d = k)
     \<and> list_all completed (h_decisions h)
     \<and> (distinct ks \<longrightarrow> distinct (map cd_id (h_decisions h) @ dkeys (h_inflight h)))
     \<and> set (map cd_id (h_decisions h) @ dkeys (h_inflight h)) \<subseteq> set ks"

text \<open>A callback does nothing, puts a new run in flight, or ends one.\<close>

definition run_effect :: "'a handler_scheme \<Rightarrow> string option \<Rightarrow> 'a handler_scheme \<Rightarrow> bool" where
  "run_effect h l h' \<longleftrightarrow> (h_inflight h' = h_inflight h \<and> h_decisions h' = h_decisions h)
     \<or> (\<exists>d k. l = Some k \<and> in_flight d \<and> cd_id d = k \<and> h_inflight h' = dset (h_inflight h) k d \<and> h_decisions h' = h_decisions h)
     \<or> (\<exists>d. l = None \<and> completed d \<and> ended_by h d h')"

lemma start_effect:
  assumes "start_run guarded r h = (u, h')" "\<And>d. r = Inr d \<Longrightarrow> in_flight d \<and> cd_id d = k"
  shows "run_effect h (Some k) h'"
  using start_step [OF assms] by (auto simp: run_effect_def)

lemma guard_effect:
  assumes "(if \<not> flag then (Inr (), h) else start_run guarded r h) = (u, h')" "\<And>d. r = Inr d \<Longrightarrow> in_flight d \<and> cd_id d = k"
  shows "run_effect h (Some k) h'"
  using assms start_effect [of guarded r h u h' k] by (cases flag) (auto simp: run_effect_def)

lemma finish_effect:
  assumes "finish_run key now f h = (q, h1)" "closes f" "\<And>k d. dget (h_inflight h) k = Some d \<Longrightarrow> in_flight d \<and> cd_id d = k"
    "h_inflight h' = h_inflight h1" "h_decisions h' = h_decisions h1"
  shows "run_effect h None h'"
proof -
  from finish_step [OF assms(1-3)] consider "h1 = h" | d where "completed d" "ended_by h d h1" by blast
  then show ?thesis
  proof cases
    case 1
    then show ?thesis using assms(4,5) by (simp add: run_effect_def)
  next
    case 2
    then have "ended_by h d h'" using assms(4,5) by (simp add: ended_by_def)
    then show ?thesis using 2 by (auto simp: run_effect_def)
  qed
qed

lemma end_effect:
  assumes "end_run run now f h = (q, h1)" "closes f" "\<forall>k d. dget (h_inflight h) k = Some d \<longrightarrow> in_flight d \<and> cd_id d = k"
    "h_inflight h' = h_inflight h1" "h_decisions h' = h_decisions h1"
  shows "run_effect h None h'"
proof (cases "str_truthy run")
  case True
  then have "finish_run (the run) now f h = (q, h1)" using assms(1) by (simp add: end_run_def)
  then show ?thesis using finish_effect [OF _ assms(2) _ assms(4,5)] assms(3) by blast
qed (use assms in \<open>auto simp: end_run_def run_effect_def\<close>)

lemma dkeys_ddel: "dkeys (ddel d k) = filter (\<lambda>k'. k' \<noteq> k) (dkeys d)"
  by (induction d) (auto simp: ddel_def)

lemma distinct_move:
  assumes "distinct (xs @ ks)" "k \<in> set ks"
  shows "distinct (xs @ filter (\<lambda>k'. k' \<noteq> k) ks)" "distinct ((xs @ [k]) @ filter (\<lambda>k'. k' \<noteq> k) ks)"
  using assms by auto

lemma handler_ok_effect:
  assumes "handler_ok ks h" "run_effect h l h'"
  shows "handler_ok ((case l of None \<Rightarrow> [] | Some k \<Rightarrow> [k]) @ ks) h'"
  using assms(2) unfolding run_effect_def
proof (elim disjE exE conjE)
  assume "h_inflight h' = h_inflight h" "h_decisions h' = h_decisions h"
  then show ?thesis using assms(1) by (cases l) (auto simp: handler_ok_def)
next
  fix d k
  assume h: "l = Some k" "in_flight d" "cd_id d = k" "h_inflight h' = dset (h_inflight h) k d" "h_decisions h' = h_decisions h"
  have "distinct (map cd_id (h_decisions h) @ dkeys (dset (h_inflight h) k d))"
    if "distinct (k # ks)" using assms(1) that by (auto simp: handler_ok_def dkeys_dset)
  then show ?thesis using assms(1) h by (auto simp: handler_ok_def)
next
  fix d
  assume h: "l = None" "completed d" "ended_by h d h'"
  obtain K where K: "fst ` set (h_inflight h) = K" by blast
  have k: "cd_id d \<in> K" using h(3) unfolding ended_by_def map_of_eq_None_iff K by simp
  have sub: "set (map cd_id (h_decisions h') @ dkeys (h_inflight h')) \<subseteq> set (map cd_id (h_decisions h) @ dkeys (h_inflight h))"
    using h(3) k by (auto simp: ended_by_def K)
  have dis: "distinct (map cd_id (h_decisions h') @ dkeys (h_inflight h'))" if "distinct (map cd_id (h_decisions h) @ dkeys (h_inflight h))"
  proof -
    have "cd_id d \<in> set (dkeys (h_inflight h))" using k K by simp
    note m = distinct_move [OF that this]
    have infl: "h_inflight h' = ddel (h_inflight h) (cd_id d)" using h(3) by (simp only: ended_by_def)
    consider "h_decisions h' = h_decisions h" | "h_decisions h' = h_decisions h @ [d]" using h(3) unfolding ended_by_def by blast
    then show ?thesis
    proof cases
      case 1
      show ?thesis unfolding 1 infl dkeys_ddel by (rule m(1))
    next
      case 2
      show ?thesis unfolding 2 infl dkeys_ddel map_append list.map by (rule m(2))
    qed
  qed
  have infl: "h_inflight h' = ddel (h_inflight h) (cd_id d)" using h(3) by (simp only: ended_by_def)
  have "list_all completed (h_decisions h')" using assms(1) h(2,3) unfolding handler_ok_def ended_by_def by (elim conjE disjE) simp_all
  moreover have "distinct (dkeys (h_inflight h'))" using assms(1) unfolding infl handler_ok_def by (simp add: distinct_ddel)
  moreover have "\<forall>k d'. dget (h_inflight h') k = Some d' \<longrightarrow> in_flight d' \<and> cd_id d' = k"
    using assms(1) unfolding infl handler_ok_def by (simp add: dget_ddel)
  moreover have "set (map cd_id (h_decisions h') @ dkeys (h_inflight h')) \<subseteq> set ks"
    using subset_trans [OF sub] assms(1) unfolding handler_ok_def by blast
  ultimately show ?thesis using assms(1) h(1) dis unfolding handler_ok_def by simp
qed

section \<open>Runs of callbacks\<close>

text \<open>Reachable handlers, with the keys of the callbacks that began a run.\<close>

inductive recorder_reach :: "('h \<Rightarrow> string option \<Rightarrow> 'h \<Rightarrow> bool) \<Rightarrow> ('h \<Rightarrow> 'h) \<Rightarrow> 'h \<Rightarrow> string list \<Rightarrow> 'h \<Rightarrow> bool" for step clear h0 where
  reach_new: "recorder_reach step clear h0 [] h0"
| reach_callback: "recorder_reach step clear h0 ks h \<Longrightarrow> step h l h' \<Longrightarrow>
    recorder_reach step clear h0 ((case l of None \<Rightarrow> [] | Some k \<Rightarrow> [k]) @ ks) h'"
| reach_clear: "recorder_reach step clear h0 ks h \<Longrightarrow> recorder_reach step clear h0 ks (clear h)"

text \<open>Callbacks without a \<open>clear\<close> between them.\<close>

inductive recorder_steps :: "('h \<Rightarrow> string option \<Rightarrow> 'h \<Rightarrow> bool) \<Rightarrow> 'h \<Rightarrow> 'h \<Rightarrow> bool" for step h where
  steps_none: "recorder_steps step h h"
| steps_more: "recorder_steps step h h1 \<Longrightarrow> step h1 l h2 \<Longrightarrow> recorder_steps step h h2"

locale run_recorder =
  fixes step :: "'a handler_scheme \<Rightarrow> string option \<Rightarrow> 'a handler_scheme \<Rightarrow> bool"
    and clear :: "'a handler_scheme \<Rightarrow> 'a handler_scheme"
    and start :: "'a handler_scheme"
  assumes effect: "step h l h' \<Longrightarrow> (\<And>k d. dget (h_inflight h) k = Some d \<Longrightarrow> in_flight d \<and> cd_id d = k) \<Longrightarrow> run_effect h l h'"
    and clears: "h_decisions (clear h) = []" "h_inflight (clear h) = []"
    and starts: "h_decisions start = []" "h_inflight start = []"
begin

lemma effect_ok: "handler_ok ks h \<Longrightarrow> step h l h' \<Longrightarrow> run_effect h l h'"
  by (rule effect) (auto simp: handler_ok_def)

lemma reach_ok: "recorder_reach step clear start ks h \<Longrightarrow> handler_ok ks h"
proof (induction rule: recorder_reach.induct)
  case reach_new
  show ?case by (simp add: handler_ok_def starts)
next
  case (reach_callback ks h l h')
  then show ?case using handler_ok_effect effect_ok by blast
next
  case (reach_clear ks h)
  then show ?case by (simp add: handler_ok_def clears)
qed

lemma reach_holds:
  assumes "recorder_reach step clear start ks h"
  shows "list_all completed (h_decisions h)" "list_all (\<lambda>(k, d). in_flight d \<and> cd_id d = k) (h_inflight h)"
    "set (map cd_id (h_decisions h) @ dkeys (h_inflight h)) \<subseteq> set ks"
    "distinct ks \<longrightarrow> distinct (map cd_id (h_decisions h) @ dkeys (h_inflight h))"
proof -
  have ok: "handler_ok ks h" by (rule reach_ok [OF assms])
  have "in_flight d \<and> cd_id d = k" if "(k, d) \<in> set (h_inflight h)" for k d
    using ok that by (auto simp: handler_ok_def)
  then show "list_all (\<lambda>(k, d). in_flight d \<and> cd_id d = k) (h_inflight h)" by (auto simp: list_all_iff)
qed (use reach_ok [OF assms] in \<open>simp_all add: handler_ok_def\<close>)

lemma steps_ok: "recorder_steps step h h' \<Longrightarrow> handler_ok ks h \<Longrightarrow> \<exists>ks'. handler_ok ks' h'"
proof (induction rule: recorder_steps.induct)
  case (steps_more h1 l h2)
  then obtain ks' where "handler_ok ks' h1" by blast
  then show ?case using handler_ok_effect effect_ok [OF _ steps_more(2)] by blast
qed blast

lemma steps_decisions: "recorder_steps step h h' \<Longrightarrow> handler_ok ks h \<Longrightarrow> \<exists>ds. h_decisions h' = h_decisions h @ ds"
proof (induction rule: recorder_steps.induct)
  case (steps_more h1 l h2)
  obtain ks' where "handler_ok ks' h1" using steps_ok [OF steps_more(1,4)] by blast
  then have "run_effect h1 l h2" using effect_ok steps_more(2) by blast
  then have "\<exists>ds. h_decisions h2 = h_decisions h1 @ ds" by (auto simp: run_effect_def ended_by_def)
  then show ?case using steps_more(3) [OF steps_more(4)] by auto
qed simp

end

end
