(* ===== verification/LangChain.thy ===== *)
theory LangChain
  imports Recorder
begin

text \<open>
  \<open>integrations/frameworks/langchain_handler.py\<close>: the callback handler that turns the runs of a
  LangChain program into decision records. Runs are told apart by the text of their id; what the
  framework passes is a dictionary, a message, a document or a response with the attributes the
  code looks at; the clock and the ids made up for runs without one are arguments. The results:
  what is in flight and what is recorded in every run of callbacks, and that the record exported for
  a top-level chain holds every run of it that ended before.
\<close>

record handler_config =
  hc_llm :: bool
  hc_chains :: bool
  hc_tools :: bool
  hc_retrievers :: bool
  hc_in :: int
  hc_out :: int
  hc_version :: "string option"
  hc_float :: "rat \<Rightarrow> string"

section \<open>Reading what the framework passes\<close>

text \<open>\<open>key in c\<close> and then \<open>c[key]\<close>.\<close>

definition key_get :: "pyval \<Rightarrow> string \<Rightarrow> pyval option res" where
  "key_get c k = (case c of
     PDict d \<Rightarrow> Inr (dget d k)
   | PList xs \<Rightarrow> if list_ex (py_eq (PStr k)) xs then Inl TypeError else Inr None
   | PStr s \<Rightarrow> if is_substr k s then Inl TypeError else Inr None
   | _ \<Rightarrow> Inl TypeError)"

fun first_key :: "pyval \<Rightarrow> string list \<Rightarrow> pyval option res" where
  "first_key c [] = Inr None"
| "first_key c (k # ks) = rbind (key_get c k) (\<lambda>r. case r of Some v \<Rightarrow> Inr (Some v) | None \<Rightarrow> first_key c ks)"

text \<open>\<open>serialized\<close> may be \<open>None\<close>, which has no \<open>get\<close>.\<close>

definition ser_get :: "pydict option \<Rightarrow> string \<Rightarrow> pyval \<Rightarrow> pyval res" where
  "ser_get ser k other = (case ser of None \<Rightarrow> Inl AttributeError | Some d \<Rightarrow> Inr (dget_or d k other))"

definition id_or_name :: "pydict option \<Rightarrow> string \<Rightarrow> pyval res" where
  "id_or_name ser unknown = rbind (ser_get ser ''id'' (PList [])) (\<lambda>p.
     case p of PList (x # xs) \<Rightarrow> Inr (last (x # xs)) | _ \<Rightarrow> ser_get ser ''name'' (PStr unknown))"

definition MODEL_KEYS :: "string list" where
  "MODEL_KEYS = [''model_name'', ''model'', ''model_id'']"

definition extract_model_name :: "(rat \<Rightarrow> string) \<Rightarrow> pydict option \<Rightarrow> pydict \<Rightarrow> pyval res" where
  "extract_model_name fr ser kwargs =
     rbind (first_key (PDict kwargs) MODEL_KEYS) (\<lambda>r. case r of
       Some v \<Rightarrow> Inr (PStr (py_str fr v))
     | None \<Rightarrow> rbind (ser_get ser ''kwargs'' (PDict [])) (\<lambda>sk. rbind (first_key sk MODEL_KEYS) (\<lambda>r'. case r' of
         Some v \<Rightarrow> Inr (PStr (py_str fr v))
       | None \<Rightarrow> id_or_name ser ''unknown_model'')))"

definition PARAM_KEYS :: "string list" where
  "PARAM_KEYS = [''temperature'', ''max_tokens'', ''top_p'', ''frequency_penalty'', ''presence_penalty'', ''stop'', ''model_name'', ''model'']"

fun collect_params :: "pyval \<Rightarrow> pydict \<Rightarrow> string list \<Rightarrow> pydict res" where
  "collect_params sk kwargs [] = Inr []"
| "collect_params sk kwargs (k # ks) = rbind (key_get sk k) (\<lambda>r.
     rbind (collect_params sk kwargs ks) (\<lambda>rest. Inr ((case r of Some v \<Rightarrow> [(k, v)]
       | None \<Rightarrow> (case dget kwargs k of Some v \<Rightarrow> [(k, v)] | None \<Rightarrow> [])) @ rest)))"

definition extract_model_params :: "pydict option \<Rightarrow> pydict \<Rightarrow> pydict res" where
  "extract_model_params ser kwargs = rbind (ser_get ser ''kwargs'' (PDict [])) (\<lambda>sk. collect_params sk kwargs PARAM_KEYS)"

definition extract_chain_name :: "pydict option \<Rightarrow> pyval res" where
  "extract_chain_name ser = id_or_name ser ''unknown_chain''"

definition tool_name :: "pydict option \<Rightarrow> pyval res" where
  "tool_name ser = rbind (ser_get ser ''id'' PNone) (\<lambda>p.
     rbind (case p of PList xs \<Rightarrow> rbind (ser_get ser ''id'' (PList [PStr ''unknown'']))
              (\<lambda>q. case q of PList (y # ys) \<Rightarrow> Inr (last (y # ys)) | _ \<Rightarrow> Inl IndexError)
            | _ \<Rightarrow> Inr (PStr ''unknown_tool''))
       (\<lambda>other. ser_get ser ''name'' other))"

text \<open>Strings cut, dictionaries inside dictionaries too; strings inside lists are not.\<close>

fun truncate_val :: "int \<Rightarrow> pyval \<Rightarrow> pyval"
  and truncate_items :: "int \<Rightarrow> (string \<times> pyval) list \<Rightarrow> (string \<times> pyval) list" where
  "truncate_val n (PStr s) = PStr (slice_to n s)"
| "truncate_val n (PDict d) = PDict (truncate_items n d)"
| "truncate_val n v = v"
| "truncate_items n [] = []"
| "truncate_items n ((k, v) # d) = (k, truncate_val n v) # truncate_items n d"

definition truncate_dict :: "(rat \<Rightarrow> string) \<Rightarrow> int \<Rightarrow> pyval \<Rightarrow> pydict" where
  "truncate_dict fr n v = (case v of PDict d \<Rightarrow> truncate_items n d | _ \<Rightarrow> [(''value'', PStr (slice_to n (py_str fr v)))])"

fun tag_items :: "nat \<Rightarrow> string list \<Rightarrow> pydict" where
  "tag_items i [] = []"
| "tag_items i (t # ts) = (''tag_'' @ int_text (int i), PStr t) # tag_items (Suc i) ts"

definition merge_tags :: "(rat \<Rightarrow> string) \<Rightarrow> string list option \<Rightarrow> pydict option \<Rightarrow> pydict" where
  "merge_tags fr tags metadata =
     (let base = (case tags of None \<Rightarrow> [] | Some ts \<Rightarrow> tag_items 0 ts)
      in case metadata of None \<Rightarrow> base | Some m \<Rightarrow> foldl (\<lambda>acc kv. dset acc (fst kv) (PStr (py_str fr (snd kv)))) base m)"

text \<open>A message: an object with \<open>type\<close> and \<open>content\<close>, a dictionary, or anything else, by its text.\<close>

datatype lc_message = MessageObj pyval pyval | MessageDict pydict | MessageText string
datatype message_group = Group "lc_message list" | Single lc_message

definition message_dict :: "(rat \<Rightarrow> string) \<Rightarrow> int \<Rightarrow> lc_message \<Rightarrow> pyval" where
  "message_dict fr n m = (case m of
     MessageObj role content \<Rightarrow> PDict [(''role'', role), (''content'', PStr (slice_to n (py_str fr content)))]
   | MessageDict d \<Rightarrow> PDict [(''role'', dget_or d ''role'' (PStr ''unknown'')),
       (''content'', PStr (slice_to n (py_str fr (dget_or d ''content'' (PStr [])))))]
   | MessageText t \<Rightarrow> PDict [(''role'', PStr ''unknown''), (''content'', PStr (slice_to n t))])"

definition serialize_messages :: "(rat \<Rightarrow> string) \<Rightarrow> int \<Rightarrow> message_group list \<Rightarrow> pyval list" where
  "serialize_messages fr n gs = concat (map (\<lambda>g. case g of Group ms \<Rightarrow> map (message_dict fr n) ms | Single m \<Rightarrow> [message_dict fr n m]) gs)"

datatype lc_document = DocumentObj string pyval | DocumentDict pydict | DocumentText string

definition document_dict :: "(rat \<Rightarrow> string) \<Rightarrow> lc_document \<Rightarrow> pyval" where
  "document_dict fr d = (case d of
     DocumentObj content meta \<Rightarrow> PDict [(''content_preview'', PStr (take 200 content)),
       (''metadata'', case meta of PDict m \<Rightarrow> meta | _ \<Rightarrow> PDict [])]
   | DocumentDict e \<Rightarrow> PDict [(''content_preview'', PStr (take 200 (py_str fr (dget_or e ''page_content'' (dget_or e ''content'' (PStr [])))))),
       (''metadata'', dget_or e ''metadata'' (PDict []))]
   | DocumentText t \<Rightarrow> PDict [(''content_preview'', PStr (take 200 t))])"

definition serialize_documents :: "(rat \<Rightarrow> string) \<Rightarrow> lc_document list option \<Rightarrow> pyval list" where
  "serialize_documents fr ds = (case ds of None \<Rightarrow> [] | Some xs \<Rightarrow> map (document_dict fr) xs)"

text \<open>A response of a model: its generations and \<open>llm_output\<close>, where it has these attributes.\<close>

datatype generation = GenText pyval | GenMessage pyval | GenOther

record llm_response =
  lr_generations :: "generation list list option"
  lr_output :: "pyval option"

definition extract_text :: "llm_response \<Rightarrow> pyval" where
  "extract_text r = (case lr_generations r of
     Some ((g # gs) # rest) \<Rightarrow> (case g of GenText t \<Rightarrow> t | GenMessage c \<Rightarrow> c | GenOther \<Rightarrow> PStr [])
   | _ \<Rightarrow> PStr [])"

definition extract_usage :: "llm_response \<Rightarrow> pydict option res" where
  "extract_usage r = (case lr_output r of
     None \<Rightarrow> Inr None
   | Some v \<Rightarrow> if \<not> py_truthy v then Inr None
       else (case v of
         PDict d \<Rightarrow> (let u = dget_or d ''token_usage'' (PDict []) in
           if \<not> py_truthy u then Inr None
           else (case u of
             PDict e \<Rightarrow> Inr (Some (map (\<lambda>k. (k, dget_or e k (PInt 0))) [''prompt_tokens'', ''completion_tokens'', ''total_tokens'']))
           | _ \<Rightarrow> Inl AttributeError))
       | _ \<Rightarrow> Inl AttributeError))"

definition extract_llm_output :: "llm_response option \<Rightarrow> (pyval \<times> pydict option) res" where
  "extract_llm_output resp = (case resp of
     None \<Rightarrow> Inr (PStr [], None) | Some r \<Rightarrow> rbind (extract_usage r) (\<lambda>u. Inr (extract_text r, u)))"

text \<open>\<open>text[:n] if text else None\<close>\<close>

definition cut_text :: "int \<Rightarrow> pyval \<Rightarrow> pyval res" where
  "cut_text n v = (if \<not> py_truthy v then Inr PNone
     else case v of PStr s \<Rightarrow> Inr (PStr (slice_to n s)) | PList xs \<Rightarrow> Inr (PList (slice_to n xs)) | _ \<Rightarrow> Inl TypeError)"

section \<open>Callbacks\<close>

text \<open>What every callback that begins a run is given.\<close>

record run_start =
  rs_run :: "string option"
  rs_fresh :: string
  rs_parent :: "string option"
  rs_tags :: "string list option"
  rs_meta :: "pydict option"
  rs_now :: datetime

definition run_key :: "run_start \<Rightarrow> string" where
  "run_key s = (if str_truthy (rs_run s) then the (rs_run s) else rs_fresh s)"

definition begun :: "handler_config \<Rightarrow> run_start \<Rightarrow> string \<Rightarrow> string option \<Rightarrow> pyval \<Rightarrow> pydict \<Rightarrow> pydict \<Rightarrow> captured_decision" where
  "begun cfg s kind version name inputs params = \<lparr>cd_id = run_key s, cd_type = kind, cd_name = name, cd_inputs = inputs, cd_outputs = [],
     cd_params = params, cd_error = None, cd_started = Some (rs_now s), cd_ended = None, cd_ms = None,
     cd_parent = (if str_truthy (rs_parent s) then rs_parent s else None), cd_tags = merge_tags (hc_float cfg) (rs_tags s) (rs_meta s),
     cd_tokens = None, cd_version = version\<rparr>"

definition on_llm_start :: "handler_config \<Rightarrow> run_start \<Rightarrow> pydict option \<Rightarrow> string list \<Rightarrow> pydict \<Rightarrow> handler \<Rightarrow> unit res \<times> handler" where
  "on_llm_start cfg s ser prompts kwargs h =
     (if \<not> hc_llm cfg then (Inr (), h)
      else start_run True (rbind (extract_model_name (hc_float cfg) ser kwargs) (\<lambda>name. rbind (extract_model_params ser kwargs) (\<lambda>params.
        Inr (begun cfg s ''llm'' (hc_version cfg) name [(''prompts'', PList (map (\<lambda>p. PStr (slice_to (hc_in cfg) p)) prompts))] params)))) h)"

definition on_chat_model_start :: "handler_config \<Rightarrow> run_start \<Rightarrow> pydict option \<Rightarrow> message_group list \<Rightarrow> pydict \<Rightarrow> handler \<Rightarrow> unit res \<times> handler" where
  "on_chat_model_start cfg s ser messages kwargs h =
     (if \<not> hc_llm cfg then (Inr (), h)
      else start_run False (rbind (extract_model_name (hc_float cfg) ser kwargs) (\<lambda>name. rbind (extract_model_params ser kwargs) (\<lambda>params.
        Inr (begun cfg s ''llm'' (hc_version cfg) name [(''messages'', PList (serialize_messages (hc_float cfg) (hc_in cfg) messages))] params)))) h)"

definition on_chain_start :: "handler_config \<Rightarrow> run_start \<Rightarrow> pydict option \<Rightarrow> pyval \<Rightarrow> handler \<Rightarrow> unit res \<times> handler" where
  "on_chain_start cfg s ser inputs h =
     (if \<not> hc_chains cfg then (Inr (), h)
      else start_run True (rbind (extract_chain_name ser) (\<lambda>name.
        Inr (begun cfg s ''chain'' (hc_version cfg) name (truncate_dict (hc_float cfg) (hc_in cfg) inputs) []))) h)"

definition on_tool_start :: "handler_config \<Rightarrow> run_start \<Rightarrow> pydict option \<Rightarrow> string \<Rightarrow> handler \<Rightarrow> unit res \<times> handler" where
  "on_tool_start cfg s ser input_str h =
     (if \<not> hc_tools cfg then (Inr (), h)
      else start_run True (rbind (tool_name ser) (\<lambda>name.
        Inr (begun cfg s ''tool'' (hc_version cfg) name [(''input'', PStr (slice_to (hc_in cfg) input_str))] []))) h)"

definition on_retriever_start :: "handler_config \<Rightarrow> run_start \<Rightarrow> pydict option \<Rightarrow> string \<Rightarrow> handler \<Rightarrow> unit res \<times> handler" where
  "on_retriever_start cfg s ser query h =
     (if \<not> hc_retrievers cfg then (Inr (), h)
      else start_run False (rbind (ser_get ser ''name'' (PStr ''retriever'')) (\<lambda>name.
        Inr (begun cfg s ''retriever'' None name [(''query'', PStr (slice_to (hc_in cfg) query))] []))) h)"

definition on_llm_end :: "handler_config \<Rightarrow> string option \<Rightarrow> datetime \<Rightarrow> llm_response option \<Rightarrow> handler \<Rightarrow> captured_decision option res \<times> handler" where
  "on_llm_end cfg run now response h = end_run run now (\<lambda>d. rbind (extract_llm_output response) (\<lambda>(t, u).
     rbind (cut_text (hc_out cfg) t) (\<lambda>t'. Inr (d\<lparr>cd_outputs := [(''text'', t')], cd_tokens := u\<rparr>)))) h"

definition on_tool_end :: "handler_config \<Rightarrow> string option \<Rightarrow> datetime \<Rightarrow> string \<Rightarrow> handler \<Rightarrow> captured_decision option res \<times> handler" where
  "on_tool_end cfg run now output h = end_run run now (\<lambda>d. Inr (d\<lparr>cd_outputs := [(''output'', PStr (slice_to (hc_out cfg) output))]\<rparr>)) h"

definition on_retriever_end :: "handler_config \<Rightarrow> string option \<Rightarrow> datetime \<Rightarrow> lc_document list option \<Rightarrow> handler \<Rightarrow> captured_decision option res \<times> handler" where
  "on_retriever_end cfg run now documents h = (let docs = serialize_documents (hc_float cfg) documents in
     end_run run now (\<lambda>d. Inr (d\<lparr>cd_outputs := [(''document_count'', PInt (int (length docs))), (''documents'', PList docs)]\<rparr>)) h)"

definition assemble_decision_record :: "handler \<Rightarrow> captured_decision \<Rightarrow> pydict" where
  "assemble_decision_record h d = dset (decision_dict d) ''child_spans''
     (PList (map (\<lambda>c. PDict (decision_dict c)) (filter (\<lambda>c. cd_parent c = Some (cd_id d)) (h_decisions h))))"

definition on_chain_end :: "handler_config \<Rightarrow> string option \<Rightarrow> string option \<Rightarrow> datetime \<Rightarrow> pyval \<Rightarrow> handler \<Rightarrow> captured_decision option res \<times> handler" where
  "on_chain_end cfg run parent now outputs h =
     (case end_run run now (\<lambda>d. Inr (d\<lparr>cd_outputs := truncate_dict (hc_float cfg) (hc_out cfg) outputs\<rparr>)) h of
        (Inr (Some d), h1) \<Rightarrow> (Inr (Some d), if parent = None then h1\<lparr>h_exports := h_exports h1 @ [assemble_decision_record h1 d]\<rparr> else h1)
      | (r, h1) \<Rightarrow> (r, h1))"

section \<open>Runs of callbacks\<close>

text \<open>A callback, with the key of the run it may put in flight.\<close>

inductive lc_step :: "handler_config \<Rightarrow> handler \<Rightarrow> string option \<Rightarrow> handler \<Rightarrow> bool" for cfg h where
  llm_start: "on_llm_start cfg s ser prompts kw h = (r, h') \<Longrightarrow> lc_step cfg h (Some (run_key s)) h'"
| chat_start: "on_chat_model_start cfg s ser messages kw h = (r, h') \<Longrightarrow> lc_step cfg h (Some (run_key s)) h'"
| chain_start: "on_chain_start cfg s ser inputs h = (r, h') \<Longrightarrow> lc_step cfg h (Some (run_key s)) h'"
| tool_start: "on_tool_start cfg s ser input_str h = (r, h') \<Longrightarrow> lc_step cfg h (Some (run_key s)) h'"
| retriever_start: "on_retriever_start cfg s ser query h = (r, h') \<Longrightarrow> lc_step cfg h (Some (run_key s)) h'"
| llm_end: "on_llm_end cfg run now resp h = (q, h') \<Longrightarrow> lc_step cfg h None h'"
| chain_end: "on_chain_end cfg run par now outs h = (q, h') \<Longrightarrow> lc_step cfg h None h'"
| tool_end: "on_tool_end cfg run now out h = (q, h') \<Longrightarrow> lc_step cfg h None h'"
| retriever_end: "on_retriever_end cfg run now docs h = (q, h') \<Longrightarrow> lc_step cfg h None h'"
| run_error: "on_run_error run now err h = (q, h') \<Longrightarrow> lc_step cfg h None h'"

lemma begun_in_flight: "in_flight (begun cfg s kind version name inputs params)" "cd_id (begun cfg s kind version name inputs params) = run_key s"
  by (simp_all add: begun_def in_flight_def)

lemma closes_text:
  "closes (\<lambda>d. rbind m (\<lambda>(t, u). rbind (g t) (\<lambda>t'. Inr (d\<lparr>cd_outputs := [(''text'', t')], cd_tokens := u\<rparr>))))"
  by (auto simp: closes_def rbind_Inr_iff)

lemma lc_step_effect:
  assumes "lc_step cfg h l h'" and ok: "\<forall>k d. dget (h_inflight h) k = Some d \<longrightarrow> in_flight d \<and> cd_id d = k"
  shows "run_effect h l h'"
  using assms(1)
proof cases
  case (llm_start s ser prompts kw r)
  show ?thesis unfolding llm_start(1)
    by (rule guard_effect [OF llm_start(2) [unfolded on_llm_start_def]]) (auto simp: begun_in_flight rbind_Inr_iff)
next
  case (chat_start s ser messages kw r)
  show ?thesis unfolding chat_start(1)
    by (rule guard_effect [OF chat_start(2) [unfolded on_chat_model_start_def]]) (auto simp: begun_in_flight rbind_Inr_iff)
next
  case (chain_start s ser inputs r)
  show ?thesis unfolding chain_start(1)
    by (rule guard_effect [OF chain_start(2) [unfolded on_chain_start_def]]) (auto simp: begun_in_flight rbind_Inr_iff)
next
  case (tool_start s ser input_str r)
  show ?thesis unfolding tool_start(1)
    by (rule guard_effect [OF tool_start(2) [unfolded on_tool_start_def]]) (auto simp: begun_in_flight rbind_Inr_iff)
next
  case (retriever_start s ser query r)
  show ?thesis unfolding retriever_start(1)
    by (rule guard_effect [OF retriever_start(2) [unfolded on_retriever_start_def]]) (auto simp: begun_in_flight rbind_Inr_iff)
next
  case (llm_end run now resp q)
  then show ?thesis using end_effect [OF _ closes_text ok refl refl] by (simp add: on_llm_end_def)
next
  case (chain_end run par now outs q)
  obtain q1 h1 where e: "end_run run now (\<lambda>d. Inr (d\<lparr>cd_outputs := truncate_dict (hc_float cfg) (hc_out cfg) outs\<rparr>)) h = (q1, h1)"
    by (cases "end_run run now (\<lambda>d. Inr (d\<lparr>cd_outputs := truncate_dict (hc_float cfg) (hc_out cfg) outs\<rparr>)) h")
  have "h_inflight h' = h_inflight h1 \<and> h_decisions h' = h_decisions h1"
    using chain_end(2) e by (auto simp: on_chain_end_def split: sum.splits option.splits if_splits)
  then show ?thesis using end_effect [OF e closes_intros(1) ok] chain_end(1) by blast
next
  case (tool_end run now out q)
  then show ?thesis using end_effect [OF _ closes_intros(1) ok refl refl] by (simp add: on_tool_end_def)
next
  case (retriever_end run now docs q)
  then show ?thesis using end_effect [OF _ closes_intros(1) ok refl refl] by (simp add: on_retriever_end_def Let_def)
next
  case (run_error run now err q)
  then show ?thesis using end_effect [OF _ closes_intros(2) ok refl refl] by (simp add: on_run_error_def)
qed

interpretation lc: run_recorder "lc_step cfg" clear_handler new_handler
  by unfold_locales (use lc_step_effect in \<open>auto simp: clear_handler_def new_handler_def\<close>)

text \<open>
  C33: What the handler holds, in every run of callbacks in whatever order, with errors, unknown ids
  and ends of one kind for runs of another: a decision in flight has begun and has neither end nor
  outcome; a recorded one has a beginning, an end and a duration and not both an error and outputs;
  only runs that began are there, and none twice if no id begins twice.
\<close>

theorem langchain_invariant:
  assumes "recorder_reach (lc_step cfg) clear_handler new_handler ks h"
  shows "list_all completed (get_decisions h) \<and> list_all (\<lambda>(k, d). in_flight d \<and> cd_id d = k) (h_inflight h)
    \<and> set (map cd_id (get_decisions h) @ dkeys (h_inflight h)) \<subseteq> set ks
    \<and> (distinct ks \<longrightarrow> distinct (map cd_id (get_decisions h) @ dkeys (h_inflight h)))"
  using lc.reach_holds [OF assms] by (simp add: get_decisions_def)

section \<open>What is exported for a chain\<close>

text \<open>
  C34: What is exported when a top-level chain ends, in every run of callbacks. A chain in flight that ends without a
  parent is recorded with its outputs and its end, and exactly one record is exported, whether it had children
  or not. Its child spans are exactly the decisions recorded by then whose parent is the chain, in order; so every run begun
  under the chain that had ended at any time before is there, as long as the handler was not
  cleared in between, whatever other callbacks came between.
\<close>

theorem chain_export_complete:
  assumes reach: "recorder_reach (lc_step cfg) clear_handler new_handler ks h"
    and steps: "recorder_steps (lc_step cfg) h h2"
    and flight: "dget (h_inflight h2) p = Some d0" "p \<noteq> []"
  shows "\<exists>d h3 rec spans. on_chain_end cfg (Some p) None now outputs h2 = (Inr (Some d), h3)
    \<and> d = (timed now d0)\<lparr>cd_outputs := truncate_dict (hc_float cfg) (hc_out cfg) outputs\<rparr>
    \<and> get_decisions h3 = get_decisions h2 @ [d] \<and> h_exports h3 = h_exports h2 @ [rec]
    \<and> dget rec ''child_spans'' = Some (PList spans) \<and> dget rec ''decision_id'' = Some (PStr p)
    \<and> dget rec ''outputs'' = Some (PDict (cd_outputs d))
    \<and> spans = map (\<lambda>x. PDict (decision_dict x)) (filter (\<lambda>x. cd_parent x = Some p) (get_decisions h3))
    \<and> (\<forall>c\<in>set (get_decisions h). cd_parent c = Some p \<longrightarrow> PDict (decision_dict c) \<in> set spans)"
proof -
  obtain ks2 where ok: "handler_ok ks2 h2" using lc.steps_ok [OF steps lc.reach_ok [OF reach]] by blast
  let ?d = "(timed now d0)\<lparr>cd_outputs := truncate_dict (hc_float cfg) (hc_out cfg) outputs\<rparr>"
  let ?h1 = "h2\<lparr>h_inflight := ddel (h_inflight h2) p, h_decisions := h_decisions h2 @ [?d]\<rparr>"
  have id: "cd_id ?d = p" using ok flight(1) by (simp add: handler_ok_def timed_def)
  have run: "on_chain_end cfg (Some p) None now outputs h2
      = (Inr (Some ?d), ?h1\<lparr>h_exports := h_exports h2 @ [assemble_decision_record ?h1 ?d]\<rparr>)"
    using flight by (simp add: on_chain_end_def end_run_def finish_run_def Let_def str_truthy_def)
  obtain ds where "h_decisions h2 = h_decisions h @ ds" using lc.steps_decisions [OF steps lc.reach_ok [OF reach]] by blast
  then have kept: "set (get_decisions h) \<subseteq> set (get_decisions h2)" by (simp add: get_decisions_def)
  have "dget (dset (decision_dict ?d) ''child_spans'' x) ''decision_id'' = Some (PStr p)"
    "dget (dset (decision_dict ?d) ''child_spans'' x) ''outputs'' = Some (PDict (cd_outputs ?d))" for x
    using id by (simp_all add: decision_dict_def)
  then show ?thesis using run id kept
    by (intro exI [of _ ?d] exI [of _ "?h1\<lparr>h_exports := h_exports h2 @ [assemble_decision_record ?h1 ?d]\<rparr>"]
        exI [of _ "assemble_decision_record ?h1 ?d"]
        exI [of _ "map (\<lambda>x. PDict (decision_dict x)) (filter (\<lambda>x. cd_parent x = Some p) (h_decisions ?h1))"])
      (auto simp: assemble_decision_record_def get_decisions_def)
qed

section \<open>An example\<close>

text \<open>A chain that calls a model once.\<close>

definition demo_config :: handler_config where
  "demo_config = \<lparr>hc_llm = True, hc_chains = True, hc_tools = True, hc_retrievers = True, hc_in = 4, hc_out = 4,
     hc_version = Some ''v1'', hc_float = (\<lambda>q. ''0'')\<rparr>"

definition demo_start :: "string \<Rightarrow> string option \<Rightarrow> run_start" where
  "demo_start run par = \<lparr>rs_run = Some run, rs_fresh = ''f'', rs_parent = par, rs_tags = Some [''t''], rs_meta = None,
     rs_now = \<lparr>dt_wall = 1000, dt_off = Some 0\<rparr>\<rparr>"

definition demo_end :: datetime where
  "demo_end = \<lparr>dt_wall = 4000, dt_off = Some 0\<rparr>"

definition demo_begun :: handler where
  "demo_begun = snd (on_llm_start demo_config (demo_start ''b'' (Some ''a'')) (Some [(''name'', PStr ''m'')]) [''prompt''] []
     (snd (on_chain_start demo_config (demo_start ''a'' None) (Some [(''name'', PStr ''c'')]) (PDict [(''q'', PStr ''hello'')]) new_handler)))"

definition demo_answered :: handler where
  "demo_answered = snd (on_llm_end demo_config (Some ''b'') demo_end
     (Some \<lparr>lr_generations = Some [[GenText (PStr ''answer'')]], lr_output = None\<rparr>) demo_begun)"

lemma demo_reach: "recorder_reach (lc_step demo_config) clear_handler new_handler [''b'', ''a''] demo_answered"
proof -
  have "lc_step demo_config new_handler (Some (run_key (demo_start ''a'' None)))
      (snd (on_chain_start demo_config (demo_start ''a'' None) (Some [(''name'', PStr ''c'')]) (PDict [(''q'', PStr ''hello'')]) new_handler))" (is "lc_step _ _ _ ?h1")
    by (rule lc_step.chain_start [OF surjective_pairing])
  from reach_callback [of "lc_step demo_config" clear_handler new_handler, OF reach_new this] have r1: "recorder_reach (lc_step demo_config) clear_handler new_handler [''a''] ?h1" by (simp add: run_key_def demo_start_def str_truthy_def)
  have "lc_step demo_config ?h1 (Some (run_key (demo_start ''b'' (Some ''a'')))) demo_begun"
    unfolding demo_begun_def by (rule lc_step.llm_start [OF surjective_pairing])
  from reach_callback [of "lc_step demo_config" clear_handler new_handler, OF r1 this] have r2: "recorder_reach (lc_step demo_config) clear_handler new_handler [''b'', ''a''] demo_begun" by (simp add: run_key_def demo_start_def str_truthy_def)
  have "lc_step demo_config demo_begun None demo_answered"
    unfolding demo_answered_def by (rule lc_step.llm_end [OF surjective_pairing])
  from reach_callback [of "lc_step demo_config" clear_handler new_handler, OF r2 this] show ?thesis by simp
qed

theorem langchain_invariant_witness:
  "list_all completed (get_decisions demo_answered) \<and> length (get_decisions demo_answered) = 1
    \<and> distinct (map cd_id (get_decisions demo_answered) @ dkeys (h_inflight demo_answered)) \<and> dkeys (h_inflight demo_answered) = [''a'']"
proof -
  have "length (get_decisions demo_answered) = 1 \<and> dkeys (h_inflight demo_answered) = [''a'']" by code_simp
  then show ?thesis using langchain_invariant [OF demo_reach] by simp
qed

text \<open>The chain before the model was called.\<close>

definition demo_alone :: handler where
  "demo_alone = snd (on_chain_start demo_config (demo_start ''a'' None) (Some [(''name'', PStr ''c'')]) (PDict [(''q'', PStr ''hello'')]) new_handler)"

lemma demo_alone_reach: "recorder_reach (lc_step demo_config) clear_handler new_handler [''a''] demo_alone"
proof -
  have "lc_step demo_config new_handler (Some (run_key (demo_start ''a'' None))) demo_alone"
    unfolding demo_alone_def by (rule lc_step.chain_start [OF surjective_pairing])
  from reach_callback [of "lc_step demo_config" clear_handler new_handler, OF reach_new this] show ?thesis
    by (simp add: run_key_def demo_start_def str_truthy_def)
qed

theorem chain_export_complete_witness:
  "(\<exists>d h rec spans. on_chain_end demo_config (Some ''a'') None demo_end (PDict [(''r'', PStr ''result'')]) demo_answered = (Inr (Some d), h)
     \<and> h_exports h = [rec] \<and> dget rec ''child_spans'' = Some (PList spans) \<and> PDict (decision_dict (hd (get_decisions demo_answered))) \<in> set spans)
   \<and> (\<exists>d h rec. on_chain_end demo_config (Some ''a'') None demo_end (PDict []) demo_alone = (Inr (Some d), h)
     \<and> h_exports h = [rec] \<and> dget rec ''child_spans'' = Some (PList []))" (is "?first \<and> ?second")
proof -
  have none: "h_exports demo_answered = [] \<and> h_exports demo_alone = [] \<and> h_decisions demo_alone = []" by code_simp
  have "dget (h_inflight demo_answered) ''a'' \<noteq> None \<and> dget (h_inflight demo_alone) ''a'' \<noteq> None" by code_simp
  then obtain d1 d2 where d: "dget (h_inflight demo_answered) ''a'' = Some d1" "dget (h_inflight demo_alone) ''a'' = Some d2" by blast
  have "get_decisions demo_answered = [hd (get_decisions demo_answered)] \<and> cd_parent (hd (get_decisions demo_answered)) = Some ''a''" by code_simp
  then have "hd (get_decisions demo_answered) \<in> set (get_decisions demo_answered)" "cd_parent (hd (get_decisions demo_answered)) = Some ''a''"
    by (metis list.set_intros(1), blast)
  then have first: ?first using chain_export_complete [OF demo_reach steps_none d(1), of demo_end "PDict [(''r'', PStr ''result'')]"] none by auto
  have "map_option cd_parent (dget (h_inflight demo_alone) ''a'') = Some None" by code_simp
  then have "cd_parent d2 = None" using d(2) by simp
  then have second: ?second using chain_export_complete [OF demo_alone_reach steps_none d(2), of demo_end "PDict []"] none
    by (auto simp: get_decisions_def timed_def)
  show ?thesis using first second by blast
qed

end
