(* ===== verification/LlamaIndex.thy ===== *)
theory LlamaIndex
  imports LangChain
begin

text \<open>
  \<open>integrations/frameworks/llamaindex_handler.py\<close>: the handler of LlamaIndex events. A payload is a
  dictionary of plain values, objects with attributes and lists of objects (\<open>pyobj\<close>); the clock, ids
  made up for events without one and the texts of objects are arguments. Nothing is caught here,
  so a callback may raise. The results: the handler is a \<open>run_recorder\<close>, and only a query that ended
  without an exception is exported.
\<close>

section \<open>Payloads\<close>

type_synonym payload = "(string, pyobj) dict"

record li_config =
  lx_llm :: bool
  lx_embeddings :: bool
  lx_retrievals :: bool
  lx_queries :: bool
  lx_in :: int
  lx_out :: int
  lx_ignore_starts :: "string list"
  lx_ignore_ends :: "string list"
  lx_version :: "string option"
  lx_conv :: conversions

text \<open>An object kept in a record, known by its text.\<close>

definition as_val :: "conversions \<Rightarrow> pyobj \<Rightarrow> pyval" where
  "as_val cv x = (case x of Val v \<Rightarrow> v | _ \<Rightarrow> PObj (cv_obj cv x))"

text \<open>\<open>x.get(n, other)\<close>; \<open>len(x)\<close>; \<open>x[:n]\<close>.\<close>

definition obj_get :: "pyobj \<Rightarrow> string \<Rightarrow> pyval \<Rightarrow> pyval res" where
  "obj_get x n other = (case x of Val (PDict d) \<Rightarrow> Inr (dget_or d n other) | _ \<Rightarrow> Inl AttributeError)"

definition obj_key :: "pyobj \<Rightarrow> string \<Rightarrow> pyval option res" where
  "obj_key x k = (case x of
     Val v \<Rightarrow> key_get v k
   | Objs xs \<Rightarrow> if Val (PStr k) \<in> set xs then Inl TypeError else Inr None
   | Inst c as \<Rightarrow> Inl TypeError)"

definition obj_len :: "pyobj \<Rightarrow> int res" where
  "obj_len x = (case x of
     Objs xs \<Rightarrow> Inr (int (length xs)) | Val (PList xs) \<Rightarrow> Inr (int (length xs)) | Val (PDict d) \<Rightarrow> Inr (int (length d))
   | Val (PStr s) \<Rightarrow> Inr (int (length s)) | _ \<Rightarrow> Inl TypeError)"

definition obj_slice :: "int \<Rightarrow> pyobj \<Rightarrow> pyval res" where
  "obj_slice n x = (case x of Val (PStr s) \<Rightarrow> Inr (PStr (slice_to n s)) | Val (PList xs) \<Rightarrow> Inr (PList (slice_to n xs)) | _ \<Rightarrow> Inl TypeError)"

definition obj_items :: "pyobj \<Rightarrow> pyobj list res" where
  "obj_items x = (case x of
     Objs xs \<Rightarrow> Inr xs | Val (PList vs) \<Rightarrow> Inr (map Val vs) | Val (PDict d) \<Rightarrow> Inr (map (\<lambda>k. Val (PStr k)) (dkeys d))
   | Val (PStr s) \<Rightarrow> Inr (map (\<lambda>c. Val (PStr [c])) s) | _ \<Rightarrow> Inl TypeError)"

definition payload_message :: "conversions \<Rightarrow> int \<Rightarrow> pyobj \<Rightarrow> pyval" where
  "payload_message cv n m = (case (attr_of m ''role'', attr_of m ''content'') of
     (Some r, Some c) \<Rightarrow> PDict [(''role'', PStr (obj_str cv r)), (''content'', PStr (slice_to n (obj_str cv c)))]
   | _ \<Rightarrow> (case m of
       Val (PDict d) \<Rightarrow> PDict [(''role'', dget_or d ''role'' (PStr ''unknown'')),
         (''content'', PStr (slice_to n (py_str (cv_text cv) (dget_or d ''content'' (PStr [])))))]
     | _ \<Rightarrow> PDict [(''role'', PStr ''unknown''), (''content'', PStr (slice_to n (obj_str cv m)))]))"

definition serialize_payload_messages :: "conversions \<Rightarrow> int \<Rightarrow> pyobj \<Rightarrow> pyval list" where
  "serialize_payload_messages cv n x =
     map (payload_message cv n) (case x of Objs xs \<Rightarrow> xs | Val (PList vs) \<Rightarrow> map Val vs | _ \<Rightarrow> [x])"

section \<open>The handler\<close>

record li_handler = handler +
  h_traces :: "(string, string list) dict"
  h_trace :: "string option"

definition new_li :: li_handler where
  "new_li = \<lparr>h_decisions = [], h_inflight = [], h_exports = [], h_traces = [], h_trace = None\<rparr>"

definition clear_li :: "li_handler \<Rightarrow> li_handler" where
  "clear_li h = h\<lparr>h_decisions := [], h_inflight := [], h_traces := []\<rparr>"

definition start_trace :: "string option \<Rightarrow> string \<Rightarrow> li_handler \<Rightarrow> li_handler" where
  "start_trace tid fresh h = (let t = (if str_truthy tid then the tid else fresh) in h\<lparr>h_trace := Some t, h_traces := dset (h_traces h) t []\<rparr>)"

definition end_trace :: "string option \<Rightarrow> li_handler \<Rightarrow> li_handler" where
  "end_trace tid h = (let t = (if str_truthy tid then tid else h_trace h) in
     h\<lparr>h_traces := (if str_truthy t then ddel (h_traces h) (the t) else h_traces h), h_trace := None\<rparr>)"

definition li_begun :: "li_config \<Rightarrow> string \<Rightarrow> string \<Rightarrow> datetime \<Rightarrow> string \<Rightarrow> pyval \<Rightarrow> pydict \<Rightarrow> pydict \<Rightarrow> captured_decision" where
  "li_begun cfg ev par now kind name inputs params = \<lparr>cd_id = ev, cd_type = kind, cd_name = name, cd_inputs = inputs, cd_outputs = [],
     cd_params = params, cd_error = None, cd_started = Some now, cd_ended = None, cd_ms = None,
     cd_parent = (if par = [] then None else Some par), cd_tags = [], cd_tokens = None, cd_version = lx_version cfg\<rparr>"

fun li_params :: "pyobj \<Rightarrow> string list \<Rightarrow> pydict res" where
  "li_params m [] = Inr []"
| "li_params m (k # ks) = rbind (obj_key m k) (\<lambda>r. rbind (li_params m ks) (\<lambda>rest.
     Inr ((case r of None \<Rightarrow> [] | Some v \<Rightarrow> [(k, v)]) @ rest)))"

definition model_name_of :: "conversions \<Rightarrow> payload \<Rightarrow> pyval res" where
  "model_name_of cv p = (let n = dget_or p ''model_name'' (Val PNone) in
     if obj_truthy n then Inr (as_val cv n) else obj_get (dget_or p ''model_dict'' (Val (PDict []))) ''model'' (PStr ''unknown_llm''))"

definition li_llm_start :: "li_config \<Rightarrow> string \<Rightarrow> string \<Rightarrow> datetime \<Rightarrow> payload \<Rightarrow> captured_decision res" where
  "li_llm_start cfg ev par now p =
     (let cv = lx_conv cfg; messages = dget_or p ''messages'' (Val (PList [])); template = dget_or p ''template'' (Val (PStr []));
          inputs = (if obj_truthy messages then [(''messages'', PList (serialize_payload_messages cv (lx_in cfg) messages))] else [])
            @ (if obj_truthy template then [(''template'', PStr (slice_to (lx_in cfg) (obj_str cv template)))] else [])
      in rbind (model_name_of cv p) (\<lambda>name.
           rbind (li_params (dget_or p ''model_dict'' (Val (PDict []))) [''temperature'', ''max_tokens'', ''top_p'']) (\<lambda>params.
             Inr (li_begun cfg ev par now ''llm'' name inputs params))))"

definition li_embedding_start :: "li_config \<Rightarrow> string \<Rightarrow> string \<Rightarrow> datetime \<Rightarrow> payload \<Rightarrow> captured_decision res" where
  "li_embedding_start cfg ev par now p =
     (let name = dget_or p ''model_name'' (Val (PStr ''unknown_embedding_model'')); ser = dget_or p ''serialized'' (Val (PDict []))
      in rbind (obj_len (dget_or p ''texts'' (Val (PList [])))) (\<lambda>n.
           Inr (li_begun cfg ev par now ''embedding'' (as_val (lx_conv cfg) name) [(''text_count'', PInt n)]
             (case ser of Val (PDict d) \<Rightarrow> d | _ \<Rightarrow> []))))"

text \<open>Retrieval, query and synthesis.\<close>

definition li_query_start :: "li_config \<Rightarrow> string \<Rightarrow> string \<Rightarrow> string \<Rightarrow> string \<Rightarrow> datetime \<Rightarrow> payload \<Rightarrow> captured_decision res" where
  "li_query_start cfg kind name ev par now p =
     Inr (li_begun cfg ev par now kind (PStr name)
       [(''query'', PStr (slice_to (lx_in cfg) (obj_str (lx_conv cfg) (dget_or p ''query_str'' (Val (PStr []))))))] [])"

definition li_begin :: "li_handler \<Rightarrow> string \<Rightarrow> captured_decision res \<Rightarrow> string res \<times> li_handler" where
  "li_begin h ev r = (case start_run False r h of (Inl e, h1) \<Rightarrow> (Inl e, h1) | (Inr u, h1) \<Rightarrow> (Inr ev, h1))"

definition on_event_start ::
  "li_config \<Rightarrow> string \<Rightarrow> payload option \<Rightarrow> string \<Rightarrow> string \<Rightarrow> string \<Rightarrow> datetime \<Rightarrow> li_handler \<Rightarrow> string res \<times> li_handler" where
  \<comment> \<open>the event id, the parent id, and the id made up where the first is empty\<close>
  "on_event_start cfg kind pl event_id par fresh now h =
     (if kind \<in> set (lx_ignore_starts cfg) then (Inr event_id, h)
      else let ev = (if event_id = [] then fresh else event_id);
               p = (case pl of None \<Rightarrow> [] | Some d \<Rightarrow> d)
      in if kind = ''llm'' \<and> lx_llm cfg then li_begin h ev (li_llm_start cfg ev par now p)
         else if kind = ''embedding'' \<and> lx_embeddings cfg then li_begin h ev (li_embedding_start cfg ev par now p)
         else if kind = ''retrieve'' \<and> lx_retrievals cfg then li_begin h ev (li_query_start cfg ''retriever'' ''retriever'' ev par now p)
         else if kind = ''query'' \<and> lx_queries cfg then li_begin h ev (li_query_start cfg ''query'' ''query_engine'' ev par now p)
         else if kind = ''synthesize'' \<and> lx_queries cfg then li_begin h ev (li_query_start cfg ''synthesize'' ''synthesizer'' ev par now p)
         else (Inr ev, h))"

section \<open>The ends\<close>

definition li_text :: "conversions \<Rightarrow> payload \<Rightarrow> pyobj" where
  "li_text cv p = (let r = dget_or p ''response'' (Val (PStr [])) in
     case attr_of r ''text'' of
       Some t \<Rightarrow> t
     | None \<Rightarrow> (case attr_of r ''message'' of
         Some m \<Rightarrow> (case attr_of m ''content'' of Some c \<Rightarrow> c | None \<Rightarrow> Val (PStr (obj_str cv r)))
       | None \<Rightarrow> Val (PStr (obj_str cv r))))"

text \<open>A number counts as prompt and total tokens, \<open>True\<close> included; of an object the attributes.\<close>

definition li_usage :: "conversions \<Rightarrow> payload \<Rightarrow> pydict option" where
  "li_usage cv p = (let t = dget_or p ''token_count'' (Val PNone);
       n = (case t of Val (PInt i) \<Rightarrow> PInt i | Val (PBool b) \<Rightarrow> PBool b | _ \<Rightarrow> PInt 0);
       part = (\<lambda>k other. case attr_of t k of Some x \<Rightarrow> as_val cv x | None \<Rightarrow> other)
     in if \<not> obj_truthy t then None
        else Some [(''prompt_tokens'', part ''prompt_tokens'' n), (''completion_tokens'', part ''completion_tokens'' (PInt 0)),
                   (''total_tokens'', part ''total_tokens'' n)])"

definition li_llm_end :: "li_config \<Rightarrow> payload \<Rightarrow> captured_decision \<Rightarrow> captured_decision res" where
  "li_llm_end cfg p d = rbind (obj_slice (lx_out cfg) (li_text (lx_conv cfg) p)) (\<lambda>t.
     Inr (d\<lparr>cd_outputs := [(''text'', t)], cd_tokens := (case li_usage (lx_conv cfg) p of None \<Rightarrow> cd_tokens d | Some u \<Rightarrow> Some u)\<rparr>))"

text \<open>\<open>len(chunks[0]) if chunks and isinstance(chunks[0], (list, tuple)) else 0\<close>\<close>

definition chunk_dimensions :: "pyobj \<Rightarrow> int res" where
  "chunk_dimensions x = (case x of
     Objs (y # ys) \<Rightarrow> Inr (case y of Objs zs \<Rightarrow> int (length zs) | Val (PList vs) \<Rightarrow> int (length vs) | _ \<Rightarrow> 0)
   | Val (PList (v # vs)) \<Rightarrow> Inr (case v of PList us \<Rightarrow> int (length us) | _ \<Rightarrow> 0)
   | Val (PDict (kv # d)) \<Rightarrow> Inl KeyError
   | _ \<Rightarrow> Inr 0)"

definition li_embedding_end :: "payload \<Rightarrow> captured_decision \<Rightarrow> captured_decision res" where
  "li_embedding_end p d = (let chunks = dget_or p ''chunks'' (dget_or p ''embeddings'' (Val (PList []))) in
     rbind (obj_len chunks) (\<lambda>n. rbind (chunk_dimensions chunks) (\<lambda>k.
       Inr (d\<lparr>cd_outputs := [(''embedding_count'', PInt n), (''dimensions'', PInt k)]\<rparr>))))"

definition node_summary :: "conversions \<Rightarrow> pyobj \<Rightarrow> pyval list res" where
  \<comment> \<open>no or one entry\<close>
  "node_summary cv x =
     (let score = (case attr_of x ''score'' of Some s \<Rightarrow> as_val cv s | None \<Rightarrow> PNone);
          entry = (\<lambda>t. rbind (obj_slice 200 t) (\<lambda>s. Inr [PDict [(''content_preview'', s), (''score'', score)]]))
      in case attr_of x ''text'' of
           Some t \<Rightarrow> entry t
         | None \<Rightarrow> (case (case attr_of x ''node'' of Some y \<Rightarrow> attr_of y ''text'' | None \<Rightarrow> None) of
             Some t \<Rightarrow> entry t
           | None \<Rightarrow> (case x of
               Val (PDict e) \<Rightarrow> Inr [PDict [(''content_preview'', PStr (take 200 (py_str (cv_text cv) (dget_or e ''text'' (PStr []))))),
                                            (''score'', dget_or e ''score'' PNone)]]
             | _ \<Rightarrow> Inr [])))"

fun node_summaries :: "conversions \<Rightarrow> pyobj list \<Rightarrow> pyval list res" where
  "node_summaries cv [] = Inr []"
| "node_summaries cv (x # xs) = rbind (node_summary cv x) (\<lambda>s. rbind (node_summaries cv xs) (\<lambda>ss. Inr (s @ ss)))"

definition li_retrieve_end :: "li_config \<Rightarrow> payload \<Rightarrow> captured_decision \<Rightarrow> captured_decision res" where
  "li_retrieve_end cfg p d = rbind (obj_items (dget_or p ''nodes'' (Val (PList [])))) (\<lambda>xs. rbind (node_summaries (lx_conv cfg) xs) (\<lambda>docs.
     Inr (d\<lparr>cd_outputs := [(''document_count'', PInt (int (length docs))), (''documents'', PList docs)]\<rparr>)))"

text \<open>Query and synthesis.\<close>

definition li_response_end :: "li_config \<Rightarrow> payload \<Rightarrow> captured_decision \<Rightarrow> captured_decision res" where
  "li_response_end cfg p d = (let r = dget_or p ''response'' (Val (PStr []));
       t = (case attr_of r ''response'' of Some x \<Rightarrow> obj_str (lx_conv cfg) x | None \<Rightarrow> obj_str (lx_conv cfg) r)
     in Inr (d\<lparr>cd_outputs := [(''response'', PStr (slice_to (lx_out cfg) t))]\<rparr>))"

text \<open>The run of the exception, or else the one put in flight last.\<close>

definition on_exception :: "li_config \<Rightarrow> string \<Rightarrow> payload \<Rightarrow> datetime \<Rightarrow> li_handler \<Rightarrow> unit res \<times> li_handler" where
  "on_exception cfg ev p now h =
     (let error = obj_str (lx_conv cfg) (dget_or p ''exception'' (dget_or p ''error'' (Val (PStr ''unknown error''))));
          key = (if dget (h_inflight h) ev \<noteq> None then ev else case h_inflight h of [] \<Rightarrow> ev | xs \<Rightarrow> fst (last xs))
      in (Inr (), snd (finish_run key now (\<lambda>d. Inr (d\<lparr>cd_error := Some error\<rparr>)) h)))"

definition query_end :: "li_config \<Rightarrow> payload \<Rightarrow> string \<Rightarrow> datetime \<Rightarrow> li_handler \<Rightarrow> captured_decision option res \<times> li_handler" where
  "query_end cfg p ev now h = (case finish_run ev now (li_response_end cfg p) h of
     (Inr (Some d), h1) \<Rightarrow> (Inr (Some d), h1\<lparr>h_exports := h_exports h1 @ [decision_dict d]\<rparr>)
   | r \<Rightarrow> r)"

definition on_event_end :: "li_config \<Rightarrow> string \<Rightarrow> payload option \<Rightarrow> string \<Rightarrow> datetime \<Rightarrow> li_handler \<Rightarrow> unit res \<times> li_handler" where
  "on_event_end cfg kind pl ev now h =
     (let p = (case pl of None \<Rightarrow> [] | Some d \<Rightarrow> d);
          done = (\<lambda>(r, h1). (case r of Inl e \<Rightarrow> Inl e | Inr d \<Rightarrow> Inr (), h1))
      in if kind \<in> set (lx_ignore_ends cfg) then (Inr (), h)
         else if kind = ''llm'' \<and> lx_llm cfg then done (finish_run ev now (li_llm_end cfg p) h)
         else if kind = ''embedding'' \<and> lx_embeddings cfg then done (finish_run ev now (li_embedding_end p) h)
         else if kind = ''retrieve'' \<and> lx_retrievals cfg then done (finish_run ev now (li_retrieve_end cfg p) h)
         else if kind = ''query'' \<and> lx_queries cfg then done (query_end cfg p ev now h)
         else if kind = ''synthesize'' \<and> lx_queries cfg then done (finish_run ev now (li_response_end cfg p) h)
         else if kind = ''exception'' then on_exception cfg ev p now h
         else (Inr (), h))"

section \<open>Runs of events\<close>

inductive li_step :: "li_config \<Rightarrow> li_handler \<Rightarrow> string option \<Rightarrow> li_handler \<Rightarrow> bool" for cfg h where
  li_start: "on_event_start cfg kind pl event_id par fresh now h = (r, h') \<Longrightarrow>
    li_step cfg h (Some (if event_id = [] then fresh else event_id)) h'"
| li_end: "on_event_end cfg kind pl ev now h = (r, h') \<Longrightarrow> li_step cfg h None h'"
| li_trace_start: "li_step cfg h None (start_trace tid fresh h)"
| li_trace_end: "li_step cfg h None (end_trace tid h)"

lemma li_begun_in_flight: "in_flight (li_begun cfg ev par now kind name inputs params)" "cd_id (li_begun cfg ev par now kind name inputs params) = ev"
  by (simp_all add: li_begun_def in_flight_def)

lemma li_starts:
  "li_llm_start cfg ev par now p = Inr d \<Longrightarrow> in_flight d \<and> cd_id d = ev"
  "li_embedding_start cfg ev par now p = Inr d \<Longrightarrow> in_flight d \<and> cd_id d = ev"
  "li_query_start cfg kind name ev par now p = Inr d \<Longrightarrow> in_flight d \<and> cd_id d = ev"
  by (auto simp: li_llm_start_def li_embedding_start_def li_query_start_def Let_def rbind_Inr_iff li_begun_in_flight)

lemma li_closes:
  "closes (li_llm_end cfg p)" "closes (li_embedding_end p)" "closes (li_retrieve_end cfg p)" "closes (li_response_end cfg p)"
  by (auto simp: closes_def li_llm_end_def li_embedding_end_def li_retrieve_end_def li_response_end_def Let_def rbind_Inr_iff)

lemma li_begin_effect:
  assumes "li_begin h ev q = (r, h')" "\<And>d. q = Inr d \<Longrightarrow> in_flight d \<and> cd_id d = ev"
  shows "run_effect h (Some ev) h' \<and> h_exports h' = h_exports h"
proof -
  obtain u h1 where s: "start_run False q h = (u, h1)" by (cases "start_run False q h")
  then have "h1 = h'" using assms(1) by (cases u) (auto simp: li_begin_def)
  then show ?thesis using start_effect [OF s assms(2)] s by (cases q) (auto simp: start_run_def)
qed

lemma li_start_effect:
  assumes "on_event_start cfg kind pl event_id par fresh now h = (r, h')"
  shows "run_effect h (Some (if event_id = [] then fresh else event_id)) h' \<and> h_exports h' = h_exports h"
proof -
  let ?ev = "if event_id = [] then fresh else event_id"
  have same: ?thesis if "h' = h" using that by (simp add: run_effect_def)
  consider "h' = h" | q where "li_begin h ?ev q = (r, h')" "\<And>d. q = Inr d \<Longrightarrow> in_flight d \<and> cd_id d = ?ev"
    using assms li_starts unfolding on_event_start_def Let_def by (auto split: if_splits)
  then show ?thesis using same li_begin_effect by cases blast+
qed

lemma finish_exports: "finish_run key now f h = (q, h1) \<Longrightarrow> h_exports h1 = h_exports h"
  by (auto simp: finish_run_def Let_def split: option.splits sum.splits)

definition answered :: "captured_decision \<Rightarrow> bool" where
  "answered d \<longleftrightarrow> completed d \<and> cd_error d = None \<and> dget (cd_outputs d) ''response'' \<noteq> None"

text \<open>What a callback exports: nothing, or the dictionary of the decision it records.\<close>

definition exports_last :: "'a handler_scheme \<Rightarrow> 'a handler_scheme \<Rightarrow> bool" where
  "exports_last h h' \<longleftrightarrow> h_exports h' = h_exports h
     \<or> (\<exists>d. answered d \<and> h_decisions h' = h_decisions h @ [d] \<and> h_exports h' = h_exports h @ [decision_dict d])"

lemma li_finish_effect:
  assumes "finish_run key now f h = (q, h')" "closes f" "\<And>k d. dget (h_inflight h) k = Some d \<Longrightarrow> in_flight d \<and> cd_id d = k"
  shows "run_effect h None h' \<and> exports_last h h'"
  using finish_effect [OF assms refl refl] finish_exports [OF assms(1)] by (simp add: exports_last_def)

lemma query_end_effect:
  assumes "query_end cfg p ev now h = (q, h')" "\<And>k d. dget (h_inflight h) k = Some d \<Longrightarrow> in_flight d \<and> cd_id d = k"
  shows "run_effect h None h' \<and> exports_last h h'"
proof -
  obtain q1 h1 where f: "finish_run ev now (li_response_end cfg p) h = (q1, h1)" by (cases "finish_run ev now (li_response_end cfg p) h")
  have h': "h_inflight h' = h_inflight h1" "h_decisions h' = h_decisions h1"
    using assms(1) f by (auto simp: query_end_def split: sum.splits option.splits)
  have e: "run_effect h None h'" by (rule finish_effect [OF f li_closes(4) assms(2) h'])
  consider d where "q1 = Inr (Some d)" "h_exports h' = h_exports h1 @ [decision_dict d]" | "h_exports h' = h_exports h1"
    using assms(1) f by (auto simp: query_end_def split: sum.splits option.splits)
  then show ?thesis
  proof cases
    case (1 d)
    from finish_step [OF f li_closes(4) assms(2)] 1(1)
    have d: "completed d" "h_decisions h1 = h_decisions h @ [d]" "\<exists>d0. in_flight d0 \<and> li_response_end cfg p (timed now d0) = Inr d" by auto
    then have "answered d" by (auto simp: answered_def li_response_end_def Let_def in_flight_def timed_def)
    then show ?thesis using e d 1(2) h'(2) finish_exports [OF f] by (auto simp: exports_last_def)
  qed (use e finish_exports [OF f] in \<open>simp add: exports_last_def\<close>)
qed

lemma on_exception_effect:
  assumes "on_exception cfg ev p now h = (r, h')" "\<And>k d. dget (h_inflight h) k = Some d \<Longrightarrow> in_flight d \<and> cd_id d = k"
  shows "run_effect h None h' \<and> exports_last h h'"
  using assms(1) unfolding on_exception_def Let_def
  by (auto dest: sym [of "snd _"] intro!: li_finish_effect [OF prod.collapse [symmetric] closes_intros(2) assms(2)])

lemma li_end_effect:
  assumes "on_event_end cfg kind pl ev now h = (r, h')" "\<And>k d. dget (h_inflight h) k = Some d \<Longrightarrow> in_flight d \<and> cd_id d = k"
  shows "run_effect h None h' \<and> exports_last h h'"
proof -
  have same: ?thesis if "h' = h" using that by (simp add: run_effect_def exports_last_def)
  consider "h' = h" | key f q where "finish_run key now f h = (q, h')" "closes f"
    | p q where "query_end cfg p ev now h = (q, h')" | p where "on_exception cfg ev p now h = (r, h')"
    using assms(1) li_closes unfolding on_event_end_def Let_def by (auto split: if_splits prod.splits)
  then show ?thesis
    using same li_finish_effect [OF _ _ assms(2)] query_end_effect [OF _ assms(2)] on_exception_effect [OF _ assms(2)] by cases blast+
qed

lemma li_step_effect:
  assumes "li_step cfg h l h'" "\<And>k d. dget (h_inflight h) k = Some d \<Longrightarrow> in_flight d \<and> cd_id d = k"
  shows "run_effect h l h' \<and> exports_last h h'"
  using assms(1)
proof cases
  case (li_start kind pl event_id par fresh now r)
  then show ?thesis using li_start_effect by (auto simp: exports_last_def)
next
  case (li_end kind pl ev now r)
  then show ?thesis using li_end_effect [OF _ assms(2)] by blast
qed (simp_all add: run_effect_def exports_last_def start_trace_def end_trace_def Let_def)

interpretation li: run_recorder "li_step cfg" clear_li new_li
  by unfold_locales (use li_step_effect in \<open>auto simp: clear_li_def new_li_def\<close>)

section \<open>What is exported\<close>

lemma exports_recorded:
  "recorder_steps (li_step cfg) new_li h \<Longrightarrow>
    \<exists>ds ks. h_exports h = map decision_dict ds \<and> subseq ds (h_decisions h) \<and> list_all answered ds \<and> handler_ok ks h"
proof (induction rule: recorder_steps.induct)
  case steps_none
  show ?case by (intro exI [of _ "[]"]) (simp add: new_li_def handler_ok_def)
next
  case (steps_more h1 l h2)
  then obtain ds ks where ih: "h_exports h1 = map decision_dict ds" "subseq ds (h_decisions h1)" "list_all answered ds" "handler_ok ks h1"
    by blast
  have e: "run_effect h1 l h2" "exports_last h1 h2" using li_step_effect [OF steps_more(2)] ih(4) by (auto simp: handler_ok_def)
  have ok: "\<exists>ks. handler_ok ks h2" using handler_ok_effect [OF ih(4) e(1)] by blast
  obtain more where more: "h_decisions h2 = h_decisions h1 @ more" using e(1) by (auto simp: run_effect_def ended_by_def)
  from e(2) show ?case unfolding exports_last_def
  proof (elim disjE exE conjE)
    assume "h_exports h2 = h_exports h1"
    then show ?thesis using ih ok more by (metis subseq_rev_drop_many)
  next
    fix d
    assume "answered d" "h_decisions h2 = h_decisions h1 @ [d]" "h_exports h2 = h_exports h1 @ [decision_dict d]"
    then show ?thesis using ih ok by (intro exI [of _ "ds @ [d]"]) (simp add: list_emb_append_mono)
  qed
qed

text \<open>
  C35: What the LlamaIndex handler exports. After any events in any order, the exports are the
  dictionaries of recorded decisions that were answered without an error, each recorded decision at
  most once and in the order of recording; and the end of a query in flight records and exports
  exactly its own decision, with the inputs it began with.
\<close>

theorem llamaindex_exports:
  assumes "recorder_steps (li_step cfg) new_li h" and flight: "dget (h_inflight h) ev = Some d0"
    and kept: "''query'' \<notin> set (lx_ignore_ends cfg)" "lx_queries cfg"
    and ends: "on_event_end cfg ''query'' pl ev now h = (r, h')"
  shows "\<exists>ds d. h_exports h = map decision_dict ds \<and> subseq ds (h_decisions h) \<and> list_all answered (ds @ [d])
    \<and> r = Inr () \<and> h_exports h' = map decision_dict (ds @ [d]) \<and> h_decisions h' = h_decisions h @ [d]
    \<and> cd_id d = ev \<and> cd_inputs d = cd_inputs d0 \<and> dget (h_inflight h') ev = None"
proof -
  from exports_recorded [OF assms(1)] obtain ds ks where ds: "h_exports h = map decision_dict ds" "subseq ds (h_decisions h)"
    "list_all answered ds" "handler_ok ks h" by blast
  have d0: "in_flight d0" "cd_id d0 = ev" using ds(4) flight by (auto simp: handler_ok_def)
  let ?p = "case pl of None \<Rightarrow> [] | Some d \<Rightarrow> d"
  obtain d where d: "li_response_end cfg ?p (timed now d0) = Inr d" by (simp add: li_response_end_def Let_def)
  then have "query_end cfg ?p ev now h = (Inr (Some d), h\<lparr>h_inflight := ddel (h_inflight h) ev, h_decisions := h_decisions h @ [d],
      h_exports := h_exports h @ [decision_dict d]\<rparr>)"
    using flight by (simp add: query_end_def finish_run_def Let_def)
  then have q: "r = Inr ()" "h' = h\<lparr>h_inflight := ddel (h_inflight h) ev, h_decisions := h_decisions h @ [d],
      h_exports := h_exports h @ [decision_dict d]\<rparr>"
    using ends kept by (simp_all add: on_event_end_def Let_def)
  have "cd_id d = ev" "cd_inputs d = cd_inputs d0" using d d0 by (auto simp: li_response_end_def Let_def timed_def)
  moreover have "answered d" using d d0(1) closes_completed [OF li_closes(4) d0(1) d]
    by (auto simp: answered_def li_response_end_def Let_def timed_def in_flight_def)
  ultimately show ?thesis using q ds by (intro exI [of _ ds] exI [of _ d]) simp
qed

section \<open>An example\<close>

definition li_demo :: li_config where
  "li_demo = \<lparr>lx_llm = True, lx_embeddings = True, lx_retrievals = True, lx_queries = True, lx_in = 10, lx_out = 3, lx_ignore_starts = [],
     lx_ignore_ends = [], lx_version = None, lx_conv = \<lparr>cv_text = (\<lambda>q. ''0''), cv_obj = (\<lambda>x. ''obj''), cv_float = (\<lambda>s. None)\<rparr>\<rparr>"

definition li_demo_begun :: li_handler where
  "li_demo_begun = snd (on_event_start li_demo ''query'' (Some [(''query_str'', Val (PStr ''why''))]) ''q'' [] ''f'' \<lparr>dt_wall = 5, dt_off = Some 0\<rparr> new_li)"

theorem llamaindex_exports_witness:
  "\<exists>d. h_exports (snd (on_event_end li_demo ''query'' (Some [(''response'', Val (PStr ''because''))]) ''q'' \<lparr>dt_wall = 9, dt_off = Some 0\<rparr> li_demo_begun))
      = [decision_dict d] \<and> answered d \<and> cd_inputs d = [(''query'', PStr ''why'')]"
proof -
  have "li_step li_demo new_li (Some (if ''q'' = [] then ''f'' else ''q'')) li_demo_begun"
    unfolding li_demo_begun_def by (rule li_step.li_start [OF surjective_pairing])
  then have steps: "recorder_steps (li_step li_demo) new_li li_demo_begun" by (rule steps_more [OF steps_none])
  have "map_option cd_inputs (dget (h_inflight li_demo_begun) ''q'') = Some [(''query'', PStr ''why'')]" "h_exports li_demo_begun = []"
    by code_simp+
  then obtain d0 where d0: "dget (h_inflight li_demo_begun) ''q'' = Some d0" "cd_inputs d0 = [(''query'', PStr ''why'')]" "h_exports li_demo_begun = []"
    by auto
  have "''query'' \<notin> set (lx_ignore_ends li_demo)" "lx_queries li_demo" by (simp_all add: li_demo_def)
  from llamaindex_exports [OF steps d0(1) this surjective_pairing] show ?thesis using d0 by fastforce
qed

text \<open>An exception is recorded for the run begun last when its own is unknown, and is not exported.\<close>

lemma exception_takes_latest:
  "map (\<lambda>d. (cd_id d, cd_error d)) (h_decisions (snd (on_event_end li_demo ''exception'' None ''other'' \<lparr>dt_wall = 9, dt_off = Some 0\<rparr> li_demo_begun)))
     = [(''q'', Some ''unknown error'')]"
  "h_exports (snd (on_event_end li_demo ''exception'' None ''other'' \<lparr>dt_wall = 9, dt_off = Some 0\<rparr> li_demo_begun)) = []"
  by code_simp+

end
