(* ===== verification/Observers.thy ===== *)
theory Observers
  imports Exporters
begin

text \<open>
  \<open>integrations/frameworks/autogen_handler.py\<close> and \<open>ag2_handler.py\<close>: the log handler and the hooks that
  record each thing they see as one decision. What the frameworks pass are objects with attributes
  (\<open>pyobj\<close>); their texts, which \<open>str\<close> may fail to give, the clock and the ids are arguments. The results:
  every observation is recorded and exported exactly once and in order, and each text a record holds of an argument
  is bounded by the limit that is configured for it.
\<close>

section \<open>Texts\<close>

text \<open>\<open>str(x)\<close>; \<open>None\<close> where it raises.\<close>

definition ostr :: "(pyobj \<Rightarrow> string option) \<Rightarrow> pyobj \<Rightarrow> string option" where
  "ostr tx x = (case x of Val (PStr s) \<Rightarrow> Some s | _ \<Rightarrow> tx x)"

definition safe_str :: "(pyobj \<Rightarrow> string option) \<Rightarrow> int \<Rightarrow> pyobj \<Rightarrow> string" where
  "safe_str tx n x = (case ostr tx x of Some t \<Rightarrow> slice_to n t | None \<Rightarrow> ''<unserializable>'')"

text \<open>A list of values or of objects, its items.\<close>

definition list_items :: "pyobj \<Rightarrow> pyobj list option" where
  "list_items x = (case x of Objs xs \<Rightarrow> Some xs | Val (PList vs) \<Rightarrow> Some (map Val vs) | _ \<Rightarrow> None)"

definition kept :: "(pyobj \<Rightarrow> string option) \<Rightarrow> pyobj \<Rightarrow> pyval" where
  "kept tx x = (case x of Val v \<Rightarrow> v | _ \<Rightarrow> PObj (case tx x of Some t \<Rightarrow> t | None \<Rightarrow> []))"

section \<open>Records\<close>

record observer =
  ob_records :: "pydict list"
  ob_exports :: "pydict list"

definition clear_records :: "'a observer_scheme \<Rightarrow> 'a observer_scheme" where
  "clear_records s = s\<lparr>ob_records := []\<rparr>"

definition append_and_export :: "pydict \<Rightarrow> 'a observer_scheme \<Rightarrow> 'a observer_scheme" where
  "append_and_export r s = s\<lparr>ob_records := ob_records s @ [r], ob_exports := ob_exports s @ [r]\<rparr>"

definition moment_record :: "string \<Rightarrow> datetime \<Rightarrow> string option \<Rightarrow> string \<Rightarrow> pyval \<Rightarrow> pydict \<Rightarrow> pydict \<Rightarrow> pydict \<Rightarrow> pydict" where
  "moment_record uid now version kind name inputs outputs extra =
     [(''decision_id'', PStr uid), (''decision_type'', PStr kind), (''function_name'', name), (''inputs'', PDict inputs),
      (''outputs'', PDict outputs), (''started_at'', PStr (isoformat now))] @ extra
     @ (case version of None \<Rightarrow> [] | Some v \<Rightarrow> [(''context_version'', PStr v)])"

section \<open>AutoGen\<close>

record autogen_config =
  ag_version :: "string option"
  ag_events :: bool
  ag_traces :: bool
  ag_in :: int
  ag_names :: "string \<times> string"
  ag_text :: "pyobj \<Rightarrow> string option"

definition safe_serialize :: "(pyobj \<Rightarrow> string option) \<Rightarrow> int \<Rightarrow> pyobj \<Rightarrow> pyval" where
  "safe_serialize tx n x = (case x of
     Val PNone \<Rightarrow> PNone
   | _ \<Rightarrow> (case list_items x of
       Some xs \<Rightarrow> PList (map (\<lambda>y. PStr (safe_str tx n y)) (take 50 xs))
     | None \<Rightarrow> PStr (safe_str tx n x)))"

text \<open>The kind, the inputs and the outputs of an event.\<close>

definition extract_event_data :: "(pyobj \<Rightarrow> string option) \<Rightarrow> int \<Rightarrow> pyobj \<Rightarrow> string \<times> pydict \<times> pydict" where
  "extract_event_data tx n m =
     (let has = (\<lambda>a. attr_of m a \<noteq> None);
          get = (\<lambda>a other. case attr_of m a of Some x \<Rightarrow> x | None \<Rightarrow> other);
          text_of = (\<lambda>a. PStr (safe_str tx n (get a (Val (PStr [])))));
          named = (\<lambda>p. is_substr p (class_name m))
      in if has ''source'' \<and> has ''content'' \<and> \<not> has ''tool_calls'' then
           if named ''Stop'' then
             (''control_message'', [(''source'', text_of ''source''), (''content'', text_of ''content''), (''subtype'', PStr ''stop'')], [])
           else if named ''Handoff'' then
             (''control_message'', [(''source'', text_of ''source''), (''target'', text_of ''target''), (''content'', text_of ''content''),
                (''subtype'', PStr ''handoff'')], [])
           else if named ''Summary'' then (''tool_call_summary'', [(''source'', text_of ''source''), (''content'', text_of ''content'')], [])
           else (''text_message'', [(''source'', text_of ''source''), (''content'', text_of ''content'')], [])
         else if has ''tool_calls'' \<and> \<not> has ''results'' then
           (''tool_call_request'', [(''source'', text_of ''source''), (''tool_calls'', safe_serialize tx n (get ''tool_calls'' (Val (PList []))))], [])
         else if has ''results'' then
           (''tool_call_execution'', [(''source'', text_of ''source'')], [(''results'', safe_serialize tx n (get ''results'' (Val (PList []))))])
         else case m of
           Val (PStr s) \<Rightarrow> (''autogen_event'', [(''raw'', PStr (slice_to n s))], [])
         | _ \<Rightarrow> (''autogen_event'', [(''type'', PStr (class_name m)), (''raw'', PStr (safe_str tx n m))], []))"

definition autogen_record :: "autogen_config \<Rightarrow> string \<Rightarrow> datetime \<Rightarrow> string \<Rightarrow> pyobj \<Rightarrow> pydict" where
  "autogen_record cfg uid now logger msg =
     (case extract_event_data (ag_text cfg) (ag_in cfg) msg of (kind, inputs, outputs) \<Rightarrow>
        moment_record uid now (ag_version cfg) kind
          (let s = dget_or inputs ''source'' PNone in if py_truthy s then s else PStr ''autogen'')
          inputs outputs [(''logger'', PStr logger)])"

definition autogen_emit :: "autogen_config \<Rightarrow> string \<Rightarrow> datetime \<Rightarrow> string \<Rightarrow> pyobj \<Rightarrow> observer \<Rightarrow> observer" where
  "autogen_emit cfg uid now logger msg s =
     (if logger = fst (ag_names cfg) \<and> \<not> ag_events cfg then s
      else if logger = snd (ag_names cfg) \<and> \<not> ag_traces cfg then s
      else append_and_export (autogen_record cfg uid now logger msg) s)"

section \<open>AG2\<close>

record ag2_config =
  a2_version :: "string option"
  a2_messages :: bool
  a2_llm :: bool
  a2_tools :: bool
  a2_state :: bool
  a2_in :: int
  a2_out :: int
  a2_text :: "pyobj \<Rightarrow> string option"

definition agent_name :: "(pyobj \<Rightarrow> string option) \<Rightarrow> pyobj \<Rightarrow> pyval" where
  "agent_name tx a = (case get_attr a ''name'' of
     Some x \<Rightarrow> if obj_truthy x then kept tx x else (case ostr tx a of Some t \<Rightarrow> PStr t | None \<Rightarrow> PNone)
   | None \<Rightarrow> (case ostr tx a of Some t \<Rightarrow> PStr t | None \<Rightarrow> PNone))"

definition safe_extract_message :: "(pyobj \<Rightarrow> string option) \<Rightarrow> int \<Rightarrow> pyobj \<Rightarrow> pyval" where
  "safe_extract_message tx n m = (case m of
     Val PNone \<Rightarrow> PNone
   | Val (PDict d) \<Rightarrow> (case ostr tx (Val (dget_or d ''content'' (PStr []))) of
       Some t \<Rightarrow> PDict [(''role'', dget_or d ''role'' (PStr ''unknown'')), (''content'', PStr (slice_to n t))]
     | None \<Rightarrow> PStr ''<unserializable>'')
   | _ \<Rightarrow> PStr (safe_str tx n m))"

text \<open>All texts of a collection, or none if one of them fails.\<close>

fun all_texts :: "(pyobj \<Rightarrow> string option) \<Rightarrow> pyobj list \<Rightarrow> string list option" where
  "all_texts tx [] = Some []"
| "all_texts tx (x # xs) = (case (ostr tx x, all_texts tx xs) of (Some t, Some ts) \<Rightarrow> Some (t # ts) | _ \<Rightarrow> None)"

definition safe_serialize_small :: "(pyobj \<Rightarrow> string option) \<Rightarrow> int \<Rightarrow> pyobj \<Rightarrow> pyval" where
  "safe_serialize_small tx n x = (case x of
     Val PNone \<Rightarrow> PNone
   | Val (PStr s) \<Rightarrow> PStr (slice_to n s)
   | Val (PInt i) \<Rightarrow> PInt i | Val (PFloat q) \<Rightarrow> PFloat q | Val (PBool b) \<Rightarrow> PBool b
   | Val (PDict d) \<Rightarrow> (case all_texts tx (map (\<lambda>kv. Val (snd kv)) (take 50 d)) of
       Some ts \<Rightarrow> PDict (zip (map fst (take 50 d)) (map (\<lambda>t. PStr (slice_to n t)) ts)) | None \<Rightarrow> PStr ''<unserializable>'')
   | _ \<Rightarrow> (case list_items x of
       Some xs \<Rightarrow> (case all_texts tx (take 50 xs) of
         Some ts \<Rightarrow> PList (map (\<lambda>t. PStr (slice_to n t)) ts) | None \<Rightarrow> PStr ''<unserializable>'')
     | None \<Rightarrow> PStr (safe_str tx n x)))"

datatype hook_call =
    MessageSend pyobj pyobj pyval | MessageContext pyobj | StateUpdate pyobj | LlmInput pyobj | LlmOutput pyobj
  | ToolInput pyobj | ToolOutput pyobj

definition hook_registered :: "ag2_config \<Rightarrow> hook_call \<Rightarrow> bool" where
  "hook_registered cfg c = (case c of
     MessageSend m r q \<Rightarrow> a2_messages cfg | MessageContext m \<Rightarrow> a2_messages cfg | StateUpdate x \<Rightarrow> a2_state cfg
   | LlmInput m \<Rightarrow> a2_llm cfg | LlmOutput x \<Rightarrow> a2_llm cfg | ToolInput x \<Rightarrow> a2_tools cfg | ToolOutput x \<Rightarrow> a2_tools cfg)"

definition ag2_record :: "ag2_config \<Rightarrow> string \<Rightarrow> datetime \<Rightarrow> pyobj \<Rightarrow> hook_call \<Rightarrow> pydict" where
  "ag2_record cfg uid now agent c =
     (let tx = a2_text cfg; name = agent_name tx agent;
          messages = (\<lambda>m. case list_items m of Some xs \<Rightarrow> map (safe_extract_message tx (a2_in cfg)) xs | None \<Rightarrow> []);
          rec = (\<lambda>kind inputs outputs. moment_record uid now (a2_version cfg) kind (if py_truthy name then name else PStr ''ag2'') inputs outputs [])
      in case c of
        MessageSend m r silent \<Rightarrow> rec ''message_send''
          [(''content'', safe_extract_message tx (a2_in cfg) m), (''recipient'', agent_name tx r), (''silent'', silent)] []
      | MessageContext m \<Rightarrow> rec ''message_context''
          [(''agent'', name), (''message_count'', PInt (int (length (messages m)))), (''messages'', PList (messages m))] []
      | StateUpdate x \<Rightarrow> rec ''state_update'' [(''agent'', name), (''state'', safe_serialize_small tx (a2_in cfg) x)] []
      | LlmInput m \<Rightarrow> rec ''llm_input'' [(''agent'', name), (''messages'', PList (messages m))] []
      | LlmOutput x \<Rightarrow> rec ''llm_output'' [] [(''agent'', name), (''response'', safe_serialize_small tx (a2_out cfg) x)]
      | ToolInput x \<Rightarrow> rec ''tool_input'' [(''agent'', name), (''tool_call'', safe_serialize_small tx (a2_in cfg) x)] []
      | ToolOutput x \<Rightarrow> rec ''tool_output'' [] [(''agent'', name), (''result'', safe_serialize_small tx (a2_out cfg) x)])"

definition ag2_hook :: "ag2_config \<Rightarrow> string \<Rightarrow> datetime \<Rightarrow> pyobj \<Rightarrow> hook_call \<Rightarrow> observer \<Rightarrow> observer" where
  "ag2_hook cfg uid now agent c s = (if hook_registered cfg c then append_and_export (ag2_record cfg uid now agent c) s else s)"

section \<open>Every observation once\<close>

text \<open>An observer that records and exports what \<open>shown\<close> says of each event, and nothing else.\<close>

locale record_observer =
  fixes observe :: "'e \<Rightarrow> observer \<Rightarrow> observer"
    and shown :: "'e \<Rightarrow> pydict option"
  assumes observes: "observe e s = (case shown e of None \<Rightarrow> s | Some r \<Rightarrow> append_and_export r s)"
begin

lemma observed:
  "ob_records (foldl (\<lambda>s e. observe e s) s es) = ob_records s @ List.map_filter shown es"
  "ob_exports (foldl (\<lambda>s e. observe e s) s es) = ob_exports s @ List.map_filter shown es"
  by (induction es arbitrary: s) (auto simp: observes append_and_export_def map_filter_simps split: option.splits)

end

type_synonym log_event = "string \<times> datetime \<times> string \<times> pyobj"
type_synonym hook_event = "string \<times> datetime \<times> pyobj \<times> hook_call"

abbreviation autogen_observe :: "autogen_config \<Rightarrow> log_event \<Rightarrow> observer \<Rightarrow> observer" where
  "autogen_observe cfg \<equiv> \<lambda>(uid, now, logger, msg). autogen_emit cfg uid now logger msg"

definition autogen_shown :: "autogen_config \<Rightarrow> log_event \<Rightarrow> pydict option" where
  "autogen_shown cfg = (\<lambda>(uid, now, logger, msg).
     if (logger = fst (ag_names cfg) \<and> \<not> ag_events cfg) \<or> (logger = snd (ag_names cfg) \<and> \<not> ag_traces cfg) then None
     else Some (autogen_record cfg uid now logger msg))"

abbreviation ag2_observe :: "ag2_config \<Rightarrow> hook_event \<Rightarrow> observer \<Rightarrow> observer" where
  "ag2_observe cfg \<equiv> \<lambda>(uid, now, agent, c). ag2_hook cfg uid now agent c"

definition ag2_shown :: "ag2_config \<Rightarrow> hook_event \<Rightarrow> pydict option" where
  "ag2_shown cfg = (\<lambda>(uid, now, agent, c). if hook_registered cfg c then Some (ag2_record cfg uid now agent c) else None)"

interpretation autogen: record_observer "autogen_observe cfg" "autogen_shown cfg"
  by unfold_locales (auto simp: autogen_shown_def autogen_emit_def)

interpretation ag2: record_observer "ag2_observe cfg" "ag2_shown cfg"
  by unfold_locales (auto simp: ag2_shown_def ag2_hook_def)

section \<open>Bounded records\<close>

definition short :: "int \<Rightarrow> pyval \<Rightarrow> bool" where
  "short n v = (case v of PStr s \<Rightarrow> int (length s) \<le> n | _ \<Rightarrow> False)"

definition small :: "int \<Rightarrow> pyval \<Rightarrow> bool" where
  "small n v = (case v of PStr s \<Rightarrow> short n v
     | PList xs \<Rightarrow> length xs \<le> 50 \<and> list_all (short n) xs
     | PDict d \<Rightarrow> length d \<le> 50 \<and> list_all (\<lambda>kv. short n (snd kv)) d
     | PObj s \<Rightarrow> False | _ \<Rightarrow> True)"

definition message_small :: "int \<Rightarrow> pyval \<Rightarrow> bool" where
  "message_small n v = (case v of PNone \<Rightarrow> True | PStr s \<Rightarrow> short n v
     | PDict d \<Rightarrow> (case dget d ''content'' of Some c \<Rightarrow> short n c | None \<Rightarrow> False) | _ \<Rightarrow> False)"

lemma slice_short: "0 \<le> n \<Longrightarrow> n \<le> m \<Longrightarrow> short m (PStr (slice_to n s))"
  by (auto simp: short_def slice_to_def)

lemma unserializable_short: "16 \<le> m \<Longrightarrow> short m (PStr ''<unserializable>'')"
  by (simp add: short_def)

lemma safe_str_short: "0 \<le> n \<Longrightarrow> n \<le> m \<Longrightarrow> 16 \<le> m \<Longrightarrow> short m (PStr (safe_str tx n x))"
  by (auto simp: safe_str_def slice_short unserializable_short split: option.splits)

lemma all_texts_length: "all_texts tx xs = Some ts \<Longrightarrow> length ts = length xs"
  by (induction xs arbitrary: ts) (auto split: option.splits)

lemma short_small: "short m v \<Longrightarrow> small m v"
  by (auto simp: small_def short_def split: pyval.splits)

lemma serialize_small:
  assumes "0 \<le> n" "n \<le> m" "16 \<le> m"
  shows "small m (safe_serialize_small tx n x)"
proof -
  note S = short_small [OF slice_short [OF assms(1,2)]] short_small [OF unserializable_short [OF assms(3)]] short_small [OF safe_str_short [OF assms]]
  have L: "small m (case all_texts tx (take 50 xs) of Some ts \<Rightarrow> PList (map (\<lambda>t. PStr (slice_to n t)) ts) | None \<Rightarrow> PStr ''<unserializable>'')" for xs
    using all_texts_length [of tx "take 50 xs"] S assms
    by (auto simp: small_def list_all_iff slice_short split: option.splits)
  have D: "small m (case all_texts tx (map (\<lambda>kv. Val (snd kv)) (take 50 d)) of
      Some ts \<Rightarrow> PDict (zip (map fst (take 50 d)) (map (\<lambda>t. PStr (slice_to n t)) ts)) | None \<Rightarrow> PStr ''<unserializable>'')" for d :: pydict
    using S assms by (auto simp: small_def list_all_iff slice_short dest!: set_zip_rightD split: option.splits)
  show ?thesis
  proof (cases x)
    case (Val v)
    then show ?thesis using S L D by (cases v) (auto simp: safe_serialize_small_def list_items_def small_def)
  qed (use S L in \<open>auto simp: safe_serialize_small_def list_items_def\<close>)
qed

lemma message_short:
  assumes "0 \<le> n" "n \<le> m" "16 \<le> m"
  shows "message_small m (safe_extract_message tx n x)"
proof (cases x)
  case (Val v)
  then show ?thesis using assms
    by (cases v) (auto simp: safe_extract_message_def message_small_def safe_str_short slice_short unserializable_short split: option.splits)
qed (use assms in \<open>simp_all add: safe_extract_message_def message_small_def safe_str_short\<close>)

text \<open>What an entry of a record holds of the observed arguments; names and roles are kept as they are, and the list of
  messages is as long as it was, with each message cut.\<close>

definition item_small :: "int \<Rightarrow> string \<times> pyval \<Rightarrow> bool" where
  "item_small n = (\<lambda>(k, v).
     if k \<in> {''state'', ''response'', ''tool_call'', ''result'', ''source'', ''target'', ''tool_calls'', ''results'', ''raw''} then small n v
     else if k = ''content'' then message_small n v
     else if k = ''messages'' then (case v of PList xs \<Rightarrow> list_all (message_small n) xs | _ \<Rightarrow> False)
     else True)"

definition part_small :: "string \<Rightarrow> int \<Rightarrow> pydict \<Rightarrow> bool" where
  "part_small part n r \<longleftrightarrow> (case dget r part of Some (PDict d) \<Rightarrow> list_all (item_small n) d | _ \<Rightarrow> False)"

lemma moment_small:
  "part_small ''inputs'' n (moment_record uid now version kind name inputs outputs extra) \<longleftrightarrow> list_all (item_small n) inputs"
  "part_small ''outputs'' n (moment_record uid now version kind name inputs outputs extra) \<longleftrightarrow> list_all (item_small n) outputs"
  by (simp_all add: part_small_def moment_record_def)

lemma ag2_record_small:
  assumes "0 \<le> a2_in cfg" "0 \<le> a2_out cfg"
  shows "part_small ''inputs'' (max 16 (a2_in cfg)) (ag2_record cfg uid now agent c)
    \<and> part_small ''outputs'' (max 16 (a2_out cfg)) (ag2_record cfg uid now agent c)"
proof -
  note B = max.cobounded2 [of "a2_in cfg" 16] max.cobounded1 [of 16 "a2_in cfg"] max.cobounded2 [of "a2_out cfg" 16] max.cobounded1 [of 16 "a2_out cfg"]
  note M = message_short [OF assms(1) B(1,2)]
  have list_small: "list_all (message_small (max 16 (a2_in cfg)))
      (case list_items x of Some xs \<Rightarrow> map (safe_extract_message (a2_text cfg) (a2_in cfg)) xs | None \<Rightarrow> [])" for x
    using M by (auto simp: list_all_iff split: option.splits)
  show ?thesis
    using M serialize_small [OF assms(1) B(1,2)] serialize_small [OF assms(2) B(3,4)] list_small
    by (cases c) (simp_all add: ag2_record_def Let_def moment_small item_small_def)
qed

lemma autogen_serialize_small:
  assumes "0 \<le> n" "n \<le> m" "16 \<le> m"
  shows "small m (safe_serialize tx n x)"
proof -
  have L: "small m (case list_items y of Some xs \<Rightarrow> PList (map (\<lambda>y. PStr (safe_str tx n y)) (take 50 xs)) | None \<Rightarrow> PStr (safe_str tx n y))" for y
    using safe_str_short [OF assms] short_small [OF safe_str_short [OF assms]] by (auto simp: small_def list_all_iff split: option.splits)
  show ?thesis
  proof (cases x)
    case (Val v)
    then show ?thesis using L by (cases v) (simp_all add: safe_serialize_def small_def)
  qed (use L in \<open>simp_all add: safe_serialize_def\<close>)
qed

definition event_small :: "int \<Rightarrow> string \<times> pydict \<times> pydict \<Rightarrow> bool" where
  "event_small m e = (case e of (kind, i, u) \<Rightarrow> list_all (item_small m) (i @ u))"

lemma event_small_intros:
  "event_small m a \<Longrightarrow> event_small m b \<Longrightarrow> event_small m (if c then a else b)"
  "list_all (item_small m) i \<Longrightarrow> list_all (item_small m) u \<Longrightarrow> event_small m (kind, i, u)"
  "item_small m kv \<Longrightarrow> list_all (item_small m) d \<Longrightarrow> list_all (item_small m) (kv # d)"
  "list_all (item_small m) []"
  by (simp_all add: event_small_def)

lemma extract_event_small:
  assumes "0 \<le> n" "n \<le> m" "16 \<le> m"
  shows "event_small m (extract_event_data tx n msg)"
proof -
  have t: "item_small m (''source'', PStr (safe_str tx n x))" "item_small m (''target'', PStr (safe_str tx n x))"
    "item_small m (''content'', PStr (safe_str tx n x))" "item_small m (''raw'', PStr (safe_str tx n x))"
    "item_small m (''tool_calls'', safe_serialize tx n x)" "item_small m (''results'', safe_serialize tx n x)"
    "item_small m (''raw'', PStr (slice_to n s))" "item_small m (''subtype'', v)" "item_small m (''type'', v)" for x s v
    using safe_str_short [OF assms] short_small autogen_serialize_small [OF assms] slice_short [OF assms(1,2)]
    by (simp_all add: item_small_def message_small_def)
  have last: "event_small m (case msg of Val (PStr s) \<Rightarrow> (''autogen_event'', [(''raw'', PStr (slice_to n s))], [])
      | _ \<Rightarrow> (''autogen_event'', [(''type'', PStr (class_name msg)), (''raw'', PStr (safe_str tx n msg))], []))"
    by (auto intro!: event_small_intros t split: pyobj.splits pyval.splits)
  show ?thesis unfolding extract_event_data_def Let_def by (intro event_small_intros t last)
qed

lemma autogen_record_small:
  assumes "0 \<le> ag_in cfg"
  shows "part_small ''inputs'' (max 16 (ag_in cfg)) (autogen_record cfg uid now logger msg)
    \<and> part_small ''outputs'' (max 16 (ag_in cfg)) (autogen_record cfg uid now logger msg)"
  using extract_event_small [OF assms max.cobounded2 [of "ag_in cfg" 16] max.cobounded1 [of 16 "ag_in cfg"], of "ag_text cfg" msg]
  by (auto simp: event_small_def autogen_record_def moment_small split: prod.splits)

definition new_observer :: observer where
  "new_observer = \<lparr>ob_records = [], ob_exports = []\<rparr>"

text \<open>What a hook call is recorded as.\<close>

definition hook_kind :: "hook_call \<Rightarrow> string" where
  "hook_kind c = (case c of MessageSend m r q \<Rightarrow> ''message_send'' | MessageContext m \<Rightarrow> ''message_context''
     | StateUpdate x \<Rightarrow> ''state_update'' | LlmInput m \<Rightarrow> ''llm_input'' | LlmOutput x \<Rightarrow> ''llm_output''
     | ToolInput x \<Rightarrow> ''tool_input'' | ToolOutput x \<Rightarrow> ''tool_output'')"

lemma ag2_record_kind: "dget (ag2_record cfg uid now agent c) ''decision_type'' = Some (PStr (hook_kind c))"
  "dget (ag2_record cfg uid now agent c) ''decision_id'' = Some (PStr uid)"
  by (cases c; simp add: ag2_record_def Let_def moment_record_def hook_kind_def)+

lemma ag2_shown_list:
  "List.map_filter (ag2_shown cfg) hooks = map (\<lambda>(uid, now, agent, c). ag2_record cfg uid now agent c)
     (filter (\<lambda>(uid, now, agent, c). hook_registered cfg c) hooks)"
  by (induction hooks) (auto simp: map_filter_simps ag2_shown_def)

definition log_captured :: "autogen_config \<Rightarrow> string \<Rightarrow> bool" where
  "log_captured cfg logger \<longleftrightarrow> (logger = fst (ag_names cfg) \<longrightarrow> ag_events cfg) \<and> (logger = snd (ag_names cfg) \<longrightarrow> ag_traces cfg)"

lemma autogen_shown_captured:
  "autogen_shown cfg = (\<lambda>(uid, now, logger, msg). if log_captured cfg logger then Some (autogen_record cfg uid now logger msg) else None)"
  by (auto simp: autogen_shown_def log_captured_def fun_eq_iff)

lemma autogen_shown_list:
  "List.map_filter (autogen_shown cfg) logs = map (\<lambda>(uid, now, logger, msg). autogen_record cfg uid now logger msg)
     (filter (\<lambda>(uid, now, logger, msg). log_captured cfg logger) logs)"
  by (induction logs) (auto simp: map_filter_simps autogen_shown_captured)


section \<open>An example\<close>

definition hook_demo :: "ag2_config" where
  "hook_demo = \<lparr>a2_version = None, a2_messages = True, a2_llm = False, a2_tools = True, a2_state = False, a2_in = 17, a2_out = 18,
     a2_text = (\<lambda>x. None)\<rparr>"

definition log_demo :: "autogen_config" where
  "log_demo = \<lparr>ag_version = Some ''v'', ag_events = True, ag_traces = True, ag_in = 20, ag_names = (''event'', ''trace''), ag_text = (\<lambda>x. None)\<rparr>"


end
