(* ===== verification/CrewAI.thy ===== *)
theory CrewAI
  imports Observers
begin

text \<open>
  \<open>integrations/frameworks/crewai_handler.py\<close>: the listener on the CrewAI event bus, which pairs the start
  of something with its completion or failure and makes one record of the two. Events are objects
  with attributes; their texts, the clock and the ids are arguments. The results: what is recorded and
  exported in every run of events; an end finds its own start where both carry the same key; and where
  ends are not given the attributes to find it by, they take the oldest start of their kind.
\<close>

section \<open>Events\<close>

record crew_config =
  cw_version :: "string option"
  cw_families :: "string list"
  cw_in :: int
  cw_out :: int
  cw_text :: "pyobj \<Rightarrow> string option"

datatype phase = Started | Ended | Failing

text \<open>Events that carry their key, events that are paired without one, and events on their own.\<close>

datatype keyed = Crew | Agent | Task | Tool | Llm

datatype unkeyed = Knowledge | KnowledgeQuery | MemoryQuery | MemorySave | MemoryRetrieval | Guardrail | Flow | Method

datatype crew_event = Keyed keyed phase | Unkeyed unkeyed phase | SearchFailed | FlowCreated | FlowPlot

text \<open>The category of the pairing, the type of the record, the attributes a key is taken from.\<close>

definition keyed_info :: "keyed \<Rightarrow> string \<times> string \<times> string list" where
  "keyed_info f = (case f of
     Crew \<Rightarrow> (''crew'', ''crew_kickoff'', [''crew_id'', ''crew'', ''name''])
   | Agent \<Rightarrow> (''agent'', ''agent_execution'', [''agent_id'', ''agent'', ''role''])
   | Task \<Rightarrow> (''task'', ''task'', [''task_id'', ''task'', ''description''])
   | Tool \<Rightarrow> (''tool'', ''tool_usage'', [''tool_name'', ''tool'', ''name''])
   | Llm \<Rightarrow> (''llm'', ''llm_call'', [''call_id'', ''model'', ''model_name'']))"

definition unkeyed_info :: "unkeyed \<Rightarrow> string \<times> string \<times> string list" where
  "unkeyed_info f = (case f of
     Knowledge \<Rightarrow> (''knowledge'', ''knowledge_retrieval'', [''query_id'', ''query''])
   | KnowledgeQuery \<Rightarrow> (''knowledge_query'', ''knowledge_query'', [''query_id'', ''query''])
   | MemoryQuery \<Rightarrow> (''memory_query'', ''memory_query'', [''query_id'', ''query''])
   | MemorySave \<Rightarrow> (''memory_save'', ''memory_save'', [''item_id'', ''key''])
   | MemoryRetrieval \<Rightarrow> (''memory_retrieval'', ''memory_retrieval'', [''query_id'', ''query''])
   | Guardrail \<Rightarrow> (''guardrail'', ''llm_guardrail'', [''guardrail_id'', ''name''])
   | Flow \<Rightarrow> (''flow'', ''flow'', [''flow_id'', ''name''])
   | Method \<Rightarrow> (''method'', ''method_execution'', [''method_id'', ''method_name'']))"

text \<open>The families of \<open>setup_listeners\<close>; four of the pairs have no failure event.\<close>

definition family_of :: "crew_event \<Rightarrow> string" where
  "family_of e = (case e of
     Keyed Crew p \<Rightarrow> ''crews'' | Keyed Agent p \<Rightarrow> ''agents'' | Keyed Task p \<Rightarrow> ''tasks'' | Keyed Tool p \<Rightarrow> ''tools'' | Keyed Llm p \<Rightarrow> ''llm''
   | Unkeyed Knowledge p \<Rightarrow> ''knowledge'' | Unkeyed KnowledgeQuery p \<Rightarrow> ''knowledge'' | SearchFailed \<Rightarrow> ''knowledge''
   | Unkeyed MemoryQuery p \<Rightarrow> ''memory'' | Unkeyed MemorySave p \<Rightarrow> ''memory'' | Unkeyed MemoryRetrieval p \<Rightarrow> ''memory''
   | Unkeyed Guardrail p \<Rightarrow> ''guardrails''
   | Unkeyed Flow p \<Rightarrow> ''flows'' | Unkeyed Method p \<Rightarrow> ''flows'' | FlowCreated \<Rightarrow> ''flows'' | FlowPlot \<Rightarrow> ''flows'')"

definition registered :: "crew_config \<Rightarrow> crew_event \<Rightarrow> bool" where
  "registered cfg e \<longleftrightarrow> family_of e \<in> set (cw_families cfg)
     \<and> e \<notin> {Unkeyed Knowledge Failing, Unkeyed MemoryRetrieval Failing, Unkeyed Guardrail Failing, Unkeyed Flow Failing}"

section \<open>Reading an event\<close>

text \<open>The text of the first attribute that is there and has one, or the id made up for the call.\<close>

fun first_text :: "(pyobj \<Rightarrow> string option) \<Rightarrow> pyobj \<Rightarrow> string list \<Rightarrow> string option" where
  "first_text tx ev [] = None"
| "first_text tx ev (a # as) = (case get_attr ev a of
     Some x \<Rightarrow> (case ostr tx x of Some t \<Rightarrow> Some t | None \<Rightarrow> first_text tx ev as) | None \<Rightarrow> first_text tx ev as)"

definition extract_event_key :: "(pyobj \<Rightarrow> string option) \<Rightarrow> string \<Rightarrow> pyobj \<Rightarrow> string list \<Rightarrow> string" where
  "extract_event_key tx fresh ev as = (case first_text tx ev (as @ [''id'', ''event_id'', ''_id'']) of Some t \<Rightarrow> t | None \<Rightarrow> fresh)"

definition extract_fields :: "(pyobj \<Rightarrow> string option) \<Rightarrow> int \<Rightarrow> pyobj \<Rightarrow> string list \<Rightarrow> pydict" where
  "extract_fields tx n ev as =
     List.map_filter (\<lambda>a. case get_attr ev a of Some x \<Rightarrow> Some (a, PStr (safe_str tx n x)) | None \<Rightarrow> None) as"

definition INPUT_ATTRS :: "string list" where
  "INPUT_ATTRS = [''crew_id'', ''crew'', ''agent_id'', ''agent'', ''task_id'', ''task'', ''tool_name'', ''tool'', ''model'', ''model_name'',
     ''call_id'', ''query'', ''query_id'', ''name'', ''description'', ''role'', ''inputs'', ''input'', ''messages'', ''key'', ''flow_id'',
     ''method_name'', ''method_id'']"

definition OUTPUT_ATTRS :: "string list" where
  "OUTPUT_ATTRS = [''output'', ''result'', ''results'', ''response'', ''content'', ''usage'', ''token_usage'', ''nodes'', ''score'', ''value'']"

section \<open>The listener\<close>

text \<open>What is in flight: a record and the time it was put there, under a category and a key.\<close>

record crew_listener = observer +
  cl_inflight :: "(string \<times> string, pydict \<times> datetime) dict"

definition new_listener :: crew_listener where
  "new_listener = \<lparr>ob_records = [], ob_exports = [], cl_inflight = []\<rparr>"

definition clear_listener :: "crew_listener \<Rightarrow> crew_listener" where
  "clear_listener s = s\<lparr>ob_records := [], cl_inflight := []\<rparr>"

text \<open>An event as it arrives: the ids made up while it is handled and two clock readings.\<close>

record arrival =
  ar_event :: pyobj
  ar_fresh :: string
  ar_uid :: string
  ar_now :: datetime
  ar_later :: datetime

text \<open>\<open>_build_start_record\<close> and \<open>_build_event_record\<close>.\<close>

definition event_record :: "crew_config \<Rightarrow> arrival \<Rightarrow> string \<Rightarrow> string \<Rightarrow> pydict" where
  "event_record cfg a kind key = moment_record (ar_uid a) (ar_now a) (cw_version cfg) kind (PStr key)
     (extract_fields (cw_text cfg) (cw_in cfg) (ar_event a) INPUT_ATTRS) [] []"

definition put_inflight :: "crew_config \<Rightarrow> arrival \<Rightarrow> string \<Rightarrow> string \<Rightarrow> string \<Rightarrow> crew_listener \<Rightarrow> crew_listener" where
  "put_inflight cfg a category kind key s =
     s\<lparr>cl_inflight := dset (cl_inflight s) (category, key) (event_record cfg a kind key, ar_later a)\<rparr>"

definition stamped :: "datetime \<Rightarrow> datetime \<Rightarrow> pydict \<Rightarrow> pydict" where
  "stamped start now r = dset (dset r ''ended_at'' (PStr (isoformat now)))
     ''execution_time_ms'' (PFloat (Fin (of_int (instant now - instant start) / 1000)))"

definition crew_complete :: "crew_config \<Rightarrow> arrival \<Rightarrow> string \<Rightarrow> string \<Rightarrow> string \<Rightarrow> crew_listener \<Rightarrow> crew_listener" where
  "crew_complete cfg a category kind key s =
     (let s1 = s\<lparr>cl_inflight := ddel (cl_inflight s) (category, key)\<rparr> in
      case dget (cl_inflight s) (category, key) of
        None \<Rightarrow> append_and_export (event_record cfg a kind key) s1
      | Some (r, t) \<Rightarrow> append_and_export (dset (stamped t (ar_now a) r) ''outputs''
            (PDict (extract_fields (cw_text cfg) (cw_out cfg) (ar_event a) OUTPUT_ATTRS))) s1)"

text \<open>The text of the event is asked for first, even where it has an error; that may raise.\<close>

definition event_error :: "crew_config \<Rightarrow> pyobj \<Rightarrow> string option" where
  "event_error cfg ev = (case ostr (cw_text cfg) ev of
     None \<Rightarrow> None
   | Some t \<Rightarrow> Some (safe_str (cw_text cfg) 10000 (case attr_of ev ''error'' of Some x \<Rightarrow> x | None \<Rightarrow> Val (PStr t))))"

definition crew_fail :: "crew_config \<Rightarrow> arrival \<Rightarrow> string \<Rightarrow> string \<Rightarrow> string \<Rightarrow> crew_listener \<Rightarrow> crew_listener" where
  "crew_fail cfg a category kind key s =
     (let s1 = s\<lparr>cl_inflight := ddel (cl_inflight s) (category, key)\<rparr> in
      case event_error cfg (ar_event a) of
        None \<Rightarrow> s1
      | Some e \<Rightarrow> append_and_export (dset (case dget (cl_inflight s) (category, key) of
            None \<Rightarrow> event_record cfg a kind key | Some (r, t) \<Rightarrow> stamped t (ar_now a) r) ''error'' (PStr e)) s1)"

text \<open>Where the end has no key of its own, the oldest of its category.\<close>

definition end_key :: "crew_config \<Rightarrow> arrival \<Rightarrow> string \<Rightarrow> crew_listener \<Rightarrow> string" where
  "end_key cfg a category s =
     (let key = extract_event_key (cw_text cfg) (ar_fresh a) (ar_event a) [] in
      if dget (cl_inflight s) (category, key) \<noteq> None then key
      else case filter (\<lambda>k. fst k = category) (dkeys (cl_inflight s)) of [] \<Rightarrow> key | k # ks \<Rightarrow> snd k)"

definition handle_event :: "crew_config \<Rightarrow> crew_event \<Rightarrow> arrival \<Rightarrow> crew_listener \<Rightarrow> crew_listener" where
  "handle_event cfg e a s =
     (let key_of = extract_event_key (cw_text cfg) (ar_fresh a) (ar_event a);
          alone = (\<lambda>kind. event_record cfg a kind (key_of []))
      in case e of
        Keyed f p \<Rightarrow> (case keyed_info f of (category, kind, as) \<Rightarrow> (case p of
            Started \<Rightarrow> put_inflight cfg a category kind (key_of as) s
          | Ended \<Rightarrow> crew_complete cfg a category kind (key_of as) s
          | Failing \<Rightarrow> crew_fail cfg a category kind (key_of as) s))
      | Unkeyed f p \<Rightarrow> (case unkeyed_info f of (category, kind, as) \<Rightarrow> (case p of
            Started \<Rightarrow> put_inflight cfg a category kind (key_of as) s
          | Ended \<Rightarrow> crew_complete cfg a category kind (end_key cfg a category s) s
          | Failing \<Rightarrow> crew_fail cfg a category kind (end_key cfg a category s) s))
      | SearchFailed \<Rightarrow> append_and_export (alone ''knowledge_search_failed'') s
      | FlowCreated \<Rightarrow> s\<lparr>ob_records := ob_records s @ [alone ''flow_created'']\<rparr>
      | FlowPlot \<Rightarrow> s\<lparr>ob_records := ob_records s @ [alone ''flow_plot'']\<rparr>)"

definition crew_run :: "crew_config \<Rightarrow> (crew_event \<times> arrival) list \<Rightarrow> crew_listener \<Rightarrow> crew_listener" where
  "crew_run cfg es s = foldl (\<lambda>s (e, a). if registered cfg e then handle_event cfg e a s else s) s es"

section \<open>What is recorded and exported\<close>

definition exportable :: "pydict \<Rightarrow> bool" where
  "exportable r \<longleftrightarrow> dget r ''decision_type'' \<notin> {Some (PStr ''flow_created''), Some (PStr ''flow_plot'')}"

text \<open>One record for each event that ends something or stands alone.\<close>

definition recording :: "crew_event \<Rightarrow> bool" where
  "recording e = (case e of Keyed f p \<Rightarrow> p \<noteq> Started | Unkeyed f p \<Rightarrow> p \<noteq> Started | _ \<Rightarrow> True)"

lemma event_record_type: "dget (event_record cfg a kind key) ''decision_type'' = Some (PStr kind)"
  by (simp add: event_record_def moment_record_def)

lemma stamped_type: "dget (stamped t now r) ''decision_type'' = dget r ''decision_type''"
  by (simp add: stamped_def)

lemma info_exportable:
  "keyed_info f = (c, kind, as) \<Longrightarrow> kind \<noteq> ''flow_created'' \<and> kind \<noteq> ''flow_plot''"
  "unkeyed_info g = (c, kind, as) \<Longrightarrow> kind \<noteq> ''flow_created'' \<and> kind \<noteq> ''flow_plot''"
  by (cases f; auto simp: keyed_info_def) (cases g; auto simp: unkeyed_info_def)

text \<open>What a handler does to the listener, as far as records go.\<close>

definition adds :: "pydict list \<Rightarrow> crew_listener \<Rightarrow> crew_listener \<Rightarrow> bool" where
  "adds rs s s' \<longleftrightarrow> ob_records s' = ob_records s @ rs \<and> ob_exports s' = ob_exports s @ filter exportable rs
     \<and> distinct (dkeys (cl_inflight s')) \<and> list_all (\<lambda>(k, r, t). exportable r) (cl_inflight s')"

definition sound :: "crew_listener \<Rightarrow> bool" where
  "sound s \<longleftrightarrow> distinct (dkeys (cl_inflight s)) \<and> list_all (\<lambda>(k, r, t). exportable r) (cl_inflight s)"

lemma sound_del: "sound s \<Longrightarrow> sound (s\<lparr>cl_inflight := ddel (cl_inflight s) k\<rparr>)"
  unfolding sound_def by (auto simp: list_all_iff ddel_def simp del: distinct_ddel intro: distinct_ddel [unfolded ddel_def])

lemma sound_get: "sound s \<Longrightarrow> dget (cl_inflight s) k = Some (r, t) \<Longrightarrow> exportable r"
  unfolding sound_def list_all_iff by (auto dest!: map_of_SomeD)

lemma adds_record: "sound s \<Longrightarrow> exportable r \<Longrightarrow> adds [r] s (append_and_export r (s\<lparr>cl_inflight := ddel (cl_inflight s) k\<rparr>))"
  using sound_del [of s k] by (simp add: adds_def append_and_export_def sound_def)

lemma put_adds:
  assumes "sound s" "kind \<noteq> ''flow_created'' \<and> kind \<noteq> ''flow_plot''"
  shows "adds [] s (put_inflight cfg a c kind key s)"
proof -
  have "exportable (event_record cfg a kind key)" using assms(2) by (simp add: exportable_def event_record_type)
  moreover have "list_all P d \<Longrightarrow> P (k, v) \<Longrightarrow> list_all P (dset d k v)" for P d and k :: "string \<times> string" and v :: "pydict \<times> datetime"
    by (induction d k v rule: dset.induct) auto
  ultimately show ?thesis using assms(1) by (simp add: adds_def put_inflight_def sound_def)
qed

lemma complete_adds:
  assumes "sound s" "kind \<noteq> ''flow_created'' \<and> kind \<noteq> ''flow_plot''"
  shows "\<exists>r. adds [r] s (crew_complete cfg a c kind key s)"
proof (cases "dget (cl_inflight s) (c, key)")
  case None
  have "exportable (event_record cfg a kind key)" using assms(2) by (simp add: exportable_def event_record_type)
  then show ?thesis using None adds_record [OF assms(1)] by (auto simp: crew_complete_def)
next
  case (Some rt)
  then have "exportable (dset (stamped (snd rt) (ar_now a) (fst rt)) ''outputs'' x)" for x
    using sound_get [OF assms(1), of "(c, key)" "fst rt" "snd rt"] by (simp add: exportable_def stamped_type)
  then show ?thesis using Some adds_record [OF assms(1)] by (cases rt) (simp add: crew_complete_def Let_def, blast)
qed

lemma fail_adds:
  assumes "sound s" "kind \<noteq> ''flow_created'' \<and> kind \<noteq> ''flow_plot''"
  shows "\<exists>rs. adds rs s (crew_fail cfg a c kind key s) \<and> length rs = (if ostr (cw_text cfg) (ar_event a) = None then 0 else 1)"
proof (cases "event_error cfg (ar_event a)")
  case None
  then have "ostr (cw_text cfg) (ar_event a) = None" by (auto simp: event_error_def split: option.splits)
  then show ?thesis using None sound_del [OF assms(1)]
    by (intro exI [of _ "[]"]) (simp add: crew_fail_def adds_def sound_def)
next
  case (Some e)
  let ?r = "case dget (cl_inflight s) (c, key) of None \<Rightarrow> event_record cfg a kind key | Some (r, t) \<Rightarrow> stamped t (ar_now a) r"
  have "exportable ?r" using assms sound_get [OF assms(1)]
    by (auto simp: exportable_def event_record_type stamped_type split: option.splits)
  then have "exportable (dset ?r ''error'' (PStr e))" by (simp add: exportable_def)
  moreover have "ostr (cw_text cfg) (ar_event a) \<noteq> None" using Some by (auto simp: event_error_def split: option.splits)
  ultimately show ?thesis using Some adds_record [OF assms(1)]
    by (intro exI [of _ "[dset ?r ''error'' (PStr e)]"]) (simp add: crew_fail_def)
qed

definition failing :: "crew_event \<Rightarrow> bool" where
  "failing e = (case e of Keyed f p \<Rightarrow> p = Failing | Unkeyed f p \<Rightarrow> p = Failing | _ \<Rightarrow> False)"

text \<open>The failures whose event has no text are lost.\<close>

definition record_count :: "crew_config \<Rightarrow> crew_event \<times> arrival \<Rightarrow> nat" where
  "record_count cfg = (\<lambda>(e, a). if recording e \<and> \<not> (failing e \<and> ostr (cw_text cfg) (ar_event a) = None) then 1 else 0)"

lemma handle_adds:
  assumes "sound s"
  shows "\<exists>rs. adds rs s (handle_event cfg e a s) \<and> length rs = record_count cfg (e, a)"
proof -
  have pair: "\<exists>rs. adds rs s (case p of Started \<Rightarrow> put_inflight cfg a c kind k s | Ended \<Rightarrow> crew_complete cfg a c kind k' s
        | Failing \<Rightarrow> crew_fail cfg a c kind k' s)
      \<and> length rs = (if p \<noteq> Started \<and> \<not> (p = Failing \<and> ostr (cw_text cfg) (ar_event a) = None) then 1 else 0)"
    if kind: "kind \<noteq> ''flow_created'' \<and> kind \<noteq> ''flow_plot''" for p c kind k k'
  proof (cases p)
    case Started
    then show ?thesis using put_adds [OF assms kind] by (intro exI [of _ "[]"]) simp
  next
    case Ended
    obtain r where "adds [r] s (crew_complete cfg a c kind k' s)" using complete_adds [OF assms kind] by blast
    then show ?thesis using Ended by (intro exI [of _ "[r]"]) simp
  next
    case Failing
    then show ?thesis using fail_adds [OF assms kind, of cfg a c k'] by auto
  qed
  have alone: "adds [event_record cfg a kind key] s (append_and_export (event_record cfg a kind key) s)"
    if "exportable (event_record cfg a kind key)" for kind key
    using assms that by (simp add: adds_def append_and_export_def sound_def)
  have flow: "adds [event_record cfg a kind key] s (s\<lparr>ob_records := ob_records s @ [event_record cfg a kind key]\<rparr>)"
    if "kind = ''flow_created'' \<or> kind = ''flow_plot''" for kind key
    using assms that by (auto simp: adds_def sound_def exportable_def event_record_type)
  show ?thesis
  proof (cases e)
    case (Keyed f p)
    obtain c kind as where i: "keyed_info f = (c, kind, as)" by (metis prod_cases3)
    let ?k = "extract_event_key (cw_text cfg) (ar_fresh a) (ar_event a) as"
    have h: "handle_event cfg e a s = (case p of Started \<Rightarrow> put_inflight cfg a c kind ?k s
        | Ended \<Rightarrow> crew_complete cfg a c kind (?k) s | Failing \<Rightarrow> crew_fail cfg a c kind (?k) s)"
      using Keyed i by (simp add: handle_event_def Let_def)
    have r: "record_count cfg (e, a) = (if p \<noteq> Started \<and> \<not> (p = Failing \<and> ostr (cw_text cfg) (ar_event a) = None) then 1 else 0)"
      using Keyed by (simp add: record_count_def recording_def failing_def)
    show ?thesis unfolding h r by (rule pair [OF info_exportable(1) [OF i]])
  next
    case (Unkeyed f p)
    obtain c kind as where i: "unkeyed_info f = (c, kind, as)" by (metis prod_cases3)
    let ?k = "extract_event_key (cw_text cfg) (ar_fresh a) (ar_event a) as"
    have h: "handle_event cfg e a s = (case p of Started \<Rightarrow> put_inflight cfg a c kind ?k s
        | Ended \<Rightarrow> crew_complete cfg a c kind (end_key cfg a c s) s | Failing \<Rightarrow> crew_fail cfg a c kind (end_key cfg a c s) s)"
      using Unkeyed i by (simp add: handle_event_def Let_def)
    have r: "record_count cfg (e, a) = (if p \<noteq> Started \<and> \<not> (p = Failing \<and> ostr (cw_text cfg) (ar_event a) = None) then 1 else 0)"
      using Unkeyed by (simp add: record_count_def recording_def failing_def)
    show ?thesis unfolding h r by (rule pair [OF info_exportable(2) [OF i]])
  next
    case SearchFailed
    let ?r = "event_record cfg a ''knowledge_search_failed'' (extract_event_key (cw_text cfg) (ar_fresh a) (ar_event a) [])"
    have "exportable ?r" by (simp add: exportable_def event_record_type)
    then show ?thesis using SearchFailed alone
      by (intro exI [of _ "[?r]"]) (simp add: handle_event_def record_count_def recording_def failing_def Let_def)
  next
    case FlowCreated
    then show ?thesis using flow [of "''flow_created''" "extract_event_key (cw_text cfg) (ar_fresh a) (ar_event a) []"]
      by (intro exI [of _ "[event_record cfg a ''flow_created'' (extract_event_key (cw_text cfg) (ar_fresh a) (ar_event a) [])]"])
        (simp add: handle_event_def record_count_def recording_def failing_def Let_def)
  next
    case FlowPlot
    then show ?thesis using flow [of "''flow_plot''" "extract_event_key (cw_text cfg) (ar_fresh a) (ar_event a) []"]
      by (intro exI [of _ "[event_record cfg a ''flow_plot'' (extract_event_key (cw_text cfg) (ar_fresh a) (ar_event a) [])]"])
        (simp add: handle_event_def record_count_def recording_def failing_def Let_def)
  qed
qed

lemma adds_sound: "adds rs s s' \<Longrightarrow> sound s'"
  by (simp add: adds_def sound_def)

lemma adds_trans: "adds rs s s1 \<Longrightarrow> adds rs' s1 s2 \<Longrightarrow> adds (rs @ rs') s s2"
  by (simp add: adds_def)

lemma run_adds:
  "sound s \<Longrightarrow> \<exists>rs. adds rs s (crew_run cfg es s) \<and> length rs = sum_list (map (record_count cfg) (filter (\<lambda>(e, a). registered cfg e) es))"
proof (induction es arbitrary: s)
  case Nil
  then show ?case by (intro exI [of _ "[]"]) (simp add: crew_run_def adds_def sound_def)
next
  case (Cons ea es)
  obtain e a where ea: "ea = (e, a)" by (cases ea)
  obtain rs where rs: "adds rs s (handle_event cfg e a s)" "length rs = record_count cfg (e, a)" using handle_adds [OF Cons.prems] by blast
  show ?case
  proof (cases "registered cfg e")
    case True
    obtain rs' where "adds rs' (handle_event cfg e a s) (crew_run cfg es (handle_event cfg e a s))"
      "length rs' = sum_list (map (record_count cfg) (filter (\<lambda>(e, a). registered cfg e) es))"
      using Cons.IH [OF adds_sound [OF rs(1)]] by blast
    then show ?thesis using adds_trans [OF rs(1)] rs(2) True ea by (intro exI [of _ "rs @ rs'"]) (simp add: crew_run_def)
  next
    case False
    then show ?thesis using Cons.IH [OF Cons.prems] ea by (simp add: crew_run_def)
  qed
qed

text \<open>
  What the CrewAI listener records. After any events in any order, every registered event that ends
  something or stands alone has made exactly one record, except a failure whose event has no text,
  which made none; the exports are the records in order, except those of created and plotted flows;
  and no category and key are in flight twice.
\<close>

theorem crew_records:
  "let s = crew_run cfg es new_listener in
    length (ob_records s) = sum_list (map (record_count cfg) (filter (\<lambda>(e, a). registered cfg e) es))
    \<and> ob_exports s = filter exportable (ob_records s) \<and> distinct (dkeys (cl_inflight s))"
proof -
  have "sound new_listener" by (simp add: sound_def new_listener_def)
  from run_adds [OF this] show ?thesis unfolding Let_def by (auto simp: adds_def new_listener_def)
qed

section \<open>Pairing\<close>

definition key_for :: "crew_config \<Rightarrow> keyed \<Rightarrow> arrival \<Rightarrow> string" where
  "key_for cfg f a = extract_event_key (cw_text cfg) (ar_fresh a) (ar_event a) (snd (snd (keyed_info f)))"

text \<open>The events that concern a keyed run.\<close>

definition touches :: "crew_config \<Rightarrow> keyed \<Rightarrow> string \<Rightarrow> crew_event \<times> arrival \<Rightarrow> bool" where
  "touches cfg f k = (\<lambda>(e, a). case e of Keyed g p \<Rightarrow> g = f \<and> key_for cfg f a = k | _ \<Rightarrow> False)"

lemma dget_put: "dget (cl_inflight (put_inflight cfg a c kind key s)) ck =
    (if ck = (c, key) then Some (event_record cfg a kind key, ar_later a) else dget (cl_inflight s) ck)"
  by (simp add: put_inflight_def)

lemma dget_complete: "dget (cl_inflight (crew_complete cfg a c kind key s)) ck = (if ck = (c, key) then None else dget (cl_inflight s) ck)"
  by (auto simp: crew_complete_def append_and_export_def Let_def split: option.splits)

lemma dget_fail: "dget (cl_inflight (crew_fail cfg a c kind key s)) ck = (if ck = (c, key) then None else dget (cl_inflight s) ck)"
  by (auto simp: crew_fail_def append_and_export_def Let_def split: option.splits)

lemma categories: "fst (keyed_info f) = fst (keyed_info g) \<longleftrightarrow> f = g" "fst (unkeyed_info u) \<noteq> fst (keyed_info f)"
  by (cases f; cases g; simp add: keyed_info_def) (cases f; cases u; simp add: keyed_info_def unkeyed_info_def)

lemma untouched:
  assumes "\<not> touches cfg f k (e, a)"
  shows "dget (cl_inflight (handle_event cfg e a s)) (fst (keyed_info f), k) = dget (cl_inflight s) (fst (keyed_info f), k)"
proof (cases e)
  case (Keyed g p)
  obtain c kind as where i: "keyed_info g = (c, kind, as)" by (metis prod_cases3)
  then have "(fst (keyed_info f), k) \<noteq> (c, extract_event_key (cw_text cfg) (ar_fresh a) (ar_event a) as)"
    using assms Keyed categories(1) [of f g] by (cases "f = g") (simp_all add: touches_def key_for_def)
  then show ?thesis using Keyed i by (cases p) (auto simp: handle_event_def dget_put dget_complete dget_fail)
next
  case (Unkeyed g p)
  obtain c kind as where i: "unkeyed_info g = (c, kind, as)" by (metis prod_cases3)
  then have "fst (keyed_info f) \<noteq> c" using categories(2) [of g f] by auto
  then show ?thesis using Unkeyed i by (cases p) (simp_all add: handle_event_def dget_put dget_complete dget_fail)
qed (simp_all add: handle_event_def append_and_export_def Let_def)

lemma run_untouched:
  "list_all (\<lambda>ea. \<not> touches cfg f k ea) es \<Longrightarrow>
    dget (cl_inflight (crew_run cfg es s)) (fst (keyed_info f), k) = dget (cl_inflight s) (fst (keyed_info f), k)"
  by (induction es arbitrary: s) (auto simp: crew_run_def untouched)

lemma crew_run_append: "crew_run cfg (xs @ ys) s = crew_run cfg ys (crew_run cfg xs s)"
  by (simp add: crew_run_def)

text \<open>
  C37: The end of a crew, agent, task, tool or model call finds its own start. If the two carry the same key
  and no event of that kind and key comes between, then whatever else happens in between, the end
  makes the record of that start: its id, key and inputs, the outputs of the end, and the time
  between the two.
\<close>

theorem crew_pairing:
  assumes keys: "key_for cfg f a = k" "key_for cfg f b = k"
    and reg: "registered cfg (Keyed f Started)" "registered cfg (Keyed f Ended)"
    and between: "list_all (\<lambda>ea. \<not> touches cfg f k ea) es"
    and run: "s' = crew_run cfg ((Keyed f Started, a) # es) s"
  shows "\<exists>r. ob_records (crew_run cfg [(Keyed f Ended, b)] s') = ob_records s' @ [r]
    \<and> ob_exports (crew_run cfg [(Keyed f Ended, b)] s') = ob_exports s' @ [r]
    \<and> dget r ''decision_id'' = Some (PStr (ar_uid a)) \<and> dget r ''function_name'' = Some (PStr k)
    \<and> dget r ''inputs'' = Some (PDict (extract_fields (cw_text cfg) (cw_in cfg) (ar_event a) INPUT_ATTRS))
    \<and> dget r ''outputs'' = Some (PDict (extract_fields (cw_text cfg) (cw_out cfg) (ar_event b) OUTPUT_ATTRS))
    \<and> dget r ''execution_time_ms'' = Some (PFloat (Fin (of_int (instant (ar_now b) - instant (ar_later a)) / 1000)))"
proof -
  obtain c kind as where i: "keyed_info f = (c, kind, as)" by (metis prod_cases3)
  then have k: "extract_event_key (cw_text cfg) (ar_fresh a) (ar_event a) as = k" "extract_event_key (cw_text cfg) (ar_fresh b) (ar_event b) as = k"
    using keys by (simp_all add: key_for_def)
  have "s' = crew_run cfg es (put_inflight cfg a c kind k s)"
    using run reg(1) i k by (simp add: crew_run_def handle_event_def)
  then have fl: "dget (cl_inflight s') (c, k) = Some (event_record cfg a kind k, ar_later a)"
    using run_untouched [OF between] i by (simp add: dget_put)
  let ?r = "dset (stamped (ar_later a) (ar_now b) (event_record cfg a kind k)) ''outputs''
    (PDict (extract_fields (cw_text cfg) (cw_out cfg) (ar_event b) OUTPUT_ATTRS))"
  have "crew_run cfg [(Keyed f Ended, b)] s' = append_and_export ?r (s'\<lparr>cl_inflight := ddel (cl_inflight s') (c, k)\<rparr>)"
    using reg(2) i k fl by (simp add: crew_run_def handle_event_def crew_complete_def)
  then show ?thesis
    by (intro exI [of _ ?r]) (simp add: append_and_export_def stamped_def event_record_def moment_record_def)
qed

section \<open>Examples\<close>

definition crew_demo :: crew_config where
  "crew_demo = \<lparr>cw_version = None, cw_families = [''tools'', ''memory''], cw_in = 10, cw_out = 10, cw_text = (\<lambda>x. Some ''obj'')\<rparr>"

definition tool_event :: "string \<Rightarrow> string \<Rightarrow> string \<Rightarrow> arrival" where
  "tool_event tool out uid = \<lparr>ar_event = Inst ''Event'' [(''tool_name'', Val (PStr tool)), (''output'', Val (PStr out))], ar_fresh = ''f'' @ uid,
     ar_uid = uid, ar_now = \<lparr>dt_wall = 0, dt_off = Some 0\<rparr>, ar_later = \<lparr>dt_wall = 0, dt_off = Some 0\<rparr>\<rparr>"

theorem crew_pairing_witness:
  "\<exists>r s'. s' = crew_run crew_demo [(Keyed Tool Started, tool_event ''search'' [] ''1''), (Keyed Tool Started, tool_event ''calc'' [] ''2'')] new_listener
    \<and> ob_records (crew_run crew_demo [(Keyed Tool Ended, tool_event ''search'' ''found'' ''3'')] s') = ob_records s' @ [r]
    \<and> dget r ''decision_id'' = Some (PStr ''1'')"
proof -
  have "key_for crew_demo Tool (tool_event ''search'' [] ''1'') = ''search''" "key_for crew_demo Tool (tool_event ''search'' ''found'' ''3'') = ''search''"
    "registered crew_demo (Keyed Tool Started)" "registered crew_demo (Keyed Tool Ended)"
    "list_all (\<lambda>ea. \<not> touches crew_demo Tool ''search'' ea) [(Keyed Tool Started, tool_event ''calc'' [] ''2'')]" by code_simp+
  from crew_pairing [OF this refl, of new_listener] show ?thesis by (auto simp: tool_event_def)
qed

text \<open>A query that ends without an id is taken for the oldest one: the record of the first query
  gets the results of the second.\<close>

definition query_event :: "string \<Rightarrow> string \<Rightarrow> string \<Rightarrow> arrival" where
  "query_event q out uid = \<lparr>ar_event = Inst ''Event'' [(''query'', Val (PStr q)), (''results'', Val (PStr out))], ar_fresh = ''f'' @ uid,
     ar_uid = uid, ar_now = \<lparr>dt_wall = 0, dt_off = Some 0\<rparr>, ar_later = \<lparr>dt_wall = 0, dt_off = Some 0\<rparr>\<rparr>"

lemma concurrent_queries_swapped:
  "map (\<lambda>r. (dget r ''function_name'', dget r ''outputs''))
     (ob_records (crew_run crew_demo [(Unkeyed MemoryQuery Started, query_event ''a'' [] ''1''), (Unkeyed MemoryQuery Started, query_event ''b'' [] ''2''),
        (Unkeyed MemoryQuery Ended, query_event ''b'' ''of b'' ''3'')] new_listener))
     = [(Some (PStr ''a''), Some (PDict [(''results'', PStr ''of b'')]))]"
  by code_simp

end
