(* ===== verification/AgentsTracer.thy ===== *)
theory AgentsTracer
  imports Observers
begin

text \<open>
  \<open>integrations/frameworks/openai_agents_handler.py\<close>: the tracing processor of the OpenAI Agents SDK,
  which collects the spans of a trace and makes one record of them when the trace ends. A trace and a span
  have the attributes the SDK gives them; what a span holds is an object; texts and the clock are
  arguments. The result: a trace that ends is exported once, with exactly the spans that ended while
  it was open.
\<close>

section \<open>Traces and spans\<close>

record agents_trace =
  at_id :: string
  at_name :: pyval

record agents_span =
  as_id :: string
  as_trace :: string
  as_data :: pyobj
  as_error :: "pyobj option"

record tracer_config =
  tc_version :: "string option"
  tc_text :: "pyobj \<Rightarrow> string option"

record tracer = observer +
  tr_traces :: "(string, pydict) dict"
  tr_starts :: "(string, datetime) dict"
  tr_spans :: "(string, datetime) dict"

definition new_tracer :: tracer where
  "new_tracer = \<lparr>ob_records = [], ob_exports = [], tr_traces = [], tr_starts = [], tr_spans = []\<rparr>"

definition on_trace_start :: "tracer_config \<Rightarrow> datetime \<Rightarrow> agents_trace \<Rightarrow> tracer \<Rightarrow> tracer" where
  "on_trace_start cfg now t s =
     (let r = [(''decision_id'', PStr (at_id t)), (''decision_type'', PStr ''agent_trace''), (''function_name'', at_name t),
            (''inputs'', PDict []), (''outputs'', PDict []), (''started_at'', PStr (isoformat now)), (''trace_id'', PStr (at_id t)),
            (''name'', at_name t), (''spans'', PList [])]
          @ (if str_truthy (tc_version cfg) then [(''context_version'', PStr (the (tc_version cfg)))] else [])
      in s\<lparr>tr_traces := dset (tr_traces s) (at_id t) r, tr_starts := dset (tr_starts s) (at_id t) now\<rparr>)"

definition duration :: "datetime \<Rightarrow> datetime \<Rightarrow> pyval" where
  "duration start now = PFloat (Fin (of_int (instant now - instant start) / 1000))"

definition on_trace_end :: "datetime \<Rightarrow> agents_trace \<Rightarrow> tracer \<Rightarrow> tracer" where
  "on_trace_end now t s =
     (let s1 = s\<lparr>tr_traces := ddel (tr_traces s) (at_id t), tr_starts := ddel (tr_starts s) (at_id t)\<rparr> in
      case dget (tr_traces s) (at_id t) of
        None \<Rightarrow> s1
      | Some r \<Rightarrow> (let r1 = dset r ''ended_at'' (PStr (isoformat now));
                       r2 = (case dget (tr_starts s) (at_id t) of None \<Rightarrow> r1
                         | Some t0 \<Rightarrow> dset r1 ''execution_time_ms'' (duration t0 now))
                   in append_and_export r2 s1))"

definition on_span_start :: "datetime \<Rightarrow> agents_span \<Rightarrow> tracer \<Rightarrow> tracer" where
  "on_span_start now sp s = s\<lparr>tr_spans := dset (tr_spans s) (as_id sp) now\<rparr>"

text \<open>\<open>getattr(x, n, other)\<close>, and \<open>list(getattr(x, n, None) or [])\<close>, which may raise.\<close>

definition span_field :: "(pyobj \<Rightarrow> string option) \<Rightarrow> pyobj \<Rightarrow> string \<Rightarrow> pyval \<Rightarrow> pyval" where
  "span_field tx x n other = (case attr_of x n of Some y \<Rightarrow> kept tx y | None \<Rightarrow> other)"

definition field_list :: "(pyobj \<Rightarrow> string option) \<Rightarrow> pyobj \<Rightarrow> string \<Rightarrow> pyval option" where
  "field_list tx x n = (case get_attr x n of
     None \<Rightarrow> Some (PList [])
   | Some y \<Rightarrow> if \<not> obj_truthy y then Some (PList [])
       else (case y of
         Objs xs \<Rightarrow> Some (PList (map (kept tx) xs))
       | Val (PList vs) \<Rightarrow> Some (PList vs)
       | Val (PDict d) \<Rightarrow> Some (PList (map PStr (dkeys d)))
       | Val (PStr u) \<Rightarrow> Some (PList (map (\<lambda>c. PStr [c]) u))
       | _ \<Rightarrow> None))"

definition span_fields :: "(pyobj \<Rightarrow> string option) \<Rightarrow> pyobj \<Rightarrow> pydict option" where
  "span_fields tx d =
     (let get = (\<lambda>n. span_field tx d n PNone) in
      if class_name d = ''AgentSpanData'' then
        (case (field_list tx d ''tools'', field_list tx d ''handoffs'') of
           (Some tools, Some handoffs) \<Rightarrow> Some [(''type'', PStr ''agent_run''), (''agent_name'', get ''name''), (''tools'', tools),
              (''handoffs'', handoffs), (''output_type'', get ''output_type'')]
         | _ \<Rightarrow> None)
      else if class_name d = ''FunctionSpanData'' then
        Some [(''type'', PStr ''tool_call''), (''tool_name'', get ''name''), (''input'', get ''input''), (''output'', get ''output'')]
      else if class_name d = ''HandoffSpanData'' then
        Some [(''type'', PStr ''handoff''), (''from_agent'', get ''from_agent''), (''to_agent'', get ''to_agent'')]
      else if class_name d = ''GuardrailSpanData'' then
        Some [(''type'', PStr ''guardrail''), (''guardrail_name'', get ''name''), (''triggered'', span_field tx d ''triggered'' (PBool False))]
      else if class_name d = ''GenerationSpanData'' then
        Some [(''type'', PStr ''generation''), (''model'', get ''model''), (''usage'', get ''usage''), (''input'', get ''input''), (''output'', get ''output'')]
      else Some [(''type'', span_field tx d ''type'' (PStr ''unknown''))])"

text \<open>\<open>_build_span_record\<close>; \<open>None\<close> where it raises.\<close>

definition build_span_record :: "(pyobj \<Rightarrow> string option) \<Rightarrow> agents_span \<Rightarrow> datetime option \<Rightarrow> datetime \<Rightarrow> pydict option" where
  "build_span_record tx sp start now =
     (case span_fields tx (as_data sp) of
        None \<Rightarrow> None
      | Some fs \<Rightarrow>
          (let r = [(''span_id'', PStr (as_id sp)), (''trace_id'', PStr (as_trace sp)),
                 (''started_at'', case start of None \<Rightarrow> PNone | Some t \<Rightarrow> PStr (isoformat t)), (''ended_at'', PStr (isoformat now))]
               @ (case start of None \<Rightarrow> [] | Some t \<Rightarrow> [(''execution_time_ms'', duration t now)]) @ fs
           in case as_error sp of
                None \<Rightarrow> Some r
              | Some e \<Rightarrow> if obj_truthy e then (case ostr tx e of None \<Rightarrow> None | Some t \<Rightarrow> Some (r @ [(''error'', PStr t)])) else Some r))"

definition add_span :: "pydict \<Rightarrow> pydict \<Rightarrow> pydict" where
  "add_span sp r = dset r ''spans'' (PList ((case dget r ''spans'' of Some (PList xs) \<Rightarrow> xs | _ \<Rightarrow> []) @ [PDict sp]))"

definition on_span_end :: "tracer_config \<Rightarrow> datetime \<Rightarrow> agents_span \<Rightarrow> tracer \<Rightarrow> tracer" where
  "on_span_end cfg now sp s =
     (let s1 = s\<lparr>tr_spans := ddel (tr_spans s) (as_id sp)\<rparr> in
      case build_span_record (tc_text cfg) sp (dget (tr_spans s) (as_id sp)) now of
        None \<Rightarrow> s1
      | Some r \<Rightarrow> (case dget (tr_traces s) (as_trace sp) of
          None \<Rightarrow> s1
        | Some tr \<Rightarrow> s1\<lparr>tr_traces := dset (tr_traces s) (as_trace sp) (add_span r tr)\<rparr>))"

definition tracer_shutdown :: "tracer \<Rightarrow> tracer" where
  "tracer_shutdown s = s\<lparr>tr_traces := [], tr_starts := [], tr_spans := []\<rparr>"

definition clear_tracer :: "tracer \<Rightarrow> tracer" where
  "clear_tracer s = s\<lparr>ob_records := [], tr_traces := [], tr_starts := [], tr_spans := []\<rparr>"

text \<open>\<open>install\<close>: the processor installed, and whether it has just been registered.\<close>

definition install_tracer :: "tracer option \<Rightarrow> tracer \<times> bool" where
  "install_tracer installed = (case installed of Some p \<Rightarrow> (p, False) | None \<Rightarrow> (new_tracer, True))"

section \<open>What the record of a trace holds\<close>

datatype agents_event = TraceStart agents_trace datetime | TraceEnd agents_trace datetime
  | SpanStart agents_span datetime | SpanEnd agents_span datetime | Shutdown

fun tracer_event :: "tracer_config \<Rightarrow> tracer \<Rightarrow> agents_event \<Rightarrow> tracer" where
  "tracer_event cfg s (TraceStart t now) = on_trace_start cfg now t s"
| "tracer_event cfg s (TraceEnd t now) = on_trace_end now t s"
| "tracer_event cfg s (SpanStart sp now) = on_span_start now sp s"
| "tracer_event cfg s (SpanEnd sp now) = on_span_end cfg now sp s"
| "tracer_event cfg s Shutdown = tracer_shutdown s"

text \<open>The records of the spans of a trace that end in a sequence of events, given the times at which
  spans had begun before it.\<close>

fun spans_ended :: "(pyobj \<Rightarrow> string option) \<Rightarrow> string \<Rightarrow> (string, datetime) dict \<Rightarrow> agents_event list \<Rightarrow> pyval list" where
  "spans_ended tx t begun [] = []"
| "spans_ended tx t begun (e # es) = (case e of
     SpanStart sp now \<Rightarrow> spans_ended tx t (dset begun (as_id sp) now) es
   | SpanEnd sp now \<Rightarrow> (case build_span_record tx sp (dget begun (as_id sp)) now of
         Some r \<Rightarrow> if as_trace sp = t then [PDict r] else [] | None \<Rightarrow> [])
       @ spans_ended tx t (ddel begun (as_id sp)) es
   | _ \<Rightarrow> spans_ended tx t begun es)"

definition during :: "string \<Rightarrow> agents_event \<Rightarrow> bool" where
  "during t e = (case e of TraceStart u now \<Rightarrow> at_id u \<noteq> t | TraceEnd u now \<Rightarrow> at_id u \<noteq> t | Shutdown \<Rightarrow> False | _ \<Rightarrow> True)"

definition open_trace :: "string \<Rightarrow> pydict \<Rightarrow> datetime \<Rightarrow> pyval list \<Rightarrow> tracer \<Rightarrow> bool" where
  "open_trace t base t0 spans s \<longleftrightarrow> dget (tr_traces s) t = Some (dset base ''spans'' (PList spans)) \<and> dget (tr_starts s) t = Some t0"

lemma add_span_spans: "add_span sp (dset base ''spans'' (PList xs)) = dset base ''spans'' (PList (xs @ [PDict sp]))"
proof -
  have "dset (dset base k v) k w = dset base k w" for base :: pydict and k v w
    by (induction base k v rule: dset.induct) auto
  then show ?thesis by (simp add: add_span_def)
qed

lemma span_end_spans: "tr_spans (on_span_end cfg now sp s) = ddel (tr_spans s) (as_id sp)"
  by (simp add: on_span_end_def Let_def split: option.splits)

lemma span_exports:
  "ob_exports (on_span_start now sp s) = ob_exports s" "ob_exports (on_span_end cfg now sp s) = ob_exports s"
  by (simp_all add: on_span_start_def on_span_end_def Let_def split: option.splits)

lemma trace_start_exports: "ob_exports (on_trace_start cfg now t s) = ob_exports s"
  by (simp add: on_trace_start_def Let_def)

lemma open_trace_run:
  "list_all (during t) es \<Longrightarrow> open_trace t base t0 spans s \<Longrightarrow>
    open_trace t base t0 (spans @ spans_ended (tc_text cfg) t (tr_spans s) es) (foldl (tracer_event cfg) s es)"
proof (induction es arbitrary: s spans)
  case (Cons e es)
  have w: "during t e" "list_all (during t) es" using Cons.prems(1) by simp_all
  show ?case
  proof (cases e)
    case (TraceStart u now)
    then have "open_trace t base t0 spans (tracer_event cfg s e)" using w(1) Cons.prems(2)
      by (auto simp: open_trace_def during_def on_trace_start_def Let_def)
    moreover have "tr_spans (tracer_event cfg s e) = tr_spans s" using TraceStart by (simp add: on_trace_start_def Let_def)
    ultimately show ?thesis using Cons.IH [OF w(2)] TraceStart by fastforce
  next
    case (TraceEnd u now)
    then have "open_trace t base t0 spans (tracer_event cfg s e)" using w(1) Cons.prems(2)
      by (auto simp: open_trace_def during_def on_trace_end_def append_and_export_def Let_def split: option.splits)
    moreover have "tr_spans (tracer_event cfg s e) = tr_spans s" using TraceEnd
      by (auto simp: on_trace_end_def append_and_export_def Let_def split: option.splits)
    ultimately show ?thesis using Cons.IH [OF w(2)] TraceEnd by fastforce
  next
    case (SpanStart sp now)
    then have "open_trace t base t0 spans (tracer_event cfg s e)" using Cons.prems(2) by (simp add: open_trace_def on_span_start_def)
    from Cons.IH [OF w(2) this] show ?thesis using SpanStart by (simp add: on_span_start_def)
  next
    case (SpanEnd sp now)
    let ?new = "case build_span_record (tc_text cfg) sp (dget (tr_spans s) (as_id sp)) now of
      Some r \<Rightarrow> if as_trace sp = t then [PDict r] else [] | None \<Rightarrow> []"
    have "open_trace t base t0 (spans @ ?new) (tracer_event cfg s e)" using SpanEnd Cons.prems(2)
      by (auto simp: open_trace_def on_span_end_def Let_def add_span_spans split: option.splits)
    from Cons.IH [OF w(2) this] show ?thesis using SpanEnd by (simp add: span_end_spans)
  next
    case Shutdown
    then show ?thesis using w(1) by (simp add: during_def)
  qed
qed simp

text \<open>
  C38: What is exported for a trace. A trace that begins and ends is recorded and exported exactly once, when
  it ends, with the time between; its spans are exactly those of this trace that ended while it
  was open, in the order in which they ended, whatever other traces and spans came between and
  wherever those spans had begun, as long as the tracer was not shut down and the id not used again.
\<close>

theorem trace_record_complete:
  assumes between: "list_all (during (at_id t)) es"
    and s1: "s1 = on_trace_start cfg begins t s" and s2: "s2 = foldl (tracer_event cfg) s1 es"
  shows "\<exists>r. ob_records (on_trace_end ends t s2) = ob_records s2 @ [r] \<and> ob_exports (on_trace_end ends t s2) = ob_exports s2 @ [r]
    \<and> dget (tr_traces (on_trace_end ends t s2)) (at_id t) = None
    \<and> dget r ''decision_id'' = Some (PStr (at_id t)) \<and> dget r ''execution_time_ms'' = Some (duration begins ends)
    \<and> dget r ''spans'' = Some (PList (spans_ended (tc_text cfg) (at_id t) (tr_spans s) es))"
proof -
  define base where "base = [(''decision_id'', PStr (at_id t)), (''decision_type'', PStr ''agent_trace''), (''function_name'', at_name t),
            (''inputs'', PDict []), (''outputs'', PDict []), (''started_at'', PStr (isoformat begins)), (''trace_id'', PStr (at_id t)),
            (''name'', at_name t), (''spans'', PList [])]
          @ (if str_truthy (tc_version cfg) then [(''context_version'', PStr (the (tc_version cfg)))] else [])"
  have "dset base ''spans'' (PList []) = base" by (simp add: base_def)
  then have "open_trace (at_id t) base begins [] s1" by (simp add: open_trace_def s1 on_trace_start_def base_def)
  moreover have "tr_spans s1 = tr_spans s" by (simp add: s1 on_trace_start_def Let_def)
  ultimately have o: "open_trace (at_id t) base begins (spans_ended (tc_text cfg) (at_id t) (tr_spans s) es) s2"
    using open_trace_run [OF between, of base begins "[]" s1 cfg] s2 by simp
  let ?spans = "spans_ended (tc_text cfg) (at_id t) (tr_spans s) es"
  let ?r = "dset (dset (dset base ''spans'' (PList ?spans)) ''ended_at'' (PStr (isoformat ends))) ''execution_time_ms'' (duration begins ends)"
  have e: "on_trace_end ends t s2 = append_and_export ?r (s2\<lparr>tr_traces := ddel (tr_traces s2) (at_id t), tr_starts := ddel (tr_starts s2) (at_id t)\<rparr>)"
    using o by (simp add: open_trace_def on_trace_end_def Let_def)
  have "dget base ''decision_id'' = Some (PStr (at_id t))" by (simp add: base_def)
  then show ?thesis unfolding e by (intro exI [of _ ?r]) (simp add: append_and_export_def)
qed

section \<open>An example\<close>

definition tracer_demo :: tracer_config where
  "tracer_demo = \<lparr>tc_version = Some ''v1'', tc_text = (\<lambda>x. None)\<rparr>"

definition demo_span :: "string \<Rightarrow> string \<Rightarrow> agents_span" where
  "demo_span i t = \<lparr>as_id = i, as_trace = t, as_data = Inst ''FunctionSpanData'' [(''name'', Val (PStr ''search''))], as_error = None\<rparr>"

abbreviation moment :: "int \<Rightarrow> datetime" where
  "moment n \<equiv> \<lparr>dt_wall = n, dt_off = Some 0\<rparr>"

lemma single_dict:
  assumes "length xs = 1 \<and> (case hd xs of PDict x \<Rightarrow> P x | _ \<Rightarrow> False)"
  obtains x where "xs = [PDict x]" "P x"
  using assms by (cases xs) (auto split: pyval.splits)

theorem trace_record_complete_witness:
  "\<exists>s2 r x. s2 = foldl (tracer_event tracer_demo) (on_trace_start tracer_demo (moment 1000) \<lparr>at_id = ''t'', at_name = PStr ''run''\<rparr> new_tracer)
      [SpanStart (demo_span ''1'' ''t'') (moment 2000), SpanStart (demo_span ''2'' ''u'') (moment 2000), SpanEnd (demo_span ''2'' ''u'') (moment 3000),
       SpanEnd (demo_span ''1'' ''t'') (moment 4000)]
    \<and> ob_exports (on_trace_end (moment 5000) \<lparr>at_id = ''t'', at_name = PStr ''run''\<rparr> s2) = [r]
    \<and> dget r ''spans'' = Some (PList [PDict x]) \<and> dget x ''span_id'' = Some (PStr ''1'')"
proof -
  let ?t = "\<lparr>at_id = ''t'', at_name = PStr ''run''\<rparr>"
  let ?es = "[SpanStart (demo_span ''1'' ''t'') (moment 2000), SpanStart (demo_span ''2'' ''u'') (moment 2000), SpanEnd (demo_span ''2'' ''u'') (moment 3000),
       SpanEnd (demo_span ''1'' ''t'') (moment 4000)]"
  have w: "list_all (during (at_id ?t)) ?es" by (simp add: during_def)
  have "length (spans_ended (tc_text tracer_demo) ''t'' (tr_spans new_tracer) ?es) = 1
    \<and> (case hd (spans_ended (tc_text tracer_demo) ''t'' (tr_spans new_tracer) ?es) of PDict x \<Rightarrow> dget x ''span_id'' = Some (PStr ''1'') | _ \<Rightarrow> False)"
    by (simp add: demo_span_def build_span_record_def span_fields_def class_name_def new_tracer_def tracer_demo_def)
  from single_dict [OF this] obtain x where x: "spans_ended (tc_text tracer_demo) ''t'' (tr_spans new_tracer) ?es = [PDict x]" "dget x ''span_id'' = Some (PStr ''1'')"
    by blast
  let ?s2 = "foldl (tracer_event tracer_demo) (on_trace_start tracer_demo (moment 1000) ?t new_tracer) ?es"
  have e: "ob_exports ?s2 = []" by (simp add: trace_start_exports span_exports new_tracer_def)
  obtain r where r: "ob_exports (on_trace_end (moment 5000) ?t ?s2) = ob_exports ?s2 @ [r]"
    "dget r ''spans'' = Some (PList (spans_ended (tc_text tracer_demo) (at_id ?t) (tr_spans new_tracer) ?es))"
    using trace_record_complete [OF w refl refl, where cfg = tracer_demo and begins = "moment 1000" and s = new_tracer and ends = "moment 5000"]
    by blast
  have "at_id ?t = ''t''" by simp
  note r(2) [unfolded this x(1)]
  with r(1) [unfolded e append_Nil] x(2) show ?thesis by blast
qed

text \<open>A span that ends after its trace is dropped, and so is an open trace at shutdown.\<close>

lemma late_span_dropped:
  "ob_exports (foldl (tracer_event tracer_demo) new_tracer
     [TraceStart \<lparr>at_id = ''t'', at_name = PNone\<rparr> (moment 0), Shutdown, TraceEnd \<lparr>at_id = ''t'', at_name = PNone\<rparr> (moment 1000)]) = []"
  "map (\<lambda>r. dget r ''spans'') (ob_exports (foldl (tracer_event tracer_demo) new_tracer
     [TraceStart \<lparr>at_id = ''t'', at_name = PNone\<rparr> (moment 0), TraceEnd \<lparr>at_id = ''t'', at_name = PNone\<rparr> (moment 1000), SpanEnd (demo_span ''1'' ''t'') (moment 2000)]))
     = [Some (PList [])]"
  by code_simp+

end
