(* ===== verification/Correlation.thy ===== *)
theory Correlation
  imports Events
begin

text \<open>
  \<open>correlation/workflow.py\<close> and \<open>propagation.py\<close>: workflow contexts, the one that is current in a
  thread, and the headers that carry it to another service. Contexts are objects with identity. The tracer
  is represented by whether it gives a span, and by the attributes a span ends with; the propagator and the
  clock are arguments. The results: blocks restore the context around them, also when they raise,
  as long as no context is entered again inside itself; the headers name the workflow and keep the rest.
\<close>

section \<open>Contexts\<close>

record workflow =
  wf_name :: string
  wf_id :: string
  wf_prev :: "nat option"
  wf_chain :: "string list"
  wf_count :: nat
  wf_started :: "datetime option"
  wf_span :: bool

text \<open>A new context, with the id made up for it where none is given.\<close>

definition new_workflow :: "string \<Rightarrow> string option \<Rightarrow> string \<Rightarrow> workflow" where
  "new_workflow name wid fresh = \<lparr>wf_name = name, wf_id = (if str_truthy wid then the wid else ''wf_'' @ take 12 fresh), wf_prev = None,
     wf_chain = [], wf_count = 0, wf_started = None, wf_span = False\<rparr>"

text \<open>The contexts of a thread, the current one, and the spans that have ended.\<close>

record thread =
  th_objs :: "nat \<Rightarrow> workflow"
  th_current :: "nat option"
  th_spans :: "pydict list"

definition on_workflow :: "nat \<Rightarrow> (workflow \<Rightarrow> workflow) \<Rightarrow> thread \<Rightarrow> thread" where
  "on_workflow i f s = s\<lparr>th_objs := (th_objs s)(i := f (th_objs s i))\<rparr>"

text \<open>\<open>tracing\<close>: a span was created.\<close>

definition wf_enter :: "bool \<Rightarrow> datetime \<Rightarrow> nat \<Rightarrow> thread \<Rightarrow> thread" where
  "wf_enter tracing now i s =
     (on_workflow i (\<lambda>w. w\<lparr>wf_started := Some now, wf_span := wf_span w \<or> tracing, wf_prev := th_current s\<rparr>) s)\<lparr>th_current := Some i\<rparr>"

fun chain_text :: "string list \<Rightarrow> string" where
  "chain_text [] = []"
| "chain_text [t] = t"
| "chain_text (t # ts) = t @ ''  '' @ chain_text ts"

definition closing_attributes :: "workflow \<Rightarrow> datetime \<Rightarrow> string option \<Rightarrow> pydict" where
  "closing_attributes w now raised =
     [(''workflow.completed_at'', PStr (isoformat now)), (''workflow.agent_count'', PInt (int (wf_count w))),
      (''workflow.agent_chain'', PStr (chain_text (wf_chain w))),
      (''workflow.duration_seconds'', case wf_started w of None \<Rightarrow> PNone | Some t \<Rightarrow> PFloat (Fin (of_int (instant now - instant t) / 1000000))),
      (''workflow.status'', PStr (case raised of None \<Rightarrow> ''success'' | Some e \<Rightarrow> ''failed''))]"

definition wf_exit :: "datetime \<Rightarrow> string option \<Rightarrow> nat \<Rightarrow> thread \<Rightarrow> thread" where
  "wf_exit now raised i s =
     (let w = th_objs s i in
      (on_workflow i (\<lambda>w. w\<lparr>wf_prev := None\<rparr>) s)\<lparr>th_current := wf_prev w,
        th_spans := th_spans s @ (if wf_span w then [closing_attributes w now raised] else [])\<rparr>)"

definition register_agent :: "string \<Rightarrow> string \<Rightarrow> workflow \<Rightarrow> workflow" where
  "register_agent agent_id agent_type w = w\<lparr>wf_count := wf_count w + 1, wf_chain := wf_chain w @ [agent_type @ ''('' @ agent_id @ '')'']\<rparr>"

definition get_current_workflow :: "thread \<Rightarrow> workflow option" where
  "get_current_workflow s = map_option (th_objs s) (th_current s)"

section \<open>Headers\<close>

text \<open>The propagator changes the carrier, also when it raises; what is raised is logged.\<close>

definition inject_context :: "bool \<Rightarrow> ((string, string) dict \<Rightarrow> bool \<times> (string, string) dict) \<Rightarrow> thread \<Rightarrow> (string, string) dict option \<Rightarrow> (string, string) dict" where
  "inject_context otel propagate s carrier =
     (let c = (case carrier of None \<Rightarrow> [] | Some d \<Rightarrow> d) in
      if \<not> otel then c
      else case propagate c of
        (False, c1) \<Rightarrow> c1
      | (True, c1) \<Rightarrow> (case get_current_workflow s of
          None \<Rightarrow> c1
        | Some w \<Rightarrow> (let existing = dget_or c1 ''tracestate'' []; own = ''briefcase=workflow_id:'' @ wf_id w
            in dset c1 ''tracestate'' (if existing \<noteq> [] then own @ '','' @ existing else own))))"

text \<open>\<open>extract_context\<close> answers the token of the context it attached, unless it failed.\<close>

definition extract_context :: "bool \<Rightarrow> ((string, string) dict \<Rightarrow> 'c option) \<Rightarrow> (string, string) dict \<Rightarrow> 'c option" where
  "extract_context otel attach carrier = (if otel then attach carrier else None)"

section \<open>Blocks\<close>

text \<open>What a thread does: blocks under a context, agents registered with one, a look at the current
  context, an exception.\<close>

datatype action = Block nat "action list" | Register nat string string | Look | Raise string

type_synonym run_state = "thread \<times> string option list"

text \<open>The exception an action ends with, the thread, and the ids that were seen by looking.\<close>

fun run_actions :: "bool \<Rightarrow> datetime \<Rightarrow> action list \<Rightarrow> run_state \<Rightarrow> string option \<times> run_state"
  and run_action :: "bool \<Rightarrow> datetime \<Rightarrow> action \<Rightarrow> run_state \<Rightarrow> string option \<times> run_state" where
  "run_actions tracing now [] st = (None, st)"
| "run_actions tracing now (a # as) st = (case run_action tracing now a st of
     (Some e, st1) \<Rightarrow> (Some e, st1) | (None, st1) \<Rightarrow> run_actions tracing now as st1)"
| "run_action tracing now (Block i body) st = (case st of (s, seen) \<Rightarrow>
     (case run_actions tracing now body (wf_enter tracing now i s, seen) of
        (r, (s1, seen1)) \<Rightarrow> (r, (wf_exit now r i s1, seen1))))"
| "run_action tracing now (Register i a t) st = (None, (on_workflow i (register_agent a t) (fst st), snd st))"
| "run_action tracing now Look st = (None, (fst st, snd st @ [map_option wf_id (get_current_workflow (fst st))]))"
| "run_action tracing now (Raise e) st = (Some e, st)"

text \<open>No context is entered while it is entered, and every block is under a context of its own.\<close>

fun disjoint_blocks :: "nat list \<Rightarrow> action list \<Rightarrow> bool"
  and disjoint_block :: "nat list \<Rightarrow> action \<Rightarrow> bool" where
  "disjoint_blocks opened [] = True"
| "disjoint_blocks opened (a # as) = (disjoint_block opened a \<and> disjoint_blocks opened as)"
| "disjoint_block opened (Block i body) = (i \<notin> set opened \<and> disjoint_blocks (i # opened) body)"
| "disjoint_block opened a = True"

text \<open>What looking should see: the id of the innermost block.\<close>

fun seen_in :: "(nat \<Rightarrow> string) \<Rightarrow> nat option \<Rightarrow> action list \<Rightarrow> bool \<times> string option list"
  and seen_by :: "(nat \<Rightarrow> string) \<Rightarrow> nat option \<Rightarrow> action \<Rightarrow> bool \<times> string option list" where
  "seen_in ids cur [] = (True, [])"
| "seen_in ids cur (a # as) = (case seen_by ids cur a of
     (False, l) \<Rightarrow> (False, l) | (True, l) \<Rightarrow> (case seen_in ids cur as of (ok, l') \<Rightarrow> (ok, l @ l')))"
| "seen_by ids cur (Block i body) = seen_in ids (Some i) body"
| "seen_by ids cur (Register i a t) = (True, [])"
| "seen_by ids cur Look = (True, [map_option ids cur])"
| "seen_by ids cur (Raise e) = (False, [])"

definition restored :: "nat list \<Rightarrow> (nat \<Rightarrow> string) \<Rightarrow> thread \<Rightarrow> thread \<Rightarrow> bool" where
  "restored opened ids s s' \<longleftrightarrow> th_current s' = th_current s \<and> (\<forall>i. wf_id (th_objs s' i) = ids i)
     \<and> (\<forall>i\<in>set opened. wf_prev (th_objs s' i) = wf_prev (th_objs s i))"

lemma blocks_restore:
  "disjoint_blocks opened as \<Longrightarrow> \<forall>i. wf_id (th_objs (fst st) i) = ids i \<Longrightarrow> run_actions tracing now as st = (r, (s', seen')) \<Longrightarrow>
     restored opened ids (fst st) s' \<and> seen' = snd st @ snd (seen_in ids (th_current (fst st)) as) \<and> (r = None \<longleftrightarrow> fst (seen_in ids (th_current (fst st)) as))"
  "disjoint_block opened a \<Longrightarrow> \<forall>i. wf_id (th_objs (fst st) i) = ids i \<Longrightarrow> run_action tracing now a st = (r, (s', seen')) \<Longrightarrow>
     restored opened ids (fst st) s' \<and> seen' = snd st @ snd (seen_by ids (th_current (fst st)) a) \<and> (r = None \<longleftrightarrow> fst (seen_by ids (th_current (fst st)) a))"
proof (induction tracing now as st and tracing now a st arbitrary: opened r s' seen' and opened r s' seen' rule: run_actions_run_action.induct)
  case (1 tracing now st)
  then show ?case by (auto simp: restored_def)
next
  case (2 tracing now a as st)
  obtain r1 s1 seen1 where a: "run_action tracing now a st = (r1, (s1, seen1))" by (metis prod_cases3)
  have d: "disjoint_block opened a" "disjoint_blocks opened as" using 2(3) by simp_all
  note A = 2(1) [OF d(1) 2(4) a]
  show ?case
  proof (cases r1)
    case (Some e)
    then have "fst (seen_by ids (th_current (fst st)) a) = False" using A by simp
    then show ?thesis using 2(5) a Some A by (cases "seen_by ids (th_current (fst st)) a") auto
  next
    case None
    have ids: "\<forall>i. wf_id (th_objs (fst (s1, seen1)) i) = ids i" using A by (simp add: restored_def)
    have "run_actions tracing now as (s1, seen1) = (r, (s', seen'))" using 2(5) a None by simp
    note B = 2(2) [OF a [symmetric, unfolded None] refl d(2) ids this]
    have cur: "th_current s1 = th_current (fst st)" using A by (simp add: restored_def)
    have "fst (seen_by ids (th_current (fst st)) a)" using A None by simp
    then show ?thesis using A B cur
      by (cases "seen_by ids (th_current (fst st)) a"; cases "seen_in ids (th_current (fst st)) as") (auto simp: restored_def)
  qed
next
  case (3 tracing now i body st)
  obtain s seen where st: "st = (s, seen)" by (cases st)
  obtain r1 s1 seen1 where b: "run_actions tracing now body (wf_enter tracing now i s, seen) = (r1, (s1, seen1))" by (metis prod_cases3)
  have ids: "\<forall>j. wf_id (th_objs (fst (wf_enter tracing now i s, seen)) j) = ids j" using 3(3) st by (simp add: wf_enter_def on_workflow_def)
  have d: "i \<notin> set opened" "disjoint_blocks (i # opened) body" using 3(2) by simp_all
  note B = 3(1) [OF st [symmetric] d(2) ids b]
  have cur: "th_current (wf_enter tracing now i s) = Some i" by (simp add: wf_enter_def)
  have prev: "wf_prev (th_objs s1 i) = th_current s" using B by (simp add: restored_def wf_enter_def on_workflow_def)
  have same: "wf_prev (th_objs s1 j) = wf_prev (th_objs s j)" if "j \<in> set opened" for j
    using B d(1) that by (auto simp: restored_def wf_enter_def on_workflow_def)
  have "r = r1" "s' = wf_exit now r1 i s1" "seen' = seen1" using 3(4) st b by auto
  then show ?case using B cur prev same d(1) st by (auto simp: restored_def wf_exit_def on_workflow_def Let_def)
qed (auto simp: restored_def on_workflow_def register_agent_def get_current_workflow_def option.map_comp comp_def)

text \<open>
  C39: Workflow contexts are scoped. As long as no context is entered inside itself, whatever a thread does
  under nested blocks, with agents registered and exceptions raised anywhere: the context that was
  current before is current afterwards, looking always gives the innermost block's, and an exception goes
  through the blocks unchanged in what it stops.
\<close>

theorem workflow_scoped:
  assumes "disjoint_blocks [] as" "run_actions tracing now as (s, []) = (r, (s', seen))"
  shows "th_current s' = th_current s \<and> seen = snd (seen_in (\<lambda>i. wf_id (th_objs s i)) (th_current s) as)
    \<and> (r = None \<longleftrightarrow> fst (seen_in (\<lambda>i. wf_id (th_objs s i)) (th_current s) as))"
  using blocks_restore(1) [OF assms(1) _ assms(2), of "\<lambda>i. wf_id (th_objs s i)"] by (simp add: restored_def)

definition quiet_thread :: thread where
  "quiet_thread = \<lparr>th_objs = (\<lambda>i. new_workflow ''w'' (Some (if i = 0 then ''outer'' else ''inner'')) []), th_current = None, th_spans = []\<rparr>"

abbreviation nested_actions :: "action list" where
  "nested_actions \<equiv> [Block 0 [Look, Block 1 [Register 1 ''a'' ''triage'', Look], Look, Raise ''ValueError''], Look]"

theorem workflow_scoped_witness:
  "\<exists>s'. run_actions True \<lparr>dt_wall = 0, dt_off = None\<rparr> nested_actions (quiet_thread, [])
      = (Some ''ValueError'', (s', [Some ''outer'', Some ''inner'', Some ''outer'']))
    \<and> th_current s' = None"
proof -
  obtain r s' seen where run: "run_actions True \<lparr>dt_wall = 0, dt_off = None\<rparr> nested_actions (quiet_thread, []) = (r, (s', seen))"
    by (metis prod_cases3)
  have d: "disjoint_blocks [] nested_actions" by simp
  have "r = Some ''ValueError''" using run by (simp add: wf_enter_def on_workflow_def split: prod.splits)
  then show ?thesis using run workflow_scoped [OF d run]
    by (simp add: quiet_thread_def new_workflow_def str_truthy_def)
qed

text \<open>A context entered inside itself forgets the one around it.\<close>

lemma reentry_forgets:
  "snd (snd (run_actions False \<lparr>dt_wall = 0, dt_off = None\<rparr> [Block 0 [Block 1 [Block 1 []], Look]] (quiet_thread, []))) = [None]"
  by (simp add: wf_enter_def wf_exit_def on_workflow_def get_current_workflow_def quiet_thread_def new_workflow_def)

text \<open>What \<open>inject\<close> adds: the member of the workflow in front of the state there is, and nothing else.\<close>

lemma inject_names_workflow:
  assumes "propagate (case carrier of None \<Rightarrow> [] | Some d \<Rightarrow> d) = (True, c)" "get_current_workflow s = Some w"
  shows "\<exists>t. dget (inject_context True propagate s carrier) ''tracestate'' = Some (''briefcase=workflow_id:'' @ wf_id w @ t)"
    "k \<noteq> ''tracestate'' \<Longrightarrow> dget (inject_context True propagate s carrier) k = dget c k"
  using assms by (auto simp: inject_context_def Let_def)

end
