(* ===== verification/EvalRun.thy ===== *)
theory EvalRun
  imports PrettyJson
begin

text \<open>
  \<open>integrations/evals/run.py\<close>: the cases of an evaluation become decision records, the run one more. The cost
  and drift calculators, ids and clock readings are arguments; what is exported is kept in order,
  as the run exports synchronously. The result: the record of a run accounts for exactly the cases
  logged before it was finished.
\<close>

section \<open>The run\<close>

record eval_case =
  ec_id :: pyval
  ec_inputs :: pyval
  ec_outputs :: pyval
  ec_target :: pyval
  ec_scores :: pydict
  ec_passed :: "bool option"
  ec_in :: "int option"
  ec_out :: "int option"
  ec_tags :: "string list"
  ec_meta :: pydict

record eval_run =
  er_name :: string
  er_id :: string
  er_model :: pyval
  er_meta :: pydict
  er_cases :: "eval_case list"
  er_started :: datetime
  er_record :: "pydict option"
  er_exports :: "pydict list"

definition new_run :: "string \<Rightarrow> string option \<Rightarrow> string \<Rightarrow> pyval \<Rightarrow> pydict \<Rightarrow> datetime \<Rightarrow> eval_run" where
  "new_run name run_id fresh model meta now = \<lparr>er_name = name, er_id = (if str_truthy run_id then the run_id else fresh), er_model = model,
     er_meta = meta, er_cases = [], er_started = now, er_record = None, er_exports = []\<rparr>"

definition opt_int :: "int option \<Rightarrow> pyval" where
  "opt_int n = (case n of None \<Rightarrow> PNone | Some i \<Rightarrow> PInt i)"

definition opt_bool :: "bool option \<Rightarrow> pyval" where
  "opt_bool b = (case b of None \<Rightarrow> PNone | Some x \<Rightarrow> PBool x)"

text \<open>\<open>repr(x)[:1000]\<close> under a key, unless \<open>x\<close> is \<open>None\<close>.\<close>

definition shown_as :: "(rat \<Rightarrow> string) \<Rightarrow> string \<Rightarrow> pyval \<Rightarrow> pydict" where
  "shown_as fr k v = (if v = PNone then [] else [(k, PStr (take 1000 (py_repr fr v)))])"

definition case_record :: "(rat \<Rightarrow> string) \<Rightarrow> eval_run \<Rightarrow> string \<Rightarrow> datetime \<Rightarrow> eval_case \<Rightarrow> pydict" where
  "case_record fr s uid now c =
     [(''decision_id'', PStr uid), (''decision_type'', PStr ''eval.case''), (''function_name'', PStr (er_name s)), (''run_id'', PStr (er_id s)),
      (''case_id'', ec_id c), (''model'', er_model s), (''inputs'', PDict (shown_as fr ''inputs'' (ec_inputs c))),
      (''outputs'', PDict (shown_as fr ''result'' (ec_outputs c))), (''scores'', PDict (ec_scores c)), (''passed'', opt_bool (ec_passed c)),
      (''input_tokens'', opt_int (ec_in c)), (''output_tokens'', opt_int (ec_out c)), (''tags'', PList (map PStr (ec_tags c))),
      (''metadata'', PDict (ec_meta c)), (''started_at'', PStr (isoformat now))] @ shown_as fr ''target'' (ec_target c)"

definition log_case :: "(rat \<Rightarrow> string) \<Rightarrow> string \<Rightarrow> datetime \<Rightarrow> eval_case \<Rightarrow> eval_run \<Rightarrow> pydict res \<times> eval_run" where
  "log_case fr uid now c s =
     (if er_record s \<noteq> None then (Inl (RaisedBy ''RuntimeError''), s)
      else let r = case_record fr s uid now c in (Inr r, s\<lparr>er_cases := er_cases s @ [c], er_exports := er_exports s @ [r]\<rparr>))"

text \<open>\<open>ingest\<close>: the number of cases logged, each with the id and the time it is logged at.\<close>

fun ingest_from :: "(rat \<Rightarrow> string) \<Rightarrow> nat \<Rightarrow> (string \<times> datetime \<times> eval_case) list \<Rightarrow> eval_run \<Rightarrow> nat res \<times> eval_run" where
  "ingest_from fr i [] s = (Inr i, s)"
| "ingest_from fr i ((uid, now, c) # cs) s =
     (case log_case fr uid now (if ec_id c = PNone then c\<lparr>ec_id := PStr (''case-'' @ int_text (int i))\<rparr> else c) s of
        (Inl e, s1) \<Rightarrow> (Inl e, s1) | (Inr r, s1) \<Rightarrow> ingest_from fr (Suc i) cs s1)"

definition ingest :: "(rat \<Rightarrow> string) \<Rightarrow> (string \<times> datetime \<times> eval_case) list \<Rightarrow> eval_run \<Rightarrow> nat res \<times> eval_run" where
  "ingest fr cs s = ingest_from fr 0 cs s"

section \<open>The summary\<close>

text \<open>\<open>float(value)\<close>, as the exact rational: integers are taken to be in the range of a double, where Python does not raise
  \<open>OverflowError\<close>.\<close>

definition numeric :: "pyval \<Rightarrow> pyfloat option" where
  "numeric v = (case v of PInt i \<Rightarrow> Some (Fin (of_int i)) | PFloat f \<Rightarrow> Some f | _ \<Rightarrow> None)"

definition fl_over :: "pyfloat \<Rightarrow> nat \<Rightarrow> pyfloat" where
  "fl_over f n = (case f of Fin a \<Rightarrow> Fin (a / of_nat n) | _ \<Rightarrow> f)"

definition add_score :: "(string, pyfloat list) dict \<Rightarrow> string \<times> pyval \<Rightarrow> (string, pyfloat list) dict" where
  "add_score b = (\<lambda>(k, v). case numeric v of None \<Rightarrow> b | Some x \<Rightarrow> dset b k (dget_or b k [] @ [x]))"

definition score_buckets :: "eval_case list \<Rightarrow> (string, pyfloat list) dict" where
  "score_buckets cs = foldl (\<lambda>b c. foldl add_score b (ec_scores c)) [] cs"

definition stats_of :: "pyfloat list \<Rightarrow> pydict" where
  "stats_of xs = [(''mean'', PFloat (fl_over (foldl fl_add (Fin 0) xs) (length xs))), (''min'', PFloat (foldl fl_min (hd xs) (tl xs))),
     (''max'', PFloat (foldl fl_max (hd xs) (tl xs))), (''count'', PInt (int (length xs)))]"

definition score_stats :: "eval_case list \<Rightarrow> pydict" where
  "score_stats cs = map (\<lambda>(k, xs). (k, PDict (stats_of xs))) (score_buckets cs)"

text \<open>The calculators: \<open>None\<close> where there is none or it raises, else the attributes of what it answers.\<close>

record calculators =
  ca_cost :: "pyval \<Rightarrow> int \<Rightarrow> int \<Rightarrow> (string \<Rightarrow> pyval) option"
  ca_drift :: "string list \<Rightarrow> (string \<Rightarrow> pyval) option"

definition opt_num :: "pyfloat option \<Rightarrow> pyval" where
  "opt_num x = (case x of None \<Rightarrow> PNone | Some f \<Rightarrow> PFloat f)"

definition estimate_cost :: "calculators \<Rightarrow> pyval \<Rightarrow> int \<Rightarrow> int \<Rightarrow> pyval" where
  "estimate_cost ca model i out = (if \<not> py_truthy model \<or> (i = 0 \<and> out = 0) then PNone
     else case ca_cost ca model i out of None \<Rightarrow> PNone | Some get \<Rightarrow> opt_num (numeric (get ''total_cost'')))"

definition estimate_drift :: "calculators \<Rightarrow> eval_case list \<Rightarrow> pyval" where
  "estimate_drift ca cs =
     (let outs = List.map_filter (\<lambda>c. case ec_outputs c of PStr t \<Rightarrow> Some t | _ \<Rightarrow> None) cs in
      if length outs < 2 then PNone
      else case ca_drift ca outs of
        None \<Rightarrow> PNone
      | Some get \<Rightarrow> (let ks = [''drift_score'', ''consistency_score'', ''agreement_rate''] in
          if list_ex (\<lambda>k. numeric (get k) = None) ks then PNone
          else PDict (map (\<lambda>k. (k, opt_num (numeric (get k)))) ks)))"

definition flags :: "eval_case list \<Rightarrow> bool list" where
  "flags cs = List.map_filter ec_passed cs"

definition tokens :: "(eval_case \<Rightarrow> int option) \<Rightarrow> eval_case list \<Rightarrow> int" where
  "tokens f cs = sum_list (map (\<lambda>c. case f c of None \<Rightarrow> 0 | Some n \<Rightarrow> n) cs)"

definition run_summary :: "calculators \<Rightarrow> bool \<Rightarrow> eval_run \<Rightarrow> pydict" where
  "run_summary ca include_drift s =
     (let fs = flags (er_cases s); passed = length (filter id fs); i = tokens ec_in (er_cases s); out = tokens ec_out (er_cases s)
      in [(''run_id'', PStr (er_id s)), (''name'', PStr (er_name s)), (''model'', er_model s), (''started_at'', PStr (isoformat (er_started s))),
          (''total_cases'', PInt (int (length (er_cases s)))), (''passed'', PInt (int passed)), (''failed'', PInt (int (length fs) - int passed)),
          (''pass_rate'', if fs = [] then PNone else PFloat (Fin (of_nat passed / of_nat (length fs)))),
          (''scores'', PDict (score_stats (er_cases s))), (''input_tokens'', PInt i), (''output_tokens'', PInt out),
          (''cost'', estimate_cost ca (er_model s) i out), (''drift'', if include_drift then estimate_drift ca (er_cases s) else PNone),
          (''metadata'', PDict (er_meta s))])"

definition finish_eval :: "calculators \<Rightarrow> bool \<Rightarrow> string \<Rightarrow> datetime \<Rightarrow> eval_run \<Rightarrow> pydict \<times> eval_run" where
  "finish_eval ca include_drift uid now s = (case er_record s of
     Some r \<Rightarrow> (r, s)
   | None \<Rightarrow>
       (let r = [(''decision_id'', PStr uid), (''decision_type'', PStr ''eval.run''), (''function_name'', PStr (er_name s)),
             (''run_id'', PStr (er_id s)), (''model'', er_model s), (''inputs'', PDict []), (''outputs'', PDict (run_summary ca include_drift s)),
             (''started_at'', PStr (isoformat (er_started s))), (''ended_at'', PStr (isoformat now)),
             (''execution_time_ms'', PFloat (Fin (of_int (instant now - instant (er_started s)) / 1000)))]
        in (r, s\<lparr>er_record := Some r, er_exports := er_exports s @ [r]\<rparr>)))"

section \<open>Calls\<close>

datatype eval_call = LogCase string datetime eval_case | Finish bool string datetime

fun eval_step :: "(rat \<Rightarrow> string) \<Rightarrow> calculators \<Rightarrow> eval_run \<Rightarrow> eval_call \<Rightarrow> eval_run" where
  "eval_step fr ca s (LogCase uid now c) = snd (log_case fr uid now c s)"
| "eval_step fr ca s (Finish d uid now) = snd (finish_eval ca d uid now s)"

fun is_log :: "eval_call \<Rightarrow> bool" where
  "is_log (LogCase uid now c) = True"
| "is_log (Finish d uid now) = False"

fun logged_case :: "eval_call \<Rightarrow> eval_case list" where
  "logged_case (LogCase uid now c) = [c]"
| "logged_case (Finish d uid now) = []"

lemma log_open: "er_record s = None \<Longrightarrow> log_case fr uid now c s =
    (Inr (case_record fr s uid now c), s\<lparr>er_cases := er_cases s @ [c], er_exports := er_exports s @ [case_record fr s uid now c]\<rparr>)"
  by (simp add: log_case_def Let_def)

lemma case_record_keys:
  "dget (case_record fr s uid now c) ''case_id'' = Some (ec_id c)" "dget (case_record fr s uid now c) ''decision_type'' = Some (PStr ''eval.case'')"
  "dget (case_record fr s uid now c) ''run_id'' = Some (PStr (er_id s))" "dget (case_record fr s uid now c) ''passed'' = Some (opt_bool (ec_passed c))"
  by (simp_all add: case_record_def)

text \<open>What is exported of logged cases.\<close>

definition exported_cases :: "string \<Rightarrow> eval_case list \<Rightarrow> pydict list \<Rightarrow> bool" where
  "exported_cases run cs rs \<longleftrightarrow> list_all2 (\<lambda>c r. dget r ''decision_type'' = Some (PStr ''eval.case'') \<and> dget r ''run_id'' = Some (PStr run)
     \<and> dget r ''case_id'' = Some (ec_id c) \<and> dget r ''passed'' = Some (opt_bool (ec_passed c))) cs rs"

lemma logs_run:
  assumes "list_all is_log logs" "er_record s = None"
  shows "\<exists>rs. exported_cases (er_id s) (concat (map logged_case logs)) rs
    \<and> foldl (eval_step fr ca) s logs = s\<lparr>er_cases := er_cases s @ concat (map logged_case logs), er_exports := er_exports s @ rs\<rparr>"
  using assms
proof (induction logs arbitrary: s)
  case Nil
  show ?case by (intro exI [of _ "[]"]) (simp add: exported_cases_def)
next
  case (Cons l logs)
  then obtain uid now c where l: "l = LogCase uid now c" by (cases l) auto
  let ?r = "case_record fr s uid now c" and ?s1 = "s\<lparr>er_cases := er_cases s @ [c], er_exports := er_exports s @ [case_record fr s uid now c]\<rparr>"
  have "list_all is_log logs" "er_record ?s1 = None" using Cons.prems by simp_all
  from Cons.IH [OF this] obtain rs where rs: "exported_cases (er_id ?s1) (concat (map logged_case logs)) rs"
    "foldl (eval_step fr ca) ?s1 logs = ?s1\<lparr>er_cases := er_cases ?s1 @ concat (map logged_case logs), er_exports := er_exports ?s1 @ rs\<rparr>"
    by blast
  have e: "eval_step fr ca s l = ?s1" using l log_open [of s fr uid now c] Cons.prems(2) by simp
  have x: "exported_cases (er_id s) (concat (map logged_case (l # logs))) (?r # rs)"
    using rs(1) l by (simp add: exported_cases_def case_record_keys)
  have "foldl (eval_step fr ca) s (l # logs)
      = s\<lparr>er_cases := er_cases s @ concat (map logged_case (l # logs)), er_exports := er_exports s @ (?r # rs)\<rparr>"
    unfolding foldl_Cons e rs(2) by (simp add: l)
  then show ?case using x by blast
qed

lemma finished_stays: "er_record s = Some r \<Longrightarrow> foldl (eval_step fr ca) s calls = s"
proof (induction calls)
  case (Cons c calls)
  then have "eval_step fr ca s c = s" by (cases c) (auto simp: log_case_def finish_eval_def)
  then show ?case using Cons by simp
qed simp

definition tally :: "bool \<Rightarrow> eval_case list \<Rightarrow> nat" where
  "tally b cs = length (filter (\<lambda>c. ec_passed c = Some b) cs)"

lemma flags_tally: "length (filter id (flags cs)) = tally True cs" "length (flags cs) = tally True cs + tally False cs"
  by (induction cs) (auto simp: flags_def tally_def map_filter_simps split: option.splits)

text \<open>What the outputs of a run's record say of the cases.\<close>

definition accounts_for :: "pydict \<Rightarrow> eval_case list \<Rightarrow> bool" where
  "accounts_for sm cs \<longleftrightarrow> dget sm ''total_cases'' = Some (PInt (int (length cs)))
     \<and> dget sm ''passed'' = Some (PInt (int (tally True cs))) \<and> dget sm ''failed'' = Some (PInt (int (tally False cs)))
     \<and> dget sm ''pass_rate'' = Some (if tally True cs + tally False cs = 0 then PNone
         else PFloat (Fin (of_nat (tally True cs) / of_nat (tally True cs + tally False cs))))
     \<and> dget sm ''input_tokens'' = Some (PInt (tokens ec_in cs)) \<and> dget sm ''output_tokens'' = Some (PInt (tokens ec_out cs))"

lemma summary_accounts: "accounts_for (run_summary ca d s) (er_cases s)"
proof -
  have "int (length (flags (er_cases s))) - int (length (filter id (flags (er_cases s)))) = int (tally False (er_cases s))"
    by (simp add: flags_tally)
  moreover have "flags (er_cases s) = [] \<longleftrightarrow> tally True (er_cases s) + tally False (er_cases s) = 0"
    unfolding flags_tally(2) [symmetric] by simp
  ultimately show ?thesis unfolding accounts_for_def run_summary_def Let_def flags_tally [symmetric] by simp
qed

text \<open>
  The record of a run. Whatever is called, once the run has been finished it stays as it is: one
  record for each case logged before, in order, then one for the run, whose outputs count exactly
  those cases, the passed, the failed and the tokens; later cases are refused.
\<close>

theorem eval_run_accounts:
  assumes "list_all is_log logs"
  shows "\<exists>rs r sm. er_exports (foldl (eval_step fr ca) (new_run name rid fresh model meta now) (logs @ Finish d uid ends # rest)) = rs @ [r]
    \<and> exported_cases (er_id (new_run name rid fresh model meta now)) (concat (map logged_case logs)) rs
    \<and> dget r ''decision_type'' = Some (PStr ''eval.run'') \<and> dget r ''function_name'' = Some (PStr name)
    \<and> dget r ''outputs'' = Some (PDict sm)
    \<and> accounts_for sm (concat (map logged_case logs))"
proof -
  let ?s = "new_run name rid fresh model meta now"
  have "er_record ?s = None" by (simp add: new_run_def)
  from logs_run [OF assms this] obtain rs where rs: "exported_cases (er_id ?s) (concat (map logged_case logs)) rs"
    "foldl (eval_step fr ca) ?s logs = ?s\<lparr>er_cases := er_cases ?s @ concat (map logged_case logs), er_exports := er_exports ?s @ rs\<rparr>" by blast
  define s1 where "s1 = foldl (eval_step fr ca) ?s logs"
  have s1: "er_record s1 = None" "er_cases s1 = concat (map logged_case logs)" "er_exports s1 = rs" "er_name s1 = name"
    unfolding s1_def rs(2) by (simp_all add: new_run_def)
  define r where "r = fst (finish_eval ca d uid ends s1)"
  have f: "eval_step fr ca s1 (Finish d uid ends) = s1\<lparr>er_record := Some r, er_exports := er_exports s1 @ [r]\<rparr>"
    "dget r ''decision_type'' = Some (PStr ''eval.run'')" "dget r ''outputs'' = Some (PDict (run_summary ca d s1))"
    "dget r ''function_name'' = Some (PStr name)"
    using s1(1,4) by (simp_all add: finish_eval_def r_def Let_def)
  have "foldl (eval_step fr ca) ?s (logs @ Finish d uid ends # rest) = s1\<lparr>er_record := Some r, er_exports := er_exports s1 @ [r]\<rparr>"
    unfolding foldl_append foldl_Cons s1_def [symmetric] f(1) by (rule finished_stays) simp
  then show ?thesis using rs(1) f(2-4) s1(3) summary_accounts [of ca d s1] unfolding s1(2) by auto
qed

end
