(* ===== verification/EvalLogs.thy ===== *)
theory EvalLogs
  imports EvalRun IsoParse "HOL-Library.Sublist"
begin

text \<open>
  \<open>integrations/evals/parsers.py\<close>: logs of inspect-ai and lm-eval-harness read into normalized cases, and
  their replay as a run. A file is given by what \<open>json.loads\<close> makes of it, an archive by its header and
  its samples under their names; decompression is not modelled. The results: replaying an inspect log makes
  one record for each sample, in order, and a run that passes the samples whose every score is one;
  the samples of an archive are read in the order of their numbers.
\<close>

record parsed_log =
  pl_source :: string
  pl_name :: string
  pl_model :: pyval
  pl_cases :: "eval_case list"
  pl_metrics :: "(string, pyfloat) dict"

section \<open>Text of content\<close>

text \<open>\<open>(v or {}).items()\<close>.\<close>

definition items_or_none :: "pyval \<Rightarrow> pydict res" where
  "items_or_none v = (if \<not> py_truthy v then Inr [] else case v of PDict d \<Rightarrow> Inr d | _ \<Rightarrow> Inl AttributeError)"

definition part_text :: "(rat \<Rightarrow> string) \<Rightarrow> pyval \<Rightarrow> string" where
  "part_text fr p = (case p of
     PDict d \<Rightarrow> py_str fr (py_or (py_or (dget_or d ''text'' PNone) (dget_or d ''content'' PNone)) (PStr []))
   | _ \<Rightarrow> py_str fr p)"

definition flatten_content :: "(rat \<Rightarrow> string) \<Rightarrow> pyval \<Rightarrow> pyval" where
  "flatten_content fr v = (case v of
     PNone \<Rightarrow> PNone | PStr s \<Rightarrow> PStr s | PList ps \<Rightarrow> PStr (concat (map (part_text fr) ps)) | _ \<Rightarrow> PStr (py_str fr v))"

fun lines_text :: "string list \<Rightarrow> string" where
  "lines_text [] = []"
| "lines_text [t] = t"
| "lines_text (t # ts) = t @ CHR 0x0A # lines_text ts"

definition message_line :: "(rat \<Rightarrow> string) \<Rightarrow> pyval \<Rightarrow> string" where
  "message_line fr m = (case m of
     PDict d \<Rightarrow> py_str fr (dget_or d ''role'' (PStr ''user'')) @ '': '' @ py_str fr (flatten_content fr (dget_or d ''content'' PNone))
   | _ \<Rightarrow> py_str fr m)"

definition flatten_input :: "(rat \<Rightarrow> string) \<Rightarrow> pyval \<Rightarrow> pyval" where
  "flatten_input fr v = (case v of PList ms \<Rightarrow> PStr (lines_text (map (message_line fr) ms)) | _ \<Rightarrow> flatten_content fr v)"

section \<open>Scores\<close>

definition grade :: "string \<Rightarrow> rat option" where
  "grade s = (let t = strip s in
     if t = ''C'' \<or> t = ''c'' then Some 1 else if t = ''I'' \<or> t = ''i'' then Some 0
     else if t = ''P'' \<or> t = ''p'' then Some (1 / 2) else if t = ''N'' \<or> t = ''n'' then Some 0 else None)"

definition score_value :: "pyval \<Rightarrow> pyfloat option" where
  "score_value v = (case v of
     PBool b \<Rightarrow> Some (Fin (if b then 1 else 0)) | PStr s \<Rightarrow> map_option Fin (grade s) | _ \<Rightarrow> numeric v)"

definition passed_all :: "(string, pyfloat) dict \<Rightarrow> bool option" where
  "passed_all scores = (if scores = [] then None else Some (list_all (\<lambda>kv. snd kv = Fin 1) scores))"

definition float_items :: "(string, pyfloat) dict \<Rightarrow> pydict" where
  "float_items d = map (\<lambda>(k, x). (k, PFloat x)) d"

section \<open>inspect-ai\<close>

definition inspect_scores :: "pydict \<Rightarrow> (string, pyfloat) dict" where
  "inspect_scores d = List.map_filter (\<lambda>(k, s). map_option (\<lambda>x. (k, x)) (score_value (case s of PDict e \<Rightarrow> dget_or e ''value'' PNone | _ \<Rightarrow> s))) d"

definition inspect_text :: "(rat \<Rightarrow> string) \<Rightarrow> pyval \<Rightarrow> pyval res" where
  "inspect_text fr output = (let choices = (case py_or output (PDict []) of PDict d \<Rightarrow> dget_or d ''choices'' PNone | _ \<Rightarrow> PNone) in
     if \<not> py_truthy choices then Inr PNone
     else rbind (first_of choices) (\<lambda>c. Inr (case c of
       PDict e \<Rightarrow> (case dget_or e ''message'' PNone of PDict m \<Rightarrow> flatten_content fr (dget_or m ''content'' PNone) | _ \<Rightarrow> PNone)
     | _ \<Rightarrow> PNone)))"

definition inspect_case :: "(rat \<Rightarrow> string) \<Rightarrow> string \<Rightarrow> pyval \<Rightarrow> eval_case res" where
  "inspect_case fr task sample = rbind (val_get sample ''scores'') (\<lambda>sc. rbind (items_or_none sc) (\<lambda>raw.
     rbind (val_get sample ''output'') (\<lambda>output. rbind (inspect_text fr output) (\<lambda>text.
       (let scores = inspect_scores raw; get = (\<lambda>k. case sample of PDict d \<Rightarrow> dget_or d k PNone | _ \<Rightarrow> PNone) in
        Inr \<lparr>ec_id = PStr (task @ ''/'' @ py_str fr (get ''id'')), ec_inputs = flatten_input fr (get ''input''), ec_outputs = text,
          ec_target = flatten_content fr (get ''target''), ec_scores = float_items scores, ec_passed = passed_all scores,
          ec_in = None, ec_out = None, ec_tags = [], ec_meta = (if py_truthy (get ''epoch'') then [(''epoch'', get ''epoch'')] else [])\<rparr>)))))"

text \<open>The items a loop sees of something true, a failing loop included.\<close>

definition loop_items :: "pyval \<Rightarrow> pyval list res" where
  "loop_items v = (if \<not> py_truthy v then Inr [] else case v of
     PList xs \<Rightarrow> Inr xs | PDict d \<Rightarrow> Inr (map PStr (dkeys d)) | PStr s \<Rightarrow> Inr (map (\<lambda>c. PStr [c]) s) | _ \<Rightarrow> Inl TypeError)"

definition metric_value :: "pyval \<Rightarrow> pyfloat option" where
  "metric_value m = numeric (case m of PDict d \<Rightarrow> dget_or d ''value'' PNone | _ \<Rightarrow> m)"

fun add_scorer :: "(rat \<Rightarrow> string) \<Rightarrow> pyval list \<Rightarrow> (string, pyfloat) dict \<Rightarrow> (string, pyfloat) dict res" where
  "add_scorer fr [] ms = Inr ms"
| "add_scorer fr (PDict d # ss) ms =
     rbind (items_or_none (dget_or d ''metrics'' PNone)) (\<lambda>raw.
       let scorer = py_str fr (py_or (py_or (dget_or d ''name'' PNone) (dget_or d ''scorer'' PNone)) (PStr ''score'')) in
       add_scorer fr ss (foldl (\<lambda>acc (k, v). case metric_value v of None \<Rightarrow> acc | Some x \<Rightarrow> dset acc (scorer @ ''/'' @ k) x) ms raw))"
| "add_scorer fr (s # ss) ms = add_scorer fr ss ms"

definition inspect_metrics :: "(rat \<Rightarrow> string) \<Rightarrow> pyval \<Rightarrow> (string, pyfloat) dict res" where
  "inspect_metrics fr results = (case results of
     PDict d \<Rightarrow> rbind (loop_items (dget_or d ''scores'' PNone)) (\<lambda>ss. add_scorer fr ss []) | _ \<Rightarrow> Inr [])"

definition inspect_log :: "(rat \<Rightarrow> string) \<Rightarrow> pydict \<Rightarrow> pyval \<Rightarrow> parsed_log res" where
  "inspect_log fr header samples = (case dget_or header ''eval'' PNone of
     PDict spec \<Rightarrow>
       (let task = py_or (dget_or spec ''task'' PNone) (PStr ''inspect-eval'') in
        rbind (loop_items samples) (\<lambda>ss. rbind (rmap (inspect_case fr (py_str fr task)) ss) (\<lambda>cs.
        rbind (inspect_metrics fr (dget_or header ''results'' PNone)) (\<lambda>ms.
          Inr \<lparr>pl_source = ''inspect-ai'', pl_name = py_str fr task, pl_model = dget_or spec ''model'' PNone, pl_cases = cs, pl_metrics = ms\<rparr>))))
   | _ \<Rightarrow> Inl ValueError)"

text \<open>A JSON log: one value. An archive: its header and the values under its sample names.\<close>

definition from_inspect_json :: "(rat \<Rightarrow> string) \<Rightarrow> pyval \<Rightarrow> parsed_log res" where
  "from_inspect_json fr file = (let header = (case file of PDict d \<Rightarrow> d | _ \<Rightarrow> []) in inspect_log fr header (dget_or header ''samples'' PNone))"

text \<open>\<open>_sample_sort_key\<close>: samples with a number first, by number, then by the name in the
  folder. Digits are the ASCII ones.\<close>

definition is_digits :: "string \<Rightarrow> bool" where
  "is_digits s \<longleftrightarrow> s \<noteq> [] \<and> list_all is_digit s"

definition after_slash :: "string \<Rightarrow> string" where
  "after_slash s = rev (takeWhile (\<lambda>c. c \<noteq> CHR ''/'') (rev s))"

definition sample_sort_key :: "string \<Rightarrow> nat \<times> int \<times> string" where
  "sample_sort_key name = (let stem = after_slash name; lead = takeWhile (\<lambda>c. c \<noteq> CHR ''_'') stem in
     if is_digits lead then (0, digits_value lead, stem) else (1, 0, stem))"

definition is_sample :: "string \<Rightarrow> bool" where
  "is_sample n \<longleftrightarrow> prefix ''samples/'' n \<and> suffix ''.json'' n"

definition archive_samples :: "(string \<times> pyval) list \<Rightarrow> (string \<times> pyval) list" where
  "archive_samples entries = sort_key (\<lambda>e. sample_sort_key (fst e)) (filter (\<lambda>e. is_sample (fst e)) entries)"

definition from_inspect_archive :: "(rat \<Rightarrow> string) \<Rightarrow> (string \<times> pyval) list \<Rightarrow> parsed_log res" where
  "from_inspect_archive fr entries = (case dget entries ''header.json'' of
     None \<Rightarrow> Inl ValueError
   | Some h \<Rightarrow> (case h of
       PDict header \<Rightarrow> inspect_log fr header (PList (map snd (archive_samples entries)))
     | _ \<Rightarrow> Inl AttributeError))"

section \<open>lm-eval-harness\<close>

definition NON_METRIC_KEYS :: "string list" where
  "NON_METRIC_KEYS = [''doc_id'', ''doc'', ''doc_hash'', ''target'', ''target_hash'', ''arguments'', ''resps'', ''filtered_resps'', ''filter'',
     ''metrics'', ''task'', ''task_hash'', ''subtask'', ''epoch'', ''prompt_hash'', ''arguments_hash'']"

definition NON_METRIC_RESULT_KEYS :: "string list" where
  "NON_METRIC_RESULT_KEYS = [''alias'', ''name'', ''sample_len'', ''samples'', ''n-samples'']"

definition lm_eval_metrics :: "pyval \<Rightarrow> (string, pyfloat) dict" where
  "lm_eval_metrics entry = (case entry of
     PDict d \<Rightarrow> foldl (\<lambda>acc (k, v). if k \<in> set NON_METRIC_RESULT_KEYS then acc
         else case numeric v of None \<Rightarrow> acc
         | Some x \<Rightarrow> (let name = takeWhile (\<lambda>c. c \<noteq> CHR '','') k in if suffix ''_stderr'' name then acc else dset acc name x)) [] d
   | _ \<Rightarrow> [])"

text \<open>The task in the name of a samples file: the shortest text between \<open>samples_\<close> and a time stamp.\<close>

definition stamp_end :: "string \<Rightarrow> bool" where
  "stamp_end s \<longleftrightarrow> (let fixed = take 12 s; rest = drop 12 s in
     length fixed = 12 \<and> list_all2 (\<lambda>p c. if p = CHR ''d'' then is_digit c else p = c) ''_dddd-dd-ddT'' fixed
     \<and> rest \<noteq> [] \<and> list_all (\<lambda>c. is_digit c \<or> c = CHR ''-'' \<or> c = CHR ''.'') rest)"

fun task_before_stamp :: "string \<Rightarrow> string \<Rightarrow> string option" where
  "task_before_stamp seen [] = None"
| "task_before_stamp seen (c # s) =
     (if c = CHR 0x0A then None else if stamp_end s then Some (seen @ [c]) else task_before_stamp (seen @ [c]) s)"

definition default_task :: "string option \<Rightarrow> string list \<Rightarrow> string" where
  "default_task stem tasks = (case (case stem of None \<Rightarrow> None
       | Some s \<Rightarrow> if prefix ''samples_'' s then task_before_stamp [] (drop 8 s) else None) of
     Some t \<Rightarrow> t | None \<Rightarrow> (case tasks of [t] \<Rightarrow> t | _ \<Rightarrow> ''task''))"

definition row_field :: "pydict \<Rightarrow> string \<Rightarrow> pyval" where
  "row_field row k = dget_or row k PNone"

definition lm_eval_prompt :: "(rat \<Rightarrow> string) \<Rightarrow> pydict \<Rightarrow> pyval" where
  "lm_eval_prompt fr row =
     (let doc = (case row_field row ''doc'' of PDict d \<Rightarrow> PStr (dumps fr True (PDict d)) | _ \<Rightarrow> PNone);
          arg = (\<lambda>e. py_or (dget_or e ''arg_0'' PNone) (dget_or e ''input'' PNone))
      in case row_field row ''arguments'' of
           PDict (kv # d) \<Rightarrow> (case dget_or (kv # d) ''gen_args_0'' (dget_or (kv # d) (hd (sort (dkeys (kv # d)))) PNone) of
               PDict e \<Rightarrow> flatten_content fr (arg e) | first \<Rightarrow> flatten_content fr first)
         | PList (first # args) \<Rightarrow> (case first of
               PList (x # xs) \<Rightarrow> PStr (py_str fr x) | PDict e \<Rightarrow> flatten_input fr (arg e) | _ \<Rightarrow> PStr (py_str fr first))
         | _ \<Rightarrow> doc)"

fun first_response :: "(rat \<Rightarrow> string) \<Rightarrow> pyval list \<Rightarrow> pyval" where
  "first_response fr [] = PNone"
| "first_response fr (v # vs) = (case v of
     PList [PStr s] \<Rightarrow> PStr s
   | PList [PList [PStr s]] \<Rightarrow> PStr s
   | PList (x # xs) \<Rightarrow> PStr (dumps fr False (PList (x # xs)))
   | _ \<Rightarrow> first_response fr vs)"

definition lm_eval_case :: "(rat \<Rightarrow> string) \<Rightarrow> pydict \<Rightarrow> pyval \<Rightarrow> eval_case" where
  "lm_eval_case fr row task =
     (let scores = List.map_filter (\<lambda>(k, v). if k \<in> set NON_METRIC_KEYS then None else map_option (\<lambda>x. (k, x)) (numeric v)) row
      in \<lparr>ec_id = PStr (py_str fr task @ ''/'' @ py_str fr (row_field row ''doc_id'')), ec_inputs = lm_eval_prompt fr row,
          ec_outputs = first_response fr [row_field row ''filtered_resps'', row_field row ''resps''],
          ec_target = flatten_content fr (row_field row ''target''), ec_scores = float_items scores, ec_passed = passed_all scores,
          ec_in = None, ec_out = None, ec_tags = [], ec_meta = []\<rparr>)"

text \<open>\<open>task in keep\<close>; a list or a dictionary has no hash.\<close>

definition kept_task :: "string list option \<Rightarrow> pyval \<Rightarrow> bool res" where
  "kept_task keep task = (case keep of None \<Rightarrow> Inr True | Some ts \<Rightarrow> (case task of
     PStr t \<Rightarrow> Inr (t \<in> set ts) | PList xs \<Rightarrow> Inl TypeError | PDict d \<Rightarrow> Inl TypeError | _ \<Rightarrow> Inr False))"

fun lm_eval_rows :: "(rat \<Rightarrow> string) \<Rightarrow> (string \<Rightarrow> pyval res) \<Rightarrow> string list option \<Rightarrow> string \<Rightarrow> string list \<Rightarrow> eval_case list res" where
  "lm_eval_rows fr load keep other [] = Inr []"
| "lm_eval_rows fr load keep other (l # ls) =
     (if strip l = [] then lm_eval_rows fr load keep other ls
      else rbind (load (strip l)) (\<lambda>v. case v of
        PDict row \<Rightarrow> (let task = py_or (row_field row ''task'') (PStr other) in
          rbind (kept_task keep task) (\<lambda>k. rbind (lm_eval_rows fr load keep other ls) (\<lambda>cs.
            Inr (if k then lm_eval_case fr row task # cs else cs))))
      | _ \<Rightarrow> Inl AttributeError))"

text \<open>The samples file: its stem and its lines, or no such file.\<close>

definition lm_eval_cases ::
  "(rat \<Rightarrow> string) \<Rightarrow> (string \<Rightarrow> pyval res) \<Rightarrow> (string \<times> string list option) option \<Rightarrow> string list option \<Rightarrow> string \<Rightarrow> eval_case list res" where
  "lm_eval_cases fr load samples keep other = (case samples of
     None \<Rightarrow> Inr [] | Some (stem, None) \<Rightarrow> Inl (RaisedBy ''FileNotFoundError'') | Some (stem, Some ls) \<Rightarrow> lm_eval_rows fr load keep other ls)"

fun plus_text :: "string list \<Rightarrow> string" where
  "plus_text [] = []"
| "plus_text [t] = t"
| "plus_text (t # ts) = t @ ''+'' @ plus_text ts"

definition from_lm_eval ::
  "(rat \<Rightarrow> string) \<Rightarrow> (string \<Rightarrow> pyval res) \<Rightarrow> pyval \<Rightarrow> (string \<times> string list option) option \<Rightarrow> string option \<Rightarrow> parsed_log res" where
  "from_lm_eval fr load file samples task =
     (case file of
        PDict p \<Rightarrow> (case dget_or p ''results'' PNone of
          PDict (kv # d) \<Rightarrow>
            (let results = kv # d;
                 chosen = (case task of None \<Rightarrow> Some results | Some t \<Rightarrow> map_option (\<lambda>v. [(t, v)]) (dget results t))
             in case chosen of
                  None \<Rightarrow> Inl ValueError
                | Some sel \<Rightarrow>
                    (let tasks = sort (dkeys sel);
                         metrics = foldl (\<lambda>acc t. foldl (\<lambda>acc (k, x). dset acc ((if length tasks > 1 then t @ ''/'' else []) @ k) x) acc
                             (lm_eval_metrics (dget_or sel t PNone))) [] tasks;
                         config = (case dget_or p ''config'' PNone of PDict c \<Rightarrow> c | _ \<Rightarrow> [])
                     in rbind (lm_eval_cases fr load samples (if str_truthy task then Some tasks else None) (default_task (map_option fst samples) tasks)) (\<lambda>cs.
                          Inr \<lparr>pl_source = ''lm-eval-harness'', pl_name = plus_text tasks, pl_model = dget_or config ''model'' PNone, pl_cases = cs,
                            pl_metrics = metrics\<rparr>)))
        | _ \<Rightarrow> Inl ValueError)
      | _ \<Rightarrow> Inl ValueError)"

section \<open>Replay\<close>

text \<open>The ids and times of the cases and of the run.\<close>

definition replay ::
  "(rat \<Rightarrow> string) \<Rightarrow> calculators \<Rightarrow> parsed_log \<Rightarrow> string option \<Rightarrow> string \<Rightarrow> datetime \<Rightarrow> (nat \<Rightarrow> string \<times> datetime) \<Rightarrow> string \<Rightarrow> datetime \<Rightarrow> eval_run" where
  "replay fr ca p name fresh now stamp uid ends =
     (let s = new_run (if str_truthy name then the name else pl_name p) None fresh (pl_model p)
          [(''source'', PStr (pl_source p)), (''metrics'', PDict (float_items (pl_metrics p)))] now;
          cs = map (\<lambda>(i, c). (fst (stamp i), snd (stamp i), c)) (enumerate 0 (pl_cases p))
      in snd (finish_eval ca False uid ends (snd (ingest fr cs s))))"

section \<open>Replaying an inspect log\<close>

lemma ingest_calls:
  "er_record s = None \<Longrightarrow> list_all (\<lambda>(uid, now, c). ec_id c \<noteq> PNone) cs \<Longrightarrow>
    snd (ingest_from fr i cs s) = foldl (eval_step fr ca) s (map (\<lambda>(uid, now, c). LogCase uid now c) cs)"
proof (induction cs arbitrary: s i)
  case (Cons x cs)
  obtain uid now c where x: "x = (uid, now, c)" by (metis prod_cases3)
  let ?s1 = "s\<lparr>er_cases := er_cases s @ [c], er_exports := er_exports s @ [case_record fr s uid now c]\<rparr>"
  have "er_record ?s1 = None" "list_all (\<lambda>(uid, now, c). ec_id c \<noteq> PNone) cs" "ec_id c \<noteq> PNone" using Cons.prems x by simp_all
  then show ?case using Cons.IH [of ?s1 "Suc i"] log_open [OF Cons.prems(1), of fr uid now c] x by simp
qed simp

lemma inspect_case_id:
  assumes "inspect_case fr task sample = Inr c"
  shows "ec_id c = PStr (task @ ''/'' @ py_str fr (case sample of PDict d \<Rightarrow> dget_or d ''id'' PNone | _ \<Rightarrow> PNone))"
  using assms by (auto simp: inspect_case_def rbind_Inr_iff Let_def)

lemma rmap_all2: "rmap f xs = Inr ys \<Longrightarrow> list_all2 (\<lambda>x y. f x = Inr y) xs ys"
  by (induction xs arbitrary: ys) (auto simp: rbind_Inr_iff)

lemma rmap_mem: "rmap f xs = Inr ys \<Longrightarrow> y \<in> set ys \<Longrightarrow> \<exists>x. f x = Inr y"
  by (induction xs arbitrary: ys) (auto simp: rbind_Inr_iff)

lemma passed_all_iff:
  "passed_all d = Some True \<longleftrightarrow> float_items d \<noteq> [] \<and> list_all (\<lambda>kv. snd kv = PFloat (Fin 1)) (float_items d)"
  by (simp add: passed_all_def float_items_def list_all_iff case_prod_unfold)

lemma inspect_case_passed:
  assumes "inspect_case fr task sample = Inr c"
  shows "ec_passed c = Some True \<longleftrightarrow> ec_scores c \<noteq> [] \<and> list_all (\<lambda>kv. snd kv = PFloat (Fin 1)) (ec_scores c)"
proof -
  obtain d where "ec_passed c = passed_all d" "ec_scores c = float_items d"
    using assms unfolding inspect_case_def rbind_Inr_iff Let_def by force
  then show ?thesis by (simp add: passed_all_iff)
qed

text \<open>
  C40: Replaying an inspect log. When a log can be parsed, its replay exports one record for each sample, in
  order, with the id of the sample under the task, and then one for the run under the task's name, which counts
  exactly those samples and, as passed, those that have scores and all of them one.
\<close>

theorem inspect_replay:
  assumes parsed: "from_inspect_json fr (PDict h) = Inr p"
    and s: "s = replay fr ca p None fresh now stamp uid ends"
  shows "\<exists>samples rs r sm. loop_items (dget_or h ''samples'' PNone) = Inr samples
    \<and> list_all2 (\<lambda>x c. inspect_case fr (pl_name p) x = Inr c) samples (pl_cases p)
    \<and> er_exports s = rs @ [r] \<and> exported_cases fresh (pl_cases p) rs
    \<and> dget r ''function_name'' = Some (PStr (pl_name p)) \<and> dget r ''outputs'' = Some (PDict sm) \<and> accounts_for sm (pl_cases p)
    \<and> tally True (pl_cases p) = length (filter (\<lambda>c. ec_scores c \<noteq> [] \<and> list_all (\<lambda>kv. snd kv = PFloat (Fin 1)) (ec_scores c)) (pl_cases p))"
proof -
  obtain spec where spec: "dget_or h ''eval'' PNone = PDict spec"
    using parsed by (auto simp: from_inspect_json_def inspect_log_def split: pyval.splits)
  define task where "task = py_str fr (py_or (dget_or spec ''task'' PNone) (PStr ''inspect-eval''))"
  obtain samples ms where l: "loop_items (dget_or h ''samples'' PNone) = Inr samples" "rmap (inspect_case fr task) samples = Inr (pl_cases p)"
    "pl_name p = task"
    using parsed spec by (auto simp: from_inspect_json_def inspect_log_def rbind_Inr_iff Let_def task_def)
  have all2: "list_all2 (\<lambda>x c. inspect_case fr (pl_name p) x = Inr c) samples (pl_cases p)" using rmap_all2 [OF l(2)] l(3) by simp
  have cases: "\<exists>x. inspect_case fr task x = Inr c" if "c \<in> set (pl_cases p)" for c
    by (rule rmap_mem [OF l(2) that])
  define s0 where "s0 = new_run (pl_name p) None fresh (pl_model p)
    [(''source'', PStr (pl_source p)), (''metrics'', PDict (float_items (pl_metrics p)))] now"
  define cs where "cs = map (\<lambda>(i, c). (fst (stamp i), snd (stamp i), c)) (enumerate 0 (pl_cases p))"
  have "ec_id c \<noteq> PNone" if "c \<in> set (pl_cases p)" for c using cases [OF that] inspect_case_id by fastforce
  then have "list_all (\<lambda>(uid, now, c). ec_id c \<noteq> PNone) cs"
    unfolding cs_def list_all_iff by (auto simp: in_set_enumerate_eq)
  then have i: "snd (ingest fr cs s0) = foldl (eval_step fr ca) s0 (map (\<lambda>(uid, now, c). LogCase uid now c) cs)"
    unfolding ingest_def by (intro ingest_calls) (simp_all add: s0_def new_run_def)
  let ?logs = "map (\<lambda>(uid, now, c). LogCase uid now c) cs"
  have logs: "list_all is_log ?logs" by (auto simp: list_all_iff)
  have "map snd (map snd cs) = pl_cases p" by (simp add: cs_def comp_def case_prod_unfold)
  moreover have "concat (map logged_case ?logs) = map snd (map snd cs)" by (induction cs) auto
  ultimately have lc: "concat (map logged_case ?logs) = pl_cases p" by simp
  have "s = foldl (eval_step fr ca) s0 (?logs @ [Finish False uid ends])"
    unfolding s replay_def Let_def using i by (simp add: s0_def cs_def str_truthy_def)
  with eval_run_accounts [OF logs, of fr ca "pl_name p" None fresh "pl_model p"
    "[(''source'', PStr (pl_source p)), (''metrics'', PDict (float_items (pl_metrics p)))]" now False uid ends "[]"]
  obtain rs r sm where r: "er_exports s = rs @ [r]" "exported_cases (er_id s0) (pl_cases p) rs" "dget r ''outputs'' = Some (PDict sm)"
    "accounts_for sm (pl_cases p)" and name: "dget r ''function_name'' = Some (PStr (pl_name p))" unfolding lc s0_def by auto
  have "ec_passed c = Some True \<longleftrightarrow> ec_scores c \<noteq> [] \<and> list_all (\<lambda>kv. snd kv = PFloat (Fin 1)) (ec_scores c)" if "c \<in> set (pl_cases p)" for c
    using cases [OF that] inspect_case_passed by blast
  then have "tally True (pl_cases p) = length (filter (\<lambda>c. ec_scores c \<noteq> [] \<and> list_all (\<lambda>kv. snd kv = PFloat (Fin 1)) (ec_scores c)) (pl_cases p))"
    unfolding tally_def by (intro arg_cong [where f = length] filter_cong) auto
  moreover have "er_id s0 = fresh" by (simp add: s0_def new_run_def str_truthy_def)
  ultimately show ?thesis using l(1) all2 r name by blast
qed

lemma inspect_replay_witness:
  "\<forall>fr ca fresh now stamp uid ends. \<exists>p rs r. from_inspect_json fr (PDict [(''eval'', PDict [(''task'', PStr ''gsm8k'')]),
        (''samples'', PList [PDict [(''id'', PStr ''a''), (''scores'', PDict [(''acc'', PStr ''C'')])]])]) = Inr p
    \<and> er_exports (replay fr ca p None fresh now stamp uid ends) = rs @ [r] \<and> length rs = 1
    \<and> dget r ''function_name'' = Some (PStr ''gsm8k'')"
proof (intro allI)
  fix fr ca fresh now stamp uid ends
  let ?h = "[(''eval'', PDict [(''task'', PStr ''gsm8k'')]),
        (''samples'', PList [PDict [(''id'', PStr ''a''), (''scores'', PDict [(''acc'', PStr ''C'')])]])]"
  obtain p where p: "from_inspect_json fr (PDict ?h) = Inr p" "pl_name p = ''gsm8k''" "length (pl_cases p) = 1"
    by (simp add: from_inspect_json_def inspect_log_def inspect_case_def inspect_metrics_def loop_items_def items_or_none_def val_get_or_def
        inspect_text_def py_or_def Let_def dget_or_def)
  obtain rs r where "er_exports (replay fr ca p None fresh now stamp uid ends) = rs @ [r]" "exported_cases fresh (pl_cases p) rs"
    "dget r ''function_name'' = Some (PStr (pl_name p))"
    using inspect_replay [OF p(1) refl, of ca fresh now stamp uid ends] by blast
  moreover have "length rs = 1" if "exported_cases fresh (pl_cases p) rs" for rs
    using list_all2_lengthD [OF that [unfolded exported_cases_def]] p(3) by simp
  ultimately show "\<exists>p rs r. from_inspect_json fr (PDict ?h) = Inr p \<and> er_exports (replay fr ca p None fresh now stamp uid ends) = rs @ [r]
      \<and> length rs = 1 \<and> dget r ''function_name'' = Some (PStr ''gsm8k'')"
    using p(1,2) by auto
qed

section \<open>Archives and metrics\<close>

text \<open>The samples of an archive are exactly its sample entries, in the order of their keys; a sample
  with a number stands before one with a larger number, and every numbered one before the others.\<close>

lemma archive_order:
  "mset (archive_samples es) = mset (filter (\<lambda>e. is_sample (fst e)) es)"
  "sorted (map (\<lambda>e. sample_sort_key (fst e)) (archive_samples es))"
  by (simp_all add: archive_samples_def)

lemma numbered_order: "sample_sort_key ''samples/2_epoch_1.json'' < sample_sort_key ''samples/10_epoch_1.json''"
    "sample_sort_key ''samples/10_epoch_1.json'' < sample_sort_key ''samples/a_epoch_1.json''"
  by (simp_all add: sample_sort_key_def after_slash_def Let_def is_digits_def is_digit_def digits_value_def)

text \<open>The names of metrics lose their filter, so of two filters of one metric the later is kept alone.\<close>

lemma filters_collide:
  "lm_eval_metrics (PDict [(''exact_match,strict-match'', PFloat (Fin (1 / 5))), (''exact_match,flexible-extract'', PFloat (Fin (4 / 5)))])
     = [(''exact_match'', Fin (4 / 5))]"
  by (simp add: lm_eval_metrics_def NON_METRIC_RESULT_KEYS_def numeric_def suffix_def)

end
